(* ===== verification/Prelude.thy ===== *)
theory Prelude
  imports Main "HOL-Library.Word" "HOL-Library.Char_ord"
begin

unbundle bit_operations_syntax

section \<open>Prelude: bytes, files, machine sizes and outcomes\<close>

text \<open>
  The vocabulary the component theories share.  A byte is an \<open>8 word\<close> and a buffer or the
  contents of a file is a list of bytes.  \<open>size_t\<close>, \<open>uint32_t\<close> and \<open>uint64_t\<close> values are natural
  numbers below their bound, and the arithmetic that may leave the bound is written with
  the wrapping operations of this theory.  An operation whose C++ code may run into undefined
  behaviour (a read or write outside a buffer) returns an \<open>outcome\<close>, in which that is a value
  of its own, so that a theorem has to exclude it.
\<close>

type_synonym byte = "8 word"
type_synonym bytes = "byte list"

text \<open>The simplification rules for wrapping arithmetic and for slices of buffers.\<close>

named_theorems wrap_simps "machine arithmetic that stays within its bounds"
named_theorems slice_simps "slices and little-endian fields of buffers"

subsection \<open>Outcomes\<close>

text \<open>
  What a C++ function that may fail does: it returns, it reports an error, or it executes
  something the language leaves undefined.
\<close>

datatype ub = OutOfBoundsRead | OutOfBoundsWrite | IteratorOutOfRange | ShiftOverflow | NullPointer | ConversionOverflow

datatype ('e, 'a) outcome = Done (result: 'a) | Fail 'e | Undefined ub

fun bind_outcome :: "('e, 'a) outcome \<Rightarrow> ('a \<Rightarrow> ('e, 'b) outcome) \<Rightarrow> ('e, 'b) outcome" where
  "bind_outcome (Done x) f = f x"
| "bind_outcome (Fail e) f = Fail e"
| "bind_outcome (Undefined u) f = Undefined u"

definition defined :: "('e, 'a) outcome \<Rightarrow> bool" where
  "defined r \<longleftrightarrow> (case r of Undefined _ \<Rightarrow> False | _ \<Rightarrow> True)"

lemma defined_simps [simp]:
  "defined (Done x)" "defined (Fail e)" "\<not> defined (Undefined u)"
  by (simp_all add: defined_def)

lemma bind_outcome_Done [simp]:
  "bind_outcome r f = Done y \<longleftrightarrow> (\<exists>x. r = Done x \<and> f x = Done y)"
  by (cases r) auto

lemma defined_bind: "defined r \<Longrightarrow> (\<And>x. r = Done x \<Longrightarrow> defined (f x)) \<Longrightarrow> defined (bind_outcome r f)"
  by (cases r) auto

lemma bind_outcome_cong [fundef_cong]:
  "r = r' \<Longrightarrow> (\<And>x. r' = Done x \<Longrightarrow> f x = g x) \<Longrightarrow> bind_outcome r f = bind_outcome r' g"
  by (cases r') auto

subsection \<open>Results\<close>

text \<open>\<open>Result<T>\<close>: an error or a value, and the early return on an error.\<close>

fun bind_result :: "'e + 'a \<Rightarrow> ('a \<Rightarrow> 'e + 'b) \<Rightarrow> 'e + 'b" where
  "bind_result (Inl e) f = Inl e"
| "bind_result (Inr x) f = f x"

lemma bind_result_Inr [simp]: "bind_result r f = Inr y \<longleftrightarrow> (\<exists>x. r = Inr x \<and> f x = Inr y)"
  by (cases r) auto

lemma bind_result_cong [fundef_cong]:
  "r = r' \<Longrightarrow> (\<And>x. r' = Inr x \<Longrightarrow> f x = g x) \<Longrightarrow> bind_result r f = bind_result r' g"
  by (cases r') auto

definition require :: "bool \<Rightarrow> 'e \<Rightarrow> 'e + unit" where
  "require c e = (if c then Inr () else Inl e)"

lemma require_Inr [simp]: "require c e = Inr u \<longleftrightarrow> c"
  by (simp add: require_def)

subsection \<open>Loops\<close>

text \<open>
  A loop whose end depends on code outside the library: its body returns or goes on with a new state,
  and a loop that never returns has the value \<open>None\<close>.
\<close>

datatype ('s, 'r) step = Continue 's | Return 'r

partial_function (option) loop :: "('s \<Rightarrow> ('s, 'r) step) \<Rightarrow> 's \<Rightarrow> 'r option" where
  "loop body s = (case body s of Return r \<Rightarrow> Some r | Continue s \<Rightarrow> loop body s)"

lemma loop_Return: "body s = Return r \<Longrightarrow> loop body s = Some r"
  by (simp add: loop.simps)

lemma loop_Continue: "body s = Continue s' \<Longrightarrow> loop body s = loop body s'"
  by (subst loop.simps) simp

lemma loop_invariant:
  fixes body :: "'s \<Rightarrow> ('s, 'r) step"
  assumes "loop body s = Some r" "I s" "\<And>s s'. I s \<Longrightarrow> body s = Continue s' \<Longrightarrow> I s'"
  shows "\<exists>s'. I s' \<and> body s' = Return r"
proof -
  let ?P = "\<lambda>body (s :: 's) (r :: 'r). I s \<longrightarrow> (\<forall>s s'. I s \<longrightarrow> body s = Continue s' \<longrightarrow> I s') \<longrightarrow> (\<exists>s'. I s' \<and> body s' = Return r)"
  have "?P body s r"
  proof (rule loop.raw_induct [where P = ?P, OF _ assms(1)], intro impI)
    fix lp and body :: "'s \<Rightarrow> ('s, 'r) step" and s r
    assume IH: "\<And>body s r. lp body s = Some r \<Longrightarrow> ?P body s r"
      and eq: "(case body s of Return r \<Rightarrow> Some r | Continue s \<Rightarrow> lp body s) = Some r"
      and I: "I s" "\<forall>s s'. I s \<longrightarrow> body s = Continue s' \<longrightarrow> I s'"
    show "\<exists>s'. I s' \<and> body s' = Return r"
    proof (cases "body s")
      case (Continue s')
      with eq have "lp body s' = Some r" by simp
      moreover have "I s'" using I Continue by blast
      ultimately show ?thesis using IH I(2) by blast
    next
      case (Return r')
      then show ?thesis using eq I by auto
    qed
  qed
  then show ?thesis using assms(2,3) by blast
qed

lemma loop_terminates:
  fixes m :: "'s \<Rightarrow> nat"
  assumes "I s" "\<And>s s'. I s \<Longrightarrow> body s = Continue s' \<Longrightarrow> I s' \<and> m s' < m s"
  shows "\<exists>r. loop body s = Some r"
  using assms(1)
proof (induction "m s" arbitrary: s rule: less_induct)
  case less
  show ?case
  proof (cases "body s")
    case (Continue s')
    have "I s'" "m s' < m s" using assms(2) [OF less.prems Continue] by simp_all
    then obtain r where "loop body s' = Some r" using less.hyps by blast
    then show ?thesis using loop_Continue [of body s s'] Continue by simp
  next
    case (Return r)
    then show ?thesis by (simp add: loop_Return)
  qed
qed

subsection \<open>Operations of objects\<close>

text \<open>
  A member function of an object with state: from the state to an outcome and the state it leaves.
  A failing call keeps the changes it made before it failed.
\<close>

type_synonym ('p, 'e, 'a) action = "'p \<Rightarrow> ('e, 'a) outcome \<times> 'p"

definition act_return :: "'a \<Rightarrow> ('p, 'e, 'a) action" where
  "act_return x = (\<lambda>p. (Done x, p))"

definition act_fail :: "'e \<Rightarrow> ('p, 'e, 'a) action" where
  "act_fail e = (\<lambda>p. (Fail e, p))"

definition act_modify :: "('p \<Rightarrow> 'p) \<Rightarrow> ('p, 'e, unit) action" where
  "act_modify f = (\<lambda>p. (Done (), f p))"

definition act_result :: "'e + 'a \<Rightarrow> ('p, 'e, 'a) action" where
  "act_result r = (\<lambda>p. (case r of Inl e \<Rightarrow> Fail e | Inr x \<Rightarrow> Done x, p))"

definition act_bind :: "('p, 'e, 'a) action \<Rightarrow> ('a \<Rightarrow> ('p, 'e, 'b) action) \<Rightarrow> ('p, 'e, 'b) action" where
  "act_bind m f = (\<lambda>p. case m p of
     (Done x, p') \<Rightarrow> f x p' | (Fail e, p') \<Rightarrow> (Fail e, p') | (Undefined u, p') \<Rightarrow> (Undefined u, p'))"

text \<open>A caller that replaces the error of a callee.\<close>

definition act_error :: "'e \<Rightarrow> ('p, 'e, 'a) action \<Rightarrow> ('p, 'e, 'a) action" where
  "act_error e m = (\<lambda>p. case m p of (Fail _, p') \<Rightarrow> (Fail e, p') | r \<Rightarrow> r)"

lemma act_return_iff [simp]: "act_return x p = (r, p') \<longleftrightarrow> r = Done x \<and> p' = p"
  by (auto simp: act_return_def)

lemma act_fail_iff [simp]: "act_fail e p = (r, p') \<longleftrightarrow> r = Fail e \<and> p' = p"
  by (auto simp: act_fail_def)

lemma act_modify_iff [simp]: "act_modify f p = (r, p') \<longleftrightarrow> r = Done () \<and> p' = f p"
  by (auto simp: act_modify_def)

lemma act_result_Done [simp]: "act_result r p = (Done x, p') \<longleftrightarrow> r = Inr x \<and> p' = p"
  by (auto simp: act_result_def split: sum.splits)

lemma act_result_state: "act_result r p = (q, p') \<Longrightarrow> p' = p"
  by (simp add: act_result_def)

lemma act_bind_Done [simp]:
  "act_bind m f p = (Done y, p'') \<longleftrightarrow> (\<exists>x p'. m p = (Done x, p') \<and> f x p' = (Done y, p''))"
  by (cases "m p") (auto simp: act_bind_def split: outcome.splits)

lemma act_error_Done [simp]: "act_error e m p = (Done x, p') \<longleftrightarrow> m p = (Done x, p')"
  by (cases "m p") (auto simp: act_error_def split: outcome.splits)

text \<open>A property of the state that every part of an operation keeps, and under which it is defined.\<close>

definition act_keeps :: "('p \<Rightarrow> bool) \<Rightarrow> ('p, 'e, 'a) action \<Rightarrow> bool" where
  "act_keeps P m \<longleftrightarrow> (\<forall>p. P p \<longrightarrow> P (snd (m p)) \<and> defined (fst (m p)))"

named_theorems act_keeps_intros "operations that keep a property of the state"

lemma act_keepsD: "act_keeps P m \<Longrightarrow> m p = (r, p') \<Longrightarrow> P p \<Longrightarrow> P p' \<and> defined r"
  by (metis act_keeps_def fst_conv snd_conv)

lemma act_keeps_return [act_keeps_intros]: "act_keeps P (act_return x)"
  by (simp add: act_keeps_def act_return_def)

lemma act_keeps_fail [act_keeps_intros]: "act_keeps P (act_fail e)"
  by (simp add: act_keeps_def act_fail_def)

lemma act_keeps_result [act_keeps_intros]: "act_keeps P (act_result r)"
  by (simp add: act_keeps_def act_result_def split: sum.splits)

lemma act_keeps_modify [act_keeps_intros]: "(\<And>p. P p \<Longrightarrow> P (f p)) \<Longrightarrow> act_keeps P (act_modify f)"
  by (simp add: act_keeps_def act_modify_def)

lemma act_keeps_bind [act_keeps_intros]:
  assumes "act_keeps P m" "\<And>x. act_keeps P (f x)"
  shows "act_keeps P (act_bind m f)"
  unfolding act_keeps_def
proof (intro allI impI)
  fix p assume "P p"
  obtain r p' where m: "m p = (r, p')" by (cases "m p") blast
  have "P p'" "defined r" using act_keepsD [OF assms(1) m \<open>P p\<close>] by simp_all
  then show "P (snd (act_bind m f p)) \<and> defined (fst (act_bind m f p))"
    using assms(2) m by (cases r) (auto simp: act_bind_def act_keeps_def)
qed

lemma act_keeps_error [act_keeps_intros]:
  assumes "act_keeps P m"
  shows "act_keeps P (act_error e m)"
  unfolding act_keeps_def
proof (intro allI impI)
  fix p assume "P p"
  obtain r p' where m: "m p = (r, p')" by (cases "m p") blast
  have "P p'" "defined r" using act_keepsD [OF assms m \<open>P p\<close>] by simp_all
  then show "P (snd (act_error e m p)) \<and> defined (fst (act_error e m p))"
    using m by (cases r) (auto simp: act_error_def)
qed

subsection \<open>Machine sizes\<close>

text \<open>\<open>size_t\<close> has 64 bits on every platform the library is built for.\<close>

abbreviation SIZE_LIMIT :: nat where "SIZE_LIMIT \<equiv> 18446744073709551616"
abbreviation SIZE_MAX :: nat where "SIZE_MAX \<equiv> 18446744073709551615"
abbreviation U32_LIMIT :: nat where "U32_LIMIT \<equiv> 4294967296"
abbreviation UINT32_MAX :: nat where "UINT32_MAX \<equiv> 4294967295"
abbreviation INT32_MAX :: nat where "INT32_MAX \<equiv> 2147483647"

definition sz_add :: "nat \<Rightarrow> nat \<Rightarrow> nat" where
  "sz_add a b = (a + b) mod SIZE_LIMIT"

definition sz_mul :: "nat \<Rightarrow> nat \<Rightarrow> nat" where
  "sz_mul a b = (a * b) mod SIZE_LIMIT"

definition sz_sub :: "nat \<Rightarrow> nat \<Rightarrow> nat" where
  "sz_sub a b = (if b \<le> a then a - b else SIZE_LIMIT + a - b)"

definition u32_add :: "nat \<Rightarrow> nat \<Rightarrow> nat" where
  "u32_add a b = (a + b) mod U32_LIMIT"

definition u32_sub :: "nat \<Rightarrow> nat \<Rightarrow> nat" where
  "u32_sub a b = (if b \<le> a then a - b else U32_LIMIT + a - b)"

lemma sz_add_small [wrap_simps]: "a + b < SIZE_LIMIT \<Longrightarrow> sz_add a b = a + b"
  by (simp add: sz_add_def)

lemma sz_mul_small [wrap_simps]: "a * b < SIZE_LIMIT \<Longrightarrow> sz_mul a b = a * b"
  by (simp add: sz_mul_def)

lemma sz_sub_small [wrap_simps]: "b \<le> a \<Longrightarrow> sz_sub a b = a - b"
  by (simp add: sz_sub_def)

lemma u32_add_small [wrap_simps]: "a + b < U32_LIMIT \<Longrightarrow> u32_add a b = a + b"
  by (simp add: u32_add_def)

lemma u32_sub_small [wrap_simps]: "b \<le> a \<Longrightarrow> u32_sub a b = a - b"
  by (simp add: u32_sub_def)

lemma sz_add_less [simp]: "sz_add a b < SIZE_LIMIT"
  by (simp add: sz_add_def)

lemma sz_mul_less [simp]: "sz_mul a b < SIZE_LIMIT"
  by (simp add: sz_mul_def)

text \<open>\<open>DIV_ROUND_UP\<close> of the EROFS and dm-verity sources, on \<open>size_t\<close>.\<close>

definition div_round_up :: "nat \<Rightarrow> nat \<Rightarrow> nat" where
  "div_round_up n d = sz_add n (sz_sub d 1) div d"

lemma div_round_up_small [wrap_simps]:
  "0 < d \<Longrightarrow> n + d \<le> SIZE_LIMIT \<Longrightarrow> div_round_up n d = (n + (d - 1)) div d"
  by (simp add: div_round_up_def sz_add_def sz_sub_def)

subsection \<open>Buffers and files\<close>

definition slice :: "nat \<Rightarrow> nat \<Rightarrow> 'a list \<Rightarrow> 'a list" where
  "slice off n xs = take n (drop off xs)"

lemma length_slice [slice_simps]: "off + n \<le> length xs \<Longrightarrow> length (slice off n xs) = n"
  by (simp add: slice_def)

lemma length_slice_le: "length (slice off n xs) \<le> n"
  by (simp add: slice_def)

lemma slice_0 [simp]: "slice off 0 xs = []"
  by (simp add: slice_def)

lemma slice_all [simp]: "slice 0 (length xs) xs = xs"
  by (simp add: slice_def)

lemma slice_nth [slice_simps]: "i < n \<Longrightarrow> off + i < length xs \<Longrightarrow> slice off n xs ! i = xs ! (off + i)"
  by (simp add: slice_def)

lemma slice_append: "slice off (m + n) xs = slice off m xs @ slice (off + m) n xs"
  by (simp add: slice_def take_add add.commute)

lemma slice_slice: "i + m \<le> n \<Longrightarrow> slice i m (slice off n xs) = slice (off + i) m xs"
  by (simp add: slice_def drop_take add.commute)

text \<open>
  \<open>pread\<close> on a regular file: the bytes from the offset on that the file has, at most \<open>n\<close> of
  them.  Every caller of the library compares the number of bytes read with the number asked
  for, which is what \<open>pread_full\<close> does.
\<close>

definition pread :: "bytes \<Rightarrow> nat \<Rightarrow> nat \<Rightarrow> bytes" where
  "pread file n off = slice off n file"

definition pread_full :: "bytes \<Rightarrow> nat \<Rightarrow> nat \<Rightarrow> bytes option" where
  "pread_full file n off = (let d = pread file n off in if length d = n then Some d else None)"

lemma pread_full_Some:
  "pread_full file n off = Some d \<longleftrightarrow> length d = n \<and> d = slice off n file"
  by (auto simp: pread_full_def pread_def Let_def)

lemma pread_full_in_range: "off + n \<le> length file \<Longrightarrow> pread_full file n off = Some (slice off n file)"
  by (simp add: pread_full_def pread_def slice_simps)

subsection \<open>Little-endian fields\<close>

definition u8_at :: "bytes \<Rightarrow> nat \<Rightarrow> nat" where
  "u8_at b i = unat (b ! i)"

definition le16_at :: "bytes \<Rightarrow> nat \<Rightarrow> nat" where
  "le16_at b i = u8_at b i + 256 * u8_at b (i + 1)"

definition le32_at :: "bytes \<Rightarrow> nat \<Rightarrow> nat" where
  "le32_at b i = le16_at b i + 65536 * le16_at b (i + 2)"

definition le64_at :: "bytes \<Rightarrow> nat \<Rightarrow> nat" where
  "le64_at b i = le32_at b i + U32_LIMIT * le32_at b (i + 4)"

lemma u8_at_less [simp]: "u8_at b i < 256"
  using unsigned_less [where 'a = nat, of "b ! i"] by (simp add: u8_at_def)

lemma le16_at_less [simp]: "le16_at b i < 65536"
  using u8_at_less [of b i] u8_at_less [of b "i + 1"] unfolding le16_at_def by linarith

lemma le32_at_less [simp]: "le32_at b i < U32_LIMIT"
  using le16_at_less [of b i] le16_at_less [of b "i + 2"] unfolding le32_at_def by linarith

lemma le64_at_less [simp]: "le64_at b i < SIZE_LIMIT"
  using le32_at_less [of b i] le32_at_less [of b "i + 4"] unfolding le64_at_def by linarith

lemmas le_defs = u8_at_def le16_at_def le32_at_def le64_at_def

text \<open>The value of a little-endian field, and the bytes that hold a value.\<close>

fun le_value :: "bytes \<Rightarrow> nat" where
  "le_value [] = 0"
| "le_value (b # bs) = unat b + 256 * le_value bs"

fun le_bytes :: "nat \<Rightarrow> nat \<Rightarrow> bytes" where
  "le_bytes 0 n = []"
| "le_bytes (Suc k) n = word_of_nat n # le_bytes k (n div 256)"

lemma length_le_bytes [simp]: "length (le_bytes k n) = k"
  by (induction k arbitrary: n) auto

lemma le_value_le_bytes: "n < 256 ^ k \<Longrightarrow> le_value (le_bytes k n) = n"
proof (induction k arbitrary: n)
  case (Suc k)
  have "unat (word_of_nat n :: byte) = n mod 256"
    by (simp add: unsigned_of_nat take_bit_eq_mod)
  moreover have "n div 256 < 256 ^ k" using Suc.prems by (simp add: less_mult_imp_div_less mult.commute)
  ultimately show ?case using Suc.IH by simp
qed simp

lemma slice_Suc: "off < length xs \<Longrightarrow> slice off (Suc n) xs = xs ! off # slice (Suc off) n xs"
  by (simp add: slice_def Cons_nth_drop_Suc [symmetric] take_Suc_Cons)

lemma slice_two: "i + 2 \<le> length b \<Longrightarrow> slice i 2 b = [b ! i, b ! (i + 1)]"
  using slice_Suc [of i b 1] slice_Suc [of "Suc i" b 0] by (simp add: numeral_2_eq_2)

lemma slice_four: "i + 4 \<le> length b \<Longrightarrow> slice i 4 b = [b ! i, b ! (i + 1), b ! (i + 2), b ! (i + 3)]"
  using slice_append [of i 2 2 b] slice_two [of i b] slice_two [of "i + 2" b]
  by (auto simp: eval_nat_numeral)

lemma le16_at_value: "i + 2 \<le> length b \<Longrightarrow> le16_at b i = le_value (slice i 2 b)"
  by (simp add: slice_two le16_at_def u8_at_def)

lemma le32_at_value: "i + 4 \<le> length b \<Longrightarrow> le32_at b i = le_value (slice i 4 b)"
  by (simp add: slice_four le16_at_def le32_at_def u8_at_def numeral_3_eq_3)

lemma le_value_append: "le_value (xs @ ys) = le_value xs + 256 ^ length xs * le_value ys"
  by (induction xs) (auto simp: algebra_simps)

lemma le64_at_value:
  assumes "i + 8 \<le> length b"
  shows "le64_at b i = le_value (slice i 8 b)"
proof -
  have "slice i 8 b = slice i 4 b @ slice (i + 4) 4 b" using slice_append [of i 4 4 b] by simp
  with assms show ?thesis
    by (simp add: le64_at_def le32_at_value le_value_append length_slice)
qed

text \<open>A buffer as a concatenation of parts: how a slice selects one of them.\<close>

lemma slice_skip [simp]: "length xs \<le> off \<Longrightarrow> slice off n (xs @ ys) = slice (off - length xs) n ys"
  by (simp add: slice_def)

lemma slice_head [simp]: "off + n \<le> length xs \<Longrightarrow> slice off n (xs @ ys) = slice off n xs"
  by (simp add: slice_def)

lemma slice_exact [simp]: "n = length xs \<Longrightarrow> slice 0 n xs = xs"
  by simp

subsection \<open>Strings as bytes\<close>

definition to_string :: "bytes \<Rightarrow> string" where
  "to_string bs = map (\<lambda>b. char_of (unat b)) bs"

definition of_string :: "string \<Rightarrow> bytes" where
  "of_string s = map (\<lambda>c. word_of_nat (of_char c)) s"

lemma length_of_string [simp]: "length (of_string s) = length s"
  by (simp add: of_string_def)

lemma to_string_of_string [simp]: "to_string (of_string s) = s"
proof -
  have "char_of (unat (word_of_nat (of_char c) :: byte)) = c" for c :: char
    by (simp add: unsigned_of_nat take_bit_eq_mod)
  then show ?thesis by (simp add: to_string_def of_string_def comp_def)
qed

subsection \<open>Characters of the C locale\<close>

definition is_digit :: "char \<Rightarrow> bool" where
  "is_digit c \<longleftrightarrow> CHR ''0'' \<le> c \<and> c \<le> CHR ''9''"

definition is_alpha :: "char \<Rightarrow> bool" where
  "is_alpha c \<longleftrightarrow> (CHR ''a'' \<le> c \<and> c \<le> CHR ''z'') \<or> (CHR ''A'' \<le> c \<and> c \<le> CHR ''Z'')"

definition is_alnum :: "char \<Rightarrow> bool" where
  "is_alnum c \<longleftrightarrow> is_alpha c \<or> is_digit c"

definition is_xdigit :: "char \<Rightarrow> bool" where
  "is_xdigit c \<longleftrightarrow> is_digit c \<or> (CHR ''a'' \<le> c \<and> c \<le> CHR ''f'') \<or> (CHR ''A'' \<le> c \<and> c \<le> CHR ''F'')"

definition is_space :: "char \<Rightarrow> bool" where
  "is_space c \<longleftrightarrow> c = CHR '' '' \<or> (CHR 0x09 \<le> c \<and> c \<le> CHR 0x0D)"

text \<open>The value of an ASCII digit, as \<open>strtoul\<close> computes it.\<close>

definition digit_val :: "char \<Rightarrow> nat" where
  "digit_val c = of_char c - 48"

definition digit_char :: "nat \<Rightarrow> char" where
  "digit_char d = ''0123456789'' ! d"

end
