(* ===== verification/Version.thy ===== *)
theory Version
  imports Prelude
begin

section \<open>Version numbers\<close>

text \<open>
  The class \<open>VersionNumber\<close> of \<open>lib/core/VersionNumber.cpp\<close>: a count of fields and an array of
  four unsigned 32-bit fields, its constructors, its increment, its parser and printer and its
  comparison.  The comparison makes the versions a linear preorder (\<open>1\<close> and \<open>1.0\<close> are different
  values that compare equal), which the instantiation of \<open>preorder\<close> states with the class's own
  operators.
\<close>

subsection \<open>Data and constructors\<close>

datatype version =
  Version (m_fieldsCount: nat) (m_field0: nat) (m_field1: nat) (m_field2: nat) (m_field3: nat)

definition m_fields :: "version \<Rightarrow> nat list" where
  "m_fields v = [m_field0 v, m_field1 v, m_field2 v, m_field3 v]"

fun with_fields :: "version \<Rightarrow> nat list \<Rightarrow> version" where
  "with_fields v [a, b, c, d] = Version (m_fieldsCount v) a b c d"
| "with_fields v _ = v"

definition version0 :: version where "version0 = Version 1 0 0 0 0"
definition version1 :: "nat \<Rightarrow> version" where "version1 a = Version 1 a 0 0 0"
definition version2 :: "nat \<Rightarrow> nat \<Rightarrow> version" where "version2 a b = Version 2 a b 0 0"
definition version3 :: "nat \<Rightarrow> nat \<Rightarrow> nat \<Rightarrow> version" where "version3 a b c = Version 3 a b c 0"
definition version4 :: "nat \<Rightarrow> nat \<Rightarrow> nat \<Rightarrow> nat \<Rightarrow> version" where "version4 a b c d = Version 4 a b c d"

lemmas version_ctors = version0_def version1_def version2_def version3_def version4_def

abbreviation kMaxFields :: nat where "kMaxFields \<equiv> 4"

definition fieldCount :: "version \<Rightarrow> nat" where
  "fieldCount v = m_fieldsCount v"

definition fieldValue :: "version \<Rightarrow> nat \<Rightarrow> nat" where
  "fieldValue v i = (if i < kMaxFields then m_fields v ! i else 0)"

text \<open>The values the class can hold: one to four fields in use, the others zero.\<close>

definition version_wf :: "version \<Rightarrow> bool" where
  "version_wf v \<longleftrightarrow> 1 \<le> m_fieldsCount v \<and> m_fieldsCount v \<le> kMaxFields \<and>
     (\<forall>f \<in> set (m_fields v). f < U32_LIMIT) \<and> (\<forall>f \<in> set (drop (m_fieldsCount v) (m_fields v)). f = 0)"

lemma length_m_fields [simp]: "length (m_fields v) = 4"
  by (simp add: m_fields_def)

lemma length_4D: "length fs = 4 \<Longrightarrow> \<exists>a b c d. fs = [a, b, c, d]"
  by (auto simp add: length_Suc_conv eval_nat_numeral)

lemma with_fields_m_fields [simp]:
  "length fs = 4 \<Longrightarrow> m_fields (with_fields v fs) = fs"
  "length fs = 4 \<Longrightarrow> m_fieldsCount (with_fields v fs) = m_fieldsCount v"
  by (auto simp: m_fields_def dest!: length_4D)

lemma version_eq_iff: "v = w \<longleftrightarrow> m_fieldsCount v = m_fieldsCount w \<and> m_fields v = m_fields w"
  by (cases v; cases w) (auto simp: m_fields_def)

subsection \<open>Increment\<close>

fun incr_from :: "nat \<Rightarrow> nat list \<Rightarrow> nat list" where
  "incr_from 0 fs = fs"
| "incr_from (Suc i) fs =
     (if fs ! i < UINT32_MAX then fs[i := fs ! i + 1] else incr_from i (fs[i := 0]))"

definition increment :: "version \<Rightarrow> version" where
  "increment v = (if m_fieldsCount v = 0 then v else with_fields v (incr_from (m_fieldsCount v) (m_fields v)))"

lemma length_incr_from [simp]: "length (incr_from n fs) = length fs"
  by (induction n fs rule: incr_from.induct) auto

lemma increment_sel [simp]:
  "m_fieldsCount (increment v) = m_fieldsCount v"
  "m_fields (increment v) = (if m_fieldsCount v = 0 then m_fields v else incr_from (m_fieldsCount v) (m_fields v))"
  by (simp_all add: increment_def)

subsection \<open>Comparison\<close>

fun first_diff :: "nat list \<Rightarrow> nat list \<Rightarrow> int option" where
  "first_diff (x # xs) (y # ys) =
     (if x < y then Some (- 1) else if x > y then Some 1 else first_diff xs ys)"
| "first_diff _ _ = None"

definition compare :: "version \<Rightarrow> version \<Rightarrow> int" where
  "compare lhs rhs =
     (let n = min (m_fieldsCount lhs) (m_fieldsCount rhs) in
      case first_diff (take n (m_fields lhs)) (take n (m_fields rhs)) of
        Some r \<Rightarrow> r
      | None \<Rightarrow>
          if m_fieldsCount lhs > n then
            (if list_ex (\<lambda>f. f \<noteq> 0) (slice n (m_fieldsCount lhs - n) (m_fields lhs)) then 1 else 0)
          else if m_fieldsCount rhs > n then
            (if list_ex (\<lambda>f. f \<noteq> 0) (slice n (m_fieldsCount rhs - n) (m_fields rhs)) then - 1 else 0)
          else 0)"

text \<open>The reference: the four fields, with zeros for the unused ones, in lexicographic order.\<close>

definition padded :: "version \<Rightarrow> nat list" where
  "padded v = map (\<lambda>i. if i < m_fieldsCount v then m_fields v ! i else 0) [0..<4]"

fun lex_cmp :: "nat list \<Rightarrow> nat list \<Rightarrow> int" where
  "lex_cmp (x # xs) (y # ys) = (if x < y then - 1 else if x > y then 1 else lex_cmp xs ys)"
| "lex_cmp _ _ = 0"

lemma lex_cmp_refl [simp]: "lex_cmp xs xs = 0"
  by (induction xs) auto

lemma lex_cmp_swap: "lex_cmp xs ys = - lex_cmp ys xs"
  by (induction xs ys rule: lex_cmp.induct) auto

lemma lex_cmp_trans:
  "length xs = length ys \<Longrightarrow> length ys = length zs \<Longrightarrow> lex_cmp xs ys \<le> 0 \<Longrightarrow> lex_cmp ys zs \<le> 0 \<Longrightarrow> lex_cmp xs zs \<le> 0"
  by (induction xs ys zs rule: list_induct3) (auto split: if_splits)

lemma lex_cmp_eq_0: "length xs = length ys \<Longrightarrow> lex_cmp xs ys = 0 \<longleftrightarrow> xs = ys"
  by (induction xs ys rule: lex_cmp.induct) auto

lemma lex_cmp_values: "lex_cmp xs ys \<in> {- 1, 0, 1}"
  by (induction xs ys rule: lex_cmp.induct) auto

lemma length_padded [simp]: "length (padded v) = 4"
  by (simp add: padded_def)

lemma nat_le_4_cases: "(n::nat) = 0 \<or> n = 1 \<or> n = 2 \<or> n = 3 \<or> 4 \<le> n"
  by arith

lemma upt_0_4: "[0..<4] = [0, 1, 2, 3::nat]"
  by (simp add: upt_rec)

lemma padded_Version:
  "padded (Version n a b c d) =
     [if 0 < n then a else 0, if 1 < n then b else 0, if 2 < n then c else 0, if 3 < n then d else 0]"
  by (simp add: padded_def m_fields_def upt_0_4)

lemma take_upto_4:
  "take n [a, b, c, d] =
     (if n = 0 then [] else if n = 1 then [a] else if n = 2 then [a, b] else if n = 3 then [a, b, c] else [a, b, c, d])"
  by (auto simp: take_Cons' )

lemma drop_upto_4:
  "drop n [a, b, c, d] =
     (if n = 0 then [a, b, c, d] else if n = 1 then [b, c, d] else if n = 2 then [c, d] else if n = 3 then [d] else [])"
  by (auto simp: drop_Cons')

lemma compare_lex_cmp: "compare v w = lex_cmp (padded v) (padded w)"
proof (cases v; cases w)
  fix n a b c d m a' b' c' d'
  assume v: "v = Version n a b c d" and w: "w = Version m a' b' c' d'"
  show ?thesis
    using nat_le_4_cases [of n] nat_le_4_cases [of m] unfolding v w
    by (elim disjE)
      (simp_all add: compare_def padded_Version m_fields_def slice_def take_upto_4 drop_upto_4 Let_def min_def)
qed

lemma compare_refl [simp]: "compare v v = 0"
  by (simp add: compare_lex_cmp)

lemma compare_swap: "compare v w = - compare w v"
  unfolding compare_lex_cmp by (rule lex_cmp_swap)

lemma compare_trans: "compare u v \<le> 0 \<Longrightarrow> compare v w \<le> 0 \<Longrightarrow> compare u w \<le> 0"
  unfolding compare_lex_cmp by (rule lex_cmp_trans) simp_all

text \<open>
  The operators \<open><=\<close> and \<open><\<close> of the class are the type's order in the model, so that the
  library's order reasoning applies to versions.
\<close>

definition version_le :: "version \<Rightarrow> version \<Rightarrow> bool" where
  "version_le v w \<longleftrightarrow> compare v w \<le> 0"

definition version_less :: "version \<Rightarrow> version \<Rightarrow> bool" where
  "version_less v w \<longleftrightarrow> compare v w < 0"

instantiation version :: preorder
begin

definition less_eq_version :: "version \<Rightarrow> version \<Rightarrow> bool" where
  "less_eq_version = version_le"

definition less_version :: "version \<Rightarrow> version \<Rightarrow> bool" where
  "less_version = version_less"

lemma version_le_compare: "v \<le> w \<longleftrightarrow> compare v w \<le> 0"
  by (simp add: less_eq_version_def version_le_def)

lemma version_less_compare: "v < w \<longleftrightarrow> compare v w < 0"
  by (simp add: less_version_def version_less_def)

instance
proof
  fix u v w :: version
  show "(v < w) = (v \<le> w \<and> \<not> w \<le> v)"
    using compare_swap [of v w] by (auto simp: version_le_compare version_less_compare)
  show "v \<le> v"
    by (simp add: version_le_compare)
  show "u \<le> v \<Longrightarrow> v \<le> w \<Longrightarrow> u \<le> w"
    unfolding version_le_compare by (rule compare_trans)
qed

end

text \<open>The operators \<open>==\<close> and \<open>!=\<close>, which are not equality of the representation.\<close>

definition version_eq :: "version \<Rightarrow> version \<Rightarrow> bool" where
  "version_eq v w \<longleftrightarrow> compare v w = 0"

definition version_neq :: "version \<Rightarrow> version \<Rightarrow> bool" where
  "version_neq v w \<longleftrightarrow> compare v w \<noteq> 0"

lemma version_linear: "v \<le> w \<or> w \<le> (v::version)"
  using compare_swap [of v w] by (auto simp: version_le_compare)

lemma version_not_le: "\<not> v \<le> w \<longleftrightarrow> w < (v::version)"
  using compare_swap [of v w] by (auto simp: version_le_compare version_less_compare)

lemma version_not_less: "\<not> v < w \<longleftrightarrow> w \<le> (v::version)"
  using compare_swap [of v w] by (auto simp: version_le_compare version_less_compare)

lemma version_eq_iff_le: "version_eq v w \<longleftrightarrow> v \<le> w \<and> w \<le> v"
  using compare_swap [of v w] by (auto simp: version_le_compare version_eq_def)

lemma version_eq_padded: "version_eq v w \<longleftrightarrow> padded v = padded w"
  by (simp add: version_eq_def compare_lex_cmp lex_cmp_eq_0)

text \<open>
   C35. The comparison, which scans the common fields and then the surplus ones, orders the
  versions as the lexicographic order of their four fields does, missing fields counting as
  zero.
\<close>

theorem compare_is_lexicographic: "compare v w = lex_cmp (padded v) (padded w)"
  by (rule compare_lex_cmp)

subsection \<open>The increment orders after its argument\<close>

definition all_max :: "version \<Rightarrow> bool" where
  "all_max v \<longleftrightarrow> (\<forall>f \<in> set (take (m_fieldsCount v) (m_fields v)). \<not> f < UINT32_MAX)"

lemma incr_from_Suc:
  "0 < n \<Longrightarrow> incr_from n fs =
     (if fs ! (n - 1) < UINT32_MAX then fs[n - 1 := fs ! (n - 1) + 1] else incr_from (n - 1) (fs[n - 1 := 0]))"
  by (cases n) simp_all

lemmas incr_from_numeral = incr_from_Suc [of "numeral k" for k, simplified]

lemma increment_Version:
  "increment (Version 1 a b c d) = (if a < UINT32_MAX then Version 1 (a + 1) b c d else Version 1 0 b c d)"
  "increment (Version 2 a b c d) =
     (if b < UINT32_MAX then Version 2 a (b + 1) c d
      else if a < UINT32_MAX then Version 2 (a + 1) 0 c d else Version 2 0 0 c d)"
  "increment (Version 3 a b c d) =
     (if c < UINT32_MAX then Version 3 a b (c + 1) d
      else if b < UINT32_MAX then Version 3 a (b + 1) 0 d
      else if a < UINT32_MAX then Version 3 (a + 1) 0 0 d else Version 3 0 0 0 d)"
  "increment (Version 4 a b c d) =
     (if d < UINT32_MAX then Version 4 a b c (d + 1)
      else if c < UINT32_MAX then Version 4 a b (c + 1) 0
      else if b < UINT32_MAX then Version 4 a (b + 1) 0 0
      else if a < UINT32_MAX then Version 4 (a + 1) 0 0 0 else Version 4 0 0 0 0)"
  "increment (Version (Suc 0) a b c d) = (if a < UINT32_MAX then Version 1 (a + 1) b c d else Version 1 0 b c d)"
  by (simp_all add: increment_def m_fields_def incr_from_numeral)

lemma version_wf_cases:
  assumes "version_wf v"
  obtains a where "v = version1 a" "a < U32_LIMIT"
  | a b where "v = version2 a b" "a < U32_LIMIT" "b < U32_LIMIT"
  | a b c where "v = version3 a b c" "a < U32_LIMIT" "b < U32_LIMIT" "c < U32_LIMIT"
  | a b c d where "v = version4 a b c d" "a < U32_LIMIT" "b < U32_LIMIT" "c < U32_LIMIT" "d < U32_LIMIT"
proof (cases v)
  case (Version n a b c d)
  then have "n = 1 \<or> n = 2 \<or> n = 3 \<or> n = 4" and "1 \<le> n" "n \<le> 4"
    using assms by (auto simp: version_wf_def)
  then show ?thesis
    using assms that unfolding Version
    by (elim disjE) (auto simp: version_wf_def m_fields_def version_ctors drop_upto_4)
qed

lemma version_wf_ctors [simp]:
  "version_wf version0"
  "version_wf (version1 a) \<longleftrightarrow> a < U32_LIMIT"
  "version_wf (version2 a b) \<longleftrightarrow> a < U32_LIMIT \<and> b < U32_LIMIT"
  "version_wf (version3 a b c) \<longleftrightarrow> a < U32_LIMIT \<and> b < U32_LIMIT \<and> c < U32_LIMIT"
  "version_wf (version4 a b c d) \<longleftrightarrow> a < U32_LIMIT \<and> b < U32_LIMIT \<and> c < U32_LIMIT \<and> d < U32_LIMIT"
  by (auto simp: version_wf_def m_fields_def version_ctors drop_upto_4)

lemma increment_wf: "version_wf v \<Longrightarrow> version_wf (increment v)"
  by (erule version_wf_cases)
    (auto simp: version_ctors increment_Version version_wf_def m_fields_def drop_upto_4)

lemma less_version_padded: "v < w \<longleftrightarrow> lex_cmp (padded v) (padded w) < 0"
  by (simp add: version_less_compare compare_lex_cmp)

lemma increment_greater: "version_wf v \<Longrightarrow> \<not> all_max v \<Longrightarrow> v < increment v"
  by (erule version_wf_cases)
    (auto simp: version_ctors increment_Version less_version_padded padded_Version all_max_def
      m_fields_def take_upto_4)

lemma increment_wraps: "version_wf v \<Longrightarrow> all_max v \<Longrightarrow> version_eq (increment v) version0"
  by (erule version_wf_cases)
    (auto simp: version_ctors increment_Version version_eq_padded padded_Version all_max_def
      m_fields_def take_upto_4)

text \<open>
   \<open>operator++\<close> keeps the object well formed; it gives a greater version, except that it wraps
  to zero when every field in use is at its maximum.
\<close>

theorem increment_correct:
  assumes "version_wf v"
  shows "version_wf (increment v) \<and>
    (if all_max v then version_eq (increment v) version0 else v < increment v)"
  using assms by (auto intro: increment_wf increment_greater increment_wraps)

theorem increment_correct_witness:
  "version_wf (version3 1 2 4294967295) \<and>
   version_wf (increment (version3 1 2 4294967295)) \<and>
   increment (version3 1 2 4294967295) = version3 1 3 0 \<and> version3 1 2 4294967295 < version3 1 3 0"
proof -
  have wf: "version_wf (version3 1 2 4294967295)" by simp
  have inc: "increment (version3 1 2 4294967295) = version3 1 3 0"
    by (simp add: version3_def increment_Version)
  have "\<not> all_max (version3 1 2 4294967295)"
    by (simp add: all_max_def version3_def m_fields_def)
  then show ?thesis
    using increment_correct [OF wf] wf unfolding inc by simp
qed


subsection \<open>Parsing and printing\<close>

text \<open>
  \<open>fromString\<close> scans the characters with a list of finished fields (\<open>fieldIndex\<close> is its length) and
  the segment under construction.  \<open>strtoul\<close> saturates, whereas \<open>std::stoul\<close>, which reads the last
  segment, throws \<open>std::out_of_range\<close>, a result of its own here.  The value it returns is stored
  in an \<open>unsigned\<close>, so it is reduced modulo \<open>2 ^ 32\<close>.
\<close>

datatype version_error =
  VersionNumberTooManyFields | VersionNumberInvalidCharacter | VersionNumberTooLong
  | VersionNumberEmpty | StdOutOfRange

fun digits_val :: "nat \<Rightarrow> string \<Rightarrow> nat" where
  "digits_val n [] = n"
| "digits_val n (c # cs) = digits_val (10 * n + digit_val c) cs"

definition strtoul :: "string \<Rightarrow> nat" where
  "strtoul s = min (digits_val 0 s) SIZE_MAX"

fun scan :: "nat list \<Rightarrow> string \<Rightarrow> string \<Rightarrow> version_error + nat list \<times> string" where
  "scan fields segment [] = Inr (fields, segment)"
| "scan fields segment (ch # cs) =
     (if ch = CHR ''.'' then
        if length fields \<ge> kMaxFields then Inl VersionNumberTooManyFields
        else if length segment = 0 then Inl VersionNumberInvalidCharacter
        else if length segment > 1 \<and> hd segment = CHR ''0'' then Inl VersionNumberInvalidCharacter
        else if strtoul segment \<ge> UINT32_MAX then Inl VersionNumberInvalidCharacter
        else scan (fields @ [strtoul segment]) [] cs
      else if is_digit ch then
        if length segment \<ge> 30 then Inl VersionNumberTooLong
        else scan fields (segment @ [ch]) cs
      else Inl VersionNumberInvalidCharacter)"

definition last_segment :: "nat list \<Rightarrow> string \<Rightarrow> version_error + nat list" where
  "last_segment fields segment =
     (if length segment > 0 then
        if length fields \<ge> kMaxFields then Inl VersionNumberTooManyFields
        else if length segment > 1 \<and> hd segment = CHR ''0'' then Inl VersionNumberInvalidCharacter
        else if digits_val 0 segment > SIZE_MAX then Inl StdOutOfRange
        else Inr (fields @ [digits_val 0 segment mod U32_LIMIT])
      else Inr fields)"

definition version_of_fields :: "nat list \<Rightarrow> version_error + version" where
  "version_of_fields fields =
     (case fields of
        [a] \<Rightarrow> Inr (version1 a)
      | [a, b] \<Rightarrow> Inr (version2 a b)
      | [a, b, c] \<Rightarrow> Inr (version3 a b c)
      | [a, b, c, d] \<Rightarrow> Inr (version4 a b c d)
      | _ \<Rightarrow> Inl VersionNumberEmpty)"

definition version_fromString :: "string \<Rightarrow> version_error + version" where
  "version_fromString str =
     (case scan [] [] str of
        Inl e \<Rightarrow> Inl e
      | Inr (fields, segment) \<Rightarrow>
          (case last_segment fields segment of Inl e \<Rightarrow> Inl e | Inr fields' \<Rightarrow> version_of_fields fields'))"

text \<open>The conversion \<open>%u\<close> of \<open>snprintf\<close>.\<close>

fun show_nat :: "nat \<Rightarrow> string" where
  "show_nat n = (if n < 10 then [digit_char n] else show_nat (n div 10) @ [digit_char (n mod 10)])"

declare show_nat.simps [simp del]

fun join_dots :: "string list \<Rightarrow> string" where
  "join_dots [] = []"
| "join_dots [s] = s"
| "join_dots (s # ss) = s @ CHR ''.'' # join_dots ss"

definition version_toString :: "version \<Rightarrow> string" where
  "version_toString v =
     (if m_fieldsCount v = 1 then show_nat (m_field0 v)
      else if m_fieldsCount v = 2 then join_dots [show_nat (m_field0 v), show_nat (m_field1 v)]
      else if m_fieldsCount v = 3 then
        join_dots [show_nat (m_field0 v), show_nat (m_field1 v), show_nat (m_field2 v)]
      else if m_fieldsCount v = 4 then
        join_dots [show_nat (m_field0 v), show_nat (m_field1 v), show_nat (m_field2 v), show_nat (m_field3 v)]
      else [])"

subsection \<open>Facts on decimal numerals\<close>

lemma less_10_cases: "(d::nat) < 10 \<Longrightarrow> d \<in> {0, 1, 2, 3, 4, 5, 6, 7, 8, 9}"
  by auto

lemma digit_char [simp]:
  assumes "d < 10"
  shows "is_digit (digit_char d)" "digit_val (digit_char d) = d" "digit_char d \<noteq> CHR ''.''"
    "digit_char d = CHR ''0'' \<longleftrightarrow> d = 0"
proof -
  have "is_digit (digit_char d) \<and> digit_val (digit_char d) = d \<and> digit_char d \<noteq> CHR ''.'' \<and>
      (digit_char d = CHR ''0'' \<longleftrightarrow> d = 0)"
    using less_10_cases [OF assms]
    by (elim insertE) (simp_all add: digit_char_def is_digit_def digit_val_def)
  then show "is_digit (digit_char d)" "digit_val (digit_char d) = d" "digit_char d \<noteq> CHR ''.''"
    "digit_char d = CHR ''0'' \<longleftrightarrow> d = 0" by simp_all
qed

lemma dot_not_digit [simp]: "\<not> is_digit (CHR ''.'')"
  by (simp add: is_digit_def)

lemma digits_val_append: "digits_val n (s @ t) = digits_val (digits_val n s) t"
  by (induction n s rule: digits_val.induct) auto

lemma show_nat_digits: "\<forall>c \<in> set (show_nat n). is_digit c"
  by (induction n rule: show_nat.induct) (subst show_nat.simps, auto)

lemma show_nat_nonempty [simp]: "show_nat n \<noteq> []"
  by (subst show_nat.simps) simp

lemma digits_val_show_nat [simp]: "digits_val 0 (show_nat n) = n"
  by (induction n rule: show_nat.induct) (subst show_nat.simps, auto simp: digits_val_append)

lemma hd_show_nat: "hd (show_nat n) = CHR ''0'' \<longleftrightarrow> n = 0"
proof (induction n rule: show_nat.induct)
  case (1 n)
  then show ?case by (subst show_nat.simps) (auto simp: hd_append)
qed

lemma length_show_nat: "n < 10 ^ k \<Longrightarrow> 0 < k \<Longrightarrow> length (show_nat n) \<le> k"
proof (induction n arbitrary: k rule: show_nat.induct)
  case (1 n)
  show ?case
  proof (cases "n < 10")
    case True
    with "1.prems" show ?thesis by (subst show_nat.simps) simp
  next
    case False
    with "1.prems" obtain k' where k: "k = Suc k'" "0 < k'"
      by (cases k; cases "k - 1") auto
    with "1.prems" False have "n div 10 < 10 ^ k'" by auto
    then have "length (show_nat (n div 10)) \<le> k'"
      using "1.IH" [OF False] k by simp
    with False k show ?thesis by (subst show_nat.simps) simp
  qed
qed

lemma length_show_u32: "n < U32_LIMIT \<Longrightarrow> length (show_nat n) \<le> 10"
  by (rule length_show_nat) simp_all

lemma show_nat_leading_zero: "1 < length (show_nat n) \<Longrightarrow> hd (show_nat n) \<noteq> CHR ''0''"
  using show_nat.simps [of 0] by (cases "n = 0") (auto simp: hd_show_nat)


subsection \<open>Parsing what was printed\<close>

lemma scan_digits:
  "\<forall>c \<in> set ds. is_digit c \<Longrightarrow> length seg + length ds \<le> 30 \<Longrightarrow> scan fs seg (ds @ rest) = scan fs (seg @ ds) rest"
proof (induction ds arbitrary: seg)
  case (Cons c ds)
  then show ?case using dot_not_digit by auto
qed simp

lemma scan_show_nat:
  "n < U32_LIMIT \<Longrightarrow> scan fs [] (show_nat n @ rest) = scan fs (show_nat n) rest"
  using scan_digits [of "show_nat n" "[]" fs rest] show_nat_digits [of n] length_show_u32 [of n] by simp

lemma strtoul_show_nat: "n < U32_LIMIT \<Longrightarrow> strtoul (show_nat n) = n"
  by (simp add: strtoul_def)

lemma scan_field:
  assumes "n < UINT32_MAX" "length fs < 4"
  shows "scan fs [] (show_nat n @ CHR ''.'' # rest) = scan (fs @ [n]) [] rest"
proof -
  have n: "n < U32_LIMIT" using assms(1) by simp
  show ?thesis
    using assms show_nat_leading_zero [of n]
    by (auto simp add: scan_show_nat [OF n] strtoul_show_nat [OF n])
qed

lemma scan_last: "n < U32_LIMIT \<Longrightarrow> scan fs [] (show_nat n) = Inr (fs, show_nat n)"
  using scan_show_nat [of n fs "[]"] by simp

lemma last_segment_show_nat:
  "n < U32_LIMIT \<Longrightarrow> length fs < 4 \<Longrightarrow> last_segment fs (show_nat n) = Inr (fs @ [n])"
  using show_nat_leading_zero [of n] by (simp add: last_segment_def)

definition printable :: "version \<Rightarrow> bool" where
  "printable v \<longleftrightarrow> version_wf v \<and> (\<forall>f \<in> set (take (m_fieldsCount v - 1) (m_fields v)). f < UINT32_MAX)"

lemma version_reparse: "printable v \<Longrightarrow> version_fromString (version_toString v) = Inr v"
  unfolding printable_def
  by (elim conjE, erule version_wf_cases)
    (simp_all add: version_ctors version_toString_def version_fromString_def version_of_fields_def
      m_fields_def take_upto_4 scan_field scan_last last_segment_show_nat)

text \<open>
   Printing a well-formed version and parsing the text gives the same version back, provided
  no field but the last is \<open>UINT32_MAX\<close>, a value the parser refuses everywhere except in the last
  field.
\<close>

theorem version_print_parse: "printable v \<Longrightarrow> version_fromString (version_toString v) = Inr v"
  by (rule version_reparse)

theorem version_print_parse_witness:
  "printable (version4 1 20 0 4294967295) \<and>
   version_fromString (version_toString (version4 1 20 0 4294967295)) = Inr (version4 1 20 0 4294967295)"
proof -
  have p: "printable (version4 1 20 0 4294967295)"
    by (simp add: printable_def version4_def version_wf_def m_fields_def)
  show ?thesis using p version_print_parse [OF p] by simp
qed

subsection \<open>What the parser accepts\<close>

lemma scan_fields:
  "scan fs seg str = Inr (fs', seg') \<Longrightarrow> length fs \<le> 4 \<Longrightarrow> \<forall>f \<in> set fs. f < UINT32_MAX \<Longrightarrow>
   \<forall>c \<in> set seg. is_digit c \<Longrightarrow>
   length fs' \<le> 4 \<and> (\<forall>f \<in> set fs'. f < UINT32_MAX) \<and> (\<forall>c \<in> set seg'. is_digit c)"
  by (induction fs seg str rule: scan.induct) (auto split: if_splits)

lemma last_segment_fields:
  "last_segment fs seg = Inr fs' \<Longrightarrow> length fs \<le> 4 \<Longrightarrow> \<forall>f \<in> set fs. f < U32_LIMIT \<Longrightarrow>
   length fs' \<le> 4 \<and> (\<forall>f \<in> set fs'. f < U32_LIMIT)"
  by (auto simp: last_segment_def split: if_splits)

lemma version_of_fields_wf:
  "version_of_fields fs = Inr v \<Longrightarrow> \<forall>f \<in> set fs. f < U32_LIMIT \<Longrightarrow> version_wf v"
  by (auto simp: version_of_fields_def split: list.splits)

text \<open> Every version the parser returns is well formed.\<close>

theorem version_fromString_wf:
  assumes "version_fromString str = Inr v"
  shows "version_wf v"
proof -
  obtain fs seg fs' where scan: "scan [] [] str = Inr (fs, seg)"
      and last: "last_segment fs seg = Inr fs'" and v: "version_of_fields fs' = Inr v"
    using assms by (auto simp: version_fromString_def split: sum.splits)
  from scan_fields [OF scan] have "length fs \<le> 4" "\<forall>f \<in> set fs. f < U32_LIMIT"
    by (auto intro: less_trans)
  from last_segment_fields [OF last this] have "\<forall>f \<in> set fs'. f < U32_LIMIT" by simp
  with v show ?thesis by (rule version_of_fields_wf)
qed

theorem version_fromString_wf_witness:
  "version_fromString ''10.12.'' = Inr (version2 10 12) \<and> version_wf (version2 10 12)"
proof -
  have p: "version_fromString ''10.12.'' = Inr (version2 10 12)"
    by (simp add: version_fromString_def is_digit_def strtoul_def digit_val_def last_segment_def
        version_of_fields_def)
  show ?thesis using p version_fromString_wf [OF p] by simp
qed

text \<open>
   The last field is not range-checked: a text of digits that is one number is accepted up to
  the largest \<open>unsigned long\<close>, and the field it yields is the number modulo \<open>2 ^ 32\<close>.  The same
  digits followed by a dot are refused.
\<close>

theorem version_last_field_truncated:
  assumes "\<forall>c \<in> set ds. is_digit c" "0 < length ds" "length ds \<le> 30" "length ds = 1 \<or> hd ds \<noteq> CHR ''0''"
    and "digits_val 0 ds \<le> SIZE_MAX"
  shows "version_fromString ds = Inr (version1 (digits_val 0 ds mod U32_LIMIT)) \<and>
    (UINT32_MAX \<le> digits_val 0 ds \<longrightarrow> version_fromString (ds @ ''.'') = Inl VersionNumberInvalidCharacter)"
proof -
  have scan: "scan [] [] ds = Inr ([], ds)" "scan [] [] (ds @ ''.'') = scan [] ds ''.''"
    using scan_digits [of ds "[]" "[]" "[]"] scan_digits [of ds "[]" "[]" "''.''"] assms by simp_all
  show ?thesis
    using assms by (auto simp: version_fromString_def scan last_segment_def version_of_fields_def strtoul_def)
qed

theorem version_last_field_truncated_witness:
  "version_fromString ''4294967298'' = Inr (version1 2) \<and>
   version_fromString ''4294967298.'' = Inl VersionNumberInvalidCharacter"
  using version_last_field_truncated [of "''4294967298''"]
  by (simp add: is_digit_def digit_val_def)

end
