(* ===== verification/VersionRange.thy ===== *)
theory VersionRange
  imports Version
begin

section \<open>Version constraints\<close>

text \<open>
  The class \<open>VersionConstraint\<close> of \<open>lib/core/VersionConstraint.cpp\<close>: a list of comparisons that a
  version has to pass, its parser, its printer and its check.  The two regular expressions of the
  parser are deterministic (the classes of characters that may follow each other are disjoint),
  so each is a function that splits the text.
\<close>

datatype constraint_type = GreaterThan | GreaterThanOrEqual | LessThan | LessThanOrEqual | Equal

datatype constraint = Constraint (ctype: constraint_type) (cversion: version)

type_synonym version_constraint = "constraint list"

datatype constraint_error = VersionConstraintInvalid | VersionError version_error

subsection \<open>Checking a version\<close>

fun violates :: "version \<Rightarrow> constraint \<Rightarrow> bool" where
  "violates w (Constraint GreaterThan v) = (w \<le> v)"
| "violates w (Constraint GreaterThanOrEqual v) = (w < v)"
| "violates w (Constraint LessThan v) = (v \<le> w)"
| "violates w (Constraint LessThanOrEqual v) = (v < w)"
| "violates w (Constraint Equal v) = version_neq w v"

fun isSatisfiedBy :: "version_constraint \<Rightarrow> version \<Rightarrow> bool" where
  "isSatisfiedBy [] w = True"
| "isSatisfiedBy (c # cs) w = (if violates w c then False else isSatisfiedBy cs w)"

subsection \<open>Parsing\<close>

definition blank :: "char \<Rightarrow> bool" where
  "blank c \<longleftrightarrow> c = CHR '' '' \<or> c = CHR 0x09"

definition trim :: "string \<Rightarrow> string" where
  "trim s = rev (dropWhile blank (rev (dropWhile blank s)))"

text \<open>The class \<open>[\d\.]\<close> of the regular expressions.\<close>

definition version_char :: "char \<Rightarrow> bool" where
  "version_char c \<longleftrightarrow> is_digit c \<or> c = CHR ''.''"

definition match_versions :: "string \<Rightarrow> string option" where
  "match_versions s = (if s \<noteq> [] \<and> list_all version_char s then Some s else None)"

definition match_range :: "string \<Rightarrow> (string \<times> string) option" where
  "match_range s =
     (let v1 = takeWhile version_char s; r1 = dropWhile is_space (dropWhile version_char s) in
      if v1 = [] then None
      else case r1 of
        [] \<Rightarrow> None
      | c # r2 \<Rightarrow>
          if c \<noteq> CHR ''-'' then None
          else map_option (\<lambda>v2. (v1, v2)) (match_versions (dropWhile is_space r2)))"

fun split_operator :: "string \<Rightarrow> string \<times> string" where
  "split_operator (c # d # cs) =
     (if c = CHR ''>'' \<and> d = CHR ''='' then (''>='', cs)
      else if c = CHR ''<'' \<and> d = CHR ''='' then (''<='', cs)
      else if c \<in> set ''><=^~'' then ([c], d # cs) else ([], c # d # cs))"
| "split_operator (c # cs) = (if c \<in> set ''><=^~'' then ([c], cs) else ([], c # cs))"
| "split_operator [] = ([], [])"

definition match_pattern :: "string \<Rightarrow> (string \<times> string) option" where
  "match_pattern s =
     (let (operator, r) = split_operator s in
      map_option (\<lambda>v. (operator, v)) (match_versions (dropWhile is_space r)))"

definition constraints_for :: "string \<Rightarrow> version \<Rightarrow> version_constraint" where
  "constraints_for operator version =
     (if operator = ''>'' then [Constraint GreaterThan version]
      else if operator = ''>='' then [Constraint GreaterThanOrEqual version]
      else if operator = ''<'' then [Constraint LessThan version]
      else if operator = ''<='' then [Constraint LessThanOrEqual version]
      else if operator = ''='' then [Constraint Equal version]
      else if operator = ''~'' then
        [Constraint GreaterThanOrEqual version,
         Constraint LessThan (version2 (fieldValue version 0) (u32_add (fieldValue version 1) 1))]
      else if operator = ''^'' then
        [Constraint GreaterThanOrEqual version,
         Constraint LessThan (version1 (u32_add (fieldValue version 0) 1))]
      else
        [Constraint GreaterThanOrEqual version, Constraint LessThan (increment version)])"

definition range_constraints :: "version \<Rightarrow> version \<Rightarrow> version_constraint" where
  "range_constraints minVersion maxVersion =
     [Constraint GreaterThanOrEqual minVersion,
      if fieldCount maxVersion < kMaxFields then Constraint LessThan (increment maxVersion)
      else Constraint LessThanOrEqual maxVersion]"

definition constraint_fromString :: "string \<Rightarrow> constraint_error + version_constraint" where
  "constraint_fromString str =
     (let trimmedStr = trim str in
      if trimmedStr = [] \<or> trimmedStr = ''*'' then Inr []
      else case match_range trimmedStr of
        Some (s1, s2) \<Rightarrow>
          (case (version_fromString s1, version_fromString s2) of
             (Inr minVersion, Inr maxVersion) \<Rightarrow>
               if maxVersion < minVersion then Inl VersionConstraintInvalid
               else Inr (range_constraints minVersion maxVersion)
           | _ \<Rightarrow> Inl VersionConstraintInvalid)
      | None \<Rightarrow>
          (case match_pattern trimmedStr of
             Some (operator, s) \<Rightarrow>
               (case version_fromString s of
                  Inl e \<Rightarrow> Inl (VersionError e)
                | Inr version \<Rightarrow> Inr (constraints_for operator version))
           | None \<Rightarrow> Inl VersionConstraintInvalid))"

subsection \<open>Printing\<close>

fun operator_of :: "constraint_type \<Rightarrow> string" where
  "operator_of GreaterThan = ''>''"
| "operator_of GreaterThanOrEqual = ''>=''"
| "operator_of LessThan = ''<''"
| "operator_of LessThanOrEqual = ''<=''"
| "operator_of Equal = ''=''"

definition constraint_toString :: "version_constraint \<Rightarrow> string" where
  "constraint_toString cs =
     (case cs of
        [] \<Rightarrow> ''*''
      | [c] \<Rightarrow> operator_of (ctype c) @ version_toString (cversion c)
      | c # d # _ \<Rightarrow> version_toString (cversion c) @ '' - '' @ version_toString (cversion d))"

subsection \<open>Facts on the text functions\<close>

lemma version_char_facts [simp]:
  "\<not> version_char (CHR '' '')" "\<not> version_char (CHR ''-'')" "version_char (CHR ''.'')"
  "is_space (CHR '' '')" "\<not> is_space (CHR ''-'')" "blank (CHR '' '')"
  "\<not> blank (CHR ''>'')" "\<not> blank (CHR ''<'')" "\<not> blank (CHR ''='')" "\<not> blank (CHR ''~'')" "\<not> blank (CHR ''^'')"
  "\<not> version_char (CHR ''>'')" "\<not> version_char (CHR ''<'')" "\<not> version_char (CHR ''='')"
  "\<not> version_char (CHR ''~'')" "\<not> version_char (CHR ''^'')" "\<not> version_char (CHR ''*'')"
  by (simp_all add: version_char_def is_space_def is_digit_def blank_def)

lemma version_char_not_blank: "version_char c \<Longrightarrow> \<not> blank c"
  by (auto simp: version_char_def blank_def is_digit_def)

lemma version_char_not_space: "version_char c \<Longrightarrow> \<not> is_space c"
  using order_trans [of "CHR ''0''" c "CHR 0x0D"] by (auto simp: version_char_def is_space_def is_digit_def)

lemma version_char_not_operator: "version_char c \<Longrightarrow> c \<notin> set ''><=^~''"
  by (auto simp: version_char_def is_digit_def)

definition version_text :: "string \<Rightarrow> bool" where
  "version_text s \<longleftrightarrow> s \<noteq> [] \<and> list_all version_char s"

lemma version_text_Cons: "version_text s \<Longrightarrow> \<exists>c cs. s = c # cs \<and> version_char c"
  by (cases s) (auto simp: version_text_def)

lemma version_text_last: "version_text s \<Longrightarrow> \<exists>c cs. s = cs @ [c] \<and> version_char c"
  by (cases s rule: rev_cases) (auto simp: version_text_def)

lemma match_versions_text: "version_text s \<Longrightarrow> match_versions s = Some s"
  by (simp add: match_versions_def version_text_def)

lemma dropWhile_space_text: "version_text s \<Longrightarrow> dropWhile is_space s = s"
  using version_text_Cons [of s] version_char_not_space by auto

lemma trim_id:
  assumes "version_text s" and "\<forall>c cs. r = c # cs \<longrightarrow> \<not> blank c"
  shows "trim (r @ s) = r @ s"
proof -
  obtain c cs where c: "s = cs @ [c]" "version_char c" using version_text_last assms(1) by blast
  obtain d ds where d: "s = d # ds" "version_char d" using version_text_Cons assms(1) by blast
  have "dropWhile blank (r @ s) = r @ s"
    using assms(2) d version_char_not_blank by (cases r) auto
  moreover have "dropWhile blank (rev (r @ s)) = rev (r @ s)"
    using c version_char_not_blank by simp
  ultimately show ?thesis by (simp add: trim_def)
qed

lemma takeWhile_version_text: "version_text s \<Longrightarrow> takeWhile version_char s = s"
  by (simp add: version_text_def list_all_iff takeWhile_eq_all_conv)

lemma match_range_None:
  "version_text s \<Longrightarrow> match_range s = None"
  by (simp add: match_range_def Let_def version_text_def list_all_iff dropWhile_eq_Nil_conv [THEN iffD2])

lemma match_range_operator: "\<not> version_char c \<Longrightarrow> match_range (c # s) = None"
  by (simp add: match_range_def Let_def)

lemma split_operator_text:
  assumes "version_text s"
  shows "split_operator s = ([], s)"
proof -
  obtain c cs where c: "s = c # cs" "version_char c" using version_text_Cons assms by blast
  have "c \<notin> set ''><=^~''" using c(2) by (rule version_char_not_operator)
  then show ?thesis unfolding c(1) by (cases cs) auto
qed

lemma split_operator_op:
  assumes s: "version_text s" and r: "r \<in> {''>'', ''>='', ''<'', ''<='', ''='', ''~'', ''^''}"
  shows "split_operator (r @ s) = (r, s)"
proof -
  obtain c cs where c: "s = c # cs" "version_char c" using version_text_Cons s by blast
  have "c \<noteq> CHR ''=''" using c(2) by (auto simp: version_char_def is_digit_def)
  then show ?thesis using r unfolding c(1) by (elim insertE emptyE) simp_all
qed

text \<open>The operators the parser knows; the empty one stands for a bare version.\<close>

definition operators :: "string list" where
  "operators = [''>'', ''>='', ''<'', ''<='', ''='', ''~'', ''^'', '''']"

lemma constraint_fromString_operator:
  assumes s: "version_text s" and r: "r \<in> set operators" and v: "version_fromString s = Inr v"
  shows "constraint_fromString (r @ s) = Inr (constraints_for r v)"
proof -
  have trim: "trim (r @ s) = r @ s"
    using r by (intro trim_id [OF s]) (auto simp: operators_def)
  have range: "match_range (r @ s) = None"
    using r match_range_None [OF s] by (auto simp: operators_def match_range_operator)
  have split: "split_operator (r @ s) = (r, s)"
    using r split_operator_op [OF s, of r] split_operator_text [OF s] by (auto simp: operators_def)
  have "match_pattern (r @ s) = Some (r, s)"
    by (simp add: match_pattern_def split dropWhile_space_text [OF s] match_versions_text [OF s])
  moreover have "r @ s \<noteq> ''*''"
    using version_text_Cons [OF s] r by (auto simp: operators_def Cons_eq_append_conv)
  ultimately show ?thesis
    using s by (simp add: constraint_fromString_def trim range v version_text_def Let_def)
qed


subsection \<open>What the constraints mean\<close>

text \<open>
  The meaning of each operator, over the four padded fields: \<open>~\<close> keeps the first two fields and \<open>^\<close>
  the first one, as \<open>VersionConstraint.h\<close> documents.  The last case is a version without an operator:
  the code keeps the fields it names, while the header documents an exact match.
\<close>

definition operator_meaning :: "string \<Rightarrow> version \<Rightarrow> version \<Rightarrow> bool" where
  "operator_meaning r v w \<longleftrightarrow>
     (if r = ''>'' then v < w
      else if r = ''>='' then v \<le> w
      else if r = ''<'' then w < v
      else if r = ''<='' then w \<le> v
      else if r = ''='' then version_eq w v
      else if r = ''~'' then v \<le> w \<and> take 2 (padded w) = take 2 (padded v)
      else if r = ''^'' then v \<le> w \<and> take 1 (padded w) = take 1 (padded v)
      else take (fieldCount v) (padded w) = take (fieldCount v) (padded v))"

text \<open>The fields the parser increments are below their maximum.\<close>

definition incrementable :: "version \<Rightarrow> bool" where
  "incrementable v \<longleftrightarrow> fieldValue v 0 < UINT32_MAX \<and> fieldValue v 1 < UINT32_MAX \<and>
     fieldValue v (fieldCount v - 1) < UINT32_MAX"

lemma padded_4: "\<exists>a b c d. padded w = [a, b, c, d]"
  by (rule length_4D) simp

lemma le_version_padded: "v \<le> w \<longleftrightarrow> lex_cmp (padded v) (padded w) \<le> 0"
  by (simp add: version_le_compare compare_lex_cmp)

lemma tilde_meaning:
  assumes "version_wf v" "fieldValue v 1 < UINT32_MAX"
  shows "v \<le> w \<and> w < version2 (fieldValue v 0) (u32_add (fieldValue v 1) 1) \<longleftrightarrow>
    v \<le> w \<and> take 2 (padded w) = take 2 (padded v)"
  using padded_4 [of w] assms
  by (elim exE version_wf_cases)
    (auto simp: version_ctors fieldValue_def m_fields_def padded_Version le_version_padded less_version_padded
      wrap_simps split: if_splits)

lemma caret_meaning:
  assumes "version_wf v" "fieldValue v 0 < UINT32_MAX"
  shows "v \<le> w \<and> w < version1 (u32_add (fieldValue v 0) 1) \<longleftrightarrow>
    v \<le> w \<and> take 1 (padded w) = take 1 (padded v)"
  using padded_4 [of w] assms
  by (elim exE version_wf_cases)
    (auto simp: version_ctors fieldValue_def m_fields_def padded_Version le_version_padded less_version_padded
      wrap_simps split: if_splits)

lemma bare_meaning:
  assumes "version_wf v" "fieldValue v (fieldCount v - 1) < UINT32_MAX"
  shows "v \<le> w \<and> w < increment v \<longleftrightarrow> take (fieldCount v) (padded w) = take (fieldCount v) (padded v)"
  using padded_4 [of w] assms
  by (elim exE version_wf_cases)
    (auto simp: version_ctors fieldValue_def fieldCount_def m_fields_def padded_Version le_version_padded
      less_version_padded increment_Version split: if_splits)

lemma isSatisfiedBy_pair:
  "isSatisfiedBy [Constraint GreaterThanOrEqual v, Constraint LessThan u] w \<longleftrightarrow> v \<le> w \<and> w < u"
  using version_not_less [of w v] version_not_le [of u w] by auto

lemma isSatisfiedBy_single:
  "isSatisfiedBy [Constraint GreaterThan v] w \<longleftrightarrow> v < w"
  "isSatisfiedBy [Constraint GreaterThanOrEqual v] w \<longleftrightarrow> v \<le> w"
  "isSatisfiedBy [Constraint LessThan v] w \<longleftrightarrow> w < v"
  "isSatisfiedBy [Constraint LessThanOrEqual v] w \<longleftrightarrow> w \<le> v"
  "isSatisfiedBy [Constraint Equal v] w \<longleftrightarrow> version_eq w v"
  by (simp_all add: version_not_less version_not_le version_eq_def version_neq_def)

lemma isSatisfiedBy_constraints_for:
  assumes v: "version_wf v" "incrementable v" and r: "r \<in> set operators"
  shows "isSatisfiedBy (constraints_for r v) w \<longleftrightarrow> operator_meaning r v w"
proof -
  note meaning = tilde_meaning [OF v(1), of w] caret_meaning [OF v(1), of w] bare_meaning [OF v(1), of w]
  have inc: "fieldValue v 0 < UINT32_MAX" "fieldValue v 1 < UINT32_MAX" "fieldValue v (fieldCount v - 1) < UINT32_MAX"
    using v(2) by (simp_all add: incrementable_def)
  from r have "r = ''>'' \<or> r = ''>='' \<or> r = ''<'' \<or> r = ''<='' \<or> r = ''='' \<or> r = ''~'' \<or> r = ''^'' \<or> r = []"
    by (simp add: operators_def)
  then show ?thesis
    by (elim disjE)
      (simp_all add: constraints_for_def operator_meaning_def isSatisfiedBy_pair isSatisfiedBy_single
        meaning inc del: isSatisfiedBy.simps One_nat_def)
qed

lemma constraint_operator:
  assumes "version_text s" "version_fromString s = Inr v" "incrementable v" "r \<in> set operators"
  shows "\<exists>cs. constraint_fromString (r @ s) = Inr cs \<and> (\<forall>w. isSatisfiedBy cs w \<longleftrightarrow> operator_meaning r v w)"
  using constraint_fromString_operator [OF assms(1,4,2)]
    isSatisfiedBy_constraints_for [OF version_fromString_wf [OF assms(2)] assms(3,4)] by blast

text \<open>
  C36. A constraint written as one of the seven operators directly followed by a version, none of whose fields
  that the parser increments is at its maximum, accepts exactly the versions that \<open>VersionConstraint.h\<close> says: for
  \<open>~\<close> the versions from the given one on with the same first two fields, for \<open>^\<close> those with the same first field.
\<close>

theorem constraint_operator_meaning:
  assumes "version_text s" "version_fromString s = Inr v" "incrementable v"
    and "r \<in> {''>'', ''>='', ''<'', ''<='', ''='', ''~'', ''^''}"
  shows "\<exists>cs. constraint_fromString (r @ s) = Inr cs \<and> (\<forall>w. isSatisfiedBy cs w \<longleftrightarrow> operator_meaning r v w)"
  by (rule constraint_operator [OF assms(1-3)]) (use assms(4) in \<open>auto simp: operators_def\<close>)

lemma sample_version:
  "version_text ''1.12''" "version_fromString ''1.12'' = Inr (version2 1 12)" "incrementable (version2 1 12)"
  by (simp_all add: version_text_def version_char_def version_fromString_def is_digit_def strtoul_def digit_val_def
      last_segment_def version_of_fields_def incrementable_def version2_def fieldValue_def fieldCount_def m_fields_def)

theorem constraint_operator_meaning_witness:
  "\<exists>cs. constraint_fromString ''^1.12'' = Inr cs \<and> isSatisfiedBy cs (version3 1 12 9) \<and>
     isSatisfiedBy cs (version2 1 13) \<and> \<not> isSatisfiedBy cs (version2 1 11) \<and> \<not> isSatisfiedBy cs (version2 2 0)"
proof -
  obtain cs where cs: "constraint_fromString ''^1.12'' = Inr cs"
      "\<And>w. isSatisfiedBy cs w \<longleftrightarrow> operator_meaning ''^'' (version2 1 12) w"
    using constraint_operator_meaning [OF sample_version, of "''^''"] by auto
  then show ?thesis
    by (intro exI [of _ cs])
      (simp add: operator_meaning_def version_ctors padded_Version fieldCount_def le_version_padded)
qed

text \<open>
  A version without an operator accepts every version that agrees with it in the fields it names: \<open>1.12\<close>
  also accepts \<open>1.12.9\<close>.
\<close>

theorem bare_version_accepts_refinements:
  "\<exists>cs. constraint_fromString ''1.12'' = Inr cs \<and> isSatisfiedBy cs (version3 1 12 9) \<and>
     \<not> isSatisfiedBy cs (version2 1 13)"
proof -
  have "[] \<in> set operators" by (simp add: operators_def)
  from constraint_operator [OF sample_version this] obtain cs where
    "constraint_fromString ''1.12'' = Inr cs" "\<And>w. isSatisfiedBy cs w \<longleftrightarrow> operator_meaning [] (version2 1 12) w" by auto
  then show ?thesis
    by (intro exI [of _ cs])
      (simp add: operator_meaning_def version_ctors padded_Version fieldCount_def)
qed

text \<open>A range keeps both ends, the upper one with every version that only refines it.\<close>

definition range_meaning :: "version \<Rightarrow> version \<Rightarrow> version \<Rightarrow> bool" where
  "range_meaning lo hi w \<longleftrightarrow>
     lo \<le> w \<and> (w \<le> hi \<or> take (fieldCount hi) (padded w) = take (fieldCount hi) (padded hi))"

lemma range_upper:
  assumes "version_wf hi" "fieldValue hi (fieldCount hi - 1) < UINT32_MAX"
  shows "w < increment hi \<longleftrightarrow> w \<le> hi \<or> take (fieldCount hi) (padded w) = take (fieldCount hi) (padded hi)"
proof -
  have "\<not> all_max hi"
    using assms by (elim version_wf_cases)
      (auto simp: all_max_def version_ctors m_fields_def fieldValue_def fieldCount_def)
  then have less: "hi < increment hi" by (rule increment_greater [OF assms(1)])
  show ?thesis
    using bare_meaning [OF assms, of w] less version_not_le [of hi w]
    by (metis less_le_not_le order_trans)
qed

lemma range_upper_full:
  assumes "version_wf hi" "\<not> fieldCount hi < 4"
  shows "w \<le> hi \<longleftrightarrow> w \<le> hi \<or> take (fieldCount hi) (padded w) = take (fieldCount hi) (padded hi)"
  using assms by (auto simp: fieldCount_def le_version_padded version_wf_def)

lemma range_constraints_meaning:
  assumes "version_wf hi" "fieldValue hi (fieldCount hi - 1) < UINT32_MAX"
  shows "isSatisfiedBy (range_constraints lo hi) w \<longleftrightarrow> range_meaning lo hi w"
proof (cases "fieldCount hi < 4")
  case True
  then show ?thesis
    using range_upper [OF assms, of w]
    by (simp add: range_constraints_def range_meaning_def isSatisfiedBy_pair del: isSatisfiedBy.simps)
next
  case False
  then show ?thesis
    using range_upper_full [OF assms(1) False, of w]
    by (simp add: range_constraints_def range_meaning_def version_not_less version_not_le)
qed

lemma match_range_texts:
  assumes "version_text s" "version_text t"
  shows "match_range (s @ '' - '' @ t) = Some (s, t)"
proof -
  have "takeWhile version_char (s @ '' - '' @ t) = s" "dropWhile version_char (s @ '' - '' @ t) = '' - '' @ t"
    using assms(1) by (simp_all add: version_text_def list_all_iff takeWhile_append dropWhile_append)
  then show ?thesis
    using assms by (simp add: match_range_def version_text_def dropWhile_space_text match_versions_text)
qed

lemma constraint_fromString_range:
  assumes s: "version_text s" "version_fromString s = Inr lo" and t: "version_text t" "version_fromString t = Inr hi"
  shows "constraint_fromString (s @ '' - '' @ t) =
    (if hi < lo then Inl VersionConstraintInvalid else Inr (range_constraints lo hi))"
proof -
  have head: "\<forall>c cs. s @ '' - '' = c # cs \<longrightarrow> \<not> blank c"
    using version_text_Cons [OF s(1)] version_char_not_blank by auto
  have trim: "trim (s @ '' - '' @ t) = s @ '' - '' @ t"
    using trim_id [OF t(1) head] by simp
  have "s @ '' - '' @ t \<noteq> []" "s @ '' - '' @ t \<noteq> ''*''"
    using version_text_Cons [OF s(1)] by auto
  then show ?thesis
    unfolding constraint_fromString_def trim Let_def match_range_texts [OF s(1) t(1)]
    by (simp add: s(2) t(2))
qed

text \<open>
   The text of a range \<open>lo - hi\<close> is refused when \<open>hi\<close> orders before \<open>lo\<close>; otherwise it accepts the
  versions from \<open>lo\<close> up to \<open>hi\<close> and the refinements of \<open>hi\<close>.
\<close>

theorem constraint_range_meaning:
  assumes "version_text s" "version_fromString s = Inr lo" "version_text t" "version_fromString t = Inr hi"
    and "fieldValue hi (fieldCount hi - 1) < UINT32_MAX"
  shows "if hi < lo then constraint_fromString (s @ '' - '' @ t) = Inl VersionConstraintInvalid
    else \<exists>cs. constraint_fromString (s @ '' - '' @ t) = Inr cs \<and> (\<forall>w. isSatisfiedBy cs w \<longleftrightarrow> range_meaning lo hi w)"
  unfolding constraint_fromString_range [OF assms(1-4)]
  using range_constraints_meaning [OF version_fromString_wf [OF assms(4)] assms(5)] by simp

theorem constraint_range_meaning_witness:
  "\<exists>cs. constraint_fromString ''1.12 - 3'' = Inr cs \<and> isSatisfiedBy cs (version3 3 9 9) \<and> \<not> isSatisfiedBy cs (version1 4)"
proof -
  have vt: "version_text ''1.12''" "version_text ''3''"
    by (simp_all add: version_text_def version_char_def is_digit_def)
  have parse: "version_fromString ''1.12'' = Inr (version2 1 12)" "version_fromString ''3'' = Inr (version1 3)"
    by (simp_all add: version_fromString_def is_digit_def strtoul_def digit_val_def last_segment_def
        version_of_fields_def)
  have "fieldValue (version1 3) (fieldCount (version1 3) - 1) < UINT32_MAX" "\<not> version1 3 < version2 1 12"
    by (simp_all add: fieldValue_def fieldCount_def version_ctors m_fields_def less_version_padded padded_Version)
  then obtain cs where cs: "constraint_fromString (''1.12'' @ '' - '' @ ''3'') = Inr cs"
      "\<And>w. isSatisfiedBy cs w \<longleftrightarrow> range_meaning (version2 1 12) (version1 3) w"
    using constraint_range_meaning [OF vt(1) parse(1) vt(2) parse(2)] by auto
  then show ?thesis
    by (intro exI [of _ cs])
      (simp add: range_meaning_def version_ctors padded_Version fieldCount_def le_version_padded)
qed

subsection \<open>Printing and parsing constraints\<close>

lemma show_nat_version_char: "list_all version_char (show_nat n)"
  using show_nat_digits [of n] by (auto simp: list_all_iff version_char_def)

lemma version_toString_text:
  assumes "version_wf v"
  shows "version_text (version_toString v)"
  using assms by (elim version_wf_cases)
    (simp_all add: version_ctors version_toString_def version_text_def show_nat_version_char)

text \<open>
   A constraint with one comparison survives printing and parsing.
\<close>

theorem constraint_print_parse:
  assumes "printable v"
  shows "constraint_fromString (constraint_toString [Constraint t v]) = Inr [Constraint t v]"
proof -
  have wf: "version_wf v" using assms by (simp add: printable_def)
  have r: "operator_of t \<in> set operators" by (cases t) (simp_all add: operators_def)
  have "constraints_for (operator_of t) v = [Constraint t v]"
    by (cases t) (simp_all add: constraints_for_def)
  then show ?thesis
    using constraint_fromString_operator [OF version_toString_text [OF wf] r version_reparse [OF assms]]
    by (simp add: constraint_toString_def)
qed

text \<open>
   A constraint with two comparisons does not survive it: the printer loses that the upper end
  is excluded, so \<open>~1.12.4\<close> is printed as \<open>1.12.4 - 1.13\<close>, which accepts \<open>1.13.5\<close>.
\<close>

theorem constraint_reprint_widens:
  "\<exists>cs cs'. constraint_fromString ''~1.12.4'' = Inr cs \<and> constraint_toString cs = ''1.12.4 - 1.13'' \<and>
     constraint_fromString ''1.12.4 - 1.13'' = Inr cs' \<and>
     \<not> isSatisfiedBy cs (version3 1 13 5) \<and> isSatisfiedBy cs' (version3 1 13 5)"
proof -
  have vt: "version_text ''1.12.4''" "version_text ''1.13''"
    by (simp_all add: version_text_def version_char_def is_digit_def)
  have parse: "version_fromString ''1.12.4'' = Inr (version3 1 12 4)" "version_fromString ''1.13'' = Inr (version2 1 13)"
    by (simp_all add: version_fromString_def is_digit_def strtoul_def digit_val_def last_segment_def
        version_of_fields_def)
  have "''~'' \<in> set operators" by (simp add: operators_def)
  from constraint_fromString_operator [OF vt(1) this parse(1)]
  have cs: "constraint_fromString ''~1.12.4'' =
      Inr [Constraint GreaterThanOrEqual (version3 1 12 4), Constraint LessThan (version2 1 13)]"
    by (simp add: constraints_for_def fieldValue_def version_ctors m_fields_def u32_add_def)
  have "\<not> version2 1 13 < version3 1 12 4"
    by (simp add: version_ctors less_version_padded padded_Version)
  with constraint_fromString_range [OF vt(1) parse(1) vt(2) parse(2)]
  have cs': "constraint_fromString ''1.12.4 - 1.13'' = Inr (range_constraints (version3 1 12 4) (version2 1 13))"
    by simp
  show ?thesis
    unfolding cs cs'
    by (simp add: constraint_toString_def version_toString_def version_ctors show_nat.simps digit_char_def
        range_constraints_def fieldCount_def increment_Version less_version_padded
        le_version_padded padded_Version)
qed

lemma constraint_print_parse_witness:
  "constraint_fromString (constraint_toString [Constraint LessThan (version3 1 2 3)]) =
     Inr [Constraint LessThan (version3 1 2 3)]"
  by (rule constraint_print_parse) (simp add: printable_def version_ctors version_wf_def m_fields_def)

end
