(* ===== verification/PackageChecks.thy ===== *)
theory PackageChecks
  imports Prelude
begin

section \<open>Checks on package ids, paths and existing files\<close>

text \<open>
  The helper functions of \<open>lib/core/Utils.cpp\<close> and \<open>lib/core/Utils.h\<close>: \<open>verifyPackageId\<close>,
  \<open>verifyPackagePath\<close>, the conversions between POSIX modes and \<open>std::filesystem::perms\<close>, and
  \<open>checkExtraction\<close>, which decides what happens to a file that is already there.  The part of
  \<open>std::filesystem::path\<close> they use (iteration over the components, lexical normalisation) is
  modelled first.
\<close>

subsection \<open>Package ids\<close>

fun id_scan :: "char \<Rightarrow> string \<Rightarrow> char option" where
  "id_scan prev [] = Some prev"
| "id_scan prev (ch # cs) =
     (if ch = CHR ''.'' then (if prev = CHR ''.'' then None else id_scan ch cs)
      else if \<not> is_alnum ch \<and> ch \<noteq> CHR ''-'' \<and> ch \<noteq> CHR ''_'' then None
      else id_scan ch cs)"

definition verifyPackageId :: "string \<Rightarrow> bool" where
  "verifyPackageId str =
     (case str of
        [] \<Rightarrow> False
      | ch # cs \<Rightarrow>
          if length str > 256 then False
          else if \<not> is_alnum ch then False
          else (case id_scan ch cs of None \<Rightarrow> False | Some l \<Rightarrow> is_alnum l))"

definition id_char :: "char \<Rightarrow> bool" where
  "id_char c \<longleftrightarrow> is_alnum c \<or> c \<in> set ''.-_''"

text \<open>The rules for a package id that \<open>lib/core/Utils.h\<close> lists.\<close>

definition no_double_dot :: "string \<Rightarrow> bool" where
  "no_double_dot str \<longleftrightarrow> successively (\<lambda>c d. \<not> (c = CHR ''.'' \<and> d = CHR ''.'')) str"

definition id_rules :: "string \<Rightarrow> bool" where
  "id_rules str \<longleftrightarrow> str \<noteq> [] \<and> length str \<le> 256 \<and> list_all id_char str \<and>
     is_alnum (hd str) \<and> is_alnum (last str) \<and> no_double_dot str"

lemma dot_not_alnum [simp]: "\<not> is_alnum (CHR ''.'')"
  by (simp add: is_alnum_def is_alpha_def is_digit_def)

lemma id_scan_Some:
  "id_scan prev cs = Some l \<longleftrightarrow> l = last (prev # cs) \<and> list_all id_char cs \<and> no_double_dot (prev # cs)"
  unfolding no_double_dot_def
  by (induction prev cs rule: id_scan.induct) (auto simp: id_char_def)

text \<open> \<open>verifyPackageId\<close> accepts exactly the ids that follow the documented rules.\<close>

theorem verifyPackageId_rules: "verifyPackageId str \<longleftrightarrow> id_rules str"
proof (cases str)
  case (Cons c cs)
  have c: "is_alnum c \<Longrightarrow> id_char c" by (simp add: id_char_def)
  show ?thesis
  proof (cases "id_scan c cs")
    case None
    then have "\<not> (list_all id_char cs \<and> no_double_dot (c # cs))"
      using id_scan_Some [of c cs "last (c # cs)"] by auto
    then show ?thesis by (auto simp: Cons verifyPackageId_def id_rules_def None)
  next
    case (Some l)
    then show ?thesis
      using id_scan_Some [of c cs l] c by (auto simp: Cons verifyPackageId_def id_rules_def)
  qed
qed (simp add: verifyPackageId_def id_rules_def)

subsection \<open>Paths\<close>

text \<open>
  A \<open>std::filesystem::path\<close>: whether it has a root directory, its names, and whether the last name
  is followed by a separator (then the iteration ends with an empty component).
\<close>

record path =
  p_absolute :: bool
  p_names :: "string list"
  p_trailing :: bool

fun split_path :: "string \<Rightarrow> string \<Rightarrow> string list" where
  "split_path acc [] = (if acc = [] then [] else [acc])"
| "split_path acc (c # cs) =
     (if c = CHR ''/'' then (if acc = [] then split_path [] cs else acc # split_path [] cs)
      else split_path (acc @ [c]) cs)"

definition path_of_string :: "string \<Rightarrow> path" where
  "path_of_string s =
     (let ns = split_path [] s in
      \<lparr>p_absolute = (s \<noteq> [] \<and> hd s = CHR ''/''), p_names = ns,
       p_trailing = (ns \<noteq> [] \<and> last s = CHR ''/'')\<rparr>)"

definition path_parts :: "path \<Rightarrow> string list" where
  "path_parts p = (if p_absolute p then [''/''] else []) @ p_names p @ (if p_trailing p then [''''] else [])"

definition path_empty :: "path \<Rightarrow> bool" where
  "path_empty p \<longleftrightarrow> \<not> p_absolute p \<and> p_names p = []"

definition has_filename :: "path \<Rightarrow> bool" where
  "has_filename p \<longleftrightarrow> p_names p \<noteq> [] \<and> \<not> p_trailing p"

definition parent_path :: "path \<Rightarrow> path" where
  "parent_path p =
     (if p_trailing p then p\<lparr>p_trailing := False\<rparr> else p\<lparr>p_names := butlast (p_names p)\<rparr>)"

definition has_parent_path :: "path \<Rightarrow> bool" where
  "has_parent_path p \<longleftrightarrow> \<not> path_empty (parent_path p)"

text \<open>
  \<open>lexically_normal\<close>: a name followed by \<open>..\<close> is dropped, \<open>.\<close> is dropped, a \<open>..\<close> that nothing
  precedes stays unless it follows the root directory.
\<close>

fun normal_names :: "bool \<Rightarrow> string list \<Rightarrow> string list \<Rightarrow> string list" where
  "normal_names ab acc [] = rev acc"
| "normal_names ab acc (n # ns) =
     (if n = ''.'' then normal_names ab acc ns
      else if n = ''..'' then
        (if acc \<noteq> [] \<and> hd acc \<noteq> ''..'' then normal_names ab (tl acc) ns
         else if ab then normal_names ab acc ns
         else normal_names ab (n # acc) ns)
      else normal_names ab (n # acc) ns)"

definition lexically_normal :: "path \<Rightarrow> path" where
  "lexically_normal p =
     (if path_empty p then p
      else let ns = normal_names (p_absolute p) [] (p_names p) in
        if ns = [] \<and> \<not> p_absolute p then p\<lparr>p_names := [''.''], p_trailing := False\<rparr>
        else p\<lparr>p_names := ns,
          p_trailing := (ns \<noteq> [] \<and> last ns \<noteq> ''..'' \<and>
            (p_trailing p \<or> last (p_names p) = ''.'' \<or> last (p_names p) = ''..''))\<rparr>)"

text \<open>\<open>operator/\<close> of a path and a relative name.\<close>

definition path_append :: "path \<Rightarrow> string \<Rightarrow> path" where
  "path_append p name = p\<lparr>p_names := p_names p @ [name], p_trailing := False\<rparr>"

abbreviation empty_path :: path where "empty_path \<equiv> \<lparr>p_absolute = False, p_names = [], p_trailing = False\<rparr>"

definition verifyPackagePath :: "path \<Rightarrow> bool" where
  "verifyPackagePath p =
     (if path_empty p then False
      else if p_absolute p then False
      else \<not> list_ex (\<lambda>part. part = ''..'') (path_parts p))"

subsection \<open>The path check is exact\<close>

text \<open>
  Where a path leads, name by name: the depth below the directory the path starts from, or
  \<open>None\<close> once it has left that directory.
\<close>

fun walk_depth :: "nat \<Rightarrow> string list \<Rightarrow> nat option" where
  "walk_depth d [] = Some d"
| "walk_depth d (n # ns) =
     (if n = ''.'' then walk_depth d ns
      else if n = ''..'' then (case d of 0 \<Rightarrow> None | Suc d' \<Rightarrow> walk_depth d' ns)
      else walk_depth (Suc d) ns)"

lemma normal_names_keeps_dotdot:
  "''..'' \<in> set acc \<Longrightarrow> ''..'' \<in> set (normal_names False acc ns)"
proof (induction ns arbitrary: acc)
  case (Cons n ns)
  then show ?case by (cases acc) auto
qed simp

lemma normal_names_depth:
  "''..'' \<notin> set acc \<Longrightarrow>
   (case walk_depth (length acc) ns of
      None \<Rightarrow> ''..'' \<in> set (normal_names False acc ns)
    | Some d \<Rightarrow> ''..'' \<notin> set (normal_names False acc ns) \<and> length (normal_names False acc ns) = d)"
proof (induction ns arbitrary: acc)
  case (Cons n ns)
  show ?case
  proof (cases "n = ''..''")
    case True
    show ?thesis
    proof (cases acc)
      case Nil
      then show ?thesis
        using True normal_names_keeps_dotdot [of "[''..'']" ns] by (simp split: option.splits)
    next
      case (Cons a as)
      then have "a \<noteq> ''..''" using Cons.prems by auto
      then show ?thesis
        using True Cons Cons.IH [of as] Cons.prems by (auto split: option.splits)
    qed
  next
    case False
    then show ?thesis
      using Cons.IH [of acc] Cons.IH [of "n # acc"] Cons.prems
      by (auto split: option.splits)
  qed
qed simp

text \<open>
   C33. The check the archive readers make on an entry's path, \<open>verifyPackagePath\<close> of the
  normalised path, accepts exactly the non-empty relative paths that never leave the directory
  they start from.
\<close>

theorem path_check_exact:
  "verifyPackagePath (lexically_normal p) \<longleftrightarrow>
     \<not> path_empty p \<and> \<not> p_absolute p \<and> walk_depth 0 (p_names p) \<noteq> None"
proof (cases "path_empty p \<or> p_absolute p")
  case True
  then show ?thesis
    by (auto simp: verifyPackagePath_def lexically_normal_def path_empty_def Let_def)
next
  case False
  have "''..'' \<in> set (normal_names False [] (p_names p)) \<longleftrightarrow> walk_depth 0 (p_names p) = None"
    using normal_names_depth [of "[]" "p_names p"] by (auto split: option.splits)
  then show ?thesis
    using False
    by (auto simp: verifyPackagePath_def lexically_normal_def path_empty_def path_parts_def Let_def list_ex_iff)
qed

subsection \<open>Modes and permissions\<close>

text \<open>
  \<open>std::filesystem::perms\<close> and \<open>mode_t\<close> give their flags the same values, but the code converts
  between them flag by flag.
\<close>

type_synonym mode = "32 word"
type_synonym perms = "32 word"

abbreviation S_IRUSR :: mode where "S_IRUSR \<equiv> 2 ^ 8"
abbreviation S_IWUSR :: mode where "S_IWUSR \<equiv> 2 ^ 7"
abbreviation S_IXUSR :: mode where "S_IXUSR \<equiv> 2 ^ 6"
abbreviation S_IRGRP :: mode where "S_IRGRP \<equiv> 2 ^ 5"
abbreviation S_IWGRP :: mode where "S_IWGRP \<equiv> 2 ^ 4"
abbreviation S_IXGRP :: mode where "S_IXGRP \<equiv> 2 ^ 3"
abbreviation S_IROTH :: mode where "S_IROTH \<equiv> 2 ^ 2"
abbreviation S_IWOTH :: mode where "S_IWOTH \<equiv> 2 ^ 1"
abbreviation S_IXOTH :: mode where "S_IXOTH \<equiv> 2 ^ 0"

abbreviation owner_read :: perms where "owner_read \<equiv> 2 ^ 8"
abbreviation owner_write :: perms where "owner_write \<equiv> 2 ^ 7"
abbreviation owner_exec :: perms where "owner_exec \<equiv> 2 ^ 6"
abbreviation group_read :: perms where "group_read \<equiv> 2 ^ 5"
abbreviation group_write :: perms where "group_write \<equiv> 2 ^ 4"
abbreviation group_exec :: perms where "group_exec \<equiv> 2 ^ 3"
abbreviation others_read :: perms where "others_read \<equiv> 2 ^ 2"
abbreviation others_write :: perms where "others_write \<equiv> 2 ^ 1"
abbreviation others_exec :: perms where "others_exec \<equiv> 2 ^ 0"

definition or_if :: "bool \<Rightarrow> 32 word \<Rightarrow> 32 word \<Rightarrow> 32 word" where
  "or_if c flag acc = (if c then acc OR flag else acc)"

definition fsPermsFromMode :: "mode \<Rightarrow> perms" where
  "fsPermsFromMode m =
     or_if (m AND S_IXOTH \<noteq> 0) others_exec
     (or_if (m AND S_IWOTH \<noteq> 0) others_write
     (or_if (m AND S_IROTH \<noteq> 0) others_read
     (or_if (m AND S_IXGRP \<noteq> 0) group_exec
     (or_if (m AND S_IWGRP \<noteq> 0) group_write
     (or_if (m AND S_IRGRP \<noteq> 0) group_read
     (or_if (m AND S_IXUSR \<noteq> 0) owner_exec
     (or_if (m AND S_IWUSR \<noteq> 0) owner_write
     (or_if (m AND S_IRUSR \<noteq> 0) owner_read 0))))))))"

definition modeFromFsPerms :: "perms \<Rightarrow> mode" where
  "modeFromFsPerms p =
     or_if (p AND others_exec \<noteq> 0) S_IXOTH
     (or_if (p AND others_write \<noteq> 0) S_IWOTH
     (or_if (p AND others_read \<noteq> 0) S_IROTH
     (or_if (p AND group_exec \<noteq> 0) S_IXGRP
     (or_if (p AND group_write \<noteq> 0) S_IWGRP
     (or_if (p AND group_read \<noteq> 0) S_IRGRP
     (or_if (p AND owner_exec \<noteq> 0) S_IXUSR
     (or_if (p AND owner_write \<noteq> 0) S_IWUSR
     (or_if (p AND owner_read \<noteq> 0) S_IRUSR 0))))))))"

lemma bit_or_if: "bit (or_if (m AND 2 ^ k \<noteq> 0) (2 ^ k) acc) n \<longleftrightarrow> (n = k \<and> bit m k \<and> k < 32) \<or> bit acc n"
  by (auto simp: or_if_def and_exp_eq_0_iff_not_bit bit_simps dest: bit_imp_le_length)

lemma bit_0777: "bit (0x1FF :: 32 word) n \<longleftrightarrow> n < 9"
proof -
  have "bit (mask 9 :: 32 word) n \<longleftrightarrow> n < 9" by (auto simp: bit_mask_iff)
  then show ?thesis by (simp add: mask_eq_exp_minus_1)
qed

lemma less_9_cases: "n < 9 \<longleftrightarrow> n \<in> {0, 1, 2, 3, 4, 5, 6, 7, 8::nat}"
  by auto

lemma fsPermsFromMode_eq: "fsPermsFromMode m = m AND 0x1FF"
proof (rule bit_word_eqI)
  fix n assume "n < LENGTH(32)"
  show "bit (fsPermsFromMode m) n \<longleftrightarrow> bit (m AND 0x1FF) n"
    unfolding fsPermsFromMode_def bit_or_if bit_and_iff bit_0777 less_9_cases by auto
qed

lemma modeFromFsPerms_eq: "modeFromFsPerms p = p AND 0x1FF"
proof (rule bit_word_eqI)
  fix n assume "n < LENGTH(32)"
  show "bit (modeFromFsPerms p) n \<longleftrightarrow> bit (p AND 0x1FF) n"
    unfolding modeFromFsPerms_def bit_or_if bit_and_iff bit_0777 less_9_cases by auto
qed

text \<open>
   The two conversions are inverse to each other on the permission bits, and drop the set-user,
  set-group and sticky bits.
\<close>

theorem perms_roundtrip:
  "modeFromFsPerms (fsPermsFromMode m) = m AND 0x1FF \<and> fsPermsFromMode (modeFromFsPerms p) = p AND 0x1FF"
  by (simp add: fsPermsFromMode_eq modeFromFsPerms_eq and.assoc)

subsection \<open>Extracting over existing files\<close>

text \<open>
  The values of \<open>std::filesystem::file_type\<close>.
\<close>

datatype file_type =
  TypeNone | TypeNotFound | TypeRegular | TypeDirectory | TypeSymlink | TypeBlock | TypeCharacter
  | TypeFifo | TypeSocket | TypeUnknown

text \<open>
  What \<open>fstatat\<close> reports of the target, without following symlinks, and the outcomes of the
  system calls that may change it.  The result of the check comes with the changes made.
\<close>

datatype stat_result = StatNoEntry | StatError | StatOk file_type

record syscalls =
  fchmodat_ok :: bool
  rmdir_ok :: bool
  unlink_ok :: bool

datatype fs_effect = Chmod mode | RemoveDirectory | Unlink

datatype extract_operation = SkipEntry | ExtractEntry

datatype check_error = FileExists | SystemError

text \<open>The codes of \<open>ErrorCode\<close> the modelled parts report, with the code of no error, and the errors of system calls.\<close>

datatype error_code =
  NoError | InvalidPackage | InvalidArgument | InternalError | NotSupported | ArchiveError | PackageSignatureMissing
  | PackageSignatureInvalid | PackageContentsInvalid | PackageFileTooLarge | PackageInvalidEntry | DmVerityError
  | ErofsError | PackageMountInvalid | PackageExtractLimitExceeded | FileError check_error | SystemCallFailed

type_synonym extract_options = "32 word"

text \<open>The options of \<open>Package::ExtractOption\<close>; two of them have the same value.\<close>

definition KeepExistingFiles :: extract_options where "KeepExistingFiles = 1"
definition SkipExistingFiles :: extract_options where "SkipExistingFiles = 2"
definition NoOverwriteDirectories :: extract_options where "NoOverwriteDirectories = 2"

definition checkExtraction ::
  "syscalls \<Rightarrow> stat_result \<Rightarrow> file_type \<Rightarrow> perms \<Rightarrow> extract_options \<Rightarrow>
   (check_error + extract_operation) \<times> fs_effect list" where
  "checkExtraction sys st entry_type perms options =
     (case st of
        StatNoEntry \<Rightarrow> (Inr ExtractEntry, [])
      | StatError \<Rightarrow> (Inl SystemError, [])
      | StatOk existing \<Rightarrow>
          if options AND KeepExistingFiles = KeepExistingFiles then (Inl FileExists, [])
          else if options AND SkipExistingFiles = SkipExistingFiles then
            (if (entry_type = TypeDirectory \<and> existing \<noteq> TypeDirectory) \<or>
                (entry_type \<noteq> TypeDirectory \<and> existing = TypeRegular)
             then (Inl FileExists, []) else (Inr SkipEntry, []))
          else if existing = TypeDirectory then
            (if entry_type = TypeDirectory then
               (if options AND NoOverwriteDirectories \<noteq> NoOverwriteDirectories then
                  (if fchmodat_ok sys then (Inr SkipEntry, [Chmod (modeFromFsPerms perms)])
                   else (Inl SystemError, []))
                else (Inr SkipEntry, []))
             else if \<not> rmdir_ok sys then (Inl FileExists, [])
             else (Inr ExtractEntry, [RemoveDirectory]))
          else if \<not> unlink_ok sys then (Inl SystemError, [])
          else (Inr ExtractEntry, [Unlink]))"

text \<open>What is at the target after the changes: nothing, or something of a type.\<close>

fun after_effects :: "fs_effect list \<Rightarrow> stat_result \<Rightarrow> stat_result" where
  "after_effects [] st = st"
| "after_effects (Chmod m # es) st = after_effects es st"
| "after_effects (e # es) st = after_effects es StatNoEntry"

lemma and_flag: "(m :: 32 word) AND 2 ^ k = (if bit m k then 2 ^ k else 0)"
  by (rule bit_word_eqI) (auto simp: bit_simps)

lemma option_bits:
  "options AND KeepExistingFiles = KeepExistingFiles \<longleftrightarrow> bit options 0"
  "options AND SkipExistingFiles = SkipExistingFiles \<longleftrightarrow> bit options 1"
  "options AND NoOverwriteDirectories = NoOverwriteDirectories \<longleftrightarrow> bit options 1"
  "options AND (KeepExistingFiles OR SkipExistingFiles) \<noteq> 0 \<longleftrightarrow> bit options 0 \<or> bit options 1"
proof -
  have split: "options AND (KeepExistingFiles OR SkipExistingFiles) =
      (options AND KeepExistingFiles) OR (options AND SkipExistingFiles)"
    by (rule bit.conj_disj_distrib)
  show "options AND KeepExistingFiles = KeepExistingFiles \<longleftrightarrow> bit options 0"
    "options AND SkipExistingFiles = SkipExistingFiles \<longleftrightarrow> bit options 1"
    "options AND NoOverwriteDirectories = NoOverwriteDirectories \<longleftrightarrow> bit options 1"
    "options AND (KeepExistingFiles OR SkipExistingFiles) \<noteq> 0 \<longleftrightarrow> bit options 0 \<or> bit options 1"
    using and_flag [of options 0] and_flag [of options 1] unfolding split
    by (simp_all add: KeepExistingFiles_def SkipExistingFiles_def NoOverwriteDirectories_def)
qed

text \<open>
   C34. The check lets an entry be extracted only when nothing is left at the target, and it removes
  nothing in any other case; with either of the options that protect existing files it changes
  nothing at all.
\<close>

theorem checkExtraction_safe:
  "case checkExtraction sys st ty perms options of (r, es) \<Rightarrow>
     (if r = Inr ExtractEntry then after_effects es st = StatNoEntry else after_effects es st = st) \<and>
     (if options AND (KeepExistingFiles OR SkipExistingFiles) \<noteq> 0 then es = [] else True)"
  unfolding checkExtraction_def option_bits by (cases st) auto

text \<open>
   Two options share a bit, and the test for mismatched types is inverted: extracting a regular
  file over a regular file fails when the caller asked to skip existing files, and also when the
  caller only asked to leave the metadata of existing directories alone; over an existing
  directory the same entry is silently skipped.
\<close>

theorem checkExtraction_skip_inverted:
  assumes "options = SkipExistingFiles \<or> options = NoOverwriteDirectories"
  shows "checkExtraction sys (StatOk TypeRegular) TypeRegular perms options = (Inl FileExists, []) \<and>
    checkExtraction sys (StatOk TypeDirectory) TypeRegular perms options = (Inr SkipEntry, [])"
  using assms unfolding checkExtraction_def option_bits
  by (auto simp: SkipExistingFiles_def NoOverwriteDirectories_def)

theorem checkExtraction_skip_inverted_witness:
  "checkExtraction \<lparr>fchmodat_ok = True, rmdir_ok = True, unlink_ok = True\<rparr> (StatOk TypeRegular)
     TypeRegular 0 NoOverwriteDirectories = (Inl FileExists, [])"
  using checkExtraction_skip_inverted [of NoOverwriteDirectories] by simp

end
