(* ===== verification/Digests.thy ===== *)
theory Digests
  imports Prelude
begin

section \<open>Digests as text\<close>

text \<open>
  The digest helpers of \<open>lib/oci/OCIUtils.cpp\<close> (hexadecimal text to bytes, validation of the digest
  strings of OCI descriptors) and the printer \<open>toHex\<close> of \<open>lib/dm-verity/DmVerityVerifier.cpp\<close>.
\<close>

definition hexDigitToByte :: "char \<Rightarrow> byte" where
  "hexDigitToByte c =
     (if CHR ''0'' \<le> c \<and> c \<le> CHR ''9'' then word_of_nat (of_char c - 48)
      else if CHR ''a'' \<le> c \<and> c \<le> CHR ''f'' then word_of_nat (of_char c - 97 + 10)
      else if CHR ''A'' \<le> c \<and> c \<le> CHR ''F'' then word_of_nat (of_char c - 65 + 10)
      else 0)"

text \<open>The loop stops at the first pair that is not two digits; an odd last character is dropped.\<close>

fun hexStringToBytes :: "string \<Rightarrow> bytes" where
  "hexStringToBytes (high # low # cs) =
     (if \<not> is_xdigit high \<or> \<not> is_xdigit low then []
      else (push_bit 4 (hexDigitToByte high) OR hexDigitToByte low) # hexStringToBytes cs)"
| "hexStringToBytes _ = []"

definition validateSha256Digest :: "string \<Rightarrow> bool" where
  "validateSha256Digest digest = (if length digest \<noteq> 64 then False else list_all is_xdigit digest)"

definition validateDigest :: "string \<Rightarrow> string option" where
  "validateDigest digest =
     (if length digest \<noteq> 71 then None
      else if take 7 digest \<noteq> ''sha256:'' then None
      else if \<not> validateSha256Digest (drop 7 digest) then None
      else Some (drop 7 digest))"

definition hex_digit :: "byte \<Rightarrow> char" where
  "hex_digit n = ''0123456789abcdef'' ! unat n"

definition toHex :: "bytes \<Rightarrow> string" where
  "toHex hash = concat (map (\<lambda>b. [hex_digit (drop_bit 4 b AND 15), hex_digit (b AND 15)]) hash)"

lemma length_toHex: "length (toHex bs) = 2 * length bs"
  by (induction bs) (simp_all add: toHex_def)

lemma nibble_less: "unat ((b :: byte) AND 15) < 16"
proof -
  have "unat (b AND 15) \<le> unat (15 :: byte)"
    by (rule word_and_le1 [THEN word_le_nat_alt [THEN iffD1]])
  then show ?thesis by simp
qed

lemma less_16_cases: "(n::nat) < 16 \<Longrightarrow> n \<in> {0, 1, 2, 3, 4, 5, 6, 7, 8, 9, 10, 11, 12, 13, 14, 15}"
  by (simp only: insert_iff empty_iff) presburger

lemma hex_digit_value:
  assumes "n < 16"
  shows "is_xdigit (''0123456789abcdef'' ! n) \<and> hexDigitToByte (''0123456789abcdef'' ! n) = word_of_nat n"
  using less_16_cases [OF assms]
  by (elim insertE) (simp_all add: is_xdigit_def is_digit_def hexDigitToByte_def)

lemma hex_digit_nibble:
  "is_xdigit (hex_digit (b AND 15)) \<and> hexDigitToByte (hex_digit (b AND 15)) = b AND 15"
  using hex_digit_value [OF nibble_less [of b]] by (simp add: hex_digit_def)

lemma bit_15: "bit (15 :: byte) n \<longleftrightarrow> n < 4"
proof -
  have "bit (mask 4 :: byte) n \<longleftrightarrow> n < 4" by (auto simp: bit_mask_iff)
  then show ?thesis by (simp add: mask_eq_exp_minus_1)
qed

lemma join_nibbles: "push_bit 4 (drop_bit 4 (b :: byte) AND 15) OR (b AND 15) = b"
proof (rule bit_word_eqI)
  fix n assume "n < LENGTH(8)"
  then have n: "n < 8" by simp
  show "bit (push_bit 4 (drop_bit 4 b AND 15) OR (b AND 15)) n \<longleftrightarrow> bit b n"
  proof (cases "n < 4")
    case True
    then show ?thesis by (simp only: bit_or_iff bit_push_bit_iff bit_and_iff bit_15) simp
  next
    case False
    then have "4 \<le> n" "n - 4 < 4" using n by simp_all
    then show ?thesis using n
      by (simp only: bit_or_iff bit_push_bit_iff bit_and_iff bit_15 bit_drop_bit_eq possible_bit_word) simp
  qed
qed

lemma hex_pair:
  "push_bit 4 (hexDigitToByte (hex_digit (drop_bit 4 b AND 15))) OR hexDigitToByte (hex_digit (b AND 15)) = b"
  by (simp only: hex_digit_nibble [THEN conjunct2] join_nibbles)

lemma toHex_Cons: "toHex (b # bs) = hex_digit (drop_bit 4 b AND 15) # hex_digit (b AND 15) # toHex bs"
  by (simp add: toHex_def)

lemma hexStringToBytes_toHex_append: "hexStringToBytes (toHex bs @ cs) = bs @ hexStringToBytes cs"
proof (induction bs)
  case Nil
  then show ?case by (simp add: toHex_def)
next
  case (Cons b bs)
  then show ?case
    by (simp only: toHex_Cons append_Cons hexStringToBytes.simps hex_digit_nibble [THEN conjunct1]
        hex_pair simp_thms if_False)
qed

text \<open> Reading the hexadecimal text of a digest gives the digest back.\<close>

theorem toHex_roundtrip: "hexStringToBytes (toHex bs) = bs"
  using hexStringToBytes_toHex_append [of bs "[]"] by simp

lemma length_hexStringToBytes: "list_all is_xdigit s \<Longrightarrow> length (hexStringToBytes s) = length s div 2"
  by (induction s rule: hexStringToBytes.induct) auto

text \<open>
   A digest string that an OCI descriptor keeps is \<open>sha256:\<close> followed by exactly 64
  hexadecimal digits, and it stands for 32 bytes, so comparing it with a computed digest compares
  all of them.
\<close>

theorem validateDigest_exact:
  "validateDigest digest = Some s \<longleftrightarrow> digest = ''sha256:'' @ s \<and> length s = 64 \<and> list_all is_xdigit s \<and>
     length (hexStringToBytes s) = 32"
proof
  assume "validateDigest digest = Some s"
  then have "length digest = 71" "take 7 digest = ''sha256:''" "s = drop 7 digest" "list_all is_xdigit s"
    by (auto simp: validateDigest_def validateSha256Digest_def split: if_splits)
  then show "digest = ''sha256:'' @ s \<and> length s = 64 \<and> list_all is_xdigit s \<and> length (hexStringToBytes s) = 32"
    using append_take_drop_id [of 7 digest] length_hexStringToBytes [of s] by simp
next
  assume "digest = ''sha256:'' @ s \<and> length s = 64 \<and> list_all is_xdigit s \<and> length (hexStringToBytes s) = 32"
  then show "validateDigest digest = Some s"
    by (simp add: validateDigest_def validateSha256Digest_def)
qed

end
