(* ===== verification/HashTree.thy ===== *)
theory HashTree
  imports Prelude
begin

section \<open>The dm-verity hash tree\<close>

text \<open>
  The interface \<open>IHashTreeLayer\<close> and its three implementations in
  \<open>lib/dm-verity/DmVerityVerifier.cpp\<close>: the layer of an image with a single data block, the
  topmost hash block, and a layer of hash blocks with its cache of verified blocks.  SHA-256 comes
  from OpenSSL and is the parameter \<open>H\<close> of the definitions; the hash file is an argument of every
  check, because its contents may change between two checks.
\<close>

subsection \<open>The interface of a verifier\<close>

text \<open>
  What the clients of \<open>IHashTreeLayer\<close> and of \<open>IDmVerityVerifier\<close> rely on: a check of an item at an
  index may change the state of the verifier, keeps its invariant and what it considers genuine,
  and accepts genuine items only.
\<close>

locale authenticator =
  fixes check :: "'s \<Rightarrow> bytes \<Rightarrow> nat \<Rightarrow> bytes \<Rightarrow> (unit, bool) outcome \<times> 's"
    and invar :: "'s \<Rightarrow> bool"
    and genuine :: "'s \<Rightarrow> nat \<Rightarrow> bytes \<Rightarrow> bool"
    and admissible :: "bytes \<Rightarrow> bool"
  assumes check_invar: "invar s \<Longrightarrow> admissible file \<Longrightarrow> check s file n d = (r, s') \<Longrightarrow> invar s'"
    and check_genuine: "invar s \<Longrightarrow> admissible file \<Longrightarrow> check s file n d = (r, s') \<Longrightarrow> genuine s' = genuine s"
    and check_sound: "invar s \<Longrightarrow> admissible file \<Longrightarrow> check s file n d = (Done True, s') \<Longrightarrow> genuine s n d"
begin

lemma check_step:
  assumes "invar s" "admissible file" "check s file n d = (r, s')"
  shows "invar s' \<and> genuine s' = genuine s \<and> (r = Done True \<longrightarrow> genuine s n d)"
  using check_invar [OF assms] check_genuine [OF assms] check_sound [OF assms(1,2)] assms(3) by auto

end

subsection \<open>Layers and their checks\<close>

abbreviation kSha256DigestSize :: nat where "kSha256DigestSize \<equiv> 32"
abbreviation kMaxCacheBlocks :: nat where "kMaxCacheBlocks \<equiv> 64"

text \<open>\<open>CryptoDigestBuilder::sha256Digest\<close>: the salt, when there is one, is hashed before the data.\<close>

definition sha256Digest :: "(bytes \<Rightarrow> bytes) \<Rightarrow> bytes \<Rightarrow> bytes \<Rightarrow> bytes" where
  "sha256Digest H data salt = H ((if salt \<noteq> [] then salt else []) @ data)"

lemma sha256Digest_append: "sha256Digest H data salt = H (salt @ data)"
  by (simp add: sha256Digest_def)

text \<open>The cache is a \<open>std::map\<close>: its entries are ordered by the index of the hash block.\<close>

type_synonym block_cache = "(nat \<times> bytes) list"

fun cache_insert :: "nat \<Rightarrow> bytes \<Rightarrow> block_cache \<Rightarrow> block_cache" where
  "cache_insert k b [] = [(k, b)]"
| "cache_insert k b ((k', b') # c) =
     (if k < k' then (k, b) # (k', b') # c
      else if k = k' then (k', b') # c
      else (k', b') # cache_insert k b c)"

definition cache_add :: "nat \<Rightarrow> bytes \<Rightarrow> block_cache \<Rightarrow> block_cache" where
  "cache_add k b c = cache_insert k b (if length c \<ge> kMaxCacheBlocks then tl c else c)"

datatype layer =
    SingleDataBlockLayer (m_rootHash: bytes)
  | TopMostHashTreeLayer (m_hashesCount: nat) (m_hashesPerBlock: nat) (m_hashBlock: "bytes option")
      (m_digest: bytes)
  | HashTreeLayer (m_parent: layer) (m_fileOffset: nat) (m_hashesCount: nat) (m_hashBlockSize: nat)
      (m_hashesPerBlock: nat) (m_salt: bytes) (m_verifiedHashBlocks: block_cache)

definition hash_at :: "bytes \<Rightarrow> nat \<Rightarrow> nat \<Rightarrow> bytes" where
  "hash_at hashBlock hashesPerBlock block =
     slice ((block mod hashesPerBlock) * kSha256DigestSize) kSha256DigestSize hashBlock"

fun verifyBlock :: "(bytes \<Rightarrow> bytes) \<Rightarrow> layer \<Rightarrow> bytes \<Rightarrow> nat \<Rightarrow> bytes \<Rightarrow> (unit, bool) outcome \<times> layer" where
  "verifyBlock H (SingleDataBlockLayer root) file block digest =
     (Done (if block \<noteq> 0 then False else root = digest), SingleDataBlockLayer root)"
| "verifyBlock H (TopMostHashTreeLayer cnt hpb hb d) file block digest =
     (if block \<ge> cnt then (Done False, TopMostHashTreeLayer cnt hpb hb d)
      else case hb of
        None \<Rightarrow> (Undefined OutOfBoundsRead, TopMostHashTreeLayer cnt hpb hb d)
      | Some b \<Rightarrow> (Done (hash_at b hpb block = digest), TopMostHashTreeLayer cnt hpb hb d))"
| "verifyBlock H (HashTreeLayer parent off cnt hbs hpb salt cache) file block digest =
     (if block \<ge> cnt then (Done False, HashTreeLayer parent off cnt hbs hpb salt cache)
      else case map_of cache (block div hpb) of
        Some b \<Rightarrow> (Done (hash_at b hpb block = digest), HashTreeLayer parent off cnt hbs hpb salt cache)
      | None \<Rightarrow>
          (case pread_full file hbs (sz_add off (sz_mul (block div hpb) hbs)) of
             None \<Rightarrow> (Done False, HashTreeLayer parent off cnt hbs hpb salt cache)
           | Some b \<Rightarrow>
               (case verifyBlock H parent file (block div hpb) (sha256Digest H b salt) of
                  (Done True, parent') \<Rightarrow>
                    (Done (hash_at b hpb block = digest),
                     HashTreeLayer parent' off cnt hbs hpb salt (cache_add (block div hpb) b cache))
                | (r, parent') \<Rightarrow> (r, HashTreeLayer parent' off cnt hbs hpb salt cache))))"

text \<open>The constructor of the topmost layer reads and hashes its block.\<close>

definition topMostHashTreeLayer :: "(bytes \<Rightarrow> bytes) \<Rightarrow> bytes \<Rightarrow> nat \<Rightarrow> nat \<Rightarrow> nat \<Rightarrow> bytes \<Rightarrow> layer" where
  "topMostHashTreeLayer H file fileOffset dataBlocks hashBlockSize salt =
     (case pread_full file hashBlockSize fileOffset of
        None \<Rightarrow>
          TopMostHashTreeLayer dataBlocks (hashBlockSize div kSha256DigestSize) None
            (replicate kSha256DigestSize 0)
      | Some b \<Rightarrow>
          TopMostHashTreeLayer dataBlocks (hashBlockSize div kSha256DigestSize) (Some b)
            (sha256Digest H b salt))"

subsection \<open>The cache\<close>

definition cache_ok :: "block_cache \<Rightarrow> bool" where
  "cache_ok c \<longleftrightarrow> sorted_wrt (<) (map fst c) \<and> length c \<le> kMaxCacheBlocks"

lemma cache_insert_set: "set (cache_insert k b c) \<subseteq> insert (k, b) (set c)"
  by (induction k b c rule: cache_insert.induct) auto

lemma cache_insert_sorted:
  "sorted_wrt (<) (map fst c) \<Longrightarrow> sorted_wrt (<) (map fst (cache_insert k b c))"
proof (induction k b c rule: cache_insert.induct)
  case (2 k b k' b' c)
  then show ?case using cache_insert_set [of k b c] by (auto 0 4)
qed simp

lemma cache_insert_length: "length (cache_insert k b c) \<le> Suc (length c)"
  by (induction k b c rule: cache_insert.induct) auto

lemma cache_add_set: "set (cache_add k b c) \<subseteq> insert (k, b) (set c)"
  using cache_insert_set [of k b c] cache_insert_set [of k b "tl c"]
  by (cases c) (auto simp: cache_add_def)

lemma cache_add_ok: "cache_ok c \<Longrightarrow> cache_ok (cache_add k b c)"
  using cache_insert_length [of k b c] cache_insert_length [of k b "tl c"]
  by (cases c) (auto simp: cache_ok_def cache_add_def intro!: cache_insert_sorted [of "_ # _"] cache_insert_sorted)

subsection \<open>What a root hash vouches for\<close>

text \<open>
  The specification of a hash tree: \<open>counts\<close> gives the number of hashes of each layer, bottom
  first.  A digest is authentic for an index if hash blocks lead from it to the root hash, each
  holding the digest of the one below.  \<open>B\<close> is the set of hash blocks that may occur.
\<close>

inductive authentic ::
  "(bytes \<Rightarrow> bytes) \<Rightarrow> bytes set \<Rightarrow> bytes \<Rightarrow> bytes \<Rightarrow> nat \<Rightarrow> nat list \<Rightarrow> nat \<Rightarrow> bytes \<Rightarrow> bool"
  for H B salt root hbs where
  root: "authentic H B salt root hbs [] 0 root"
| node: "authentic H B salt root hbs counts (block div (hbs div 32)) (H (salt @ hb)) \<Longrightarrow>
     block < cnt \<Longrightarrow> hb \<in> B \<Longrightarrow> length hb = hbs \<Longrightarrow> digest = hash_at hb (hbs div 32) block \<Longrightarrow>
     authentic H B salt root hbs (cnt # counts) block digest"

inductive_cases authentic_NilE: "authentic H B salt root hbs [] n d"
inductive_cases authentic_ConsE: "authentic H B salt root hbs (c # cs) n d"

text \<open>
  The tree binds: where the hash has no collision among the hash blocks that occur, each index has
  at most one authentic digest.
\<close>

definition collision_free :: "(bytes \<Rightarrow> bytes) \<Rightarrow> bytes \<Rightarrow> bytes set \<Rightarrow> bool" where
  "collision_free H salt B \<longleftrightarrow> inj_on (\<lambda>b. H (salt @ b)) B"

lemma authentic_unique:
  assumes free: "collision_free H salt B"
  shows "authentic H B salt root hbs counts n d \<Longrightarrow> authentic H B salt root hbs counts n d' \<Longrightarrow> d = d'"
proof (induction arbitrary: d' rule: authentic.induct)
  case root
  then show ?case by (auto elim: authentic_NilE)
next
  case (node counts block hb cnt digest)
  from node.prems obtain hb' where hb': "authentic H B salt root hbs counts (block div (hbs div 32)) (H (salt @ hb'))"
      "hb' \<in> B" "d' = hash_at hb' (hbs div 32) block"
    by (auto elim: authentic_ConsE)
  from node.IH [OF hb'(1)] have "H (salt @ hb) = H (salt @ hb')" .
  then have "hb = hb'"
    using free hb'(2) node.hyps by (auto simp: collision_free_def dest: inj_onD)
  with hb'(3) node.hyps show ?case by simp
qed

subsection \<open>Every layer accepts authentic digests only\<close>

text \<open>
  A hash file is admissible if every block the verifier can read from it is one of the blocks that
  may occur.
\<close>

definition blocks_within :: "nat \<Rightarrow> bytes set \<Rightarrow> bytes \<Rightarrow> bool" where
  "blocks_within hbs B file \<longleftrightarrow> (\<forall>off b. pread_full file hbs off = Some b \<longrightarrow> b \<in> B)"

fun layer_ok :: "(bytes \<Rightarrow> bytes) \<Rightarrow> bytes set \<Rightarrow> bytes \<Rightarrow> bytes \<Rightarrow> nat \<Rightarrow> nat list \<Rightarrow> layer \<Rightarrow> bool" where
  "layer_ok H B salt root hbs counts (SingleDataBlockLayer r) \<longleftrightarrow> counts = [] \<and> r = root"
| "layer_ok H B salt root hbs counts (TopMostHashTreeLayer cnt hpb hb d) \<longleftrightarrow>
     counts = [cnt] \<and> hpb = hbs div 32 \<and> cnt \<le> hpb \<and>
     (case hb of None \<Rightarrow> True | Some b \<Rightarrow> b \<in> B \<and> length b = hbs \<and> H (salt @ b) = root)"
| "layer_ok H B salt root hbs counts (HashTreeLayer parent off cnt hbs' hpb salt' cache) \<longleftrightarrow>
     counts \<noteq> [] \<and> cnt = hd counts \<and> layer_ok H B salt root hbs (tl counts) parent \<and>
     hbs' = hbs \<and> hpb = hbs div 32 \<and> salt' = salt \<and> cache_ok cache \<and>
     (\<forall>(k, b) \<in> set cache. b \<in> B \<and> length b = hbs \<and> authentic H B salt root hbs (tl counts) k (H (salt @ b)))"

lemma verifyBlock_ok:
  assumes "blocks_within hbs B file"
  shows "layer_ok H B salt root hbs counts L \<Longrightarrow> verifyBlock H L file n d = (r, L') \<Longrightarrow>
    layer_ok H B salt root hbs counts L' \<and> (r = Done True \<longrightarrow> authentic H B salt root hbs counts n d)"
proof (induction L arbitrary: counts n d r L')
  case (SingleDataBlockLayer r)
  then show ?case by (auto intro: authentic.root split: if_splits)
next
  case (TopMostHashTreeLayer cnt hpb hb dig)
  have "n div (hbs div 32) = 0" if "n < cnt" using that TopMostHashTreeLayer by simp
  then show ?case
    using TopMostHashTreeLayer authentic.root [of H B salt root hbs]
    by (auto split: if_splits option.splits intro!: authentic.node)
next
  case (HashTreeLayer parent off cnt hbs' hpb salt' cache)
  let ?idx = "n div (hbs div 32)"
  from HashTreeLayer.prems(1) obtain counts' where counts: "counts = cnt # counts'"
      and parent: "layer_ok H B salt root hbs counts' parent"
      and params: "hbs' = hbs" "hpb = hbs div 32" "salt' = salt" and cache: "cache_ok cache"
      and cached: "\<And>k b. (k, b) \<in> set cache \<Longrightarrow>
        b \<in> B \<and> length b = hbs \<and> authentic H B salt root hbs counts' k (H (salt @ b))"
    by (cases counts) auto
  have node: "authentic H B salt root hbs counts n (hash_at b (hbs div 32) n)"
    if "n < cnt" "b \<in> B" "length b = hbs" "authentic H B salt root hbs counts' ?idx (H (salt @ b))" for b
    unfolding counts using that by (auto intro: authentic.node)
  show ?case
  proof (cases "n < cnt")
    case False
    then show ?thesis using HashTreeLayer.prems by auto
  next
    case True
    show ?thesis
    proof (cases "map_of cache ?idx")
      case (Some b)
      then show ?thesis
        using HashTreeLayer.prems True params node [OF True] cached [OF map_of_SomeD [OF Some]] by auto
    next
      case None
      show ?thesis
      proof (cases "pread_full file hbs (sz_add off (sz_mul ?idx hbs))")
        case None
        then show ?thesis using HashTreeLayer.prems True params \<open>map_of cache ?idx = None\<close> by auto
      next
        case (Some b)
        then have b: "b \<in> B" "length b = hbs"
          using assms[unfolded blocks_within_def, rule_format, OF Some] by (auto simp: pread_full_Some)
        obtain q p' where q: "verifyBlock H parent file ?idx (sha256Digest H b salt) = (q, p')" by fastforce
        note IH = HashTreeLayer.IH [OF parent q, unfolded sha256Digest_append]
        have new: "\<And>k c. (k, c) \<in> set (cache_add ?idx b cache) \<Longrightarrow> q = Done True \<Longrightarrow>
            c \<in> B \<and> length c = hbs \<and> authentic H B salt root hbs counts' k (H (salt @ c))"
          using cached b IH cache_add_set [of ?idx b cache] by blast
        show ?thesis
        proof (cases "q = Done True")
          case True
          then have "r = Done (hash_at b (hbs div 32) n = d)"
              "L' = HashTreeLayer p' off cnt hbs hpb salt (cache_add ?idx b cache)"
            using HashTreeLayer.prems(2) \<open>n < cnt\<close> params None Some q by auto
          then show ?thesis
            using IH b node [OF \<open>n < cnt\<close> b] new [OF _ True] True cache_add_ok [OF cache] params counts by auto
        next
          case False
          then have "r = q" "L' = HashTreeLayer p' off cnt hbs hpb salt cache"
            using HashTreeLayer.prems(2) \<open>n < cnt\<close> params None Some q
            by (auto split: outcome.splits bool.splits)
          then show ?thesis using False IH cached cache params counts by auto
        qed
      qed
    qed
  qed
qed

subsection \<open>The layers implement the interface\<close>

interpretation layer: authenticator "verifyBlock H" "layer_ok H B salt root hbs counts"
    "\<lambda>L. authentic H B salt root hbs counts" "blocks_within hbs B"
  for H B salt root hbs counts
  by unfold_locales (use verifyBlock_ok in blast)+

text \<open>The number of hashes of each layer, bottom first; no check changes it.\<close>

fun layer_counts :: "layer \<Rightarrow> nat list" where
  "layer_counts (SingleDataBlockLayer root) = []"
| "layer_counts (TopMostHashTreeLayer cnt hpb hb d) = [cnt]"
| "layer_counts (HashTreeLayer parent off cnt hbs hpb salt cache) = cnt # layer_counts parent"

lemma layer_ok_counts: "layer_ok H B salt root hbs counts L \<Longrightarrow> counts = layer_counts L"
  by (induction L arbitrary: counts) auto

text \<open>Every layer keeps at most 64 blocks.\<close>

fun layer_caches :: "layer \<Rightarrow> nat list" where
  "layer_caches (HashTreeLayer parent off cnt hbs hpb salt cache) = length cache # layer_caches parent"
| "layer_caches _ = []"

lemma layer_ok_caches: "layer_ok H B salt root hbs counts L \<Longrightarrow> k \<in> set (layer_caches L) \<Longrightarrow> k \<le> kMaxCacheBlocks"
  by (induction L arbitrary: counts) (auto simp: cache_ok_def)

text \<open>With at least one hash per block no check of a well-formed layer reads outside a buffer.\<close>

fun has_top :: "layer \<Rightarrow> bool" where
  "has_top (SingleDataBlockLayer root) = True"
| "has_top (TopMostHashTreeLayer cnt hpb hb d) = (hb \<noteq> None)"
| "has_top (HashTreeLayer parent off cnt hbs hpb salt cache) = has_top parent"

lemma verifyBlock_defined:
  "has_top L \<Longrightarrow> verifyBlock H L file n d = (r, L') \<Longrightarrow> (\<exists>b. r = Done b) \<and> has_top L'"
proof (induction L arbitrary: n d r L')
  case (HashTreeLayer parent off cnt hbs hpb salt cache)
  have "\<exists>b p. verifyBlock H parent file m e = (Done b, p) \<and> has_top p" for m e
    using HashTreeLayer.IH HashTreeLayer.prems(1) by (metis has_top.simps(3) surj_pair)
  then have "\<exists>f g. \<forall>m e. verifyBlock H parent file m e = (Done (f m e), g m e) \<and> has_top (g m e)"
    by metis
  then obtain f g where "\<And>m e. verifyBlock H parent file m e = (Done (f m e), g m e)" "\<And>m e. has_top (g m e)"
    by blast
  then show ?case
    using HashTreeLayer.prems by (auto split: if_splits option.splits bool.split_asm)
qed (auto split: if_splits option.splits)

end
