(* ===== verification/DmVerity.thy ===== *)
theory DmVerity
  imports HashTree "HOL-Library.Monad_Syntax"
begin

section \<open>The dm-verity verifier\<close>

text \<open>
  \<open>lib/dm-verity/DmVeritySuperBlock.{h,cpp}\<close> and the class \<open>DmVerityVerifier\<close> of
  \<open>lib/dm-verity/DmVerityVerifier.cpp\<close>: the superblock and its checks, the computation of the
  layers of the hash tree, the opening of a hashes file and the verification of a data block.
\<close>

subsection \<open>The superblock\<close>

record super_block =
  sb_signature :: bytes
  sb_version :: nat
  sb_hashType :: nat
  sb_algorithm :: bytes
  sb_dataBlockSize :: nat
  sb_hashBlockSize :: nat
  sb_dataBlocks :: nat
  sb_saltSize :: nat
  sb_salt :: bytes

definition read_super_block :: "bytes \<Rightarrow> super_block" where
  "read_super_block b = \<lparr>
     sb_signature = slice 0 8 b, sb_version = le32_at b 8, sb_hashType = le32_at b 12,
     sb_algorithm = slice 32 32 b, sb_dataBlockSize = le32_at b 64, sb_hashBlockSize = le32_at b 68,
     sb_dataBlocks = le64_at b 72, sb_saltSize = le16_at b 80, sb_salt = slice 88 256 b \<rparr>"

datatype verity_error =
    InvalidRootHashSize nat | HashesOffsetOutside nat nat | HashesRangeOutside nat nat nat
  | SuperBlockNotRead | BadSignature | UnsupportedAlgorithm bytes | UnsupportedBlockSizes nat nat
  | InvalidSaltSize | TooManyDataBlocks nat | HashBlocksDontFit nat nat nat | RootHashMismatch

definition verity_signature :: bytes where
  "verity_signature = [118, 101, 114, 105, 116, 121, 0, 0]"

definition sha256_name :: bytes where
  "sha256_name = [115, 104, 97, 50, 53, 54, 0]"

definition checkSuperBlock :: "super_block \<Rightarrow> (verity_error, unit) outcome" where
  "checkSuperBlock sb =
     (if sb_signature sb \<noteq> verity_signature \<or> sb_version sb \<noteq> 1 \<or> sb_hashType sb \<noteq> 1 then Fail BadSignature
      else if take 7 (sb_algorithm sb) \<noteq> sha256_name then Fail (UnsupportedAlgorithm (sb_algorithm sb))
      else if sb_hashBlockSize sb \<noteq> 4096 \<or> sb_dataBlockSize sb \<noteq> 4096
        then Fail (UnsupportedBlockSizes (sb_hashBlockSize sb) (sb_dataBlockSize sb))
      else if sb_saltSize sb > 256 then Fail InvalidSaltSize
      else Done ())"

subsection \<open>The layers of the tree\<close>

text \<open>
  The loop over the levels: each entry is the number of hash blocks of a level and the number of
  blocks it covers, bottom first.  A loop that does not end has the value \<open>None\<close>.
\<close>

partial_function (option) upper_levels :: "nat \<Rightarrow> nat \<Rightarrow> (nat \<times> nat) list option" where
  "upper_levels hashesPerBlock levelHashBlocks =
     (if levelHashBlocks > 1 then
        do { rest \<leftarrow> upper_levels hashesPerBlock (div_round_up levelHashBlocks hashesPerBlock);
             Some ((div_round_up levelHashBlocks hashesPerBlock, levelHashBlocks) # rest) }
      else Some [])"

definition layer_details :: "nat \<Rightarrow> nat \<Rightarrow> (nat \<times> nat) list option" where
  "layer_details hashesPerBlock dataBlockCount =
     map_option ((#) (div_round_up dataBlockCount hashesPerBlock, dataBlockCount))
       (upper_levels hashesPerBlock (div_round_up dataBlockCount hashesPerBlock))"

definition total_hash_blocks :: "(nat \<times> nat) list \<Rightarrow> nat" where
  "total_hash_blocks details = foldl sz_add 0 (map fst details)"

text \<open>The layers below the topmost one, top down, as the loop over \<open>layerDetails\<close> builds them.\<close>

fun add_layers :: "nat \<Rightarrow> bytes \<Rightarrow> layer \<Rightarrow> nat \<Rightarrow> (nat \<times> nat) list \<Rightarrow> layer" where
  "add_layers hashBlockSize salt layer layerOffset (d # d' # ds) =
     (let layerOffset' = sz_add layerOffset (sz_mul (fst d) hashBlockSize) in
      add_layers hashBlockSize salt
        (HashTreeLayer layer layerOffset' (snd d') hashBlockSize (hashBlockSize div kSha256DigestSize) salt [])
        layerOffset' (d' # ds))"
| "add_layers hashBlockSize salt layer layerOffset _ = layer"

subsection \<open>Opening a hashes file\<close>

record verifier =
  v_rootHash :: bytes
  v_hashesOffset :: nat
  v_hashesSize :: nat
  v_hashBlockSize :: nat
  v_hashesPerBlock :: nat
  v_dataBlockSize :: nat
  v_dataBlockCount :: nat
  v_salt :: bytes
  v_layer0 :: "layer option"

definition build_layers ::
  "(bytes \<Rightarrow> bytes) \<Rightarrow> bytes \<Rightarrow> verifier \<Rightarrow> (nat \<times> nat) list \<Rightarrow> (verity_error, verifier) outcome" where
  "build_layers H file v details =
     (let total = total_hash_blocks details; top_down = rev details;
          layerOffset = sz_add (v_hashesOffset v) (v_hashBlockSize v) in
      if sz_mul (sz_add 1 total) (v_hashBlockSize v) > v_hashesSize v
        then Fail (HashBlocksDontFit total (v_hashBlockSize v) (v_hashesSize v))
      else
        (let top = topMostHashTreeLayer H file layerOffset (snd (hd top_down)) (v_hashBlockSize v) (v_salt v) in
         if m_digest top \<noteq> v_rootHash v then Fail RootHashMismatch
         else Done (v\<lparr>v_layer0 := Some (add_layers (v_hashBlockSize v) (v_salt v) top layerOffset top_down)\<rparr>)))"

definition parseDmVeritySuperBlock ::
  "(bytes \<Rightarrow> bytes) \<Rightarrow> bytes \<Rightarrow> verifier \<Rightarrow> (verity_error, verifier) outcome option" where
  "parseDmVeritySuperBlock H file v =
     (case pread_full file 4096 (v_hashesOffset v) of
        None \<Rightarrow> Some (Fail SuperBlockNotRead)
      | Some buf \<Rightarrow>
          (let sb = read_super_block buf;
               v = v\<lparr>v_hashBlockSize := sb_hashBlockSize sb, v_dataBlockSize := sb_dataBlockSize sb,
                     v_dataBlockCount := sb_dataBlocks sb, v_salt := take (sb_saltSize sb) (sb_salt sb),
                     v_hashesPerBlock := sb_hashBlockSize sb div kSha256DigestSize\<rparr> in
           case checkSuperBlock sb of
             Done _ \<Rightarrow>
               (if v_dataBlockCount v = 0 \<or> sz_mul (v_dataBlockCount v) (v_dataBlockSize v) > 512 * 1024 * 1024
                  then Some (Fail (TooManyDataBlocks (v_dataBlockCount v)))
                else if v_dataBlockCount v = 1
                  then Some (Done (v\<lparr>v_layer0 := Some (SingleDataBlockLayer (v_rootHash v))\<rparr>))
                else map_option (build_layers H file v) (layer_details (v_hashesPerBlock v) (v_dataBlockCount v)))
           | Fail e \<Rightarrow> Some (Fail e)
           | Undefined u \<Rightarrow> Some (Undefined u)))"

definition verifier_open ::
  "(bytes \<Rightarrow> bytes) \<Rightarrow> bytes \<Rightarrow> bytes \<Rightarrow> nat option \<Rightarrow> nat option \<Rightarrow> (verity_error, verifier) outcome option" where
  "verifier_open H file rootHash hashesOffset hashesSize =
     (let fileSize = length file;
          off = (case hashesOffset of None \<Rightarrow> 0 | Some n \<Rightarrow> n);
          size = (case hashesSize of None \<Rightarrow> fileSize - off | Some n \<Rightarrow> n) in
      if length rootHash \<noteq> kSha256DigestSize then Some (Fail (InvalidRootHashSize (length rootHash)))
      else if off > fileSize then Some (Fail (HashesOffsetOutside off fileSize))
      else if size > fileSize - off then Some (Fail (HashesRangeOutside off size fileSize))
      else parseDmVeritySuperBlock H file
             \<lparr>v_rootHash = rootHash, v_hashesOffset = off, v_hashesSize = size, v_hashBlockSize = 0,
              v_hashesPerBlock = 0, v_dataBlockSize = 0, v_dataBlockCount = 0, v_salt = [], v_layer0 = None\<rparr>)"

subsection \<open>Verifying a data block\<close>

definition verify :: "(bytes \<Rightarrow> bytes) \<Rightarrow> verifier \<Rightarrow> bytes \<Rightarrow> nat \<Rightarrow> bytes \<Rightarrow> (unit, bool) outcome \<times> verifier" where
  "verify H v file block data =
     (case v_layer0 v of
        None \<Rightarrow> (Done False, v)
      | Some L \<Rightarrow>
          (if block \<ge> v_dataBlockCount v then (Done False, v)
           else if length data < v_dataBlockSize v then (Undefined OutOfBoundsRead, v)
           else (let digest = sha256Digest H (take (v_dataBlockSize v) data) (v_salt v);
                     (r, L') = verifyBlock H L file block digest in
                 (r, v\<lparr>v_layer0 := Some L'\<rparr>))))"

subsection \<open>The superblock as bytes\<close>

definition write_super_block :: "super_block \<Rightarrow> bytes" where
  "write_super_block sb =
     sb_signature sb @ le_bytes 4 (sb_version sb) @ le_bytes 4 (sb_hashType sb) @ replicate 16 0 @
     sb_algorithm sb @ le_bytes 4 (sb_dataBlockSize sb) @ le_bytes 4 (sb_hashBlockSize sb) @
     le_bytes 8 (sb_dataBlocks sb) @ le_bytes 2 (sb_saltSize sb) @ replicate 6 0 @ sb_salt sb @ replicate 168 0"

definition super_block_fits :: "super_block \<Rightarrow> bool" where
  "super_block_fits sb \<longleftrightarrow>
     length (sb_signature sb) = 8 \<and> sb_version sb < U32_LIMIT \<and> sb_hashType sb < U32_LIMIT \<and>
     length (sb_algorithm sb) = 32 \<and> sb_dataBlockSize sb < U32_LIMIT \<and> sb_hashBlockSize sb < U32_LIMIT \<and>
     sb_dataBlocks sb < SIZE_LIMIT \<and> sb_saltSize sb < 65536 \<and> length (sb_salt sb) = 256"

lemma length_write_super_block: "super_block_fits sb \<Longrightarrow> length (write_super_block sb) = 512"
  by (simp add: write_super_block_def super_block_fits_def)

lemma read_write_super_block:
  assumes "super_block_fits sb"
  shows "read_super_block (write_super_block sb @ rest) = sb"
  using assms length_write_super_block [OF assms]
  by (simp add: read_super_block_def le16_at_value le32_at_value le64_at_value)
     (simp add: write_super_block_def super_block_fits_def le_value_le_bytes)

subsection \<open>The levels are computed in a bounded number of rounds\<close>

lemma div_round_up_decreases: "1 < n \<Longrightarrow> n < SIZE_LIMIT \<Longrightarrow> div_round_up n 128 < n"
proof -
  assume n: "1 < n" "n < SIZE_LIMIT"
  have "div_round_up n 128 \<le> (n + 127) div 128"
    unfolding div_round_up_def sz_add_def sz_sub_def by (simp add: div_le_mono)
  also have "\<dots> < n" using n by simp
  finally show ?thesis .
qed

lemma div_round_up_bound: "n \<le> 128 ^ Suc k \<Longrightarrow> div_round_up n 128 \<le> 128 ^ k"
proof -
  assume n: "n \<le> 128 ^ Suc k"
  have "div_round_up n 128 \<le> (n + 127) div 128"
    unfolding div_round_up_def sz_add_def sz_sub_def by (simp add: div_le_mono)
  also have "\<dots> \<le> (128 * 128 ^ k + 127) div 128" using n by (intro div_le_mono) simp
  finally show ?thesis by simp
qed

lemma upper_levels_ends: "n \<le> 128 ^ k \<Longrightarrow> \<exists>ds. upper_levels 128 n = Some ds \<and> length ds \<le> k"
proof (induction k arbitrary: n)
  case (Suc k)
  then obtain ds where "upper_levels 128 (div_round_up n 128) = Some ds" "length ds \<le> k"
    using div_round_up_bound by blast
  then show ?case by (subst upper_levels.simps) auto
qed (simp add: upper_levels.simps)

text \<open>The number of levels is at most ten, so the reserved sixteen entries are enough.\<close>

theorem layer_details_ends:
  "n < SIZE_LIMIT \<Longrightarrow> \<exists>ds. layer_details (4096 div kSha256DigestSize) n = Some ds \<and> ds \<noteq> [] \<and> length ds \<le> 10"
proof -
  assume "n < SIZE_LIMIT"
  then have "div_round_up n 128 \<le> 128 ^ 9"
    by (intro div_round_up_bound) simp
  from upper_levels_ends [OF this] show ?thesis by (auto simp: layer_details_def)
qed

theorem layer_details_ends_witness: "\<exists>ds. layer_details (4096 div kSha256DigestSize) 70000 = Some ds \<and> ds \<noteq> [] \<and> length ds \<le> 10"
  using layer_details_ends [of 70000] by simp

subsection \<open>The shape of the levels\<close>

text \<open>Each level covers the hash blocks of the level below, and the topmost one has a single block.\<close>

fun levels_from :: "nat \<Rightarrow> (nat \<times> nat) list \<Rightarrow> bool" where
  "levels_from n [] \<longleftrightarrow> n \<le> 1"
| "levels_from n ((h, c) # ds) \<longleftrightarrow> 1 < n \<and> c = n \<and> h = div_round_up n 128 \<and> levels_from h ds"

lemma upper_levels_from: "n < SIZE_LIMIT \<Longrightarrow> upper_levels 128 n = Some ds \<Longrightarrow> levels_from n ds"
proof (induction n arbitrary: ds rule: less_induct)
  case (less n)
  show ?case
  proof (cases "1 < n")
    case True
    note dec = div_round_up_decreases [OF True less.prems(1)]
    from less.prems(2) True obtain ds' where
      "upper_levels 128 (div_round_up n 128) = Some ds'" "ds = (div_round_up n 128, n) # ds'"
      by (subst (asm) upper_levels.simps) (auto simp: bind_eq_Some_conv)
    with less.IH [OF dec] dec less.prems(1) True show ?thesis by auto
  next
    case False
    with less.prems(2) show ?thesis by (subst (asm) upper_levels.simps) auto
  qed
qed

text \<open>The limit on the size of the data keeps the number of blocks away from the end of \<open>size_t\<close>.\<close>

lemma limit_keeps_room:
  assumes "n < SIZE_LIMIT" "sz_mul n 4096 \<le> 512 * 1024 * 1024"
  shows "n + 127 < SIZE_LIMIT"
proof (rule ccontr)
  assume "\<not> n + 127 < SIZE_LIMIT"
  then obtain k where k: "n = SIZE_LIMIT - k" "1 \<le> k" "k \<le> 127"
    using assms(1) by (intro that [of "SIZE_LIMIT - n"]) auto
  then have "n * 4096 = (SIZE_LIMIT - k * 4096) + 4095 * SIZE_LIMIT" by simp
  then have "sz_mul n 4096 = (SIZE_LIMIT - k * 4096) mod SIZE_LIMIT"
    unfolding sz_mul_def by (simp only: mod_mult_self1)
  then have "sz_mul n 4096 = SIZE_LIMIT - k * 4096" using k by simp
  with assms(2) k show False by simp
qed

lemma top_level_fits:
  assumes "levels_from n ds" "1 < n" "n + 127 < SIZE_LIMIT"
  shows "ds \<noteq> [] \<and> snd (last ds) \<le> 128"
  using assms
proof (induction n ds rule: levels_from.induct)
  case (2 n h c ds)
  have h: "h = (n + 127) div 128" using 2 by (simp add: div_round_up_def sz_add_def sz_sub_def)
  show ?case
  proof (cases "1 < h")
    case True
    then show ?thesis using 2 h by (auto simp: neq_Nil_conv split: list.splits)
  next
    case False
    then have "ds = []" using 2 by (cases ds) auto
    moreover have "n \<le> 128" using False h by simp
    ultimately show ?thesis using 2 by simp
  qed
qed simp

subsection \<open>What opening establishes\<close>

lemma add_layers_ok:
  "layer_ok H B salt root 4096 counts L \<Longrightarrow>
   layer_ok H B salt root 4096 (rev (map snd ds) @ counts) (add_layers 4096 salt L off (d # ds))"
proof (induction ds arbitrary: d L off counts)
  case (Cons d' ds)
  then show ?case
    by (simp add: Let_def cache_ok_def del: layer_ok.simps(1,2))
qed simp

lemma add_layers_has_top: "has_top L \<Longrightarrow> has_top (add_layers bs salt L off ds)"
  by (induction bs salt L off ds rule: add_layers.induct) (auto simp: Let_def)

definition verifier_ok :: "(bytes \<Rightarrow> bytes) \<Rightarrow> bytes set \<Rightarrow> verifier \<Rightarrow> bool" where
  "verifier_ok H B v \<longleftrightarrow>
     v_dataBlockSize v = 4096 \<and>
     (\<exists>L. v_layer0 v = Some L \<and> layer_ok H B (v_salt v) (v_rootHash v) 4096 (layer_counts L) L)"

definition genuine_block :: "(bytes \<Rightarrow> bytes) \<Rightarrow> bytes set \<Rightarrow> verifier \<Rightarrow> nat \<Rightarrow> bytes \<Rightarrow> bool" where
  "genuine_block H B v n data \<longleftrightarrow>
     n < v_dataBlockCount v \<and>
     (\<exists>L. v_layer0 v = Some L \<and>
       authentic H B (v_salt v) (v_rootHash v) 4096 (layer_counts L) n (H (v_salt v @ take 4096 data)))"

lemma build_layers_ok:
  assumes details: "layer_details 128 (v_dataBlockCount v) = Some ds"
    and room: "1 < v_dataBlockCount v" "v_dataBlockCount v + 127 < SIZE_LIMIT"
    and sizes: "v_hashBlockSize v = 4096" "v_dataBlockSize v = 4096"
    and within: "blocks_within 4096 B file"
    and built: "build_layers H file v ds = Done v'"
  shows "verifier_ok H B v' \<and> (\<exists>L. v' = v\<lparr>v_layer0 := Some L\<rparr>)"
proof -
  let ?n = "v_dataBlockCount v"
  from details have ds: "levels_from ?n ds" "ds \<noteq> []"
    using room upper_levels_from [of "div_round_up ?n 128"] div_round_up_decreases [OF room(1)]
    by (auto simp: layer_details_def)
  from ds(2) obtain e es where rev: "rev ds = e # es" by (metis list.exhaust rev_is_Nil_conv)
  then have "snd e \<le> 128" using top_level_fits [OF ds(1) room] by (metis last_rev rev_rev_ident list.sel(1) hd_rev)
  let ?off = "sz_add (v_hashesOffset v) 4096"
  let ?top = "topMostHashTreeLayer H file ?off (snd e) 4096 (v_salt v)"
  have top: "m_digest ?top = v_rootHash v"
      and v': "v' = v\<lparr>v_layer0 := Some (add_layers 4096 (v_salt v) ?top ?off (e # es))\<rparr>"
    using built by (auto simp: build_layers_def Let_def rev sizes split: if_splits)
  have "layer_ok H B (v_salt v) (v_rootHash v) 4096 [snd e] ?top"
  proof (cases "pread_full file 4096 ?off")
    case (Some b)
    with within have "b \<in> B" "length b = 4096" by (auto simp: blocks_within_def pread_full_Some)
    with Some top \<open>snd e \<le> 128\<close> show ?thesis by (simp add: topMostHashTreeLayer_def sha256Digest_append)
  qed (use \<open>snd e \<le> 128\<close> in \<open>simp add: topMostHashTreeLayer_def\<close>)
  from add_layers_ok [OF this, of es ?off e] show ?thesis
    using v' sizes layer_ok_counts by (fastforce simp: verifier_ok_def)
qed

text \<open>What the checks of the superblock leave: one data block, or a tree of hash blocks.\<close>

lemma parse_cases:
  assumes "parseDmVeritySuperBlock H file v = Some (Done v')"
  obtains w where "v_rootHash w = v_rootHash v" "v_hashesOffset w = v_hashesOffset v" "v_dataBlockSize w = 4096"
    "v_hashBlockSize w = 4096" "v_dataBlockCount w + 127 < SIZE_LIMIT"
    "v_dataBlockCount w = 1 \<and> v' = w\<lparr>v_layer0 := Some (SingleDataBlockLayer (v_rootHash w))\<rparr> \<or>
     1 < v_dataBlockCount w \<and>
     (\<exists>ds. layer_details 128 (v_dataBlockCount w) = Some ds \<and> build_layers H file w ds = Done v')"
proof -
  from assms obtain buf where buf: "pread_full file 4096 (v_hashesOffset v) = Some buf"
    by (auto simp: parseDmVeritySuperBlock_def split: option.splits)
  let ?sb = "read_super_block buf"
  define w where "w = v\<lparr>v_hashBlockSize := sb_hashBlockSize ?sb, v_dataBlockSize := sb_dataBlockSize ?sb,
    v_dataBlockCount := sb_dataBlocks ?sb, v_salt := take (sb_saltSize ?sb) (sb_salt ?sb),
    v_hashesPerBlock := sb_hashBlockSize ?sb div kSha256DigestSize\<rparr>"
  have chk: "checkSuperBlock ?sb = Done ()"
    using assms buf by (auto simp: parseDmVeritySuperBlock_def Let_def split: outcome.splits)
  then have sizes: "sb_hashBlockSize ?sb = 4096" "sb_dataBlockSize ?sb = 4096"
    by (auto simp: checkSuperBlock_def split: if_splits)
  have eq: "(if v_dataBlockCount w = 0 \<or> sz_mul (v_dataBlockCount w) (v_dataBlockSize w) > 512 * 1024 * 1024
      then Some (Fail (TooManyDataBlocks (v_dataBlockCount w)))
      else if v_dataBlockCount w = 1 then Some (Done (w\<lparr>v_layer0 := Some (SingleDataBlockLayer (v_rootHash w))\<rparr>))
      else map_option (build_layers H file w) (layer_details (v_hashesPerBlock w) (v_dataBlockCount w))) = Some (Done v')"
    using assms buf chk by (simp only: parseDmVeritySuperBlock_def Let_def w_def option.case outcome.case)
  have keep: "v_rootHash w = v_rootHash v" "v_hashesOffset w = v_hashesOffset v" "v_dataBlockSize w = 4096"
      "v_hashBlockSize w = 4096" "v_hashesPerBlock w = 128" by (auto simp: w_def sizes)
  from eq have limits: "v_dataBlockCount w \<noteq> 0" "sz_mul (v_dataBlockCount w) 4096 \<le> 512 * 1024 * 1024"
    by (auto simp: keep split: if_splits)
  have room: "v_dataBlockCount w + 127 < SIZE_LIMIT"
    by (rule limit_keeps_room [OF _ limits(2)]) (simp add: w_def read_super_block_def)
  from eq limits have "v_dataBlockCount w = 1 \<and> v' = w\<lparr>v_layer0 := Some (SingleDataBlockLayer (v_rootHash w))\<rparr> \<or>
     1 < v_dataBlockCount w \<and>
     (\<exists>ds. layer_details 128 (v_dataBlockCount w) = Some ds \<and> build_layers H file w ds = Done v')"
    by (cases "v_dataBlockCount w = 1") (auto simp: keep)
  with that keep room show thesis by blast
qed

lemma parse_ok:
  assumes "parseDmVeritySuperBlock H file v = Some (Done v')" "blocks_within 4096 B file"
  shows "verifier_ok H B v' \<and> v_rootHash v' = v_rootHash v \<and> v_hashesOffset v' = v_hashesOffset v"
  using assms(1)
proof (cases rule: parse_cases)
  case (1 w)
  then show ?thesis
    using build_layers_ok [OF _ _ 1(5) 1(4) 1(3) assms(2)] by (fastforce simp: verifier_ok_def)
qed

lemma verifier_open_parse:
  "verifier_open H file root off sz = Some (Done v) \<Longrightarrow>
   \<exists>w. parseDmVeritySuperBlock H file w = Some (Done v) \<and> v_rootHash w = root"
  by (auto simp: verifier_open_def Let_def split: if_splits)

lemma verifier_open_ok:
  assumes "verifier_open H file root off sz = Some (Done v)" "blocks_within 4096 B file"
  shows "verifier_ok H B v" "v_rootHash v = root"
  using verifier_open_parse [OF assms(1)] parse_ok [OF _ assms(2)] by fastforce+

subsection \<open>The verifier implements the interface\<close>

lemma verify_ok:
  assumes "verifier_ok H B v" "blocks_within 4096 B file" "verify H v file n d = (r, v')"
  shows "verifier_ok H B v' \<and> genuine_block H B v' = genuine_block H B v \<and> (r = Done True \<longrightarrow> genuine_block H B v n d)"
proof -
  obtain L where L: "v_layer0 v = Some L" "v_dataBlockSize v = 4096"
      "layer_ok H B (v_salt v) (v_rootHash v) 4096 (layer_counts L) L"
    using assms(1) by (auto simp: verifier_ok_def)
  obtain q L' where q: "verifyBlock H L file n (sha256Digest H (take 4096 d) (v_salt v)) = (q, L')"
    by fastforce
  note step = verifyBlock_ok [OF assms(2) L(3) q]
  then have "layer_counts L' = layer_counts L" using layer_ok_counts by metis
  with step q L assms(3) show ?thesis
    by (auto simp: verify_def verifier_ok_def genuine_block_def sha256Digest_append Let_def fun_eq_iff split: if_splits)
qed

interpretation verifier: authenticator "verify H" "verifier_ok H B" "genuine_block H B" "blocks_within 4096 B"
  for H B
  by unfold_locales (use verify_ok in blast)+

subsection \<open>Runs of checks\<close>

fun verify_run :: "(bytes \<Rightarrow> bytes) \<Rightarrow> verifier \<Rightarrow> (bytes \<times> nat \<times> bytes) list \<Rightarrow> verifier" where
  "verify_run H v [] = v"
| "verify_run H v ((file, n, d) # cs) = verify_run H (snd (verify H v file n d)) cs"

lemma verify_run_ok:
  "verifier_ok H B v \<Longrightarrow> (\<And>file n d. (file, n, d) \<in> set cs \<Longrightarrow> blocks_within 4096 B file) \<Longrightarrow>
   verifier_ok H B (verify_run H v cs) \<and> genuine_block H B (verify_run H v cs) = genuine_block H B v"
proof (induction cs arbitrary: v)
  case (Cons c cs)
  obtain f n d where c: "c = (f, n, d)" by (cases c)
  obtain r v' where step: "verify H v f n d = (r, v')" by fastforce
  have "blocks_within 4096 B f" using Cons.prems(2) c by auto
  from verifier.check_step [OF Cons.prems(1) this step]
  have "verifier_ok H B v'" "genuine_block H B v' = genuine_block H B v" by auto
  with Cons.IH [OF this(1)] Cons.prems(2) c step show ?case by auto
qed simp

lemma genuine_unique:
  assumes "collision_free H (v_salt v) B" "genuine_block H B v n d" "genuine_block H B v n d'"
    "d \<in> B" "d' \<in> B" "length d = 4096" "length d' = 4096"
  shows "d = d'"
proof -
  from assms(2,3,6,7) have "H (v_salt v @ d) = H (v_salt v @ d')"
    by (auto simp: genuine_block_def dest: authentic_unique [OF assms(1)])
  with assms(1,4,5) show ?thesis by (auto simp: collision_free_def inj_on_def)
qed

text \<open>
  The root hash fixes the data: after any two runs of checks, over hash files that may differ
  and change from check to check, two data blocks accepted for the same index are equal, unless
  the hash has a collision among the blocks that occur.
\<close>

theorem root_hash_binds_data:
  assumes open_ok: "verifier_open H file root off sz = Some (Done v)" "blocks_within 4096 B file"
    and free: "collision_free H (v_salt v) B"
    and runs: "\<forall>(f, n, d) \<in> set (cs @ cs'). blocks_within 4096 B f"
    and files: "blocks_within 4096 B f1" "blocks_within 4096 B f2"
    and data: "d1 \<in> B" "d2 \<in> B" "length d1 = 4096" "length d2 = 4096"
    and accepted: "fst (verify H (verify_run H v cs) f1 n d1) = Done True"
      "fst (verify H (verify_run H v cs') f2 n d2) = Done True"
  shows "d1 = d2"
proof -
  note ok = verifier_open_ok(1) [OF open_ok]
  have run: "verifier_ok H B (verify_run H v cs) \<and> genuine_block H B (verify_run H v cs) = genuine_block H B v"
      "verifier_ok H B (verify_run H v cs') \<and> genuine_block H B (verify_run H v cs') = genuine_block H B v"
    using runs by (auto intro!: verify_run_ok [OF ok])
  have "genuine_block H B v n d1" "genuine_block H B v n d2"
    using verifier.check_sound [OF _ files(1)] verifier.check_sound [OF _ files(2)] run accepted
    by (metis prod.collapse)+
  from genuine_unique [OF free this data] show ?thesis .
qed

subsection \<open>No check reads outside a buffer\<close>

lemma parse_has_top:
  assumes "parseDmVeritySuperBlock H file v = Some (Done v')" "v_rootHash v \<noteq> replicate 32 0"
  shows "\<exists>L. v_layer0 v' = Some L \<and> has_top L"
  using assms
  by (auto simp: parseDmVeritySuperBlock_def build_layers_def topMostHashTreeLayer_def Let_def
      split: option.splits outcome.splits if_splits intro!: add_layers_has_top)

lemma verify_run_has_top:
  "\<exists>L. v_layer0 v = Some L \<and> has_top L \<Longrightarrow> \<exists>L. v_layer0 (verify_run H v cs) = Some L \<and> has_top L"
proof (induction cs arbitrary: v)
  case (Cons c cs)
  obtain f n d where c: "c = (f, n, d)" by (cases c)
  from Cons.prems obtain L where L: "v_layer0 v = Some L" "has_top L" by blast
  obtain q L' where q: "verifyBlock H L f n (sha256Digest H (take (v_dataBlockSize v) d) (v_salt v)) = (q, L')"
    by fastforce
  have "\<exists>L. v_layer0 (snd (verify H v f n d)) = Some L \<and> has_top L"
    using L q verifyBlock_defined [OF L(2) q] by (auto simp: verify_def Let_def)
  then show ?case using Cons.IH c by simp
qed simp

text \<open>
  Whatever the hashes file holds and whatever is asked of it, no check of an opened verifier
  reads outside a buffer, if the root hash is not all zero: a topmost hash block that could not be
  read leaves a null pointer behind a digest of zeros, and only that root hash lets it pass.
\<close>

theorem verify_never_undefined:
  assumes "verifier_open H file root off sz = Some (Done v)" "root \<noteq> replicate 32 0" "length d = 4096"
  shows "defined (fst (verify H (verify_run H v cs) f n d))"
proof -
  from verifier_open_parse [OF assms(1)] obtain w where
    "parseDmVeritySuperBlock H file w = Some (Done v)" "v_rootHash w = root" by blast
  from parse_has_top [OF this(1)] this(2) assms(2)
  obtain L where L: "v_layer0 (verify_run H v cs) = Some L" "has_top L"
    using verify_run_has_top by blast
  have "v_dataBlockSize (verify_run H u cs) = v_dataBlockSize u" for u
    by (induction H u cs rule: verify_run.induct) (auto simp: verify_def Let_def split: option.splits prod.splits)
  moreover have "v_dataBlockSize v = 4096"
    using verifier_open_ok(1) [OF assms(1), of UNIV] by (simp add: verifier_ok_def blocks_within_def)
  ultimately show ?thesis
    using L verifyBlock_defined [OF L(2)] assms(3)
    by (fastforce simp: verify_def Let_def split: prod.splits)
qed

end
