(* ===== verification/HonestTree.thy ===== *)
theory HonestTree
  imports DmVerity
begin

section \<open>The hash tree verified without caches, and trees that are accepted\<close>

text \<open>
  Two specifications of the verifier.  The first one checks a block against the hashes file and
  caches nothing; the verifier agrees with it while the file does not change.  The second one is
  the layout that \<open>veritysetup format\<close> writes and \<open>DmVerityVerifier::parseDmVeritySuperBlock\<close>
  expects: every image laid out that way is accepted block by block.
\<close>

subsection \<open>The check without a cache\<close>

fun check_uncached :: "(bytes \<Rightarrow> bytes) \<Rightarrow> layer \<Rightarrow> bytes \<Rightarrow> nat \<Rightarrow> bytes \<Rightarrow> bool" where
  "check_uncached H (SingleDataBlockLayer root) file n digest \<longleftrightarrow> n = 0 \<and> root = digest"
| "check_uncached H (TopMostHashTreeLayer cnt hpb hb d) file n digest \<longleftrightarrow>
     n < cnt \<and> hash_at (the hb) hpb n = digest"
| "check_uncached H (HashTreeLayer parent off cnt hbs hpb salt cache) file n digest \<longleftrightarrow>
     n < cnt \<and>
     (case pread_full file hbs (sz_add off (sz_mul (n div hpb) hbs)) of
        None \<Rightarrow> False
      | Some b \<Rightarrow> check_uncached H parent file (n div hpb) (H (salt @ b)) \<and> hash_at b hpb n = digest)"

text \<open>Every cached block is the one in the file, and the layer above has accepted it.\<close>

fun cache_fresh :: "(bytes \<Rightarrow> bytes) \<Rightarrow> bytes \<Rightarrow> layer \<Rightarrow> bool" where
  "cache_fresh H file (HashTreeLayer parent off cnt hbs hpb salt cache) \<longleftrightarrow>
     cache_fresh H file parent \<and>
     (\<forall>(k, b) \<in> set cache. pread_full file hbs (sz_add off (sz_mul k hbs)) = Some b \<and>
        check_uncached H parent file k (H (salt @ b)))"
| "cache_fresh H file _ \<longleftrightarrow> True"

lemma verifyBlock_uncached:
  "cache_fresh H file L \<Longrightarrow> has_top L \<Longrightarrow> verifyBlock H L file n d = (r, L') \<Longrightarrow>
   r = Done (check_uncached H L file n d) \<and> cache_fresh H file L' \<and> has_top L' \<and>
   (\<forall>m e. check_uncached H L' file m e = check_uncached H L file m e)"
proof (induction L arbitrary: n d r L')
  case (HashTreeLayer parent off cnt hbs hpb salt cache)
  let ?idx = "n div hpb"
  have fresh: "cache_fresh H file parent" "has_top parent" and cached: "\<And>k b. (k, b) \<in> set cache \<Longrightarrow>
      pread_full file hbs (sz_add off (sz_mul k hbs)) = Some b \<and> check_uncached H parent file k (H (salt @ b))"
    using HashTreeLayer.prems by auto
  show ?case
  proof (cases "map_of cache ?idx")
    case (Some b)
    from cached [OF map_of_SomeD [OF this]] show ?thesis
      using HashTreeLayer.prems Some by (auto split: if_splits)
  next
    case None
    note miss = None
    show ?thesis
    proof (cases "pread_full file hbs (sz_add off (sz_mul ?idx hbs))")
      case None
      then show ?thesis using HashTreeLayer.prems miss by (auto split: if_splits)
    next
      case (Some b)
      obtain q p where q: "verifyBlock H parent file ?idx (H (salt @ b)) = (q, p)" by fastforce
      from HashTreeLayer.IH [OF fresh q]
      have IH: "q = Done (check_uncached H parent file ?idx (H (salt @ b)))" "cache_fresh H file p" "has_top p"
          "\<And>m e. check_uncached H p file m e = check_uncached H parent file m e" by auto
      have new: "(k, c) \<in> set (cache_add ?idx b cache) \<Longrightarrow> check_uncached H parent file ?idx (H (salt @ b)) \<Longrightarrow>
          pread_full file hbs (sz_add off (sz_mul k hbs)) = Some c \<and> check_uncached H parent file k (H (salt @ c))" for k c
        using cached Some cache_add_set [of ?idx b cache] by blast
      show ?thesis
      proof (cases "cnt \<le> n")
        case True
        then show ?thesis using HashTreeLayer.prems by auto
      next
        case False
        then show ?thesis
        proof (cases "check_uncached H parent file ?idx (H (salt @ b))")
          case True
          then have "r = Done (hash_at b hpb n = d)" "L' = HashTreeLayer p off cnt hbs hpb salt (cache_add ?idx b cache)"
            using HashTreeLayer.prems(3) miss Some q IH(1) False by (auto simp: sha256Digest_append)
          with True False Some IH(2,3,4) new [OF _ True] show ?thesis by (auto split: option.splits)
        next
          case not: False
          then have "r = Done False" "L' = HashTreeLayer p off cnt hbs hpb salt cache"
            using HashTreeLayer.prems(3) miss Some q IH(1) False by (auto simp: sha256Digest_append)
          with not False Some IH(2,3,4) cached show ?thesis by (auto split: option.splits)
        qed
      qed
    qed
  qed
qed (auto split: if_splits option.splits)

text \<open>The verifier without caches.\<close>

definition verify_uncached :: "(bytes \<Rightarrow> bytes) \<Rightarrow> verifier \<Rightarrow> bytes \<Rightarrow> nat \<Rightarrow> bytes \<Rightarrow> bool" where
  "verify_uncached H v file n data \<longleftrightarrow>
     n < v_dataBlockCount v \<and>
     (case v_layer0 v of None \<Rightarrow> False
      | Some L \<Rightarrow> check_uncached H L file n (H (v_salt v @ take (v_dataBlockSize v) data)))"

definition verifier_fresh :: "(bytes \<Rightarrow> bytes) \<Rightarrow> bytes \<Rightarrow> verifier \<Rightarrow> bool" where
  "verifier_fresh H file v \<longleftrightarrow> (\<exists>L. v_layer0 v = Some L \<and> has_top L \<and> cache_fresh H file L)"

lemma verify_uncached_step:
  assumes "verifier_fresh H file v" "v_dataBlockSize v \<le> length d"
  shows "fst (verify H v file n d) = Done (verify_uncached H v file n d)"
proof -
  obtain L where L: "v_layer0 v = Some L" "has_top L" "cache_fresh H file L"
    using assms(1) by (auto simp: verifier_fresh_def)
  obtain r L' where step: "verifyBlock H L file n (sha256Digest H (take (v_dataBlockSize v) d) (v_salt v)) = (r, L')"
    by fastforce
  from verifyBlock_uncached [OF L(3,2) step] L step assms(2) show ?thesis
    by (auto simp: verify_def verify_uncached_def Let_def sha256Digest_append)
qed

lemma verify_uncached_keep:
  assumes "verifier_fresh H file v"
  shows "verifier_fresh H file (snd (verify H v file n d)) \<and>
    verify_uncached H (snd (verify H v file n d)) file = verify_uncached H v file \<and>
    v_dataBlockSize (snd (verify H v file n d)) = v_dataBlockSize v"
proof -
  obtain L where L: "v_layer0 v = Some L" "has_top L" "cache_fresh H file L"
    using assms by (auto simp: verifier_fresh_def)
  obtain r L' where step: "verifyBlock H L file n (sha256Digest H (take (v_dataBlockSize v) d) (v_salt v)) = (r, L')"
    by fastforce
  from verifyBlock_uncached [OF L(3,2) step] L step show ?thesis
    by (auto simp: verify_def verifier_fresh_def verify_uncached_def Let_def fun_eq_iff)
qed

lemma add_layers_fresh: "cache_fresh H file L \<Longrightarrow> cache_fresh H file (add_layers hbs salt L off ds)"
  by (induction hbs salt L off ds rule: add_layers.induct) (auto simp: Let_def)

lemma open_fresh:
  assumes "verifier_open H file root off sz = Some (Done v)" "root \<noteq> replicate 32 0"
  shows "verifier_fresh H file' v"
proof -
  from verifier_open_parse [OF assms(1)] obtain w where
    w: "parseDmVeritySuperBlock H file w = Some (Done v)" "v_rootHash w = root" by blast
  from parse_has_top [OF w(1)] w(2) assms(2) obtain L where L: "v_layer0 v = Some L" "has_top L" by blast
  have "cache_fresh H file' L"
    using w(1) L(1)
    by (auto simp: parseDmVeritySuperBlock_def build_layers_def topMostHashTreeLayer_def Let_def
        split: option.splits outcome.splits if_splits intro!: add_layers_fresh)
  with L show ?thesis by (simp add: verifier_fresh_def)
qed

lemma run_uncached:
  assumes "verifier_fresh H file v" "v_dataBlockSize v = 4096" "length d = 4096"
  shows "fst (verify H (verify_run H v (map (\<lambda>(n, e). (file, n, e)) cs)) file n d) =
    Done (verify_uncached H v file n d)"
  using assms
proof (induction cs arbitrary: v)
  case Nil
  then show ?case by (simp add: verify_uncached_step)
next
  case (Cons c cs)
  obtain m e where "c = (m, e)" by (cases c)
  with Cons verify_uncached_keep [of H "file" v m e] show ?case by simp
qed

lemma verifier_open_blockSize: "verifier_open H file root off sz = Some (Done v) \<Longrightarrow> v_dataBlockSize v = 4096"
  using verifier_open_ok(1) [of H "file" root off sz v UNIV] by (simp add: verifier_ok_def blocks_within_def)

text \<open>
  The caches are transparent: while the hashes file does not change, the answer after any
  sequence of earlier checks is the answer of a verifier that caches nothing.
\<close>

theorem caches_are_transparent:
  assumes "verifier_open H file root off sz = Some (Done v)" "root \<noteq> replicate 32 0" "length d = 4096"
  shows "fst (verify H (verify_run H v (map (\<lambda>(n, e). (file, n, e)) cs)) file n d) =
    Done (verify_uncached H v file n d)"
  using run_uncached [OF open_fresh [OF assms(1,2)] verifier_open_blockSize [OF assms(1)] assms(3)] .

text \<open>No layer ever holds more than 64 blocks in its cache, whatever is asked of the verifier.\<close>

theorem caches_stay_bounded:
  assumes "verifier_open H file root off sz = Some (Done v)"
  shows "list_all (\<lambda>k. k \<le> kMaxCacheBlocks) (layer_caches (the (v_layer0 (verify_run H v cs))))"
proof -
  have "blocks_within 4096 UNIV f" for f by (simp add: blocks_within_def)
  with verify_run_ok [OF verifier_open_ok(1) [OF assms(1)], of UNIV cs]
  show ?thesis by (auto simp: verifier_ok_def list_all_iff dest: layer_ok_caches)
qed

subsection \<open>The layout of an honest tree\<close>

definition pad_block :: "bytes \<Rightarrow> bytes" where
  "pad_block b = b @ replicate (4096 - length b) 0"

text \<open>The hash blocks of a level: the salted digests of up to 128 blocks, padded with zeros.\<close>

definition hash_blocks :: "(bytes \<Rightarrow> bytes) \<Rightarrow> bytes \<Rightarrow> bytes list \<Rightarrow> bytes list" where
  "hash_blocks H salt blocks =
     map (\<lambda>i. pad_block (concat (map (\<lambda>b. H (salt @ b)) (slice (i * 128) 128 blocks))))
       [0..<(length blocks + 127) div 128]"

lemma length_hash_blocks [simp]: "length (hash_blocks H salt bs) = (length bs + 127) div 128"
  by (simp add: hash_blocks_def)

text \<open>The levels above the data, bottom first, up to the one with a single block.\<close>

function tree_levels :: "(bytes \<Rightarrow> bytes) \<Rightarrow> bytes \<Rightarrow> bytes list \<Rightarrow> bytes list list" where
  "tree_levels H salt bs =
     (if length bs \<le> 1 then [] else hash_blocks H salt bs # tree_levels H salt (hash_blocks H salt bs))"
  by auto
termination by (relation "measure (\<lambda>(H, salt, bs). length bs)") auto

declare tree_levels.simps [simp del]

definition tree_root :: "(bytes \<Rightarrow> bytes) \<Rightarrow> bytes \<Rightarrow> bytes list \<Rightarrow> bytes" where
  "tree_root H salt bs = H (salt @ hd (last ([bs] @ tree_levels H salt bs)))"

text \<open>The superblock comes first, then the levels from the topmost one down.\<close>

definition hashes_file :: "(bytes \<Rightarrow> bytes) \<Rightarrow> super_block \<Rightarrow> bytes list \<Rightarrow> bytes" where
  "hashes_file H sb bs =
     pad_block (write_super_block sb) @ concat (concat (rev (tree_levels H (take (sb_saltSize sb) (sb_salt sb)) bs)))"

subsection \<open>Blocks inside a file\<close>

lemma concat_nth:
  assumes "\<forall>b \<in> set bs. length b = n" "i < length bs"
  shows "slice (i * n) n (concat bs @ post) = bs ! i"
  using assms
proof (induction bs arbitrary: i)
  case (Cons b bs)
  show ?case
  proof (cases i)
    case (Suc k)
    then have "slice (i * n) n (concat (b # bs) @ post) = slice (k * n) n (concat bs @ post)"
      using Cons.prems by (simp add: slice_def)
    with Cons Suc show ?thesis by simp
  qed (use Cons.prems in \<open>simp add: slice_def\<close>)
qed simp

lemma length_concat_same: "\<forall>b \<in> set bs. length b = n \<Longrightarrow> length (concat bs) = length bs * n"
  by (induction bs) auto

lemma drop_append_eq: "drop off xs = ys @ zs \<Longrightarrow> drop (off + length ys) xs = zs"
  by (metis append_eq_conv_conj drop_drop add.commute)

text \<open>A level that starts at an offset of the file is read back block by block.\<close>

lemma pread_level:
  assumes "drop off file = concat bs @ post" "\<forall>b \<in> set bs. length b = 4096" "i < length bs"
  shows "pread_full file 4096 (off + i * 4096) = Some (bs ! i)"
proof -
  have "slice (off + i * 4096) 4096 file = slice (i * 4096) 4096 (drop off file)"
    by (simp add: slice_def add.commute)
  also have "\<dots> = bs ! i" unfolding assms(1) using concat_nth [OF assms(2,3)] .
  finally show ?thesis using assms(2,3) by (simp add: pread_full_Some)
qed

lemma hash_at_block:
  assumes "\<And>b. length (H b) = 32" "i < length bs"
  shows "hash_at (hash_blocks H salt bs ! (i div 128)) 128 i = H (salt @ bs ! i)"
proof -
  let ?part = "slice (i div 128 * 128) 128 bs"
  have i: "i = i div 128 * 128 + i mod 128" by simp
  have idx: "i div 128 < (length bs + 127) div 128" using assms(2) by linarith
  have "i mod 128 < length bs - i div 128 * 128" using assms(2) i by linarith
  then have idx2: "i mod 128 < length ?part" by (simp add: slice_def)
  have nth: "?part ! (i mod 128) = bs ! i"
    using slice_nth [of "i mod 128" 128 "i div 128 * 128" bs] assms(2) by simp
  have "slice (i mod 128 * 32) 32 (concat (map (\<lambda>b. H (salt @ b)) ?part) @ post) = H (salt @ bs ! i)" for post
    using concat_nth [of "map (\<lambda>b. H (salt @ b)) ?part" 32 "i mod 128" post] idx2 assms(1) nth by simp
  then show ?thesis using idx by (simp add: hash_at_def hash_blocks_def pad_block_def del: concat_map_singleton)
qed

lemma hash_blocks_length:
  assumes "\<And>b. length (H b) = 32"
  shows "\<forall>b \<in> set (hash_blocks H salt bs). length b = 4096"
proof -
  have "length (concat (map (\<lambda>b. H (salt @ b)) (slice k 128 bs))) \<le> 4096" for k
    using length_concat_same [of "map (\<lambda>b. H (salt @ b)) (slice k 128 bs)" 32] assms length_slice_le [of k 128 bs]
    by simp
  then show ?thesis by (auto simp: hash_blocks_def pad_block_def)
qed

subsection \<open>Honest trees are accepted\<close>

lemma tree_levels_1 [simp]: "length bs \<le> 1 \<Longrightarrow> tree_levels H salt bs = []"
  by (simp add: tree_levels.simps)

lemma tree_levels_more:
  "1 < length bs \<Longrightarrow> tree_levels H salt bs = hash_blocks H salt bs # tree_levels H salt (hash_blocks H salt bs)"
  by (subst tree_levels.simps) simp

definition level_sizes :: "(bytes \<Rightarrow> bytes) \<Rightarrow> bytes \<Rightarrow> bytes list \<Rightarrow> (nat \<times> nat) list" where
  "level_sizes H salt bs =
     zip (map length (tree_levels H salt bs)) (map length (bs # tree_levels H salt bs))"

lemma level_sizes_simps:
  "length bs \<le> 1 \<Longrightarrow> level_sizes H salt bs = []"
  "1 < length bs \<Longrightarrow> level_sizes H salt bs =
     ((length bs + 127) div 128, length bs) # level_sizes H salt (hash_blocks H salt bs)"
  by (simp_all add: level_sizes_def tree_levels_more)

lemma upper_levels_tree:
  "length bs + 127 < SIZE_LIMIT \<Longrightarrow> upper_levels 128 (length bs) = Some (level_sizes H salt bs)"
proof (induction H salt bs rule: tree_levels.induct)
  case (1 H salt bs)
  show ?case
  proof (cases "length bs \<le> 1")
    case False
    have "(length bs + 127) div 128 + 127 < SIZE_LIMIT" using 1(2) by linarith
    with 1 False show ?thesis
      by (subst upper_levels.simps)
         (simp add: level_sizes_simps div_round_up_def sz_add_def sz_sub_def)
  qed (simp add: upper_levels.simps level_sizes_simps)
qed

lemma layer_details_tree:
  assumes "1 < length bs" "length bs + 127 < SIZE_LIMIT"
  shows "layer_details 128 (length bs) = Some (level_sizes H salt bs)"
proof -
  have "upper_levels 128 (length bs) = map_option ((#) (div_round_up (length bs) 128, length bs))
      (upper_levels 128 (div_round_up (length bs) 128))"
    using assms(1) by (subst upper_levels.simps) (auto split: option.split bind_splits)
  then show ?thesis using upper_levels_tree [OF assms(2), of H salt] by (simp add: layer_details_def)
qed

lemma sum_level_sizes: "sum_list (map fst (level_sizes H salt bs)) = length (concat (tree_levels H salt bs))"
  by (simp add: level_sizes_def length_concat map_fst_zip_take)

lemma tree_is_small: "bs \<noteq> [] \<Longrightarrow> length (concat (tree_levels H salt bs)) < length bs"
proof (induction H salt bs rule: tree_levels.induct)
  case (1 H salt bs)
  show ?case
  proof (cases "length bs \<le> 1")
    case False
    let ?hs = "hash_blocks H salt bs"
    have hs: "?hs \<noteq> []" using False by (simp add: hash_blocks_def)
    have "length (concat (tree_levels H salt ?hs)) < length ?hs" using 1(1) [OF False hs] .
    moreover have "length ?hs = 1 \<or> 2 * length ?hs \<le> length bs" using False by (simp, linarith)
    moreover have "length (concat (tree_levels H salt ?hs)) = 0" if "length ?hs = 1"
      using that by simp
    ultimately show ?thesis using False by (auto simp: tree_levels_more)
  qed (use 1 in simp)
qed

lemma add_layers_snoc:
  "add_layers hbs salt L off (ds @ [d', d]) =
   HashTreeLayer (add_layers hbs salt L off (ds @ [d'])) (foldl (\<lambda>o' e. sz_add o' (sz_mul (fst e) hbs)) off (ds @ [d']))
     (snd d) hbs (hbs div 32) salt []"
proof (induction ds arbitrary: L off)
  case (Cons e ds)
  then show ?case by (cases ds) (auto simp: Let_def)
qed (simp add: Let_def)

lemma level_offset:
  "off + 4096 * sum_list (map fst ds) < SIZE_LIMIT \<Longrightarrow>
   foldl (\<lambda>o' e. sz_add o' (sz_mul (fst e) 4096)) off ds = off + 4096 * sum_list (map fst ds)"
  by (induction ds arbitrary: off) (auto simp: wrap_simps algebra_simps)

lemma total_hash_blocks_small:
  "n + sum_list (map fst ds) < SIZE_LIMIT \<Longrightarrow> foldl sz_add n (map fst ds) = n + sum_list (map fst ds)"
  by (induction ds arbitrary: n) (auto simp: wrap_simps)

lemma tree_levels_length:
  assumes "\<And>b. length (H b) = 32"
  shows "\<forall>l \<in> set (tree_levels H salt bs). \<forall>b \<in> set l. length b = 4096"
  using assms
proof (induction H salt bs rule: tree_levels.induct)
  case (1 H salt bs)
  then show ?case
    using hash_blocks_length [of H salt bs] by (cases "length bs \<le> 1") (auto simp: tree_levels_more)
qed

lemma tree_accepts:
  assumes "\<And>b. length (H b) = 32" "1 < length bs"
    "drop off file = concat (concat (rev (tree_levels H salt bs))) @ post"
    "off + 4096 * length bs < SIZE_LIMIT"
  defines "ds \<equiv> rev (level_sizes H salt bs)"
  shows "\<exists>L. topMostHashTreeLayer H file off (snd (hd ds)) 4096 salt = L \<and> has_top L \<and>
    m_digest L = tree_root H salt bs \<and>
    (\<forall>i < length bs. check_uncached H (add_layers 4096 salt L off ds) file i (H (salt @ bs ! i)))"
  using assms(2-4) unfolding ds_def
proof (induction "length bs" arbitrary: bs post rule: less_induct)
  case less
  let ?hs = "hash_blocks H salt bs"
  have fits: "\<forall>b \<in> set ?hs. length b = 4096" by (rule hash_blocks_length [OF assms(1)])
  have smaller: "length ?hs < length bs" using less.prems(1) by simp
  note at = hash_at_block [where H = H and bs = bs and salt = salt, OF assms(1)]
  show ?case
  proof (cases "1 < length ?hs")
    case False
    then have one: "length ?hs = 1" "length bs \<le> 128" using less.prems(1) by simp_all
    then have levels: "tree_levels H salt bs = [?hs]" "level_sizes H salt bs = [(1, length bs)]"
      using less.prems(1) by (simp_all add: tree_levels_more level_sizes_simps)
    have "pread_full file 4096 off = Some (?hs ! 0)"
      using pread_level [of off "file" ?hs post 0] less.prems(2) fits one levels by simp
    moreover have "tree_root H salt bs = H (salt @ ?hs ! 0)"
      using one by (simp add: tree_root_def levels hd_conv_nth flip: length_greater_0_conv)
    moreover have "hash_at (?hs ! 0) 128 i = H (salt @ bs ! i)" if "i < length bs" for i
      using at [OF that] that one by simp
    ultimately show ?thesis
      by (simp add: levels topMostHashTreeLayer_def sha256Digest_append)
  next
    case True
    have levels: "tree_levels H salt bs = ?hs # tree_levels H salt ?hs"
        "level_sizes H salt bs = (length ?hs, length bs) # level_sizes H salt ?hs"
      using less.prems(1) by (simp_all add: tree_levels_more level_sizes_simps)
    let ?up = "concat (concat (rev (tree_levels H salt ?hs)))"
    have split: "drop off file = ?up @ (concat ?hs @ post)" using less.prems(2) by (simp add: levels)
    have "off + 4096 * length ?hs < SIZE_LIMIT" using smaller less.prems(3) by linarith
    from less.hyps [OF smaller True split this] obtain L where
      L: "topMostHashTreeLayer H file off (snd (hd (rev (level_sizes H salt ?hs)))) 4096 salt = L" "has_top L"
        "m_digest L = tree_root H salt ?hs"
      and IH: "\<And>i. i < length ?hs \<Longrightarrow> check_uncached H (add_layers 4096 salt L off (rev (level_sizes H salt ?hs))) file i
        (H (salt @ ?hs ! i))" by blast
    have "level_sizes H salt ?hs \<noteq> []" using True by (simp add: level_sizes_simps)
    then obtain es e where es: "rev (level_sizes H salt ?hs) = es @ [e]" by (metis rev_exhaust rev_is_Nil_conv)
    let ?total = "length (concat (tree_levels H salt ?hs))"
    have total: "?total < length ?hs" using tree_is_small [of ?hs H salt] True by fastforce
    have sum: "sum_list (map fst (es @ [e])) = ?total"
      unfolding es [symmetric] by (simp add: sum_level_sizes rev_map [symmetric])
    have off': "foldl (\<lambda>o' e. sz_add o' (sz_mul (fst e) 4096)) off (es @ [e]) = off + 4096 * ?total"
      using level_offset [of off "es @ [e]"] sum total smaller less.prems(3) by simp
    have blocks: "\<forall>b \<in> set (concat (rev (tree_levels H salt ?hs))). length b = 4096"
      using tree_levels_length [OF assms(1)] by fastforce
    have "drop (off + 4096 * ?total) file = concat ?hs @ post"
      using drop_append_eq [OF split] length_concat_same [OF blocks]
      by (simp add: length_concat rev_map [symmetric] mult.commute)
    then have pread: "pread_full file 4096 (off + 4096 * ?total + i * 4096) = Some (?hs ! i)" if "i < length ?hs" for i
      using pread_level fits that by blast
    have small: "off + 4096 * ?total + i * 4096 < SIZE_LIMIT" if "i < length ?hs" for i
    proof -
      have "2 * length ?hs \<le> length bs" using True unfolding length_hash_blocks by linarith
      then have "?total + i \<le> length bs" using that total by linarith
      with less.prems(3) show ?thesis by linarith
    qed
    have layer: "add_layers 4096 salt L off (rev (level_sizes H salt bs)) =
        HashTreeLayer (add_layers 4096 salt L off (rev (level_sizes H salt ?hs))) (off + 4096 * ?total)
          (length bs) 4096 (4096 div 32) salt []"
      by (simp only: levels(2) es rev.simps append_assoc append.simps add_layers_snoc off' snd_conv)
    have "check_uncached H (add_layers 4096 salt L off (rev (level_sizes H salt bs))) file i (H (salt @ bs ! i))"
      if i: "i < length bs" for i
    proof -
      have idx: "i div 128 < length ?hs" using i by simp
      note small [OF idx]
      then show ?thesis
        using i IH [OF idx] pread [OF idx] at [OF i] idx
        unfolding layer by (simp add: wrap_simps)
    qed
    moreover have "tree_root H salt bs = tree_root H salt ?hs"
      using True by (simp add: tree_root_def levels tree_levels_more)
    moreover have "hd (rev (level_sizes H salt bs)) = hd (rev (level_sizes H salt ?hs))"
      by (cases es) (simp_all add: levels es)
    ultimately show ?thesis using L by metis
  qed
qed

definition honest_super_block :: "super_block \<Rightarrow> nat \<Rightarrow> bool" where
  "honest_super_block sb n \<longleftrightarrow>
     super_block_fits sb \<and> checkSuperBlock sb = Done () \<and> sb_dataBlocks sb = n \<and> 0 < n \<and> n \<le> 131072"

lemma length_pad_block: "length b \<le> 4096 \<Longrightarrow> length (pad_block b) = 4096"
  by (simp add: pad_block_def)

lemma hashes_file_length:
  assumes "\<And>b. length (H b) = 32" "super_block_fits sb"
  shows "length (hashes_file H sb bs) =
    4096 + 4096 * length (concat (tree_levels H (take (sb_saltSize sb) (sb_salt sb)) bs))"
proof -
  have "\<forall>b \<in> set (concat (rev (tree_levels H salt bs))). length b = 4096" for salt
    using tree_levels_length [OF assms(1)] by fastforce
  from length_concat_same [OF this] show ?thesis
    using length_pad_block [of "write_super_block sb"] length_write_super_block [OF assms(2)]
    by (simp add: hashes_file_def length_concat rev_map [symmetric])
qed

lemma build_honest:
  assumes H: "\<And>b. length (H b) = 32" and bs: "1 < length bs" "length bs \<le> 131072"
    and layout: "drop off file = concat (concat (rev (tree_levels H salt bs))) @ post" "length file < 2 ^ 63"
    and v: "v_hashesOffset v + 4096 = off" "off \<le> length file"
      "v_hashesSize v = 4096 + 4096 * length (concat (tree_levels H salt bs))"
      "v_hashBlockSize v = 4096" "v_salt v = salt" "v_rootHash v = tree_root H salt bs"
  shows "\<exists>L. build_layers H file v (level_sizes H salt bs) = Done (v\<lparr>v_layer0 := Some L\<rparr>) \<and> has_top L \<and>
    cache_fresh H file L \<and> (\<forall>i < length bs. check_uncached H L file i (H (salt @ bs ! i)))"
proof -
  let ?ds = "level_sizes H salt bs"
  let ?total = "length (concat (tree_levels H salt bs))"
  have total: "?total < length bs" using tree_is_small [of bs H salt] bs(1) by fastforce
  then have "total_hash_blocks ?ds = ?total"
    using total_hash_blocks_small [of 0 ?ds] bs(2) by (simp add: total_hash_blocks_def sum_level_sizes)
  moreover have "\<not> sz_mul (sz_add 1 ?total) 4096 > v_hashesSize v"
    using total bs(2) v(3) by (simp add: wrap_simps)
  moreover have "sz_add (v_hashesOffset v) 4096 = off" using v(1,2) layout(2) by (simp add: wrap_simps)
  moreover have "off + 4096 * length bs < SIZE_LIMIT" using v(2) layout(2) bs(2) by simp
  then obtain L where L: "topMostHashTreeLayer H file off (snd (hd (rev ?ds))) 4096 salt = L" "has_top L"
      "m_digest L = tree_root H salt bs"
      "\<forall>i < length bs. check_uncached H (add_layers 4096 salt L off (rev ?ds)) file i (H (salt @ bs ! i))"
    using tree_accepts [where H = H, OF H bs(1) layout(1)] by blast
  moreover have "cache_fresh H file L"
    using L(1) by (auto simp: topMostHashTreeLayer_def split: option.splits)
  ultimately have "build_layers H file v ?ds = Done (v\<lparr>v_layer0 := Some (add_layers 4096 salt L off (rev ?ds))\<rparr>)"
    by (simp add: build_layers_def Let_def v(4-6))
  with L(2,4) \<open>cache_fresh H file L\<close> show ?thesis
    by (intro exI [of _ "add_layers 4096 salt L off (rev ?ds)"])
       (simp add: add_layers_has_top add_layers_fresh)
qed

text \<open>Opening a hashes file whose superblock passes every check.\<close>

lemma open_checked:
  assumes "length root = 32" "pread_full whole 4096 off = Some buf" "read_super_block buf = sb"
    "checkSuperBlock sb = Done ()" "off = (case off' of None \<Rightarrow> 0 | Some k \<Rightarrow> k)"
    "sz = (case size' of None \<Rightarrow> length whole - off | Some k \<Rightarrow> k)" "off + sz \<le> length whole"
    "0 < sb_dataBlocks sb" "sz_mul (sb_dataBlocks sb) 4096 \<le> 512 * 1024 * 1024"
  defines "w \<equiv> \<lparr>v_rootHash = root, v_hashesOffset = off, v_hashesSize = sz, v_hashBlockSize = 4096,
    v_hashesPerBlock = 128, v_dataBlockSize = 4096, v_dataBlockCount = sb_dataBlocks sb,
    v_salt = take (sb_saltSize sb) (sb_salt sb), v_layer0 = None\<rparr>"
  shows "verifier_open H whole root off' size' =
    (if sb_dataBlocks sb = 1 then Some (Done (w\<lparr>v_layer0 := Some (SingleDataBlockLayer root)\<rparr>))
     else map_option (build_layers H whole w) (layer_details 128 (sb_dataBlocks sb)))"
proof -
  have "sb_hashBlockSize sb = 4096" "sb_dataBlockSize sb = 4096"
    using assms(4) by (auto simp: checkSuperBlock_def split: if_splits)
  moreover have "verifier_open H whole root off' size' = parseDmVeritySuperBlock H whole
      \<lparr>v_rootHash = root, v_hashesOffset = off, v_hashesSize = sz, v_hashBlockSize = 0,
       v_hashesPerBlock = 0, v_dataBlockSize = 0, v_dataBlockCount = 0, v_salt = [], v_layer0 = None\<rparr>"
    using assms(1,7) by (simp only: verifier_open_def Let_def flip: assms(5,6)) auto
  ultimately show ?thesis
    using assms(2-4,8,9) unfolding w_def by (simp add: parseDmVeritySuperBlock_def Let_def)
qed

lemma honest_opens:
  assumes H: "\<And>b. length (H b) = 32"
    and sb: "honest_super_block sb (length bs)" and blocks: "\<forall>b \<in> set bs. length b = 4096"
    and whole: "whole = pre @ hashes_file H sb bs @ post" "length whole < 2 ^ 63"
  shows "\<exists>v. verifier_open H whole (tree_root H (take (sb_saltSize sb) (sb_salt sb)) bs)
        (Some (length pre)) (Some (length (hashes_file H sb bs))) = Some (Done v) \<and>
      verifier_fresh H whole v \<and> v_dataBlockSize v = 4096 \<and> v_dataBlockCount v = length bs \<and>
      v_salt v = take (sb_saltSize sb) (sb_salt sb) \<and>
      (\<forall>n < length bs. verify_uncached H v whole n (bs ! n))"
proof -
  let ?salt = "take (sb_saltSize sb) (sb_salt sb)" and ?root = "tree_root H (take (sb_saltSize sb) (sb_salt sb)) bs"
  have fits: "super_block_fits sb" and chk: "checkSuperBlock sb = Done ()" and n: "sb_dataBlocks sb = length bs"
      "0 < length bs" "length bs \<le> 131072" using sb by (auto simp: honest_super_block_def)
  have sizes: "sb_hashBlockSize sb = 4096" "sb_dataBlockSize sb = 4096"
    using chk by (auto simp: checkSuperBlock_def split: if_splits)
  note len = hashes_file_length [where H = H and bs = bs, OF H fits]
  note wlen = length_write_super_block [OF fits]
  have first: "pread_full whole 4096 (length pre) = Some (pad_block (write_super_block sb))"
    using length_pad_block [of "write_super_block sb"] wlen
    by (simp add: whole(1) hashes_file_def pread_full_Some)
  have read: "read_super_block (pad_block (write_super_block sb)) = sb"
    unfolding pad_block_def by (rule read_write_super_block [OF fits])
  let ?w = "\<lparr>v_rootHash = ?root, v_hashesOffset = length pre, v_hashesSize = length (hashes_file H sb bs),
    v_hashBlockSize = 4096, v_hashesPerBlock = 128, v_dataBlockSize = 4096, v_dataBlockCount = length bs,
    v_salt = ?salt, v_layer0 = None\<rparr>"
  define w where "w = ?w"
  have limit: "sz_mul (length bs) 4096 \<le> 512 * 1024 * 1024" using n by (simp add: sz_mul_def)
  have root: "length ?root = 32" using H by (simp add: tree_root_def)
  have opened: "verifier_open H whole ?root (Some (length pre)) (Some (length (hashes_file H sb bs))) =
      (if length bs = 1 then Some (Done (w\<lparr>v_layer0 := Some (SingleDataBlockLayer ?root)\<rparr>))
       else map_option (build_layers H whole w) (layer_details 128 (length bs)))"
    using open_checked [where H = H and root = ?root, OF root first read chk, of "Some (length pre)"] n limit whole(1)
    by (simp add: w_def)
  have accepts: "verifier_fresh H whole v \<and> v_dataBlockSize v = 4096 \<and> v_dataBlockCount v = length bs \<and>
      v_salt v = ?salt \<and> (\<forall>n < length bs. verify_uncached H v whole n (bs ! n))"
    if v: "v = w\<lparr>v_layer0 := Some L\<rparr>" "has_top L" "cache_fresh H whole L"
      "\<forall>i < length bs. check_uncached H L whole i (H (?salt @ bs ! i))" for v L
    using v blocks by (simp add: verifier_fresh_def verify_uncached_def w_def)
  show ?thesis
  proof (cases "length bs = 1")
    case True
    then have "?root = H (?salt @ bs ! 0)" by (cases bs) (auto simp: tree_root_def)
    then show ?thesis
      using opened True accepts [OF refl, of "SingleDataBlockLayer ?root"] by auto
  next
    case False
    then have bs: "1 < length bs" using n(2) by linarith
    have "layer_details 128 (length bs) = Some (level_sizes H ?salt bs)"
      using layer_details_tree [OF bs] n(3) by simp
    moreover obtain L where "build_layers H whole w (level_sizes H ?salt bs) = Done (w\<lparr>v_layer0 := Some L\<rparr>)"
        "has_top L" "cache_fresh H whole L" "\<forall>i < length bs. check_uncached H L whole i (H (?salt @ bs ! i))"
      using build_honest [where H = H and salt = ?salt and v = w, OF H bs n(3), of "length pre + 4096" whole post] whole len
        length_pad_block [of "write_super_block sb"] wlen
      by (auto simp: w_def hashes_file_def)
    ultimately show ?thesis using opened False accepts [OF refl] by auto
  qed
qed

lemma honest_opens_at_zero:
  assumes "\<And>b. length (H b) = 32" "honest_super_block sb (length bs)" "\<forall>b \<in> set bs. length b = 4096"
    "take (sb_saltSize sb) (sb_salt sb) = []"
  obtains v where "verifier_open H (hashes_file H sb bs) (tree_root H [] bs) (Some 0)
    (Some (length (hashes_file H sb bs))) = Some (Done v)"
proof -
  have "length (concat (tree_levels H [] bs)) < length bs"
    using assms(2) by (intro tree_is_small) (auto simp: honest_super_block_def)
  then have "length (hashes_file H sb bs) < 2 ^ 63"
    using hashes_file_length [where H = H and sb = sb and bs = bs, OF assms(1)] assms(2,4)
    by (simp add: honest_super_block_def)
  with honest_opens [where H = H and pre = "[]" and post = "[]", OF assms(1-3) refl] assms(4) that
  show ?thesis by auto
qed

text \<open>
  Every honest image is accepted: if the hashes file is the tree of the data blocks, wherever
  it lies in the package file, opening it with the root of the tree succeeds and every data block
  is accepted, after any sequence of earlier checks.
\<close>

theorem honest_images_verify:
  assumes "\<And>b. length (H b) = 32" "honest_super_block sb (length bs)" "\<forall>b \<in> set bs. length b = 4096"
    "whole = pre @ hashes_file H sb bs @ post" "length whole < 2 ^ 63"
  shows "\<exists>v. verifier_open H whole (tree_root H (take (sb_saltSize sb) (sb_salt sb)) bs)
        (Some (length pre)) (Some (length (hashes_file H sb bs))) = Some (Done v) \<and>
      (\<forall>cs. \<forall>n < length bs. fst (verify H (verify_run H v (map (\<lambda>(m, e). (whole, m, e)) cs)) whole n (bs ! n)) = Done True)"
proof -
  from honest_opens [where H = H, OF assms] obtain v where
    v: "verifier_open H whole (tree_root H (take (sb_saltSize sb) (sb_salt sb)) bs)
        (Some (length pre)) (Some (length (hashes_file H sb bs))) = Some (Done v)"
      "verifier_fresh H whole v" "v_dataBlockSize v = 4096" "\<forall>n < length bs. verify_uncached H v whole n (bs ! n)"
    by blast
  then show ?thesis using run_uncached [OF v(2,3)] assms(3) by auto
qed

subsection \<open>Examples\<close>

definition sample_super_block :: "nat \<Rightarrow> super_block" where
  "sample_super_block n = \<lparr>
     sb_signature = verity_signature, sb_version = 1, sb_hashType = 1,
     sb_algorithm = sha256_name @ replicate 25 0, sb_dataBlockSize = 4096, sb_hashBlockSize = 4096,
     sb_dataBlocks = n, sb_saltSize = 0, sb_salt = replicate 256 0 \<rparr>"

lemma sample_super_block_fits: "n < SIZE_LIMIT \<Longrightarrow> super_block_fits (sample_super_block n)"
  by (simp add: sample_super_block_def super_block_fits_def verity_signature_def sha256_name_def)

lemma sample_super_block_ok: "checkSuperBlock (sample_super_block n) = Done ()"
  by (simp add: sample_super_block_def checkSuperBlock_def sha256_name_def)

lemma sample_salt [simp]: "take (sb_saltSize (sample_super_block n)) (sb_salt (sample_super_block n)) = []"
  by (simp add: sample_super_block_def)

lemma sample_honest: "0 < n \<Longrightarrow> n \<le> 131072 \<Longrightarrow> honest_super_block (sample_super_block n) n"
  using sample_super_block_fits [of n] sample_super_block_ok [of n]
  by (simp add: honest_super_block_def) (simp add: sample_super_block_def)

definition toy_hash :: "bytes \<Rightarrow> bytes" where
  "toy_hash b = take 32 (b @ replicate 32 0)"

lemma length_toy_hash: "length (toy_hash b) = 32"
  by (simp add: toy_hash_def)

definition sample_blocks :: "bytes list" where
  "sample_blocks = [replicate 4096 1, replicate 4096 2]"

lemma length_sample_blocks [simp]: "length sample_blocks = 2"
  by (simp add: sample_blocks_def)

theorem honest_images_verify_witness:
  "\<exists>v. verifier_open toy_hash ([7] @ hashes_file toy_hash (sample_super_block 2) sample_blocks @ [9])
        (tree_root toy_hash [] sample_blocks) (Some 1)
        (Some (length (hashes_file toy_hash (sample_super_block 2) sample_blocks))) = Some (Done v) \<and>
      fst (verify toy_hash v ([7] @ hashes_file toy_hash (sample_super_block 2) sample_blocks @ [9]) 1 (replicate 4096 2)) = Done True"
proof -
  have sb: "honest_super_block (sample_super_block 2) (length sample_blocks)"
    using sample_honest [of 2] by simp
  have len: "length ([7] @ hashes_file toy_hash (sample_super_block 2) sample_blocks @ [9]) < 2 ^ 63"
    using hashes_file_length [where H = toy_hash and sb = "sample_super_block 2" and bs = sample_blocks,
        OF length_toy_hash sample_super_block_fits] tree_is_small [of sample_blocks toy_hash "[]"]
    by (simp add: sample_blocks_def)
  have blocks: "\<forall>b \<in> set sample_blocks. length b = 4096" by (simp add: sample_blocks_def)
  from honest_images_verify [where H = toy_hash, OF length_toy_hash sb blocks refl len]
  obtain v where "verifier_open toy_hash ([7] @ hashes_file toy_hash (sample_super_block 2) sample_blocks @ [9])
        (tree_root toy_hash [] sample_blocks) (Some 1)
        (Some (length (hashes_file toy_hash (sample_super_block 2) sample_blocks))) = Some (Done v)"
      and all: "\<And>cs n. n < length sample_blocks \<Longrightarrow> fst (verify toy_hash (verify_run toy_hash v (map (\<lambda>(m, e).
        ([7] @ hashes_file toy_hash (sample_super_block 2) sample_blocks @ [9], m, e)) cs))
        ([7] @ hashes_file toy_hash (sample_super_block 2) sample_blocks @ [9]) n (sample_blocks ! n)) = Done True"
    by auto
  moreover from all [of 1 "[]"] have "fst (verify toy_hash v
      ([7] @ hashes_file toy_hash (sample_super_block 2) sample_blocks @ [9]) 1 (replicate 4096 2)) = Done True"
    by (simp add: sample_blocks_def)
  ultimately show ?thesis by blast
qed

text \<open>The verifier of the example, opened.\<close>

lemma sample_opens:
  obtains v where "verifier_open toy_hash (hashes_file toy_hash (sample_super_block 2) sample_blocks)
    (tree_root toy_hash [] sample_blocks) (Some 0) (Some (length (hashes_file toy_hash (sample_super_block 2) sample_blocks))) = Some (Done v)"
  using honest_opens_at_zero [where H = toy_hash and sb = "sample_super_block 2" and bs = sample_blocks,
      OF length_toy_hash] sample_honest [of 2]
  by (auto simp: sample_blocks_def [THEN arg_cong [where f = set]])

lemma sample_root: "tree_root toy_hash [] sample_blocks \<noteq> replicate 32 0"
proof -
  have "hash_blocks toy_hash [] sample_blocks = [pad_block (replicate 32 1 @ replicate 32 2)]"
    by (simp add: hash_blocks_def sample_blocks_def slice_def toy_hash_def)
  then have "tree_root toy_hash [] sample_blocks = replicate 32 1"
    by (simp add: tree_root_def tree_levels_more toy_hash_def pad_block_def)
  then show ?thesis by (simp add: replicate_eq_replicate)
qed

theorem caches_are_transparent_witness:
  "\<exists>v. fst (verify toy_hash (verify_run toy_hash v [(hashes_file toy_hash (sample_super_block 2) sample_blocks, 0, [])])
      (hashes_file toy_hash (sample_super_block 2) sample_blocks) 1 (replicate 4096 3)) =
    Done (verify_uncached toy_hash v (hashes_file toy_hash (sample_super_block 2) sample_blocks) 1 (replicate 4096 3))"
proof -
  obtain v where v: "verifier_open toy_hash (hashes_file toy_hash (sample_super_block 2) sample_blocks)
    (tree_root toy_hash [] sample_blocks) (Some 0) (Some (length (hashes_file toy_hash (sample_super_block 2) sample_blocks))) = Some (Done v)"
    by (rule sample_opens)
  from caches_are_transparent [OF v sample_root, of "replicate 4096 3" "[(0, [])]" 1] show ?thesis by auto
qed

theorem caches_stay_bounded_witness:
  "\<exists>v. list_all (\<lambda>k. k \<le> 64) (layer_caches (the (v_layer0 (verify_run toy_hash v []))))"
  using caches_stay_bounded sample_opens by metis

definition single_image :: bytes where
  "single_image = pad_block (write_super_block (sample_super_block 1))"

lemma single_image_facts:
  "length single_image = 4096" "read_super_block single_image = sample_super_block 1" "hd single_image = 118"
  using length_write_super_block [OF sample_super_block_fits [of 1]]
    read_write_super_block [OF sample_super_block_fits [of 1]]
  by (simp_all add: single_image_def pad_block_def)
     (simp add: write_super_block_def sample_super_block_def verity_signature_def)

lemma single_opens_at:
  assumes "length root = 32" "off' = None \<or> off' = Some 0" "size' = None \<or> size' = Some 4096"
  obtains v where "verifier_open H single_image root off' size' = Some (Done v)" "v_salt v = []"
    "v_rootHash v = root" "v_dataBlockCount v = 1" "v_layer0 v = Some (SingleDataBlockLayer root)" "v_dataBlockSize v = 4096"
proof -
  have "pread_full single_image 4096 0 = Some single_image"
    using single_image_facts(1) by (simp add: pread_full_Some)
  from open_checked [where H = H, OF assms(1) this single_image_facts(2) sample_super_block_ok, of off' _ size']
    that single_image_facts(1) assms(2,3)
  show ?thesis by (auto simp: sz_mul_def sample_super_block_def)
qed

lemma single_opens:
  assumes "length root = 32"
  obtains v where "verifier_open H single_image root None None = Some (Done v)" "v_salt v = []" "v_dataBlockCount v = 1"
    "v_layer0 v = Some (SingleDataBlockLayer root)" "v_dataBlockSize v = 4096"
  using single_opens_at [OF assms, of None None] by blast

lemma drop_none: "n - off = n \<Longrightarrow> 0 < n \<Longrightarrow> drop off xs = xs"
  by (cases off) auto

theorem root_hash_binds_data_witness:
  "\<exists>v d1 d2. verifier_open toy_hash single_image (replicate 32 1) None None = Some (Done v) \<and>
    fst (verify toy_hash v single_image 0 d1) = Done True \<and> d1 = d2"
proof -
  obtain v where v: "verifier_open toy_hash single_image (replicate 32 1) None None = Some (Done v)" "v_salt v = []"
      "v_dataBlockCount v = 1" "v_layer0 v = Some (SingleDataBlockLayer (replicate 32 1))" "v_dataBlockSize v = 4096"
    using single_opens [of "replicate 32 1" toy_hash] by (metis length_replicate)
  let ?b = "replicate 4096 1 :: bytes"
  have within: "blocks_within 4096 {single_image, ?b} single_image"
    using single_image_facts(1)
    by (auto simp: blocks_within_def pread_full_Some slice_def intro: drop_none)
  have "hd (toy_hash single_image) \<noteq> hd (toy_hash ?b)"
    using single_image_facts(1,3) by (cases single_image) (auto simp: toy_hash_def)
  then have free: "collision_free toy_hash (v_salt v) {single_image, ?b}"
    by (auto simp: collision_free_def v(2))
  have acc: "fst (verify toy_hash (verify_run toy_hash v []) single_image 0 ?b) = Done True"
    by (simp add: verify_def v sha256Digest_def toy_hash_def)
  have "?b = ?b"
    by (rule root_hash_binds_data [OF v(1) within free _ within within _ _ _ _ acc acc]) simp_all
  with v(1) acc show ?thesis by auto
qed

theorem verify_never_undefined_witness:
  "\<exists>v. verifier_open toy_hash single_image (replicate 32 1) None None = Some (Done v) \<and>
    defined (fst (verify toy_hash (verify_run toy_hash v []) [] 5 (replicate 4096 0)))"
proof -
  obtain v where v: "verifier_open toy_hash single_image (replicate 32 1) None None = Some (Done v)"
    using single_opens [of "replicate 32 1" toy_hash] by (metis length_replicate)
  from verify_never_undefined [OF v, of "replicate 4096 0" "[]" "[]" 5] v show ?thesis
    by (auto simp: replicate_eq_replicate)
qed

subsection \<open>The limit on the size of the data\<close>

text \<open>
  The number of blocks for which every product in the size checks wraps around: \<open>127 * 2 ^ 52\<close>
  blocks are \<open>2 ^ 64\<close> times 127 bytes of data and need \<open>2 ^ 52 + 1\<close> hash blocks.
\<close>

abbreviation overflowing_count :: nat where "overflowing_count \<equiv> 571957152676052992"

lemma overflowing_details:
  "layer_details 128 overflowing_count = Some
     [(4468415255281664, overflowing_count), (34909494181888, 4468415255281664), (272730423296, 34909494181888),
      (2130706432, 272730423296), (16646144, 2130706432), (130048, 16646144), (1016, 130048), (8, 1016), (1, 8)]"
  by (simp add: layer_details_def div_round_up_def sz_add_def sz_sub_def
      upper_levels.simps [of 128 4468415255281664] upper_levels.simps [of 128 34909494181888]
      upper_levels.simps [of 128 272730423296] upper_levels.simps [of 128 2130706432]
      upper_levels.simps [of 128 16646144] upper_levels.simps [of 128 130048] upper_levels.simps [of 128 1016]
      upper_levels.simps [of 128 8] upper_levels.simps [of 128 "Suc 0"])

text \<open>
  The limit of 512 MB on the protected data is computed modulo \<open>2 ^ 64\<close>: whatever the hash is,
  there is a hashes file of 8192 bytes that is accepted although its superblock declares far more.
\<close>

theorem size_limit_wraps:
  assumes "\<And>b. length (H b) = 32"
  shows "\<exists>file root v. length file = 8192 \<and> verifier_open H file root None None = Some (Done v) \<and>
    v_dataBlockCount v * v_dataBlockSize v > 512 * 1024 * 1024"
proof -
  let ?sb = "sample_super_block overflowing_count"
  let ?top = "replicate 4096 0 :: bytes"
  define file' where "file' = pad_block (write_super_block ?sb) @ ?top"
  have fits: "super_block_fits ?sb" by (rule sample_super_block_fits) simp
  have len: "length (pad_block (write_super_block ?sb)) = 4096" "length file' = 8192"
    using length_write_super_block [OF fits] by (simp_all add: file'_def length_pad_block)
  have reads: "pread_full file' 4096 0 = Some (pad_block (write_super_block ?sb))" "pread_full file' 4096 4096 = Some ?top"
    using len(1) by (simp_all add: file'_def pread_full_Some)
  have sb: "read_super_block (pad_block (write_super_block ?sb)) = ?sb"
    using read_write_super_block [OF fits] by (simp add: pad_block_def)
  have count: "sb_dataBlocks ?sb = overflowing_count" by (simp add: sample_super_block_def)
  define w where "w = \<lparr>v_rootHash = H ?top, v_hashesOffset = 0, v_hashesSize = 8192, v_hashBlockSize = 4096,
    v_hashesPerBlock = 128, v_dataBlockSize = 4096, v_dataBlockCount = overflowing_count, v_salt = [], v_layer0 = None\<rparr>"
  have "verifier_open H file' (H ?top) None None =
      map_option (build_layers H file' w) (layer_details 128 overflowing_count)"
    using open_checked [where H = H and root = "H ?top", OF assms reads(1) sb sample_super_block_ok,
        of None 8192 None] len(2) count
    by (simp add: sz_mul_def w_def)
  moreover have "\<exists>L. build_layers H file' w ds = Done (w\<lparr>v_layer0 := Some L\<rparr>)"
    if "foldl sz_add 0 (map fst ds) = 4503599627370497" for ds
    using that reads(2)
    by (simp add: build_layers_def Let_def total_hash_blocks_def w_def sz_mul_def sz_add_def
        topMostHashTreeLayer_def sha256Digest_append)
  ultimately obtain L where "verifier_open H file' (H ?top) None None = Some (Done (w\<lparr>v_layer0 := Some L\<rparr>))"
    unfolding overflowing_details by (fastforce simp: sz_add_def)
  then have "\<exists>v. verifier_open H file' (H ?top) None None = Some (Done v) \<and>
      v_dataBlockCount v * v_dataBlockSize v > 512 * 1024 * 1024"
    by (auto simp: w_def)
  with len(2) show ?thesis by blast
qed

theorem size_limit_wraps_witness:
  "\<exists>file root v. length file = 8192 \<and> verifier_open toy_hash file root None None = Some (Done v) \<and>
    v_dataBlockCount v * v_dataBlockSize v > 512 * 1024 * 1024"
  using size_limit_wraps [where H = toy_hash] length_toy_hash by blast

subsection \<open>The superblock is not signed\<close>

text \<open>
  The root hash does not fix the number of blocks: for every tree there is a hashes file with
  the same root hash whose superblock declares a single data block, and it makes the verifier
  accept the topmost hash block as the data.
\<close>

theorem block_count_not_signed:
  assumes "\<And>b. length (H b) = 32" "1 < length bs"
  shows "\<exists>hashes v. verifier_open H hashes (tree_root H [] bs) None None = Some (Done v) \<and> v_dataBlockCount v = 1 \<and>
    fst (verify H v hashes 0 (hd (last (tree_levels H [] bs)))) = Done True"
proof -
  let ?top = "hd (last (tree_levels H [] bs))"
  have root: "tree_root H [] bs = H ?top" using assms(2) by (simp add: tree_root_def tree_levels_more)
  have levels: "last (tree_levels H [] bs) \<in> set (tree_levels H [] bs)" using assms(2) by (simp add: tree_levels_more)
  have "last (tree_levels H [] bs) \<noteq> []"
    using assms(2)
  proof (induction H "[] :: bytes" bs rule: tree_levels.induct)
    case (1 H bs)
    then show ?case by (cases "length (hash_blocks H [] bs) \<le> 1") (auto simp: tree_levels_more hash_blocks_def)
  qed
  then have "?top \<in> set (last (tree_levels H [] bs))" by simp
  with levels have len: "length ?top = 4096" using tree_levels_length [where H = H, OF assms(1)] by blast
  obtain v where v: "verifier_open H single_image (tree_root H [] bs) None None = Some (Done v)" "v_salt v = []"
      "v_dataBlockCount v = 1" "v_layer0 v = Some (SingleDataBlockLayer (tree_root H [] bs))" "v_dataBlockSize v = 4096"
    using single_opens [of "tree_root H [] bs" H] assms(1) root by metis
  then have "fst (verify H v single_image 0 ?top) = Done True"
    using len by (simp add: verify_def sha256Digest_append root)
  with v show ?thesis by blast
qed

theorem block_count_not_signed_witness:
  "\<exists>hashes v. verifier_open toy_hash hashes (tree_root toy_hash [] sample_blocks) None None = Some (Done v) \<and>
    v_dataBlockCount v = 1 \<and>
    fst (verify toy_hash v hashes 0 (hd (last (tree_levels toy_hash [] sample_blocks)))) = Done True"
  using block_count_not_signed [where H = toy_hash and bs = sample_blocks] length_toy_hash by simp

end
