(* ===== verification/ProtectedFile.thy ===== *)
theory ProtectedFile
  imports HonestTree
begin

section \<open>The dm-verity protected file\<close>

text \<open>
  \<open>lib/dm-verity/DmVerityProtectedFile.cpp\<close>: a data file whose blocks are verified as they are
  read.  The verifier is the interface \<open>IDmVerityVerifier\<close>, so its \<open>verify\<close> is an argument of the
  operations and their lemmas rest on the locale \<open>authenticator\<close> alone.  The data file and the
  hashes file are arguments of every read, because their contents may change between reads, and they
  are functions of the number of the data block, because they may change while a read goes from block
  to block: \<open>file n\<close> and \<open>hashes n\<close> are the files as they are when block \<open>n\<close> is read and verified.  The
  check of one block reads each part of the hashes file once, so the content of one file is enough for it.
\<close>

subsection \<open>State and operations\<close>

record 's protected_file =
  p_verifier :: 's
  p_fileOffset :: nat
  p_fileSize :: nat
  p_blockSize :: nat
  p_blockBuffer :: bytes
  p_blockBufferNumber :: nat
  p_directIo :: bool

type_synonym 's checker = "'s \<Rightarrow> bytes \<Rightarrow> nat \<Rightarrow> bytes \<Rightarrow> (unit, bool) outcome \<times> 's"

text \<open>
  A read has a result \<open>Done (Some d)\<close> where the code returns \<open>true\<close> with \<open>d\<close> in the caller's
  buffer, and \<open>Done None\<close> where it returns \<open>false\<close>.
\<close>

type_synonym 's read_result = "(unit, bytes option) outcome \<times> 's protected_file"

text \<open>A short \<open>pread\<close> has overwritten the start of the block buffer.\<close>

definition read_block_buffer :: "bytes \<Rightarrow> 's protected_file \<Rightarrow> nat \<Rightarrow> 's protected_file \<times> bytes option" where
  "read_block_buffer file pf nblock =
     (let off = sz_add (p_fileOffset pf) (sz_mul nblock (p_blockSize pf));
          d = pread file (p_blockSize pf) off in
      (pf\<lparr>p_blockBuffer := d @ drop (length d) (p_blockBuffer pf)\<rparr>, pread_full file (p_blockSize pf) off))"

text \<open>Reading a block into the block buffer and verifying it there.\<close>

definition fill_block_buffer ::
  "'s checker \<Rightarrow> (nat \<Rightarrow> bytes) \<Rightarrow> (nat \<Rightarrow> bytes) \<Rightarrow> 's protected_file \<Rightarrow> nat \<Rightarrow> (unit, bool) outcome \<times> 's protected_file" where
  "fill_block_buffer check hashes file pf nblock =
     (case read_block_buffer (file nblock) pf nblock of
        (pf, None) \<Rightarrow> (Done False, pf\<lparr>p_blockBufferNumber := SIZE_MAX\<rparr>)
      | (pf, Some d) \<Rightarrow>
          (case check (p_verifier pf) (hashes nblock) nblock d of
             (r, v) \<Rightarrow> (r, pf\<lparr>p_verifier := v, p_blockBufferNumber := (if r = Done True then nblock else SIZE_MAX)\<rparr>)))"

text \<open>What a read returns after a check that did not accept its block.\<close>

fun refuse :: "(unit, bool) outcome \<Rightarrow> (unit, 'a option) outcome" where
  "refuse (Done b) = Done None"
| "refuse (Fail e) = Fail e"
| "refuse (Undefined u) = Undefined u"

definition readPartialBlock ::
  "'s checker \<Rightarrow> (nat \<Rightarrow> bytes) \<Rightarrow> (nat \<Rightarrow> bytes) \<Rightarrow> 's protected_file \<Rightarrow> nat \<Rightarrow> nat \<Rightarrow> nat \<Rightarrow> 's read_result" where
  "readPartialBlock check hashes file pf nblock offset sz =
     (if offset \<ge> p_blockSize pf \<or> sz > p_blockSize pf - offset then (Done None, pf)
      else if nblock \<noteq> p_blockBufferNumber pf then
        (case fill_block_buffer check hashes file pf nblock of
           (r, pf) \<Rightarrow> (if r = Done True then Done (Some (slice offset sz (p_blockBuffer pf))) else refuse r, pf))
      else (Done (Some (slice offset sz (p_blockBuffer pf))), pf))"

text \<open>The loop over whole blocks, which are read into the caller's buffer.\<close>

partial_function (option) read_blocks ::
  "'s checker \<Rightarrow> (nat \<Rightarrow> bytes) \<Rightarrow> (nat \<Rightarrow> bytes) \<Rightarrow> 's protected_file \<Rightarrow> nat \<Rightarrow> nat \<Rightarrow> bytes \<Rightarrow>
   ((unit, (bytes \<times> nat \<times> nat) option) outcome \<times> 's protected_file) option" where
  "read_blocks check hashes file pf blkNumber sz out =
     (if sz < p_blockSize pf then Some (Done (Some (out, blkNumber, sz)), pf)
      else
        (case pread_full (file blkNumber) (p_blockSize pf) (sz_add (p_fileOffset pf) (sz_mul blkNumber (p_blockSize pf))) of
           None \<Rightarrow> Some (Done None, pf)
         | Some d \<Rightarrow>
             (case check (p_verifier pf) (hashes blkNumber) blkNumber d of
                (r, v) \<Rightarrow>
                  (if r = Done True
                     then read_blocks check hashes file (pf\<lparr>p_verifier := v\<rparr>) (blkNumber + 1) (sz - p_blockSize pf) (out @ d)
                   else Some (refuse r, pf\<lparr>p_verifier := v\<rparr>)))))"

text \<open>The reader for files opened with \<open>O_DIRECT\<close>, in which every block goes through the block buffer.\<close>

partial_function (option) readDirectIo ::
  "'s checker \<Rightarrow> (nat \<Rightarrow> bytes) \<Rightarrow> (nat \<Rightarrow> bytes) \<Rightarrow> 's protected_file \<Rightarrow> nat \<Rightarrow> nat \<Rightarrow> nat \<Rightarrow> bytes \<Rightarrow> 's read_result option" where
  "readDirectIo check hashes file pf blkNumber sz offset out =
     (if sz = 0 then Some (Done (Some out), pf)
      else
        (case (if p_blockBufferNumber pf \<noteq> blkNumber then fill_block_buffer check hashes file pf blkNumber
               else (Done True, pf)) of
           (r, pf) \<Rightarrow>
             (if r = Done True then
                readDirectIo check hashes file pf (blkNumber + 1)
                  (sz - min sz (p_blockSize pf - offset mod p_blockSize pf)) 0
                  (out @ slice (offset mod p_blockSize pf) (min sz (p_blockSize pf - offset mod p_blockSize pf))
                     (p_blockBuffer pf))
              else Some (refuse r, pf))))"

text \<open>The head of a read that does not start at a block, then whole blocks, then the tail.\<close>

definition read_tail ::
  "'s checker \<Rightarrow> (nat \<Rightarrow> bytes) \<Rightarrow> (nat \<Rightarrow> bytes) \<Rightarrow> 's protected_file \<Rightarrow> nat \<Rightarrow> nat \<Rightarrow> bytes \<Rightarrow> 's read_result option" where
  "read_tail check hashes file pf blkNumber sz out =
     (case read_blocks check hashes file pf blkNumber sz out of
        None \<Rightarrow> None
      | Some (Done None, pf) \<Rightarrow> Some (Done None, pf)
      | Some (Fail e, pf) \<Rightarrow> Some (Fail e, pf)
      | Some (Undefined u, pf) \<Rightarrow> Some (Undefined u, pf)
      | Some (Done (Some (out, blkNumber, sz)), pf) \<Rightarrow>
          Some (if sz > 0 then
                  (case readPartialBlock check hashes file pf blkNumber 0 sz of
                     (Done (Some d), pf) \<Rightarrow> (Done (Some (out @ d)), pf)
                   | r \<Rightarrow> r)
                else (Done (Some out), pf)))"

definition protected_read ::
  "'s checker \<Rightarrow> (nat \<Rightarrow> bytes) \<Rightarrow> (nat \<Rightarrow> bytes) \<Rightarrow> 's protected_file \<Rightarrow> nat \<Rightarrow> nat \<Rightarrow> 's read_result option" where
  "protected_read check hashes file pf sz offset =
     (if offset \<ge> p_fileSize pf \<or> sz > p_fileSize pf - offset then Some (Done None, pf)
      else if p_directIo pf then readDirectIo check hashes file pf (offset div p_blockSize pf) sz offset []
      else if offset mod p_blockSize pf \<noteq> 0 then
        (let blkOffset = offset mod p_blockSize pf; blkAmount = min sz (p_blockSize pf - blkOffset) in
         case readPartialBlock check hashes file pf (offset div p_blockSize pf) blkOffset blkAmount of
           (Done (Some d), pf) \<Rightarrow>
             read_tail check hashes file pf (offset div p_blockSize pf + 1) (sz - blkAmount) d
         | (Done None, pf) \<Rightarrow> Some (Done None, pf)
         | (Fail e, pf) \<Rightarrow> Some (Fail e, pf)
         | (Undefined u, pf) \<Rightarrow> Some (Undefined u, pf))
      else read_tail check hashes file pf (offset div p_blockSize pf) sz [])"

subsection \<open>Opening\<close>

datatype protected_error =
    FileOffsetOutside nat nat | FileRangeOutside nat nat nat | VerifierError verity_error
  | NotFourKBlocks | HashesDontCoverData

definition checkAndCalcFileRange ::
  "bytes \<Rightarrow> nat option \<Rightarrow> nat option \<Rightarrow> (protected_error, nat \<times> nat) outcome" where
  "checkAndCalcFileRange file offset sz =
     (let fileSize = length file; off = (case offset of None \<Rightarrow> 0 | Some n \<Rightarrow> n) in
      if off \<ge> fileSize then Fail (FileOffsetOutside off fileSize)
      else (let n = (case sz of None \<Rightarrow> fileSize - off | Some k \<Rightarrow> k) in
            if n > fileSize - off then Fail (FileRangeOutside off n fileSize) else Done (off, n)))"

fun map_error :: "('e \<Rightarrow> 'f) \<Rightarrow> ('e, 'a) outcome \<Rightarrow> ('f, 'a) outcome" where
  "map_error f (Done x) = Done x"
| "map_error f (Fail e) = Fail (f e)"
| "map_error f (Undefined u) = Undefined u"

lemma map_error_Done [simp]: "map_error f r = Done x \<longleftrightarrow> r = Done x"
  by (cases r) auto

text \<open>\<open>IDmVerityProtectedFile::open\<close>; the flag tells whether the data file was opened with \<open>O_DIRECT\<close>.\<close>

definition protected_open ::
  "(bytes \<Rightarrow> bytes) \<Rightarrow> bool \<Rightarrow> bytes \<Rightarrow> nat option \<Rightarrow> nat option \<Rightarrow> bytes \<Rightarrow> nat option \<Rightarrow> nat option \<Rightarrow> bytes \<Rightarrow>
   (protected_error, verifier protected_file) outcome option" where
  "protected_open H direct file dataOffset dataSize hashes hashesOffset hashesSize rootHash =
     (case checkAndCalcFileRange file dataOffset dataSize of
        Fail e \<Rightarrow> Some (Fail e)
      | Undefined u \<Rightarrow> Some (Undefined u)
      | Done (off, sz) \<Rightarrow>
          (case checkAndCalcFileRange hashes hashesOffset hashesSize of
             Fail e \<Rightarrow> Some (Fail e)
           | Undefined u \<Rightarrow> Some (Undefined u)
           | Done (hoff, hsize) \<Rightarrow>
               map_option (\<lambda>r. bind_outcome (map_error VerifierError r)
                 (\<lambda>v. if v_dataBlockSize v \<noteq> 4096 then Fail NotFourKBlocks
                      else if sz > sz_mul (v_dataBlockCount v) (v_dataBlockSize v) then Fail HashesDontCoverData
                      else Done \<lparr>p_verifier = v, p_fileOffset = off, p_fileSize = sz,
                                 p_blockSize = v_dataBlockSize v,
                                 p_blockBuffer = replicate (v_dataBlockSize v) 0,
                                 p_blockBufferNumber = SIZE_MAX, p_directIo = direct\<rparr>))
                 (verifier_open H hashes rootHash (Some hoff) (Some hsize))))"

subsection \<open>What a read promises\<close>

text \<open>
  \<open>bytes_ok G B off out\<close>: each byte of \<open>out\<close>, which starts at the offset \<open>off\<close> of the protected
  data, is the byte of a block that is genuine at its index.  \<open>B\<close> is the set of blocks that occur.
\<close>

definition bytes_ok :: "(nat \<Rightarrow> bytes \<Rightarrow> bool) \<Rightarrow> bytes set \<Rightarrow> nat \<Rightarrow> bytes \<Rightarrow> bool" where
  "bytes_ok G B off out \<longleftrightarrow>
     (\<forall>i < length out. \<exists>b \<in> B. length b = 4096 \<and> G ((off + i) div 4096) b \<and> b ! ((off + i) mod 4096) = out ! i)"

lemma bytes_ok_Nil [simp]: "bytes_ok G B off []"
  by (simp add: bytes_ok_def)

lemma bytes_ok_append:
  assumes "bytes_ok G B off xs" "bytes_ok G B (off + length xs) ys"
  shows "bytes_ok G B off (xs @ ys)"
  unfolding bytes_ok_def
proof (intro allI impI)
  fix i assume "i < length (xs @ ys)"
  then consider "i < length xs" | j where "i = length xs + j" "j < length ys"
    by (metis add_diff_inverse_nat length_append nat_add_left_cancel_less)
  then show "\<exists>b \<in> B. length b = 4096 \<and> G ((off + i) div 4096) b \<and> b ! ((off + i) mod 4096) = (xs @ ys) ! i"
    using assms by cases (auto simp: bytes_ok_def nth_append add.assoc)
qed

lemma next_block: "q * 4096 + r = off \<Longrightarrow> r < 4096 \<Longrightarrow> off + (4096 - r) = (q + 1) * (4096 :: nat)"
  by simp

text \<open>A part of a genuine block.\<close>

lemma bytes_ok_slice:
  assumes "b \<in> B" "length b = 4096" "G n b" "off + k \<le> 4096"
  shows "bytes_ok G B (n * 4096 + off) (slice off k b)"
  unfolding bytes_ok_def
proof (intro allI impI)
  fix i assume "i < length (slice off k b)"
  then have i: "off + i < 4096" "i < k" using assms by (auto simp: slice_def)
  then have "((off + i) + n * 4096) div 4096 = n" "((off + i) + n * 4096) mod 4096 = off + i"
    by (simp_all only: div_mult_self1 mod_mult_self1 mod_less)
  then have "(n * 4096 + off + i) div 4096 = n" "(n * 4096 + off + i) mod 4096 = off + i"
    by (simp_all only: ac_simps)
  with assms i show "\<exists>b' \<in> B. length b' = 4096 \<and> G ((n * 4096 + off + i) div 4096) b' \<and>
      b' ! ((n * 4096 + off + i) mod 4096) = slice off k b ! i"
    by (auto simp: slice_nth intro!: bexI [of _ b])
qed

text \<open>The invariant of a protected file, and what no read changes.\<close>

definition file_ok :: "('s \<Rightarrow> bool) \<Rightarrow> ('s \<Rightarrow> nat \<Rightarrow> bytes \<Rightarrow> bool) \<Rightarrow> bytes set \<Rightarrow> 's protected_file \<Rightarrow> bool" where
  "file_ok I G B pf \<longleftrightarrow>
     I (p_verifier pf) \<and> p_blockSize pf = 4096 \<and> p_fileSize pf + 4096 < SIZE_MAX \<and> length (p_blockBuffer pf) = 4096 \<and>
     (p_blockBufferNumber pf \<noteq> SIZE_MAX \<longrightarrow>
        p_blockBuffer pf \<in> B \<and> G (p_verifier pf) (p_blockBufferNumber pf) (p_blockBuffer pf))"

definition same_file :: "'s protected_file \<Rightarrow> 's protected_file \<Rightarrow> bool" where
  "same_file pf pf' \<longleftrightarrow>
     p_fileOffset pf' = p_fileOffset pf \<and> p_fileSize pf' = p_fileSize pf \<and> p_blockSize pf' = p_blockSize pf \<and>
     p_directIo pf' = p_directIo pf"

lemma same_file_refl [simp]: "same_file pf pf"
  by (simp add: same_file_def)

lemma same_file_trans: "same_file pf pf' \<Longrightarrow> same_file pf' pf'' \<Longrightarrow> same_file pf pf''"
  by (simp add: same_file_def)

context authenticator
begin

abbreviation (input) "keeps B pf pf' \<equiv>
  file_ok invar genuine B pf' \<and> genuine (p_verifier pf') = genuine (p_verifier pf) \<and> same_file pf pf'"

lemma fill_block_buffer_ok:
  assumes "file_ok invar genuine B pf" "\<forall>n. admissible (hashes n)" "\<forall>n. blocks_within 4096 B (data n)"
    "fill_block_buffer check hashes data pf n = (r, pf')"
  shows "keeps B pf pf' \<and> (r = Done True \<longrightarrow> p_blockBufferNumber pf' = n \<and> p_blockBuffer pf' \<in> B \<and>
    length (p_blockBuffer pf') = 4096 \<and> genuine (p_verifier pf) n (p_blockBuffer pf'))"
proof -
  let ?off = "sz_add (p_fileOffset pf) (sz_mul n (p_blockSize pf))"
  have ok: "invar (p_verifier pf)" "p_blockSize pf = 4096" "p_fileSize pf + 4096 < SIZE_MAX" "length (p_blockBuffer pf) = 4096"
    using assms(1) by (auto simp: file_ok_def)
  show ?thesis
  proof (cases "pread_full (data n) 4096 ?off")
    case None
    then have "r = Done False" "pf' = pf\<lparr>p_blockBuffer := pread (data n) 4096 ?off @ drop (length (pread (data n) 4096 ?off)) (p_blockBuffer pf),
        p_blockBufferNumber := SIZE_MAX\<rparr>"
      using assms(4) ok(2) by (auto simp: fill_block_buffer_def read_block_buffer_def Let_def)
    then show ?thesis
      using ok by (auto simp: file_ok_def same_file_def pread_def slice_def)
  next
    case (Some d)
    then have d: "d \<in> B" "length d = 4096" "pread (data n) 4096 ?off = d"
      using assms(3) by (auto simp: blocks_within_def pread_full_Some pread_def)
    obtain q v where q: "check (p_verifier pf) (hashes n) n d = (q, v)" by fastforce
    from check_step [OF ok(1) spec [OF assms(2)] q] show ?thesis
      using assms(4) Some d q ok
      by (auto simp: fill_block_buffer_def read_block_buffer_def Let_def file_ok_def same_file_def)
  qed
qed

lemma readPartialBlock_ok:
  assumes "file_ok invar genuine B pf" "\<forall>n. admissible (hashes n)" "\<forall>n. blocks_within 4096 B (data n)" "n \<noteq> SIZE_MAX"
    "readPartialBlock check hashes data pf n off k = (r, pf')"
  shows "keeps B pf pf' \<and> (\<forall>d. r = Done (Some d) \<longrightarrow> length d = k \<and>
    bytes_ok (genuine (p_verifier pf)) B (n * 4096 + off) d)"
proof (cases "off \<ge> p_blockSize pf \<or> k > p_blockSize pf - off")
  case True
  then show ?thesis using assms by (auto simp: readPartialBlock_def)
next
  case False
  have bs: "p_blockSize pf = 4096" using assms(1) by (simp add: file_ok_def)
  with False have fits: "off + k \<le> 4096" by auto
  show ?thesis
  proof (cases "n = p_blockBufferNumber pf")
    case True
    then have "r = Done (Some (slice off k (p_blockBuffer pf)))" "pf' = pf"
      using assms(5) False by (auto simp: readPartialBlock_def)
    then show ?thesis
      using assms(1,4) True fits bytes_ok_slice by (auto simp: file_ok_def length_slice)
  next
    case miss: False
    obtain q u where q: "fill_block_buffer check hashes data pf n = (q, u)" by fastforce
    have "r = (if q = Done True then Done (Some (slice off k (p_blockBuffer u))) else refuse q)" "pf' = u"
      using assms(5) miss False q by (auto simp: readPartialBlock_def)
    with fill_block_buffer_ok [OF assms(1-3) q] show ?thesis
      using fits by (cases q) (auto simp: length_slice intro!: bytes_ok_slice split: if_splits)
  qed
qed

lemma read_blocks_ok:
  assumes "file_ok invar genuine B pf" "\<forall>n. admissible (hashes n)" "\<forall>n. blocks_within 4096 B (data n)"
  shows "\<exists>r pf'. read_blocks check hashes data pf n k out = Some (r, pf') \<and> keeps B pf pf' \<and>
    (\<forall>out' n' k'. r = Done (Some (out', n', k')) \<longrightarrow> k' < 4096 \<and>
      (\<exists>d. out' = out @ d \<and> length d + k' = k \<and> n' * 4096 = n * 4096 + length d \<and>
        bytes_ok (genuine (p_verifier pf)) B (n * 4096) d))"
  using assms
proof (induction k arbitrary: pf n out rule: less_induct)
  case (less k)
  have ok: "invar (p_verifier pf)" "p_blockSize pf = 4096"
    using less.prems(1) by (auto simp: file_ok_def)
  let ?off = "sz_add (p_fileOffset pf) (sz_mul n 4096)"
  show ?case
  proof (cases "k < 4096")
    case True
    then show ?thesis using less.prems(1) ok by (subst read_blocks.simps) auto
  next
    case False
    show ?thesis
    proof (cases "pread_full (data n) 4096 ?off")
      case None
      then show ?thesis using False less.prems(1) ok by (subst read_blocks.simps) auto
    next
      case (Some d)
      then have d: "d \<in> B" "length d = 4096"
        using less.prems(3) by (auto simp: blocks_within_def pread_full_Some)
      obtain q v where q: "check (p_verifier pf) (hashes n) n d = (q, v)" by fastforce
      note step = check_step [OF ok(1) spec [OF less.prems(2)] q]
      let ?pf = "pf\<lparr>p_verifier := v\<rparr>"
      have pf: "file_ok invar genuine B ?pf" "same_file pf ?pf"
        using less.prems(1) step by (auto simp: file_ok_def same_file_def)
      show ?thesis
      proof (cases "q = Done True")
        case True
        with less.IH [OF _ pf(1) less.prems(2,3), of "k - 4096" "n + 1" "out @ d"] False
        obtain r pf' where IH: "read_blocks check hashes data ?pf (n + 1) (k - 4096) (out @ d) = Some (r, pf')"
          "keeps B ?pf pf'" "\<And>out' n' k'. r = Done (Some (out', n', k')) \<Longrightarrow> k' < 4096 \<and>
            (\<exists>e. out' = (out @ d) @ e \<and> length e + k' = k - 4096 \<and> n' * 4096 = (n + 1) * 4096 + length e \<and>
              bytes_ok (genuine (p_verifier ?pf)) B ((n + 1) * 4096) e)" by fastforce
        have "read_blocks check hashes data pf n k out = Some (r, pf')"
          using IH(1) False Some q True ok by (subst read_blocks.simps) simp
        moreover have first: "bytes_ok (genuine (p_verifier pf)) B (n * 4096) d"
          using bytes_ok_slice [of d B "genuine (p_verifier pf)" n 0 4096] d step True by (simp add: slice_def)
        have "k' < 4096 \<and> (\<exists>e. out' = out @ e \<and> length e + k' = k \<and> n' * 4096 = n * 4096 + length e \<and>
            bytes_ok (genuine (p_verifier pf)) B (n * 4096) e)" if "r = Done (Some (out', n', k'))" for out' n' k'
        proof -
          from IH(3) [OF that] obtain e where e: "k' < 4096" "out' = (out @ d) @ e" "length e + k' = k - 4096"
            "n' * 4096 = (n + 1) * 4096 + length e" "bytes_ok (genuine (p_verifier pf)) B ((n + 1) * 4096) e"
            using step by auto
          have "bytes_ok (genuine (p_verifier pf)) B (n * 4096) (d @ e)"
            using bytes_ok_append [OF first, of e] e(5) d(2) by (simp add: algebra_simps)
          with e d False show ?thesis by (intro conjI exI [of _ "d @ e"]) auto
        qed
        ultimately show ?thesis using IH(2) pf(2) step by (auto intro: same_file_trans)
      next
        case no: False
        then have "read_blocks check hashes data pf n k out = Some (refuse q, ?pf)"
          using False Some q ok by (subst read_blocks.simps) simp
        then show ?thesis using pf step no by (cases q) auto
      qed
    qed
  qed
qed

lemma readDirectIo_ok:
  assumes "file_ok invar genuine B pf" "\<forall>n. admissible (hashes n)" "\<forall>n. blocks_within 4096 B (data n)"
    "n * 4096 + off mod 4096 + k < SIZE_MAX"
  shows "\<exists>r pf'. readDirectIo check hashes data pf n k off out = Some (r, pf') \<and> keeps B pf pf' \<and>
    (\<forall>out'. r = Done (Some out') \<longrightarrow>
      (\<exists>d. out' = out @ d \<and> length d = k \<and> bytes_ok (genuine (p_verifier pf)) B (n * 4096 + off mod 4096) d))"
  using assms
proof (induction k arbitrary: pf n off out rule: less_induct)
  case (less k)
  let ?bo = "off mod 4096" and ?am = "min k (4096 - off mod 4096)"
  have bs: "p_blockSize pf = 4096" and n: "n \<noteq> SIZE_MAX"
    using less.prems(1,4) by (auto simp: file_ok_def)
  show ?case
  proof (cases "k = 0")
    case True
    then show ?thesis using less.prems(1) by (subst readDirectIo.simps) auto
  next
    case False
    obtain q u where q: "(if p_blockBufferNumber pf \<noteq> n then fill_block_buffer check hashes data pf n
        else (Done True, pf)) = (q, u)" by fastforce
    then have u: "keeps B pf u" and got: "q = Done True \<Longrightarrow> p_blockBufferNumber u = n \<and> p_blockBuffer u \<in> B \<and>
        length (p_blockBuffer u) = 4096 \<and> genuine (p_verifier pf) n (p_blockBuffer u)"
      using fill_block_buffer_ok [OF less.prems(1-3), of n q u] less.prems(1) n
      by (auto simp: file_ok_def split: if_splits)
    show ?thesis
    proof (cases "q = Done True")
      case no: False
      then have "readDirectIo check hashes data pf n k off out = Some (refuse q, u)"
        using False q by (subst readDirectIo.simps) (simp add: bs)
      then show ?thesis using u no by (cases q) auto
    next
      case True
      let ?d = "slice ?bo ?am (p_blockBuffer u)"
      have len: "length ?d = ?am" using got [OF True] by (simp add: length_slice)
      have first: "bytes_ok (genuine (p_verifier pf)) B (n * 4096 + ?bo) ?d"
        using got [OF True] by (intro bytes_ok_slice) auto
      have "k - ?am < k" using False by simp
      moreover have room: "(n + 1) * 4096 + 0 mod 4096 + (k - ?am) < SIZE_MAX \<or> k - ?am = 0"
        using less.prems(4) by (auto simp: min_def)
      ultimately obtain r pf' where rec: "readDirectIo check hashes data u (n + 1) (k - ?am) 0 (out @ ?d) = Some (r, pf')"
        "keeps B u pf'" "\<And>out'. r = Done (Some out') \<Longrightarrow>
          \<exists>d. out' = (out @ ?d) @ d \<and> length d = k - ?am \<and> bytes_ok (genuine (p_verifier u)) B ((n + 1) * 4096) d"
      proof (cases "k - ?am = 0")
        case True
        then have "readDirectIo check hashes data u (n + 1) (k - ?am) 0 (out @ ?d) = Some (Done (Some (out @ ?d)), u)"
          by (subst readDirectIo.simps) simp
        with that True u show thesis by auto
      next
        case False
        then have "(n + 1) * 4096 + 0 mod 4096 + (k - ?am) < SIZE_MAX" using room by metis
        from less.IH [OF \<open>k - ?am < k\<close> _ less.prems(2,3) this, of u "out @ ?d"] u
        show thesis using that by auto
      qed
      have eq: "readDirectIo check hashes data pf n k off out = Some (r, pf')"
        using rec(1) False q True u by (subst readDirectIo.simps) (simp add: bs same_file_def)
      have "\<exists>d. out' = out @ d \<and> length d = k \<and> bytes_ok (genuine (p_verifier pf)) B (n * 4096 + ?bo) d"
        if "r = Done (Some out')" for out'
      proof -
        from rec(3) [OF that] u obtain d where d: "out' = (out @ ?d) @ d" "length d = k - ?am"
          "bytes_ok (genuine (p_verifier pf)) B ((n + 1) * 4096) d" by auto
        have "n * 4096 + ?bo + ?am = (n + 1) * 4096" if "d \<noteq> []"
          using that d(2) by (auto simp: min_def split: if_splits)
        then have "bytes_ok (genuine (p_verifier pf)) B (n * 4096 + ?bo + length ?d) d"
          using d(3) len by (metis bytes_ok_Nil)
        from bytes_ok_append [OF first this] d len show ?thesis by (intro exI [of _ "?d @ d"]) auto
      qed
      then show ?thesis using eq rec(2) u by (auto intro: same_file_trans)
    qed
  qed
qed

lemma read_tail_ok:
  assumes "file_ok invar genuine B pf" "\<forall>n. admissible (hashes n)" "\<forall>n. blocks_within 4096 B (data n)" "n * 4096 + k < SIZE_MAX"
  shows "\<exists>r pf'. read_tail check hashes data pf n k out = Some (r, pf') \<and> keeps B pf pf' \<and>
    (\<forall>out'. r = Done (Some out') \<longrightarrow>
      (\<exists>d. out' = out @ d \<and> length d = k \<and> bytes_ok (genuine (p_verifier pf)) B (n * 4096) d))"
proof -
  from read_blocks_ok [OF assms(1-3), of n k out] obtain r u where
    r: "read_blocks check hashes data pf n k out = Some (r, u)" and u: "keeps B pf u"
    and out: "\<And>out' n' k'. r = Done (Some (out', n', k')) \<Longrightarrow> k' < 4096 \<and> (\<exists>d. out' = out @ d \<and> length d + k' = k \<and>
      n' * 4096 = n * 4096 + length d \<and> bytes_ok (genuine (p_verifier pf)) B (n * 4096) d)"
    by blast
  show ?thesis
  proof (cases "\<exists>out' n' k'. r = Done (Some (out', n', k'))")
    case False
    then show ?thesis using r u by (cases r) (auto simp: read_tail_def split: option.splits)
  next
    case True
    then obtain out' n' k' where eq: "r = Done (Some (out', n', k'))" by blast
    from out [OF eq] obtain d where d: "out' = out @ d" "length d + k' = k" "n' * 4096 = n * 4096 + length d"
      "bytes_ok (genuine (p_verifier pf)) B (n * 4096) d" by blast
    show ?thesis
    proof (cases "k' = 0")
      case True
      then show ?thesis using r u eq d by (auto simp: read_tail_def)
    next
      case False
      have n': "n' \<noteq> SIZE_MAX" using d(2,3) assms(4) by auto
      obtain q pf' where q: "readPartialBlock check hashes data u n' 0 k' = (q, pf')" by fastforce
      have part: "keeps B u pf'" "\<And>e. q = Done (Some e) \<Longrightarrow> length e = k' \<and>
          bytes_ok (genuine (p_verifier u)) B (n' * 4096 + 0) e"
        using readPartialBlock_ok [OF _ assms(2,3) n' q] u by auto
      have "\<exists>e'. length e' = k \<and> out' @ e = out @ e' \<and> bytes_ok (genuine (p_verifier pf)) B (n * 4096) e'"
        if "q = Done (Some e)" for e
        using part(2) [OF that] u d bytes_ok_append [OF d(4), of e]
        by (intro exI [of _ "d @ e"]) auto
      then show ?thesis
        using r eq False q part(1) u
        by (cases q; cases "result q") (auto simp: read_tail_def intro: same_file_trans split: option.splits)
    qed
  qed
qed

lemma protected_read_ok:
  assumes "file_ok invar genuine B pf" "\<forall>n. admissible (hashes n)" "\<forall>n. blocks_within 4096 B (data n)"
  shows "\<exists>r pf'. protected_read check hashes data pf k off = Some (r, pf') \<and> keeps B pf pf' \<and>
    (\<forall>out. r = Done (Some out) \<longrightarrow> length out = k \<and> off + k \<le> p_fileSize pf \<and>
      bytes_ok (genuine (p_verifier pf)) B off out)"
proof (cases "off \<ge> p_fileSize pf \<or> k > p_fileSize pf - off")
  case True
  then show ?thesis using assms(1) by (auto simp: protected_read_def)
next
  case False
  have bs: "p_blockSize pf = 4096" "p_fileSize pf + 4096 < SIZE_MAX" using assms(1) by (auto simp: file_ok_def)
  then have range: "off + k \<le> p_fileSize pf" "off + k + 4096 < SIZE_MAX" using False by auto
  have off: "off div 4096 * 4096 + off mod 4096 = off" by simp
  show ?thesis
  proof (cases "p_directIo pf")
    case True
    then show ?thesis
      using readDirectIo_ok [OF assms, of "off div 4096" off k "[]"] range False bs
      by (auto simp: protected_read_def)
  next
    case False
    note normal = False
    show ?thesis
    proof (cases "off mod 4096 = 0")
      case True
      then have "off div 4096 * 4096 = off" by auto
      then show ?thesis
        using read_tail_ok [OF assms, of "off div 4096" k "[]"] range normal bs True
          \<open>\<not> (off \<ge> p_fileSize pf \<or> k > p_fileSize pf - off)\<close>
        by (auto simp: protected_read_def)
    next
      case False
      let ?am = "min k (4096 - off mod 4096)"
      obtain q u where q: "readPartialBlock check hashes data pf (off div 4096) (off mod 4096) ?am = (q, u)" by fastforce
      have u: "keeps B pf u" and head: "\<And>d. q = Done (Some d) \<Longrightarrow> length d = ?am \<and>
          bytes_ok (genuine (p_verifier pf)) B off d"
        using readPartialBlock_ok [OF assms _ q] range(2) off by auto
      show ?thesis
      proof (cases "\<exists>d. q = Done (Some d)")
        case no: False
        then show ?thesis
          using q u False normal bs \<open>\<not> (off \<ge> p_fileSize pf \<or> k > p_fileSize pf - off)\<close>
          by (cases q) (auto simp: protected_read_def split: option.splits)
      next
        case True
        then obtain d where d: "q = Done (Some d)" by blast
        let ?n = "off div 4096 + 1"
        have "p_blockSize u = 4096" using u bs by (simp add: same_file_def)
        have "?n * 4096 + (k - ?am) < SIZE_MAX" using range(2) off by (auto simp: min_def)
        from read_tail_ok [OF _ assms(2,3) this, of u d] u obtain r pf' where
          r: "read_tail check hashes data u ?n (k - ?am) d = Some (r, pf')" "keeps B pf pf'"
          "\<And>out. r = Done (Some out) \<Longrightarrow>
            \<exists>e. out = d @ e \<and> length e = k - ?am \<and> bytes_ok (genuine (p_verifier pf)) B (?n * 4096) e"
          by (auto intro: same_file_trans)
        have "length out = k \<and> bytes_ok (genuine (p_verifier pf)) B off out" if "r = Done (Some out)" for out
        proof -
          from r(3) [OF that] obtain e where e: "out = d @ e" "length e = k - ?am"
            "bytes_ok (genuine (p_verifier pf)) B (?n * 4096) e" by blast
          have "off + ?am = ?n * 4096" if "e \<noteq> []" 
          proof -
            have "?am = 4096 - off mod 4096" using that e(2) by (auto simp: min_def split: if_splits)
            then show ?thesis using next_block [OF off] by simp
          qed
          then have "bytes_ok (genuine (p_verifier pf)) B (off + length d) e"
            using e(3) head [OF d] by (metis bytes_ok_Nil)
          with e head [OF d] show ?thesis by (auto intro: bytes_ok_append)
        qed
        moreover have "protected_read check hashes data pf k off = Some (r, pf')"
          using q d r(1) False normal bs \<open>\<not> (off \<ge> p_fileSize pf \<or> k > p_fileSize pf - off)\<close>
            \<open>p_blockSize u = 4096\<close>
          by (simp add: protected_read_def Let_def)
        ultimately show ?thesis using r(2) range(1) by blast
      qed
    qed
  qed
qed

end

subsection \<open>Sequences of reads\<close>

text \<open>The state after a sequence of reads, each with the files as they are while it goes on.\<close>

fun protected_reads ::
  "'s checker \<Rightarrow> 's protected_file \<Rightarrow> ((nat \<Rightarrow> bytes) \<times> (nat \<Rightarrow> bytes) \<times> nat \<times> nat) list \<Rightarrow> 's protected_file option" where
  "protected_reads check pf [] = Some pf"
| "protected_reads check pf ((hashes, data, k, off) # rs) =
     (case protected_read check hashes data pf k off of
        None \<Rightarrow> None
      | Some (r, pf') \<Rightarrow> protected_reads check pf' rs)"

context authenticator
begin

lemma protected_reads_ok:
  "file_ok invar genuine B pf \<Longrightarrow>
   (\<And>h d k off. (h, d, k, off) \<in> set rs \<Longrightarrow> (\<forall>n. admissible (h n)) \<and> (\<forall>n. blocks_within 4096 B (d n))) \<Longrightarrow>
   \<exists>pf'. protected_reads check pf rs = Some pf' \<and> keeps B pf pf'"
proof (induction rs arbitrary: pf)
  case (Cons x rs)
  obtain h d k off where x: "x = (h, d, k, off)" by (cases x)
  have later: "(\<forall>n. admissible (h n)) \<and> (\<forall>n. blocks_within 4096 B (d n))" if "(h, d, k, off) \<in> set rs" for h d k off
    by (rule Cons.prems(2) [of h d k off]) (use that in simp)
  have adm: "\<forall>n. admissible (h n)" "\<forall>n. blocks_within 4096 B (d n)" using Cons.prems(2) [of h d k off] x by auto
  from protected_read_ok [OF Cons.prems(1) adm, of k off] obtain r u where
    u: "protected_read check h d pf k off = Some (r, u)" "keeps B pf u" by blast
  have "\<exists>pf'. protected_reads check u rs = Some pf' \<and> keeps B u pf'"
    using Cons.IH [of u] u(2) later by blast
  then show ?case using x u by (auto intro: same_file_trans)
qed simp

end

subsection \<open>Opened files\<close>

abbreviation "opened_file_ok H B \<equiv> file_ok (verifier_ok H B) (genuine_block H B) B"

lemma protected_open_ok:
  assumes "protected_open H direct data doff dsz hashes hoff hsz root = Some (Done pf)"
    "blocks_within 4096 B hashes" "length data < 2 ^ 63"
  shows "opened_file_ok H B pf \<and>
    (\<exists>off sz. verifier_open H hashes root off sz = Some (Done (p_verifier pf))) \<and>
    p_fileOffset pf + p_fileSize pf \<le> length data"
proof -
  from assms(1) obtain off sz hoff' hsz' v where
    range: "checkAndCalcFileRange data doff dsz = Done (off, sz)" and
    v: "verifier_open H hashes root (Some hoff') (Some hsz') = Some (Done v)" "v_dataBlockSize v = 4096" and
    pf: "pf = \<lparr>p_verifier = v, p_fileOffset = off, p_fileSize = sz, p_blockSize = v_dataBlockSize v,
      p_blockBuffer = replicate (v_dataBlockSize v) 0, p_blockBufferNumber = SIZE_MAX, p_directIo = direct\<rparr>"
    by (auto simp: protected_open_def split: outcome.splits prod.splits if_splits)
  have "off + sz \<le> length data"
    using range by (auto simp: checkAndCalcFileRange_def Let_def split: if_splits)
  then show ?thesis
    using verifier_open_ok(1) [OF v(1) assms(2)] v assms(3) by (auto simp: file_ok_def pf)
qed

text \<open>
  C27. A read of an opened file always returns, whatever the two files have become meanwhile; where
  it succeeds it delivers exactly the bytes asked for, and they lie in the protected range.
\<close>

theorem protected_read_total:
  assumes "protected_open H direct data doff dsz hashes hoff hsz root = Some (Done pf)" "length data < 2 ^ 63"
  shows "\<exists>pf' r pf''. protected_reads (verify H) pf rs = Some pf' \<and>
    protected_read (verify H) hashes' data' pf' k off = Some (r, pf'') \<and>
    (case r of Done (Some out) \<Rightarrow> length out = k \<and> off + k \<le> p_fileSize pf | _ \<Rightarrow> True)"
proof -
  have all: "blocks_within 4096 UNIV f" for f by (simp add: blocks_within_def)
  have "opened_file_ok H UNIV pf" using protected_open_ok [OF assms(1) all assms(2)] by blast
  from verifier.protected_reads_ok [OF this, of rs] all obtain pf' where
    pf': "protected_reads (verify H) pf rs = Some pf'" "opened_file_ok H UNIV pf'" "same_file pf pf'" by blast
  from verifier.protected_read_ok [OF pf'(2), of hashes' data' k off] all pf'
  show ?thesis by (fastforce simp: same_file_def split: outcome.splits option.splits)
qed

subsection \<open>The root hash fixes what is read\<close>

lemma add_layers_counts:
  "layer_counts (add_layers hbs salt L off (d # ds)) = rev (map snd ds) @ layer_counts L"
  by (induction ds arbitrary: L off d) (auto simp: Let_def)

lemma verifier_open_counts:
  assumes "verifier_open H file root off sz = Some (Done v)" "v_layer0 v = Some L" "v_dataBlockCount v \<noteq> 1"
  shows "\<exists>ds. layer_details 128 (v_dataBlockCount v) = Some ds \<and> layer_counts L = map snd ds \<and>
    v_dataBlockCount v + 127 < SIZE_LIMIT"
proof -
  from verifier_open_parse [OF assms(1)] obtain u where "parseDmVeritySuperBlock H file u = Some (Done v)" by blast
  then show ?thesis
  proof (cases rule: parse_cases)
    case (1 w)
    show ?thesis
    proof (cases "v_dataBlockCount w = 1")
      case True
      then show ?thesis using 1(6) assms(3) by auto
    next
      case False
      with 1(6) obtain ds where ds: "layer_details 128 (v_dataBlockCount w) = Some ds" "build_layers H file w ds = Done v"
        by auto
      then have "ds \<noteq> []" by (auto simp: layer_details_def)
      then obtain e es where rev: "rev ds = e # es" by (metis list.exhaust rev_is_Nil_conv)
      then have ds': "ds = rev es @ [e]" by (metis rev.simps(2) rev_rev_ident)
      from ds(2) have "v_dataBlockCount v = v_dataBlockCount w \<and> layer_counts L = map snd ds"
        using assms(2) rev by (auto simp: build_layers_def Let_def add_layers_counts topMostHashTreeLayer_def ds' rev_map
            split: if_splits option.splits)
      then show ?thesis using ds(1) 1(5) by auto
    qed
  qed
qed


lemma honest_authentic:
  assumes "\<And>b. length (H b) = 32" "\<forall>l \<in> set (tree_levels H salt bs). set l \<subseteq> B" "n < length bs"
  shows "authentic H B salt (tree_root H salt bs) 4096 (map snd (level_sizes H salt bs)) n (H (salt @ bs ! n))"
  using assms
proof (induction H salt bs arbitrary: n rule: tree_levels.induct)
  case (1 H salt bs)
  let ?hs = "hash_blocks H salt bs"
  show ?case
  proof (cases "length bs \<le> 1")
    case True
    with 1(4) have "n = 0" "tree_root H salt bs = H (salt @ bs ! 0)"
      by (cases bs; simp add: tree_root_def)+
    then show ?thesis using True by (simp add: level_sizes_simps authentic.root)
  next
    case False
    then have levels: "tree_levels H salt bs = ?hs # tree_levels H salt ?hs"
        "level_sizes H salt bs = (length ?hs, length bs) # level_sizes H salt ?hs"
      by (simp_all add: tree_levels_more level_sizes_simps)
    have idx: "n div 128 < length ?hs" using 1(4) by simp
    have "tree_root H salt bs = tree_root H salt ?hs" by (simp add: tree_root_def levels)
    moreover have "authentic H B salt (tree_root H salt ?hs) 4096 (map snd (level_sizes H salt ?hs)) (n div 128)
        (H (salt @ ?hs ! (n div 128)))"
      using 1(1) [OF False 1(2) _ idx] 1(3) by (simp add: levels)
    moreover have "?hs ! (n div 128) \<in> B" using 1(3) idx by (auto simp: levels)
    moreover have "length (?hs ! (n div 128)) = 4096"
      using hash_blocks_length [where H = H and salt = salt and bs = bs, OF 1(2)] idx by auto
    ultimately show ?thesis
      using hash_at_block [where H = H and salt = salt and bs = bs, OF 1(2) 1(4)] 1(4)
      by (auto simp: levels intro!: authentic.node)
  qed
qed

text \<open>
  The data blocks \<open>bs\<close> are the ones a verifier is opened for: its root hash, its salt and its
  number of blocks are those of the tree of \<open>bs\<close>, and the hash has no collision among the blocks
  that occur, those of the tree included.
\<close>

definition signed_image :: "(bytes \<Rightarrow> bytes) \<Rightarrow> bytes set \<Rightarrow> verifier \<Rightarrow> bytes list \<Rightarrow> bool" where
  "signed_image H B v bs \<longleftrightarrow>
     v_rootHash v = tree_root H (v_salt v) bs \<and> v_dataBlockCount v = length bs \<and>
     collision_free H (v_salt v) B \<and> set bs \<subseteq> B \<and> (\<forall>b \<in> set bs. length b = 4096) \<and>
     (\<forall>l \<in> set (tree_levels H (v_salt v) bs). set l \<subseteq> B)"

lemma signed_image_genuine:
  assumes "\<And>b. length (H b) = 32" "verifier_open H hashes root off sz = Some (Done v)" "signed_image H B v bs"
    "n < length bs"
  shows "genuine_block H B v n (bs ! n)"
proof -
  note ok = verifier_open_ok(1) [OF assms(2), of UNIV]
  then obtain L where L: "v_layer0 v = Some L" by (auto simp: verifier_ok_def blocks_within_def)
  have "layer_counts L = map snd (level_sizes H (v_salt v) bs)"
  proof (cases "length bs = 1")
    case True
    from verifier_open_parse [OF assms(2)] obtain u where "parseDmVeritySuperBlock H hashes u = Some (Done v)" by blast
    then show ?thesis
    proof (cases rule: parse_cases)
      case (1 w)
      then show ?thesis
        using True L assms(3)
        by (auto simp: signed_image_def build_layers_def Let_def level_sizes_simps split: if_splits)
    qed
  next
    case False
    then obtain ds where ds: "layer_details 128 (length bs) = Some ds" "layer_counts L = map snd ds"
        and room: "length bs + 127 < SIZE_LIMIT"
      using verifier_open_counts [OF assms(2) L] assms(3) by (auto simp: signed_image_def)
    show ?thesis
      using room ds layer_details_tree [of bs H "v_salt v"] False assms(4) by simp
  qed
  then show ?thesis
    using honest_authentic [where H = H and bs = bs and salt = "v_salt v", OF assms(1) _ assms(4)] assms(3,4) L
    by (auto simp: signed_image_def genuine_block_def)
qed

lemma concat_nth_byte:
  assumes "\<forall>b \<in> set bs. length b = 4096" "i < length bs * 4096"
  shows "concat bs ! i = bs ! (i div 4096) ! (i mod 4096)"
proof -
  have i: "i div 4096 < length bs" using assms(2) by simp
  have "slice (i div 4096 * 4096) 4096 (concat bs @ []) = bs ! (i div 4096)"
    by (rule concat_nth [OF assms(1) i])
  then have "bs ! (i div 4096) ! (i mod 4096) = slice (i div 4096 * 4096) 4096 (concat bs) ! (i mod 4096)" by simp
  also have "\<dots> = concat bs ! i"
    using length_concat_same [OF assms(1)] assms(2) by (subst slice_nth) auto
  finally show ?thesis by simp
qed

lemma protected_read_signed:
  assumes H: "\<And>b. length (H b) = 32"
    and open_ok: "protected_open H direct data doff dsz hashes hoff hsz root = Some (Done pf)" "length data < 2 ^ 63"
      "blocks_within 4096 B hashes"
    and signed: "signed_image H B (p_verifier pf) bs"
    and before: "\<forall>(h, d, k, off) \<in> set rs. \<forall>n. blocks_within 4096 B (h n) \<and> blocks_within 4096 B (d n)"
      "protected_reads (verify H) pf rs = Some pf'"
    and now: "\<forall>n. blocks_within 4096 B (hashes' n)" "\<forall>n. blocks_within 4096 B (data' n)"
      "protected_read (verify H) hashes' data' pf' k off = Some (Done (Some out), pf'')"
  shows "out = slice off k (concat bs)"
proof -
  from protected_open_ok [OF open_ok(1,3,2)] obtain o1 s1 where
    ok: "opened_file_ok H B pf" and v: "verifier_open H hashes root o1 s1 = Some (Done (p_verifier pf))" by blast
  have earlier: "(\<forall>n. blocks_within 4096 B (h n)) \<and> (\<forall>n. blocks_within 4096 B (d n))" if "(h, d, k, off) \<in> set rs" for h d k off
    using before(1) that by fast
  have ok': "opened_file_ok H B pf'" and same: "genuine_block H B (p_verifier pf') = genuine_block H B (p_verifier pf)"
    using verifier.protected_reads_ok [OF ok, of rs] before(2) earlier by auto
  with verifier.protected_read_ok [OF ok' now(1,2), of k off] now(3)
  have len: "length out = k" and bytes: "bytes_ok (genuine_block H B (p_verifier pf)) B off out" by auto
  have blocks: "\<forall>b \<in> set bs. length b = 4096" "collision_free H (v_salt (p_verifier pf)) B"
    using signed by (auto simp: signed_image_def)
  have byte: "off + i < length bs * 4096 \<and> out ! i = concat bs ! (off + i)" if "i < k" for i
  proof -
    from bytes that len obtain b where b: "b \<in> B" "length b = 4096"
      "genuine_block H B (p_verifier pf) ((off + i) div 4096) b" "b ! ((off + i) mod 4096) = out ! i"
      by (auto simp: bytes_ok_def)
    then have n: "(off + i) div 4096 < length bs" using signed by (auto simp: genuine_block_def signed_image_def)
    have "bs ! ((off + i) div 4096) \<in> B" "length (bs ! ((off + i) div 4096)) = 4096"
      using n blocks(1) signed by (auto simp: signed_image_def)
    then have "b = bs ! ((off + i) div 4096)"
      using genuine_unique [OF blocks(2) b(3) signed_image_genuine [where H = H, OF H v signed n] b(1) _ b(2)] by blast
    moreover have "off + i < length bs * 4096" using n div_less_iff_less_mult [of 4096 "off + i" "length bs"] by simp
    ultimately show ?thesis using b(4) concat_nth_byte [OF blocks(1)] by simp
  qed
  have cl: "length (concat bs) = length bs * 4096" by (rule length_concat_same [OF blocks(1)])
  have "length (slice off k (concat bs)) = k"
  proof (cases k)
    case (Suc j)
    then show ?thesis using byte [of j] cl by (intro length_slice) auto
  qed simp
  then show ?thesis using byte len cl by (intro nth_equalityI) (auto simp: slice_nth)
qed

text \<open>
  C2. A successful read returns the bytes of the image the root hash was computed for: whatever has
  become of the contents of the data file and of the hash blocks since then, before the open, between the
  reads and during a read, from one of its data blocks to the next, a read that succeeds delivers the bytes
  of the original image at its offset.  \<open>signed_image\<close> says what is taken from the open: the superblock of the
  hash tree, which the root hash does not cover, has the number of data blocks and the salt of the original,
  and the hash has no collision among the blocks that occur.  A read may still leave bytes of a refused block
  in the caller's buffer when it fails (\<open>refused_block_left\<close>).
\<close>

theorem protected_read_returns_signed_data:
  assumes H: "\<And>b. length (H b) = 32"
    and open_ok: "protected_open H direct data doff dsz hashes hoff hsz root = Some (Done pf)" "length data < 2 ^ 63"
      "blocks_within 4096 B hashes"
    and signed: "signed_image H B (p_verifier pf) bs"
    and before: "\<forall>(h, d, k, off) \<in> set rs. \<forall>n. blocks_within 4096 B (h n) \<and> blocks_within 4096 B (d n)"
      "protected_reads (verify H) pf rs = Some pf'"
    and now: "\<forall>n. blocks_within 4096 B (hashes' n)" "\<forall>n. blocks_within 4096 B (data' n)"
      "protected_read (verify H) hashes' data' pf' k off = Some (Done (Some out), pf'')"
  shows "out = slice off k (concat bs)"
  by (rule protected_read_signed [OF assms])

subsection \<open>Reading an intact image\<close>

text \<open>
  What the reader needs of a verifier to deliver data: while the hashes file stays as it is, the
  verifier accepts the blocks of the image and remains ready to.
\<close>

locale accepting =
  fixes check :: "'s checker" and hashes :: bytes and bs :: "bytes list" and ready :: "'s \<Rightarrow> bool"
  assumes accepts: "ready s \<Longrightarrow> n < length bs \<Longrightarrow> \<exists>s'. check s hashes n (bs ! n) = (Done True, s') \<and> ready s'"

text \<open>The data file holds the blocks, and the block buffer holds one of them or nothing.\<close>

definition file_holds :: "bytes list \<Rightarrow> bytes \<Rightarrow> 's protected_file \<Rightarrow> bool" where
  "file_holds bs data pf \<longleftrightarrow>
     p_blockSize pf = 4096 \<and> length (p_blockBuffer pf) = 4096 \<and> p_fileSize pf \<le> length bs * 4096 \<and> length bs * 4096 < SIZE_MAX \<and>
     (\<forall>n < length bs. pread_full data 4096 (sz_add (p_fileOffset pf) (sz_mul n 4096)) = Some (bs ! n)) \<and>
     (p_blockBufferNumber pf \<noteq> SIZE_MAX \<longrightarrow>
        p_blockBufferNumber pf < length bs \<and> p_blockBuffer pf = bs ! p_blockBufferNumber pf)"

lemma block_sizes: "file_holds bs data pf \<Longrightarrow> \<forall>b \<in> set bs. length b = 4096"
  by (auto simp: file_holds_def in_set_conv_nth pread_full_Some)

lemma concat_slice:
  assumes "\<forall>b \<in> set bs. length b = 4096" "n < length bs" "off + k \<le> 4096"
  shows "slice off k (bs ! n) = slice (n * 4096 + off) k (concat bs)"
proof -
  have "bs ! n = slice (n * 4096) 4096 (concat bs)" using concat_nth [OF assms(1,2), of "[]"] by simp
  then show ?thesis using slice_slice [OF assms(3), of "n * 4096" "concat bs"] by simp
qed

context accepting
begin

abbreviation (input) "serves data pf \<equiv> ready (p_verifier pf) \<and> file_holds bs data pf"

lemma fill_block_buffer_serves:
  assumes "serves data pf" "n < length bs"
  shows "\<exists>pf'. fill_block_buffer check (\<lambda>_. hashes) (\<lambda>_. data) pf n = (Done True, pf') \<and> serves data pf' \<and> same_file pf pf' \<and>
    p_blockBufferNumber pf' = n \<and> p_blockBuffer pf' = bs ! n"
proof -
  let ?off = "sz_add (p_fileOffset pf) (sz_mul n 4096)"
  from assms have rd: "pread_full data 4096 ?off = Some (bs ! n)" "p_blockSize pf = 4096" by (auto simp: file_holds_def)
  then have buf: "pread data 4096 ?off = bs ! n" "length (bs ! n) = 4096" by (auto simp: pread_full_Some pread_def)
  from assms accepts obtain s' where s': "check (p_verifier pf) hashes n (bs ! n) = (Done True, s')" "ready s'" by blast
  let ?pf = "pf\<lparr>p_blockBuffer := bs ! n @ drop 4096 (p_blockBuffer pf), p_verifier := s', p_blockBufferNumber := n\<rparr>"
  have "fill_block_buffer check (\<lambda>_. hashes) (\<lambda>_. data) pf n = (Done True, ?pf)"
    using s'(1) rd buf by (simp add: fill_block_buffer_def read_block_buffer_def Let_def)
  moreover have "length (p_blockBuffer pf) = 4096" using assms(1) by (simp add: file_holds_def)
  ultimately show ?thesis using assms buf(2) s'(2) by (auto simp: file_holds_def same_file_def)
qed

lemma readPartialBlock_serves:
  assumes "serves data pf" "n < length bs" "off < 4096" "off + k \<le> 4096"
  shows "\<exists>pf'. readPartialBlock check (\<lambda>_. hashes) (\<lambda>_. data) pf n off k = (Done (Some (slice (n * 4096 + off) k (concat bs))), pf') \<and>
    serves data pf' \<and> same_file pf pf'"
proof -
  have bs: "p_blockSize pf = 4096" using assms(1) by (simp add: file_holds_def)
  from assms(1) have "file_holds bs data pf" ..
  note part = concat_slice [OF block_sizes [OF this] assms(2,4)]
  show ?thesis
  proof (cases "n = p_blockBufferNumber pf")
    case True
    then have "p_blockBuffer pf = bs ! n" using assms(1,2) by (auto simp: file_holds_def)
    then show ?thesis using assms True bs part by (auto simp: readPartialBlock_def)
  next
    case False
    with fill_block_buffer_serves [OF assms(1,2)] show ?thesis
      using assms(3,4) bs part by (auto simp: readPartialBlock_def)
  qed
qed

lemma read_blocks_serves:
  assumes "serves data pf" "n * 4096 + k \<le> length bs * 4096"
  shows "\<exists>pf'. read_blocks check (\<lambda>_. hashes) (\<lambda>_. data) pf n k out =
      Some (Done (Some (out @ slice (n * 4096) (k div 4096 * 4096) (concat bs), n + k div 4096, k mod 4096)), pf') \<and>
    serves data pf' \<and> same_file pf pf'"
  using assms
proof (induction "k div 4096" arbitrary: pf n k out)
  case 0
  then have "k < 4096" by auto
  then show ?case using 0 by (subst read_blocks.simps) (auto simp: file_holds_def)
next
  case (Suc j)
  then have k1: "4096 \<le> k" by (metis div_less nat.distinct(1) not_less)
  then have k: "4096 \<le> k" "j = (k - 4096) div 4096" "(k - 4096) mod 4096 = k mod 4096"
    using Suc.hyps(2) le_div_geq [of 4096 k] le_mod_geq [of 4096 k] by simp_all
  then have n: "n < length bs" using Suc.prems(2) by linarith
  with Suc.prems(1) have rd: "pread_full data 4096 (sz_add (p_fileOffset pf) (sz_mul n 4096)) = Some (bs ! n)"
    "p_blockSize pf = 4096" by (auto simp: file_holds_def)
  from Suc.prems(1) n accepts obtain s' where s': "check (p_verifier pf) hashes n (bs ! n) = (Done True, s')" "ready s'"
    by blast
  let ?pf = "pf\<lparr>p_verifier := s'\<rparr>"
  have pf: "serves data ?pf" "same_file pf ?pf" using Suc.prems(1) s'(2) by (auto simp: file_holds_def same_file_def)
  have "(n + 1) * 4096 + (k - 4096) \<le> length bs * 4096" using Suc.prems(2) k(1) by simp
  from Suc.hyps(1) [OF k(2) pf(1) this, of "out @ bs ! n"] obtain pf' where
    rec: "read_blocks check (\<lambda>_. hashes) (\<lambda>_. data) ?pf (n + 1) (k - 4096) (out @ bs ! n) = Some (Done (Some ((out @ bs ! n) @
        slice ((n + 1) * 4096) (j * 4096) (concat bs), n + 1 + j, k mod 4096)), pf')"
      "serves data pf'" "same_file ?pf pf'"
    using k by auto
  have "bs ! n @ slice ((n + 1) * 4096) (j * 4096) (concat bs) = slice (n * 4096) (Suc j * 4096) (concat bs)"
    using concat_nth [OF block_sizes [OF conjunct2 [OF Suc.prems(1)]] n, of "[]"] slice_append [of "n * 4096" 4096 "j * 4096" "concat bs"]
    by (simp add: add.commute)
  moreover have "read_blocks check (\<lambda>_. hashes) (\<lambda>_. data) pf n k out =
      read_blocks check (\<lambda>_. hashes) (\<lambda>_. data) ?pf (n + 1) (k - 4096) (out @ bs ! n)"
    using k(1) rd s'(1) by (subst read_blocks.simps) simp
  ultimately show ?case
    using rec pf(2) Suc.hyps(2) by (auto intro: same_file_trans)
qed

lemma read_tail_serves:
  assumes "serves data pf" "n * 4096 + k \<le> length bs * 4096"
  shows "\<exists>pf'. read_tail check (\<lambda>_. hashes) (\<lambda>_. data) pf n k out = Some (Done (Some (out @ slice (n * 4096) k (concat bs))), pf') \<and>
    serves data pf' \<and> same_file pf pf'"
proof -
  from read_blocks_serves [OF assms] obtain u where u: "read_blocks check (\<lambda>_. hashes) (\<lambda>_. data) pf n k out =
      Some (Done (Some (out @ slice (n * 4096) (k div 4096 * 4096) (concat bs), n + k div 4096, k mod 4096)), u)"
    "serves data u" "same_file pf u" by blast
  have k: "k = k div 4096 * 4096 + k mod 4096" by simp
  show ?thesis
  proof (cases "k mod 4096 = 0")
    case True
    then have "k div 4096 * 4096 = k" by auto
    then show ?thesis using u True by (auto simp: read_tail_def)
  next
    case False
    then have n: "n + k div 4096 < length bs" using assms(2) k by linarith
    have eq: "slice (n * 4096) (k div 4096 * 4096) (concat bs) @ slice ((n + k div 4096) * 4096) (k mod 4096) (concat bs)
        = slice (n * 4096) k (concat bs)"
      using slice_append [of "n * 4096" "k div 4096 * 4096" "k mod 4096" "concat bs"] by (simp add: distrib_right)
    from readPartialBlock_serves [OF u(2) n, of 0 "k mod 4096"] obtain pf' where
      "readPartialBlock check (\<lambda>_. hashes) (\<lambda>_. data) u (n + k div 4096) 0 (k mod 4096) =
        (Done (Some (slice ((n + k div 4096) * 4096) (k mod 4096) (concat bs))), pf')"
      "serves data pf'" "same_file u pf'" by auto
    then show ?thesis using u False eq by (auto simp: read_tail_def intro: same_file_trans)
  qed
qed

lemma readDirectIo_serves:
  assumes "serves data pf" "n * 4096 + off mod 4096 + k \<le> length bs * 4096"
  shows "\<exists>pf'. readDirectIo check (\<lambda>_. hashes) (\<lambda>_. data) pf n k off out =
      Some (Done (Some (out @ slice (n * 4096 + off mod 4096) k (concat bs))), pf') \<and> serves data pf' \<and> same_file pf pf'"
  using assms
proof (induction k arbitrary: pf n off out rule: less_induct)
  case (less k)
  let ?bo = "off mod 4096" and ?am = "min k (4096 - off mod 4096)"
  show ?case
  proof (cases "k = 0")
    case True
    then show ?thesis using less.prems(1) by (subst readDirectIo.simps) auto
  next
    case False
    have bo: "?bo < 4096" by simp
    then have n: "n < length bs" using less.prems(2) False by linarith
    have blk: "p_blockSize pf = 4096" using less.prems(1) by (simp add: file_holds_def)
    obtain u where u: "(if p_blockBufferNumber pf \<noteq> n then fill_block_buffer check (\<lambda>_. hashes) (\<lambda>_. data) pf n
        else (Done True, pf)) = (Done True, u)" "serves data u" "same_file pf u" "p_blockBuffer u = bs ! n"
    proof (cases "p_blockBufferNumber pf = n")
      case True
      then show thesis using that [of pf] less.prems n by (auto simp: file_holds_def)
    next
      case False
      then show thesis using that fill_block_buffer_serves [OF less.prems(1) n] by auto
    qed
    have part: "slice ?bo ?am (bs ! n) = slice (n * 4096 + ?bo) ?am (concat bs)"
      by (rule concat_slice [OF block_sizes [OF conjunct2 [OF less.prems(1)]] n]) simp
    have step: "readDirectIo check (\<lambda>_. hashes) (\<lambda>_. data) pf n k off out =
        readDirectIo check (\<lambda>_. hashes) (\<lambda>_. data) u (n + 1) (k - ?am) 0 (out @ slice (n * 4096 + ?bo) ?am (concat bs))"
      using False u(1,3,4) blk part by (subst readDirectIo.simps) (simp add: same_file_def)
    show ?thesis
    proof (cases "k \<le> 4096 - ?bo")
      case True
      then have "readDirectIo check (\<lambda>_. hashes) (\<lambda>_. data) u (n + 1) (k - ?am) 0 (out @ slice (n * 4096 + ?bo) ?am (concat bs)) =
          Some (Done (Some (out @ slice (n * 4096 + ?bo) k (concat bs))), u)"
        by (subst readDirectIo.simps) simp
      then show ?thesis using step u by auto
    next
      case more: False
      then have am: "?am = 4096 - ?bo" by simp
      have next': "n * 4096 + ?bo + ?am = (n + 1) * 4096" unfolding am using bo by simp
      have smaller: "k - ?am < k" using am bo False by simp
      have room: "(n + 1) * 4096 + 0 mod 4096 + (k - ?am) \<le> length bs * 4096"
        using less.prems(2) more am next' by simp
      from less.IH [OF smaller u(2) room] obtain pf' where
        "readDirectIo check (\<lambda>_. hashes) (\<lambda>_. data) u (n + 1) (k - ?am) 0 (out @ slice (n * 4096 + ?bo) ?am (concat bs)) =
          Some (Done (Some ((out @ slice (n * 4096 + ?bo) ?am (concat bs)) @
            slice ((n + 1) * 4096 + 0 mod 4096) (k - ?am) (concat bs))), pf')"
        "serves data pf'" "same_file u pf'" by blast
      moreover have "slice (n * 4096 + ?bo) ?am (concat bs) @ slice ((n + 1) * 4096 + 0 mod 4096) (k - ?am) (concat bs) =
          slice (n * 4096 + ?bo) k (concat bs)"
        using slice_append [of "n * 4096 + ?bo" ?am "k - ?am" "concat bs"] next' by simp
      ultimately show ?thesis using step u(3) by (auto intro: same_file_trans)
    qed
  qed
qed

text \<open>Both readers deliver the bytes of the image.\<close>

lemma protected_read_serves:
  assumes "serves data pf" "off + k \<le> p_fileSize pf" "off < p_fileSize pf"
  shows "\<exists>pf'. protected_read check (\<lambda>_. hashes) (\<lambda>_. data) pf k off = Some (Done (Some (slice off k (concat bs))), pf') \<and>
    serves data pf' \<and> same_file pf pf'"
proof -
  have bs: "p_blockSize pf = 4096" "p_fileSize pf \<le> length bs * 4096" using assms(1) by (auto simp: file_holds_def)
  have off: "off div 4096 * 4096 + off mod 4096 = off" by simp
  have within: "off div 4096 * 4096 + off mod 4096 + k \<le> length bs * 4096" using assms(2) bs(2) off by linarith
  have in_range: "\<not> (off \<ge> p_fileSize pf \<or> k > p_fileSize pf - off)" using assms(2,3) by auto
  show ?thesis
  proof (cases "p_directIo pf")
    case True
    then show ?thesis
      using readDirectIo_serves [OF assms(1) within, of "[]"] in_range bs off by (auto simp: protected_read_def)
  next
    case normal: False
    show ?thesis
    proof (cases "off mod 4096 = 0")
      case True
      then have "off div 4096 * 4096 = off" by auto
      then show ?thesis
        using read_tail_serves [OF assms(1), of "off div 4096" k "[]"] within True normal in_range bs
        by (auto simp: protected_read_def)
    next
      case False
      let ?bo = "off mod 4096" and ?n = "off div 4096"
      let ?am = "min k (4096 - ?bo)"
      have bo: "?bo < 4096" by simp
      have n: "?n < length bs" using assms(3) bs(2) off by (simp add: less_mult_imp_div_less)
      have fits: "?bo + ?am \<le> 4096" using bo by linarith
      from readPartialBlock_serves [OF assms(1) n bo fits] off obtain u where
        u: "readPartialBlock check (\<lambda>_. hashes) (\<lambda>_. data) pf ?n ?bo ?am = (Done (Some (slice off ?am (concat bs))), u)"
        "serves data u" "same_file pf u" by auto
      have head: "protected_read check (\<lambda>_. hashes) (\<lambda>_. data) pf k off =
          read_tail check (\<lambda>_. hashes) (\<lambda>_. data) u (?n + 1) (k - ?am) (slice off ?am (concat bs))"
        using u(1,3) in_range bs normal False by (simp add: protected_read_def Let_def same_file_def)
      show ?thesis
      proof (cases "k \<le> 4096 - ?bo")
        case True
        from read_tail_serves [OF u(2), of "?n + 1" 0] n show ?thesis
          using head True u(3) by (auto intro: same_file_trans)
      next
        case more: False
        then have am: "?am = 4096 - ?bo" by simp
        have next': "off + ?am = (?n + 1) * 4096" unfolding am by (rule next_block [OF off bo])
        have "off + ?am + (k - ?am) = off + k" by simp
        then have "off + ?am + (k - ?am) \<le> length bs * 4096" using assms(2) bs(2) by (metis order_trans)
        then have "(?n + 1) * 4096 + (k - ?am) \<le> length bs * 4096" unfolding next' .
        from read_tail_serves [OF u(2) this, of "slice off ?am (concat bs)"] obtain pf' where
          "read_tail check (\<lambda>_. hashes) (\<lambda>_. data) u (?n + 1) (k - ?am) (slice off ?am (concat bs)) =
            Some (Done (Some (slice off ?am (concat bs) @ slice ((?n + 1) * 4096) (k - ?am) (concat bs))), pf')"
          "serves data pf'" "same_file u pf'" by blast
        moreover have "slice off ?am (concat bs) @ slice ((?n + 1) * 4096) (k - ?am) (concat bs) = slice off k (concat bs)"
          using slice_append [of off ?am "k - ?am" "concat bs"] next' by simp
        ultimately show ?thesis using head u(3) by (auto intro: same_file_trans)
      qed
    qed
  qed
qed

end

context accepting
begin

lemma protected_reads_serve:
  "serves data pf \<Longrightarrow> \<exists>pf'. protected_reads check pf (map (\<lambda>(k, off). ((\<lambda>_. hashes), (\<lambda>_. data), k, off)) ks) = Some pf' \<and>
    serves data pf' \<and> same_file pf pf'"
proof (induction ks arbitrary: pf)
  case (Cons x ks)
  obtain k off where x: "x = (k, off)" by (cases x)
  have "\<exists>r u. protected_read check (\<lambda>_. hashes) (\<lambda>_. data) pf k off = Some (r, u) \<and> serves data u \<and> same_file pf u"
  proof (cases "off \<ge> p_fileSize pf \<or> k > p_fileSize pf - off")
    case True
    then show ?thesis using Cons.prems by (auto simp: protected_read_def)
  next
    case False
    then have "off + k \<le> p_fileSize pf" "off < p_fileSize pf" by linarith+
    from protected_read_serves [OF Cons.prems this] show ?thesis by auto
  qed
  then obtain r u where u: "protected_read check (\<lambda>_. hashes) (\<lambda>_. data) pf k off = Some (r, u)" "serves data u" "same_file pf u"
    by blast
  from Cons.IH [OF u(2)] u(1,3) x show ?case by (auto intro: same_file_trans)
qed simp

end

text \<open>The verifier accepts what the check without caches accepts.\<close>

definition verifier_ready :: "(bytes \<Rightarrow> bytes) \<Rightarrow> bytes \<Rightarrow> bytes list \<Rightarrow> verifier \<Rightarrow> bool" where
  "verifier_ready H hashes bs v \<longleftrightarrow>
     verifier_fresh H hashes v \<and> (\<forall>n < length bs. v_dataBlockSize v \<le> length (bs ! n) \<and> verify_uncached H v hashes n (bs ! n))"

interpretation intact: accepting "verify H" hashes bs "verifier_ready H hashes bs" for H hashes bs
proof unfold_locales
  fix v n assume "verifier_ready H hashes bs v" "n < length bs"
  then have v: "verifier_fresh H hashes v" "v_dataBlockSize v \<le> length (bs ! n)" "verify_uncached H v hashes n (bs ! n)"
      "\<forall>n < length bs. v_dataBlockSize v \<le> length (bs ! n) \<and> verify_uncached H v hashes n (bs ! n)"
    by (auto simp: verifier_ready_def)
  obtain r s' where step: "verify H v hashes n (bs ! n) = (r, s')" by fastforce
  from verify_uncached_step [OF v(1,2), of n] verify_uncached_keep [OF v(1), of n "bs ! n"] step v(3,4)
  show "\<exists>s'. verify H v hashes n (bs ! n) = (Done True, s') \<and> verifier_ready H hashes bs s'"
    by (auto simp: verifier_ready_def)
qed

lemma honest_file_opens:
  assumes H: "\<And>b. length (H b) = 32"
    and sb: "honest_super_block sb (length bs)" "\<forall>b \<in> set bs. length b = 4096"
    and hashes: "hashes = hpre @ hashes_file H sb bs @ hpost" "length hashes < 2 ^ 63"
    and data: "data = pre @ concat bs @ post" "length data < 2 ^ 63"
    and salt: "salt = take (sb_saltSize sb) (sb_salt sb)"
  shows "\<exists>pf. protected_open H direct data (Some (length pre)) (Some (length (concat bs))) hashes (Some (length hpre))
        (Some (length (hashes_file H sb bs))) (tree_root H salt bs) = Some (Done pf) \<and>
      p_fileSize pf = length (concat bs) \<and> verifier_ready H hashes bs (p_verifier pf) \<and> file_holds bs data pf \<and>
      v_rootHash (p_verifier pf) = tree_root H salt bs \<and> v_dataBlockCount (p_verifier pf) = length bs \<and>
      v_salt (p_verifier pf) = salt"
proof -
  have n: "0 < length bs" "length bs \<le> 131072" using sb(1) by (auto simp: honest_super_block_def)
  have len: "length (concat bs) = length bs * 4096" by (rule length_concat_same [OF sb(2)])
  from honest_opens [where H = H, OF H sb hashes] obtain v where
    v: "verifier_open H hashes (tree_root H salt bs) (Some (length hpre)) (Some (length (hashes_file H sb bs))) = Some (Done v)"
      "verifier_fresh H hashes v" "v_dataBlockSize v = 4096" "v_dataBlockCount v = length bs"
      "\<forall>n < length bs. verify_uncached H v hashes n (bs ! n)" "v_salt v = salt"
    unfolding salt by blast
  have root: "v_rootHash v = tree_root H salt bs"
    by (rule verifier_open_ok(2) [OF v(1), of UNIV]) (simp add: blocks_within_def)
  have "0 < length (hashes_file H sb bs)"
    by (simp add: hashes_file_def pad_block_def write_super_block_def)
  then have range: "checkAndCalcFileRange data (Some (length pre)) (Some (length (concat bs))) = Done (length pre, length (concat bs))"
      "checkAndCalcFileRange hashes (Some (length hpre)) (Some (length (hashes_file H sb bs))) =
        Done (length hpre, length (hashes_file H sb bs))"
    using n(1) len by (auto simp: checkAndCalcFileRange_def data(1) hashes(1) simp del: length_concat length_greater_0_conv)
  let ?pf = "\<lparr>p_verifier = v, p_fileOffset = length pre, p_fileSize = length (concat bs), p_blockSize = 4096,
      p_blockBuffer = replicate 4096 0, p_blockBufferNumber = SIZE_MAX, p_directIo = direct\<rparr>"
  have opened: "protected_open H direct data (Some (length pre)) (Some (length (concat bs))) hashes (Some (length hpre))
        (Some (length (hashes_file H sb bs))) (tree_root H salt bs) = Some (Done ?pf)"
    using n(2) len unfolding protected_open_def range by (simp add: v wrap_simps)
  have "pread_full data 4096 (sz_add (length pre) (sz_mul i 4096)) = Some (bs ! i)" if "i < length bs" for i
  proof -
    have "drop (length pre) data = concat bs @ post" by (simp add: data(1))
    moreover have "sz_add (length pre) (sz_mul i 4096) = length pre + i * 4096"
      using that n(2) data by (simp add: wrap_simps)
    ultimately show ?thesis using pread_level [OF _ sb(2) that] by simp
  qed
  then have "verifier_ready H hashes bs v \<and> file_holds bs data ?pf"
    using v sb(2) n(2) len by (auto simp: verifier_ready_def file_holds_def)
  then show ?thesis using opened v(4,6) root by auto
qed

text \<open>
  C8. An intact package is readable: if the data file holds the image and the hashes file holds its
  tree, at any offsets, opening with the root of the tree succeeds and every read inside the image
  returns its bytes, after any earlier reads, with and without \<open>O_DIRECT\<close>.
\<close>

theorem intact_image_reads_back:
  assumes H: "\<And>b. length (H b) = 32"
    and sb: "honest_super_block sb (length bs)" "\<forall>b \<in> set bs. length b = 4096"
    and hashes: "hashes = hpre @ hashes_file H sb bs @ hpost" "length hashes < 2 ^ 63"
    and data: "data = pre @ concat bs @ post" "length data < 2 ^ 63"
    and salt: "salt = take (sb_saltSize sb) (sb_salt sb)"
  shows "\<exists>pf. protected_open H direct data (Some (length pre)) (Some (length (concat bs))) hashes (Some (length hpre))
        (Some (length (hashes_file H sb bs))) (tree_root H salt bs) = Some (Done pf) \<and>
      p_fileSize pf = length (concat bs) \<and>
      (\<forall>ks k off pf'. protected_reads (verify H) pf (map (\<lambda>(k, off). ((\<lambda>_. hashes), (\<lambda>_. data), k, off)) ks) = Some pf' \<longrightarrow>
        off < length (concat bs) \<longrightarrow> off + k \<le> length (concat bs) \<longrightarrow>
        map_option fst (protected_read (verify H) (\<lambda>_. hashes) (\<lambda>_. data) pf' k off) = Some (Done (Some (slice off k (concat bs)))))"
proof -
  from honest_file_opens [where H = H, OF assms] obtain pf where
    opened: "protected_open H direct data (Some (length pre)) (Some (length (concat bs))) hashes (Some (length hpre))
        (Some (length (hashes_file H sb bs))) (tree_root H salt bs) = Some (Done pf)" "p_fileSize pf = length (concat bs)"
    and serves: "verifier_ready H hashes bs (p_verifier pf) \<and> file_holds bs data pf" by blast
  have "map_option fst (protected_read (verify H) (\<lambda>_. hashes) (\<lambda>_. data) pf' k off) = Some (Done (Some (slice off k (concat bs))))"
    if run: "protected_reads (verify H) pf (map (\<lambda>(k, off). ((\<lambda>_. hashes), (\<lambda>_. data), k, off)) ks) = Some pf'"
      "off < length (concat bs)" "off + k \<le> length (concat bs)" for ks k off pf'
  proof -
    from intact.protected_reads_serve [OF serves, of ks] run(1) opened(2)
    have pf': "verifier_ready H hashes bs (p_verifier pf') \<and> file_holds bs data pf'" "p_fileSize pf' = length (concat bs)"
      by (auto simp: same_file_def)
    from intact.protected_read_serves [OF pf'(1)] run(2,3) pf'(2) show ?thesis by fastforce
  qed
  then show ?thesis using opened by auto
qed

subsection \<open>Examples\<close>

lemma single_file_opens:
  obtains pf where
    "protected_open toy_hash False (replicate 4096 1) None None single_image None None (replicate 32 1) = Some (Done pf)"
    "signed_image toy_hash {single_image, replicate 4096 1} (p_verifier pf) [replicate 4096 1]"
    "verifier_ready toy_hash single_image [replicate 4096 1] (p_verifier pf)"
    "file_holds [replicate 4096 1] (replicate 4096 1) pf" "p_fileSize pf = 4096"
proof -
  let ?b = "replicate 4096 1 :: bytes"
  obtain v where v: "verifier_open toy_hash single_image (replicate 32 1) (Some 0) (Some 4096) = Some (Done v)"
      "v_salt v = []" "v_rootHash v = replicate 32 1" "v_dataBlockCount v = 1"
      "v_layer0 v = Some (SingleDataBlockLayer (replicate 32 1))" "v_dataBlockSize v = 4096"
    using single_opens_at [of "replicate 32 1" "Some 0" "Some 4096" toy_hash] by auto
  let ?pf = "\<lparr>p_verifier = v, p_fileOffset = 0, p_fileSize = 4096, p_blockSize = 4096, p_blockBuffer = replicate 4096 0,
    p_blockBufferNumber = SIZE_MAX, p_directIo = False\<rparr>"
  have range: "checkAndCalcFileRange f None None = Done (0, 4096)" if "length f = 4096" for f
    using that by (auto simp: checkAndCalcFileRange_def Let_def)
  have "protected_open toy_hash False ?b None None single_image None None (replicate 32 1) = Some (Done ?pf)"
    unfolding protected_open_def using range [of ?b] range [OF single_image_facts(1)] by (simp add: v sz_mul_def)
  moreover have "hd (toy_hash single_image) \<noteq> hd (toy_hash ?b)"
    using single_image_facts(1,3) by (cases single_image) (auto simp: toy_hash_def)
  then have "signed_image toy_hash {single_image, ?b} v [?b]"
    by (auto simp: signed_image_def collision_free_def v tree_root_def toy_hash_def)
  moreover have "verifier_ready toy_hash single_image [?b] v"
    by (simp add: verifier_ready_def verifier_fresh_def verify_uncached_def v toy_hash_def)
  moreover have "file_holds [?b] ?b ?pf"
    by (simp add: file_holds_def pread_full_Some sz_add_def sz_mul_def slice_def)
  ultimately show thesis using that by fastforce
qed

lemma single_image_within: "blocks_within 4096 {single_image, replicate 4096 1} single_image"
  using single_image_facts(1) by (auto simp: blocks_within_def pread_full_Some slice_def intro: drop_none)

lemma single_data_within: "blocks_within 4096 {single_image, replicate 4096 1} (replicate 4096 1)"
  by (auto simp: blocks_within_def pread_full_Some slice_def replicate_eq_replicate)

theorem protected_read_total_witness:
  "\<exists>pf pf' r pf''. protected_open toy_hash False (replicate 4096 1) None None single_image None None (replicate 32 1) =
      Some (Done pf) \<and> protected_reads (verify toy_hash) pf [] = Some pf' \<and>
    protected_read (verify toy_hash) (\<lambda>_. []) (\<lambda>_. []) pf' 3 4090 = Some (r, pf'')"
proof -
  obtain pf where pf: "protected_open toy_hash False (replicate 4096 1) None None single_image None None (replicate 32 1) =
      Some (Done pf)" by (rule single_file_opens)
  from protected_read_total [OF pf, of "[]" "\<lambda>_. []" "\<lambda>_. []" 3 4090] pf show ?thesis by auto
qed

theorem protected_read_returns_signed_data_witness:
  "\<exists>pf pf''. protected_open toy_hash False (replicate 4096 1) None None single_image None None (replicate 32 1) =
      Some (Done pf) \<and>
    protected_read (verify toy_hash) (\<lambda>_. single_image) (\<lambda>_. replicate 4096 1) pf 5 10 =
      Some (Done (Some (slice 10 5 (concat [replicate 4096 1]))), pf'')"
proof -
  let ?B = "{single_image, replicate 4096 1}"
  obtain pf where pf: "protected_open toy_hash False (replicate 4096 1) None None single_image None None (replicate 32 1) =
      Some (Done pf)" and signed: "signed_image toy_hash ?B (p_verifier pf) [replicate 4096 1]"
    and ready: "verifier_ready toy_hash single_image [replicate 4096 1] (p_verifier pf) \<and>
      file_holds [replicate 4096 1] (replicate 4096 1) pf" "p_fileSize pf = 4096"
    by (rule single_file_opens) blast
  obtain out pf'' where read: "protected_read (verify toy_hash) (\<lambda>_. single_image) (\<lambda>_. replicate 4096 1) pf 5 10 =
      Some (Done (Some out), pf'')"
    using intact.protected_read_serves [OF ready(1), of 10 5] ready(2) by auto
  have "out = slice 10 5 (concat [replicate 4096 1])"
    by (rule protected_read_returns_signed_data [where H = toy_hash and rs = "[]", OF length_toy_hash pf _
          single_image_within signed _ _ allI [OF single_image_within] allI [OF single_data_within] read]) simp_all
  with pf read show ?thesis by blast
qed

theorem intact_image_reads_back_witness:
  "\<exists>pf. protected_open toy_hash True (concat sample_blocks) (Some 0) (Some 8192)
      (hashes_file toy_hash (sample_super_block 2) sample_blocks) (Some 0)
      (Some (length (hashes_file toy_hash (sample_super_block 2) sample_blocks))) (tree_root toy_hash [] sample_blocks) =
        Some (Done pf) \<and>
    map_option fst (protected_read (verify toy_hash) (\<lambda>_. hashes_file toy_hash (sample_super_block 2) sample_blocks)
      (\<lambda>_. concat sample_blocks) pf 2 4095) = Some (Done (Some [1, 2]))"
proof -
  let ?hashes = "hashes_file toy_hash (sample_super_block 2) sample_blocks"
  have sb: "honest_super_block (sample_super_block 2) (length sample_blocks)" using sample_honest [of 2] by simp
  have blocks: "\<forall>b \<in> set sample_blocks. length b = 4096" by (simp add: sample_blocks_def)
  have len: "length (concat sample_blocks) = 8192" by (simp add: sample_blocks_def)
  have hlen: "length ?hashes < 2 ^ 63"
    using hashes_file_length [where H = toy_hash and sb = "sample_super_block 2" and bs = sample_blocks,
        OF length_toy_hash sample_super_block_fits] tree_is_small [of sample_blocks toy_hash "[]"]
    by (simp add: sample_blocks_def)
  have part: "slice 4095 2 (concat sample_blocks) = [1, 2]"
    using slice_append [of 4095 1 1 "concat sample_blocks"]
    by (simp add: sample_blocks_def slice_def drop_Cons' take_Cons')
  from intact_image_reads_back [where H = toy_hash and direct = True and hpre = "[]" and hpost = "[]" and pre = "[]" and
      post = "[]" and salt = "[]", OF length_toy_hash sb blocks _ hlen _ _ _] len
  obtain pf where pf: "protected_open toy_hash True (concat sample_blocks) (Some 0) (Some 8192) ?hashes (Some 0)
      (Some (length ?hashes)) (tree_root toy_hash [] sample_blocks) = Some (Done pf)"
    and rd: "\<And>ks k off pf'. protected_reads (verify toy_hash) pf (map (\<lambda>(k, off). ((\<lambda>_. ?hashes), (\<lambda>_. concat sample_blocks), k, off)) ks) = Some pf' \<Longrightarrow>
        off < 8192 \<Longrightarrow> off + k \<le> 8192 \<Longrightarrow>
        map_option fst (protected_read (verify toy_hash) (\<lambda>_. ?hashes) (\<lambda>_. concat sample_blocks) pf' k off) =
          Some (Done (Some (slice off k (concat sample_blocks))))"
    by auto
  from rd [of "[]" pf 4095 2] part pf show ?thesis by auto
qed

end
