(* ===== verification/ErofsImageFile.thy ===== *)
theory ErofsImageFile
  imports Prelude
begin

section \<open>The image file of an EROFS file system\<close>

text \<open>
  What the EROFS readers use of an image file (\<open>IErofsImageFile\<close>), as a locale: a read of \<open>n\<close> bytes
  at an offset either gives exactly these bytes of the image or is refused.  The raw file of
  \<open>lib/erofs/ErofsRawImageFile.{h,cpp}\<close> provides it for the window of the file it was opened with.
  The hints to the kernel (\<open>advise\<close>) do not change what is read and are left out.
\<close>

subsection \<open>The interface\<close>

text \<open>
  \<open>img_read n off\<close> is what a successful read delivers.  A read that returns \<open>false\<close> may have written
  to the caller's buffer before it did: \<open>img_refused n off\<close> are the bytes it then leaves at the start
  of the buffer.
\<close>

record image_read =
  img_read :: "nat \<Rightarrow> nat \<Rightarrow> bytes option"
  img_refused :: "nat \<Rightarrow> nat \<Rightarrow> bytes"

text \<open>
  An image that is only sound may refuse a read: a protected file whose blocks were tampered with
  does.  A complete one answers every read that lies inside the image.
\<close>

locale sound_image =
  fixes rd :: "'f \<Rightarrow> image_read" and content :: "'f \<Rightarrow> bytes" and opened :: "'f \<Rightarrow> bool"
  assumes rd_sound: "opened f \<Longrightarrow> img_read (rd f) n off = Some d \<Longrightarrow> d = slice off n (content f) \<and> length d = n"
    and rd_inside: "opened f \<Longrightarrow> img_read (rd f) n off = Some d \<Longrightarrow> off < length (content f) \<and> off + n \<le> length (content f)"

locale complete_image = sound_image +
  assumes rd_complete: "opened f \<Longrightarrow> off < length (content f) \<Longrightarrow> off + n \<le> length (content f) \<Longrightarrow> img_read (rd f) n off \<noteq> None"

context complete_image
begin

lemma rd_eq:
  "opened f \<Longrightarrow>
     img_read (rd f) n off = (if off < length (content f) \<and> off + n \<le> length (content f) then Some (slice off n (content f)) else None)"
  using rd_sound [of f n off] rd_inside [of f n off] rd_complete [of f off n] by (cases "img_read (rd f) n off") auto

end

text \<open>The reader of an image that is just a list of bytes: it refuses only what is outside.\<close>

definition image_rd :: "bytes \<Rightarrow> image_read" where
  "image_rd c =
     \<lparr>img_read = (\<lambda>n off. if off < length c \<and> off + n \<le> length c then Some (slice off n c) else None),
      img_refused = (\<lambda>_ _. [])\<rparr>"

lemma image_rd_read:
  "img_read (image_rd c) n off = (if off < length c \<and> off + n \<le> length c then Some (slice off n c) else None)"
  by (simp add: image_rd_def)

lemma image_rd_Some: "img_read (image_rd c) n off = Some d \<longleftrightarrow> off < length c \<and> off + n \<le> length c \<and> d = slice off n c"
  by (auto simp: image_rd_read)

interpretation plain_image: complete_image image_rd "\<lambda>c. c" "\<lambda>c. True"
  by unfold_locales (auto simp: image_rd_read slice_simps split: if_splits)

text \<open>Any reader that never gives other bytes than those of the image.\<close>

definition image_sound :: "image_read \<Rightarrow> bytes \<Rightarrow> bool" where
  "image_sound rd c \<longleftrightarrow> (\<forall>n off d. img_read rd n off = Some d \<longrightarrow> off < length c \<and> off + n \<le> length c \<and> d = slice off n c)"

lemma image_soundD:
  "image_sound rd c \<Longrightarrow> img_read rd n off = Some d \<Longrightarrow> off < length c \<and> off + n \<le> length c \<and> d = slice off n c \<and> length d = n"
  unfolding image_sound_def by (metis length_slice)

interpretation some_image: sound_image "\<lambda>(rd, c). rd" "\<lambda>(rd, c). c" "\<lambda>(rd, c). image_sound rd c"
  by unfold_locales (auto dest: image_soundD)

lemma image_sound_rd [simp]: "image_sound (image_rd c) c"
  by (simp add: image_sound_def image_rd_Some)

subsection \<open>The raw image file\<close>

record raw_image_file =
  r_offset :: nat
  r_size :: nat

datatype image_error =
    OpenFailed | SeekFailed | OffsetOutside nat nat | RangeOutside nat nat nat | DupFailed

text \<open>
  \<open>fileSize\<close> is what \<open>lseek\<close> answers and \<open>dupFd\<close> what \<open>fcntl\<close> answers.  The second result says
  whether the function closed the descriptor it was given.
\<close>

definition raw_open_fd ::
  "int \<Rightarrow> int \<Rightarrow> nat option \<Rightarrow> nat option \<Rightarrow> (image_error, raw_image_file) outcome \<times> bool" where
  "raw_open_fd fileSize dupFd offset sz =
     (if fileSize < 0 then (Fail SeekFailed, True)
      else
        (let actualOffset = (case offset of None \<Rightarrow> 0 | Some n \<Rightarrow> n) in
         if actualOffset > nat fileSize then (Fail (OffsetOutside actualOffset (nat fileSize)), False)
         else
           (let actualSize = (case sz of None \<Rightarrow> nat fileSize - actualOffset | Some n \<Rightarrow> n) in
            if actualSize > nat fileSize - actualOffset
              then (Fail (RangeOutside actualOffset actualSize (nat fileSize)), False)
            else if dupFd < 0 then (Fail DupFailed, False)
            else (Done \<lparr>r_offset = actualOffset, r_size = actualSize\<rparr>, False))))"

text \<open>By path: the descriptor is opened and closed around it; how often it is closed comes second.\<close>

definition raw_open_path ::
  "int \<Rightarrow> int \<Rightarrow> int \<Rightarrow> nat option \<Rightarrow> nat option \<Rightarrow> (image_error, raw_image_file) outcome \<times> nat" where
  "raw_open_path fd fileSize dupFd offset sz =
     (if fd < 0 then (Fail OpenFailed, 0)
      else (let (r, closed) = raw_open_fd fileSize dupFd offset sz in (r, (if closed then 1 else 0) + 1)))"

text \<open>A read that comes back short has still put its bytes into the caller's buffer.\<close>

definition raw_read :: "bytes \<Rightarrow> raw_image_file \<Rightarrow> image_read" where
  "raw_read file f =
     \<lparr>img_read = (\<lambda>sz offset.
        if offset \<ge> r_size f \<or> sz > r_size f - offset then None
        else pread_full file sz (sz_add (r_offset f) offset)),
      img_refused = (\<lambda>sz offset.
        if offset \<ge> r_size f \<or> sz > r_size f - offset then []
        else pread file sz (sz_add (r_offset f) offset))\<rparr>"

definition raw_window :: "bytes \<Rightarrow> raw_image_file \<Rightarrow> bytes" where
  "raw_window file f = slice (r_offset f) (r_size f) file"

definition raw_opened :: "bytes \<Rightarrow> raw_image_file \<Rightarrow> bool" where
  "raw_opened file f \<longleftrightarrow> r_offset f + r_size f \<le> length file \<and> length file < 2 ^ 63"

lemma raw_open_opened:
  assumes "raw_open_fd (int (length file)) dupFd offset sz = (Done f, c)" "length file < 2 ^ 63"
  shows "raw_opened file f"
  using assms by (auto simp: raw_open_fd_def raw_opened_def Let_def split: if_splits)

lemma raw_read_eq:
  assumes "raw_opened file f"
  shows "img_read (raw_read file f) n off = img_read (image_rd (raw_window file f)) n off"
proof -
  have len: "length (raw_window file f) = r_size f"
    using assms by (simp add: raw_opened_def raw_window_def slice_simps)
  show ?thesis
  proof (cases "off < r_size f \<and> off + n \<le> r_size f")
    case True
    then have "pread_full file n (r_offset f + off) = Some (slice (r_offset f + off) n file)"
      using assms by (intro pread_full_in_range) (simp add: raw_opened_def)
    moreover have "sz_add (r_offset f) off = r_offset f + off"
      using True assms by (simp add: raw_opened_def wrap_simps)
    ultimately show ?thesis
      using True len assms by (auto simp: raw_read_def image_rd_read raw_window_def slice_slice)
  next
    case False
    then show ?thesis using len by (auto simp: raw_read_def image_rd_read)
  qed
qed

interpretation raw: complete_image "\<lambda>(file, f). raw_read file f" "\<lambda>(file, f). raw_window file f" "\<lambda>(file, f). raw_opened file f"
  by unfold_locales (auto simp: raw_read_eq image_rd_read slice_simps split: if_splits)

text \<open>
  A raw image file opened on a range of a file reads exactly this range: a read that lies inside
  gives its bytes and any other read fails.
\<close>

theorem raw_file_reads_window:
  assumes "raw_open_fd (int (length file)) dupFd (Some offset) (Some sz) = (Done f, c)" "length file < 2 ^ 63"
  shows "img_read (raw_read file f) n off = (if off < sz \<and> off + n \<le> sz then Some (slice (offset + off) n file) else None)"
proof -
  have o: "raw_opened file f" by (rule raw_open_opened [OF assms])
  moreover have f: "r_offset f = offset" "r_size f = sz"
    using assms by (auto simp: raw_open_fd_def Let_def split: if_splits)
  ultimately show ?thesis
    using raw.rd_eq [of "(file, f)" n off]
    by (auto simp: raw_window_def raw_opened_def slice_simps slice_slice)
qed

lemma raw_file_reads_window_witness:
  "img_read (raw_read [1, 2, 3, 4] \<lparr>r_offset = 1, r_size = 2\<rparr>) 1 1 = Some [3] \<and>
   img_read (raw_read [1, 2, 3, 4] \<lparr>r_offset = 1, r_size = 2\<rparr>) 2 1 = None"
proof -
  have "raw_open_fd (int (length [1 :: byte, 2, 3, 4])) 5 (Some 1) (Some 2) = (Done \<lparr>r_offset = 1, r_size = 2\<rparr>, False)"
    by (simp add: raw_open_fd_def)
  from raw_file_reads_window [OF this] show ?thesis by (simp add: slice_def)
qed

text \<open>
  When seeking fails the descriptor is closed by the function that was only lent it, so opening by
  path closes it twice.
\<close>

theorem raw_open_closes_twice: "0 \<le> fd \<Longrightarrow> raw_open_path fd (-1) dupFd offset sz = (Fail SeekFailed, 2)"
  by (simp add: raw_open_path_def raw_open_fd_def)

lemma raw_open_closes_twice_witness: "raw_open_path 3 (-1) 4 None None = (Fail SeekFailed, 2)"
  by (rule raw_open_closes_twice) simp

end
