(* ===== verification/ErofsSuperBlock.thy ===== *)
theory ErofsSuperBlock
  imports Prelude
begin

section \<open>The EROFS superblock\<close>

text \<open>
  \<open>lib/erofs/ErofsSuperBlock.{h,cpp}\<close> and the on-disk structures of \<open>lib/erofs/ErofsTypes.h\<close> it
  uses: the CRC-32C of the block, the checks of the superblock and its accessors.
\<close>

subsection \<open>CRC-32C\<close>

definition kLookupTable :: "32 word list" where
  "kLookupTable = [
     0x00000000, 0xf26b8303, 0xe13b70f7, 0x1350f3f4, 0xc79a971f, 0x35f1141c, 0x26a1e7e8, 0xd4ca64eb,
     0x8ad958cf, 0x78b2dbcc, 0x6be22838, 0x9989ab3b, 0x4d43cfd0, 0xbf284cd3, 0xac78bf27, 0x5e133c24,
     0x105ec76f, 0xe235446c, 0xf165b798, 0x030e349b, 0xd7c45070, 0x25afd373, 0x36ff2087, 0xc494a384,
     0x9a879fa0, 0x68ec1ca3, 0x7bbcef57, 0x89d76c54, 0x5d1d08bf, 0xaf768bbc, 0xbc267848, 0x4e4dfb4b,
     0x20bd8ede, 0xd2d60ddd, 0xc186fe29, 0x33ed7d2a, 0xe72719c1, 0x154c9ac2, 0x061c6936, 0xf477ea35,
     0xaa64d611, 0x580f5512, 0x4b5fa6e6, 0xb93425e5, 0x6dfe410e, 0x9f95c20d, 0x8cc531f9, 0x7eaeb2fa,
     0x30e349b1, 0xc288cab2, 0xd1d83946, 0x23b3ba45, 0xf779deae, 0x05125dad, 0x1642ae59, 0xe4292d5a,
     0xba3a117e, 0x4851927d, 0x5b016189, 0xa96ae28a, 0x7da08661, 0x8fcb0562, 0x9c9bf696, 0x6ef07595,
     0x417b1dbc, 0xb3109ebf, 0xa0406d4b, 0x522bee48, 0x86e18aa3, 0x748a09a0, 0x67dafa54, 0x95b17957,
     0xcba24573, 0x39c9c670, 0x2a993584, 0xd8f2b687, 0x0c38d26c, 0xfe53516f, 0xed03a29b, 0x1f682198,
     0x5125dad3, 0xa34e59d0, 0xb01eaa24, 0x42752927, 0x96bf4dcc, 0x64d4cecf, 0x77843d3b, 0x85efbe38,
     0xdbfc821c, 0x2997011f, 0x3ac7f2eb, 0xc8ac71e8, 0x1c661503, 0xee0d9600, 0xfd5d65f4, 0x0f36e6f7,
     0x61c69362, 0x93ad1061, 0x80fde395, 0x72966096, 0xa65c047d, 0x5437877e, 0x4767748a, 0xb50cf789,
     0xeb1fcbad, 0x197448ae, 0x0a24bb5a, 0xf84f3859, 0x2c855cb2, 0xdeeedfb1, 0xcdbe2c45, 0x3fd5af46,
     0x7198540d, 0x83f3d70e, 0x90a324fa, 0x62c8a7f9, 0xb602c312, 0x44694011, 0x5739b3e5, 0xa55230e6,
     0xfb410cc2, 0x092a8fc1, 0x1a7a7c35, 0xe811ff36, 0x3cdb9bdd, 0xceb018de, 0xdde0eb2a, 0x2f8b6829,
     0x82f63b78, 0x709db87b, 0x63cd4b8f, 0x91a6c88c, 0x456cac67, 0xb7072f64, 0xa457dc90, 0x563c5f93,
     0x082f63b7, 0xfa44e0b4, 0xe9141340, 0x1b7f9043, 0xcfb5f4a8, 0x3dde77ab, 0x2e8e845f, 0xdce5075c,
     0x92a8fc17, 0x60c37f14, 0x73938ce0, 0x81f80fe3, 0x55326b08, 0xa759e80b, 0xb4091bff, 0x466298fc,
     0x1871a4d8, 0xea1a27db, 0xf94ad42f, 0x0b21572c, 0xdfeb33c7, 0x2d80b0c4, 0x3ed04330, 0xccbbc033,
     0xa24bb5a6, 0x502036a5, 0x4370c551, 0xb11b4652, 0x65d122b9, 0x97baa1ba, 0x84ea524e, 0x7681d14d,
     0x2892ed69, 0xdaf96e6a, 0xc9a99d9e, 0x3bc21e9d, 0xef087a76, 0x1d63f975, 0x0e330a81, 0xfc588982,
     0xb21572c9, 0x407ef1ca, 0x532e023e, 0xa145813d, 0x758fe5d6, 0x87e466d5, 0x94b49521, 0x66df1622,
     0x38cc2a06, 0xcaa7a905, 0xd9f75af1, 0x2b9cd9f2, 0xff56bd19, 0x0d3d3e1a, 0x1e6dcdee, 0xec064eed,
     0xc38d26c4, 0x31e6a5c7, 0x22b65633, 0xd0ddd530, 0x0417b1db, 0xf67c32d8, 0xe52cc12c, 0x1747422f,
     0x49547e0b, 0xbb3ffd08, 0xa86f0efc, 0x5a048dff, 0x8ecee914, 0x7ca56a17, 0x6ff599e3, 0x9d9e1ae0,
     0xd3d3e1ab, 0x21b862a8, 0x32e8915c, 0xc083125f, 0x144976b4, 0xe622f5b7, 0xf5720643, 0x07198540,
     0x590ab964, 0xab613a67, 0xb831c993, 0x4a5a4a90, 0x9e902e7b, 0x6cfbad78, 0x7fab5e8c, 0x8dc0dd8f,
     0xe330a81a, 0x115b2b19, 0x020bd8ed, 0xf0605bee, 0x24aa3f05, 0xd6c1bc06, 0xc5914ff2, 0x37faccf1,
     0x69e9f0d5, 0x9b8273d6, 0x88d28022, 0x7ab90321, 0xae7367ca, 0x5c18e4c9, 0x4f48173d, 0xbd23943e,
     0xf36e6f75, 0x0105ec76, 0x12551f82, 0xe03e9c81, 0x34f4f86a, 0xc69f7b69, 0xd5cf889d, 0x27a40b9e,
     0x79b737ba, 0x8bdcb4b9, 0x988c474d, 0x6ae7c44e, 0xbe2da0a5, 0x4c4623a6, 0x5f16d052, 0xad7d5351]"

definition crc_update_byte :: "32 word \<Rightarrow> byte \<Rightarrow> 32 word" where
  "crc_update_byte crc b =
     drop_bit 8 crc XOR kLookupTable ! unat ((crc XOR ucast b) AND 0xFF)"

definition crc_update :: "32 word \<Rightarrow> bytes \<Rightarrow> 32 word" where
  "crc_update crc data = foldl crc_update_byte crc data"

text \<open>The definition of the checksum: division by the polynomial, one bit at a time.\<close>

definition crc_step :: "32 word \<Rightarrow> 32 word" where
  "crc_step x = (if bit x 0 then 0x82F63B78 else 0) XOR drop_bit 1 x"

definition crc_bitwise_byte :: "32 word \<Rightarrow> byte \<Rightarrow> 32 word" where
  "crc_bitwise_byte crc b = (crc_step ^^ 8) (crc XOR ucast b)"

text \<open>A step is linear, so a table over bytes follows from one over the two halves of a byte.\<close>

definition low_entries :: "32 word list" where
  "low_entries = [0x00000000, 0xf26b8303, 0xe13b70f7, 0x1350f3f4, 0xc79a971f, 0x35f1141c, 0x26a1e7e8, 0xd4ca64eb,
     0x8ad958cf, 0x78b2dbcc, 0x6be22838, 0x9989ab3b, 0x4d43cfd0, 0xbf284cd3, 0xac78bf27, 0x5e133c24]"

definition high_entries :: "32 word list" where
  "high_entries = [0x00000000, 0x105ec76f, 0x20bd8ede, 0x30e349b1, 0x417b1dbc, 0x5125dad3, 0x61c69362, 0x7198540d,
     0x82f63b78, 0x92a8fc17, 0xa24bb5a6, 0xb21572c9, 0xc38d26c4, 0xd3d3e1ab, 0xe330a81a, 0xf36e6f75]"

definition crc_steps :: "32 word \<Rightarrow> 32 word" where
  "crc_steps x = crc_step (crc_step (crc_step (crc_step (crc_step (crc_step (crc_step (crc_step x)))))))"

lemma crc_steps_funpow: "(crc_step ^^ 8) x = crc_steps x"
  by (simp add: crc_steps_def numeral_eq_Suc)

lemma crc_step_linear: "crc_step (x XOR y) = crc_step x XOR crc_step y"
  by (rule bit_eqI) (auto simp: crc_step_def bit_simps)

lemma crc_steps_linear: "crc_steps (x XOR y) = crc_steps x XOR crc_steps y"
  by (simp add: crc_steps_def crc_step_linear)

lemma low_entries_steps: "low_entries = map crc_steps [0, 1, 2, 3, 4, 5, 6, 7, 8, 9, 10, 11, 12, 13, 14, 15]"
  by (simp add: low_entries_def crc_steps_def crc_step_def)

lemma high_entries_steps: "high_entries = map crc_steps [0x00, 0x10, 0x20, 0x30, 0x40, 0x50, 0x60, 0x70, 0x80, 0x90,
    0xA0, 0xB0, 0xC0, 0xD0, 0xE0, 0xF0]"
  by (simp add: high_entries_def crc_steps_def crc_step_def)

lemma lookup_table_entries: "kLookupTable = concat (map (\<lambda>x. map (\<lambda>y. x XOR y) low_entries) high_entries)"
  by (simp add: kLookupTable_def low_entries_def high_entries_def)

lemma byte_range: "[0..<256] =
    concat (map (\<lambda>x. map (\<lambda>y. x + y) [0, 1, 2, 3, 4, 5, 6, 7, 8, 9, 10, 11, 12, 13, 14, 15])
      [0, 16, 32, 48, 64, 80, 96, 112, 128, 144, 160, 176, 192, 208, 224, 240])"
  by code_simp

lemma byte_values: "map word_of_nat [0..<256] =
    concat (map (\<lambda>x. map (\<lambda>y. x XOR y) [0, 1, 2, 3, 4, 5, 6, 7, 8, 9, 10, 11, 12, 13, 14, 15 :: 32 word])
      [0x00, 0x10, 0x20, 0x30, 0x40, 0x50, 0x60, 0x70, 0x80, 0x90, 0xA0, 0xB0, 0xC0, 0xD0, 0xE0, 0xF0])"
  unfolding byte_range by simp

lemma crc_steps_table: "map crc_steps (concat (map (\<lambda>x. map (\<lambda>y. x XOR y) ys) xs)) =
    concat (map (\<lambda>x. map (\<lambda>y. x XOR y) (map crc_steps ys)) (map crc_steps xs))"
  by (induction xs) (auto simp: crc_steps_linear)

lemma lookup_table: "kLookupTable = map (\<lambda>i. crc_steps (word_of_nat i)) [0..<256]"
proof -
  have "map (\<lambda>i. crc_steps (word_of_nat i)) [0..<256] = map crc_steps (map word_of_nat [0..<256])"
    by (simp add: comp_def)
  also have "\<dots> = kLookupTable"
    unfolding byte_values lookup_table_entries low_entries_steps high_entries_steps crc_steps_table ..
  finally show ?thesis by simp
qed

lemma crc_step_even: "\<not> bit y 0 \<Longrightarrow> crc_step y = drop_bit 1 y"
  by (simp add: crc_step_def)

lemma crc_steps_high: "crc_steps (x AND NOT (mask 8)) = drop_bit 8 x"
proof -
  define z where "z = x AND NOT (mask 8)"
  have step: "crc_step (drop_bit k z) = drop_bit (Suc k) z" if "k < 8" for k
    using that crc_step_even [of "drop_bit k z"] by (simp add: z_def bit_simps)
  have steps: "crc_step (drop_bit 0 z) = drop_bit 1 z" "crc_step (drop_bit 1 z) = drop_bit 2 z"
      "crc_step (drop_bit 2 z) = drop_bit 3 z" "crc_step (drop_bit 3 z) = drop_bit 4 z"
      "crc_step (drop_bit 4 z) = drop_bit 5 z" "crc_step (drop_bit 5 z) = drop_bit 6 z"
      "crc_step (drop_bit 6 z) = drop_bit 7 z" "crc_step (drop_bit 7 z) = drop_bit 8 z"
    using step [of 0] step [of 1] step [of 2] step [of 3] step [of 4] step [of 5] step [of 6] step [of 7]
    by (simp_all add: numeral_eq_Suc)
  have "crc_steps (drop_bit 0 z) = drop_bit 8 z" by (simp only: crc_steps_def steps)
  then have "crc_steps z = drop_bit 8 z" by simp
  also have "\<dots> = drop_bit 8 x" by (rule bit_eqI) (auto simp: z_def bit_simps dest: bit_imp_le_length)
  finally show ?thesis by (simp add: z_def)
qed

lemma crc_update_bitwise: "crc_update crc data = foldl crc_bitwise_byte crc data"
proof -
  have byte: "crc_update_byte c b = crc_bitwise_byte c b" for c b
  proof -
    let ?x = "c XOR ucast b"
    have m: "(0xFF :: 32 word) = mask 8" by (simp add: mask_eq_exp_minus_1)
    have i: "unat (?x AND mask 8) < 256"
    proof -
      have "unat (?x AND mask 8) = take_bit 8 (unat ?x)"
        by (simp only: take_bit_eq_mask [symmetric] unsigned_take_bit_eq)
      then show ?thesis using take_bit_nat_less_exp [of 8 "unat ?x"] by simp
    qed
    have split: "?x = (?x AND NOT (mask 8)) XOR (?x AND mask 8)"
      by (rule bit_eqI) (auto simp: bit_simps)
    have high: "drop_bit 8 (ucast b :: 32 word) = 0"
      by (rule bit_eqI) (auto simp: bit_simps dest: bit_imp_le_length)
    have "crc_bitwise_byte c b = crc_steps ((?x AND NOT (mask 8)) XOR (?x AND mask 8))"
      using split by (simp add: crc_bitwise_byte_def crc_steps_funpow)
    then show ?thesis
      using i by (simp add: crc_update_byte_def crc_steps_linear crc_steps_high high lookup_table m)
  qed
  then have "crc_update_byte = crc_bitwise_byte" by (simp add: fun_eq_iff)
  then show ?thesis by (simp add: crc_update_def)
qed

text \<open>
  The table-driven update of the checksum is the division by the polynomial 0x82F63B78, eight
  bits at a time.
\<close>

theorem crc_table_is_crc32c: "crc_update crc data = foldl crc_bitwise_byte crc data"
  by (rule crc_update_bitwise)

subsection \<open>The superblock\<close>

abbreviation EROFS_SUPER_OFFSET :: nat where "EROFS_SUPER_OFFSET \<equiv> 1024"
abbreviation EROFS_MAGIC :: nat where "EROFS_MAGIC \<equiv> 0xE0F5E1E2"
abbreviation sizeof_superblock :: nat where "sizeof_superblock \<equiv> 128"

record superblock_struct =
  s_magic :: nat
  s_checksum :: nat
  s_featureCompat :: nat
  s_blockSizeBits :: nat
  s_extensionSlots :: nat
  s_rootInode :: nat
  s_inodeCount :: nat
  s_buildTimeSec :: nat
  s_buildTimeNSec :: nat
  s_blocks :: nat
  s_metaBlockAddr :: nat
  s_featureIncompat :: nat

definition read_superblock_struct :: "bytes \<Rightarrow> nat \<Rightarrow> superblock_struct" where
  "read_superblock_struct d off = \<lparr>
     s_magic = le32_at d off, s_checksum = le32_at d (off + 4), s_featureCompat = le32_at d (off + 8),
     s_blockSizeBits = u8_at d (off + 12), s_extensionSlots = u8_at d (off + 13), s_rootInode = le16_at d (off + 14),
     s_inodeCount = le64_at d (off + 16), s_buildTimeSec = le64_at d (off + 24), s_buildTimeNSec = le32_at d (off + 32),
     s_blocks = le32_at d (off + 36), s_metaBlockAddr = le32_at d (off + 40), s_featureIncompat = le32_at d (off + 80) \<rparr>"

datatype feature = ZeroPadding | SuperBlockChecksum | ModificationTime | XattrFilter

record erofs_superblock =
  m_superBlock :: superblock_struct
  m_blockSize :: nat
  m_features :: "feature set"

datatype superblock_error =
    SuperBlockTooSmall | InvalidMagic nat | SuperBlockTooLarge nat | IncompleteBlock nat
  | ChecksumMismatch nat nat | IncompatibleFeatures nat

definition has_bit :: "nat \<Rightarrow> nat \<Rightarrow> bool" where
  "has_bit flags k \<longleftrightarrow> odd (flags div 2 ^ k)"

text \<open>
  The checksum of the superblock's block: its own field counts as zero.  \<open>n\<close> is the number of
  bytes after the field.
\<close>

definition superblock_crc :: "bytes \<Rightarrow> nat \<Rightarrow> 32 word" where
  "superblock_crc d n =
     crc_update (crc_update (crc_update 0xFFFFFFFF (slice EROFS_SUPER_OFFSET 4 d)) [0, 0, 0, 0])
       (slice (EROFS_SUPER_OFFSET + 8) n d)"

text \<open>
  The block size is \<open>1 << blockSizeBits\<close>, a shift of an \<open>int\<close> that is converted to \<open>size_t\<close>: 31 bits give the
  smallest \<open>int\<close>, which is sign-extended, and only more than 31 are undefined.
\<close>

definition int_shift :: "nat \<Rightarrow> nat" where
  "int_shift bits = (if bits = 31 then SIZE_LIMIT - 2 ^ 31 else 2 ^ bits)"

definition checkChecksum :: "bytes \<Rightarrow> superblock_struct \<Rightarrow> (superblock_error, unit) outcome" where
  "checkChecksum d sb =
     (if \<not> has_bit (s_featureCompat sb) 0 then Done ()
      else if s_blockSizeBits sb \<ge> 32 then Undefined ShiftOverflow
      else
        (let blkSize = int_shift (s_blockSizeBits sb);
             bytesAfterChksum = sz_sub (sz_sub (sz_sub blkSize EROFS_SUPER_OFFSET) 4) 4 in
         if length d < sz_sub blkSize EROFS_SUPER_OFFSET then Fail (IncompleteBlock blkSize)
         else if length d < EROFS_SUPER_OFFSET + 8 + bytesAfterChksum then Undefined OutOfBoundsRead
         else if unat (superblock_crc d bytesAfterChksum) \<noteq> s_checksum sb
           then Fail (ChecksumMismatch (unat (superblock_crc d bytesAfterChksum)) (s_checksum sb))
         else Done ()))"

definition superblock_features :: "superblock_struct \<Rightarrow> feature set" where
  "superblock_features sb =
     (if has_bit (s_featureCompat sb) 0 then {SuperBlockChecksum} else {}) \<union>
     (if has_bit (s_featureCompat sb) 1 then {ModificationTime} else {}) \<union>
     (if has_bit (s_featureCompat sb) 2 then {XattrFilter} else {}) \<union>
     (if has_bit (s_featureIncompat sb) 0 then {ZeroPadding} else {})"

definition superblock_parse :: "bytes \<Rightarrow> (superblock_error, erofs_superblock) outcome" where
  "superblock_parse d =
     (if length d < EROFS_SUPER_OFFSET + sizeof_superblock then Fail SuperBlockTooSmall
      else
        (let sb = read_superblock_struct d EROFS_SUPER_OFFSET; sbLen = sizeof_superblock + s_extensionSlots sb * 16 in
         if s_magic sb \<noteq> EROFS_MAGIC then Fail (InvalidMagic (s_magic sb))
         else if length d < EROFS_SUPER_OFFSET + sbLen then Fail (SuperBlockTooLarge sbLen)
         else bind_outcome (checkChecksum d sb) (\<lambda>_.
           if s_featureIncompat sb div 2 \<noteq> 0 then Fail (IncompatibleFeatures (s_featureIncompat sb))
           else if s_blockSizeBits sb \<ge> 32 then Undefined ShiftOverflow
           else Done \<lparr>m_superBlock = sb, m_blockSize = int_shift (s_blockSizeBits sb),
                      m_features = superblock_features sb\<rparr>)))"

definition rootInode :: "erofs_superblock \<Rightarrow> nat" where
  "rootInode s = s_rootInode (m_superBlock s)"

definition inodeOffset :: "erofs_superblock \<Rightarrow> nat \<Rightarrow> nat" where
  "inodeOffset s inode = sz_add (sz_mul (s_metaBlockAddr (m_superBlock s)) (m_blockSize s)) (sz_mul 32 inode)"

definition hasFeature :: "erofs_superblock \<Rightarrow> feature \<Rightarrow> bool" where
  "hasFeature s f \<longleftrightarrow> f \<in> m_features s"

subsection \<open>What an accepted superblock guarantees\<close>

lemma after_checksum: "2048 \<le> x \<Longrightarrow> sz_sub (sz_sub (sz_sub x 1024) 4) 4 = x - 1032"
  by (auto simp: sz_sub_def)

text \<open>
  C40. An accepted superblock has the magic number, declares no feature but zero padding, and where
  it carries a checksum that is the CRC-32C of its block, with the field itself taken as zero.
\<close>

theorem superblock_parse_sound:
  assumes "superblock_parse d = Done s" "length d < SIZE_LIMIT"
  shows "s_magic (m_superBlock s) = EROFS_MAGIC \<and> s_featureIncompat (m_superBlock s) \<le> 1 \<and>
    m_blockSize s = int_shift (s_blockSizeBits (m_superBlock s)) \<and>
    (hasFeature s SuperBlockChecksum \<longrightarrow>
       m_blockSize s \<le> length d \<and>
       s_checksum (m_superBlock s) = unat (foldl crc_bitwise_byte 0xFFFFFFFF
         (slice 1024 4 d @ [0, 0, 0, 0] @ slice 1032 (m_blockSize s - 1032) d)))"
proof -
  let ?sb = "read_superblock_struct d 1024"
  from assms(1) have s: "s = \<lparr>m_superBlock = ?sb, m_blockSize = int_shift (s_blockSizeBits ?sb), m_features = superblock_features ?sb\<rparr>"
    and magic: "s_magic ?sb = EROFS_MAGIC" and chk: "checkChecksum d ?sb = Done ()"
    and incompat: "s_featureIncompat ?sb div 2 = 0"
    by (auto simp: superblock_parse_def Let_def split: if_splits)
  have "m_blockSize s \<le> length d \<and>
      s_checksum ?sb = unat (foldl crc_bitwise_byte 0xFFFFFFFF
         (slice 1024 4 d @ [0, 0, 0, 0] @ slice 1032 (m_blockSize s - 1032) d))"
    if "hasFeature s SuperBlockChecksum"
  proof -
    have flag: "has_bit (s_featureCompat ?sb) 0"
      using that by (auto simp: hasFeature_def s superblock_features_def split: if_splits)
    let ?blk = "int_shift (s_blockSizeBits ?sb)"
    let ?n = "sz_sub (sz_sub (sz_sub ?blk 1024) 4) 4"
    have c: "length d \<ge> sz_sub ?blk 1024" "1032 + ?n \<le> length d" "s_blockSizeBits ?sb < 32"
        "unat (superblock_crc d ?n) = s_checksum ?sb"
      using chk flag by (auto simp: checkChecksum_def Let_def split: if_splits)
    have "2048 \<le> ?blk"
    proof (cases "s_blockSizeBits ?sb = 31")
      case True
      then show ?thesis by (simp add: int_shift_def)
    next
      case False
      then have blk: "?blk = 2 ^ s_blockSizeBits ?sb" by (simp add: int_shift_def)
      show ?thesis
      proof (rule ccontr)
        assume "\<not> 2048 \<le> ?blk"
        then have "s_blockSizeBits ?sb < 11"
          using power_increasing [of 11 "s_blockSizeBits ?sb" "2 :: nat"] blk by (cases "s_blockSizeBits ?sb < 11") simp_all
        then have "?blk \<le> 1024" using power_increasing [of "s_blockSizeBits ?sb" 10 "2 :: nat"] blk by simp
        then have "?blk < 1024 \<or> ?blk = 1024" by linarith
        then show False using c(1,2) assms(2) by (auto simp: sz_sub_def)
      qed
    qed
    then have n: "?n = ?blk - 1032" by (rule after_checksum)
    have "unat (superblock_crc d ?n) = unat (foldl crc_bitwise_byte 0xFFFFFFFF
        (slice 1024 4 d @ [0, 0, 0, 0] @ slice 1032 (?blk - 1032) d))"
      by (simp add: superblock_crc_def crc_update_bitwise n)
    then show ?thesis using c(2,4) n \<open>2048 \<le> ?blk\<close> by (simp add: s)
  qed
  then show ?thesis using magic incompat by (auto simp: s)
qed

text \<open>
  The checksum of a block of 1024 bytes is computed over \<open>2 ^ 64 - 8\<close> bytes: the block size of an
  image is not checked against the offset of the superblock before it is subtracted.
\<close>

theorem superblock_crc_overreads:
  "\<exists>d. length d = 4096 \<and> superblock_parse d = Undefined OutOfBoundsRead"
proof -
  define d where "d = replicate 1024 0 @ le_bytes 4 EROFS_MAGIC @ le_bytes 4 0 @ le_bytes 4 1 @ [10 :: byte, 0] @ replicate 3058 0"
  have len: "length d = 4096" by (simp add: d_def)
  have "superblock_parse d = Undefined OutOfBoundsRead"
    using len
    by (simp add: superblock_parse_def Let_def read_superblock_struct_def le32_at_value checkChecksum_def int_shift_def)
       (simp add: d_def le_value_le_bytes u8_at_def nth_append has_bit_def sz_sub_def)
  with len show ?thesis by blast
qed

lemma le_value_zeros: "le_value (replicate n 0) = 0"
  by (induction n) simp_all

text \<open>A block of a file system of 4096 byte blocks, without a checksum.\<close>

definition sample_superblock :: bytes where
  "sample_superblock =
     replicate 1024 0 @ le_bytes 4 EROFS_MAGIC @ le_bytes 4 0 @ le_bytes 4 0 @ [12 :: byte, 0] @ replicate 3058 0"

lemma sample_superblock_parse:
  "superblock_parse sample_superblock = Done \<lparr>m_superBlock = read_superblock_struct sample_superblock 1024,
     m_blockSize = 4096, m_features = {}\<rparr>" "length sample_superblock = 4096"
proof -
  show len: "length sample_superblock = 4096" by (simp add: sample_superblock_def)
  have z: "s_magic (read_superblock_struct sample_superblock 1024) = EROFS_MAGIC"
      "s_featureCompat (read_superblock_struct sample_superblock 1024) = 0"
      "s_featureIncompat (read_superblock_struct sample_superblock 1024) = 0"
      "s_blockSizeBits (read_superblock_struct sample_superblock 1024) = 12"
      "s_extensionSlots (read_superblock_struct sample_superblock 1024) = 0"
    using len
    by (simp_all add: read_superblock_struct_def le32_at_value)
       (simp_all add: sample_superblock_def le_value_le_bytes u8_at_def nth_append slice_def drop_Cons' le_value_zeros)
  show "superblock_parse sample_superblock = Done \<lparr>m_superBlock = read_superblock_struct sample_superblock 1024,
     m_blockSize = 4096, m_features = {}\<rparr>"
    using len z by (simp add: superblock_parse_def Let_def checkChecksum_def int_shift_def superblock_features_def has_bit_def)
qed

lemma superblock_parse_sound_witness:
  "s_magic (read_superblock_struct sample_superblock 1024) = EROFS_MAGIC"
  using superblock_parse_sound [OF sample_superblock_parse(1)] sample_superblock_parse(2) by simp

end
