(* ===== verification/ErofsExtentMap.thy ===== *)
theory ErofsExtentMap
  imports Prelude
begin

section \<open>The extent map of a compressed EROFS inode\<close>

text \<open>
  \<open>lib/erofs/ErofsExtentMap.{h,cpp}\<close>: the table that maps ranges of the uncompressed file to
  compressed blocks, its construction from the legacy and from the compacted indexes, and the
  binary search in it.  Reading the image file is an argument \<open>rd\<close> of the constructors.
\<close>

subsection \<open>The map\<close>

datatype compression = CNone | CLz4 | CLzma | CZip | CZstd | CInvalid

datatype lcluster_type = LPlain | LHead1 | LNonHead | LHead2

record extent =
  x_compression :: compression
  x_uncomprOffset :: nat
  x_uncomprSize :: nat
  x_comprBlockAddr :: nat

record extent_map =
  em_blockSize :: nat
  em_uncomprSize :: nat
  em_comprAlgos :: "compression \<times> compression"
  em_entries :: "extent list"
  em_lastAddedIndex :: nat

datatype map_error =
    InodeTooBig | BadExtentsAlignment | IndexReadFailed | UnsupportedAlgorithm nat nat | UnsupportedAdvise nat
  | UnsupportedBlockSize nat | UnsupportedClusterSize nat | InvalidUncompressedOffset | AllExtentsAdded
  | UnsupportedSecondAlgorithm | UnexpectedNonHead | MapNotFilled

definition lcluster_of :: "nat \<Rightarrow> lcluster_type" where
  "lcluster_of n = (if n mod 4 = 0 then LPlain else if n mod 4 = 1 then LHead1 else if n mod 4 = 2 then LNonHead else LHead2)"

definition convertComprAlgo :: "nat \<Rightarrow> compression" where
  "convertComprAlgo algo = (if algo = 0 then CLz4 else CInvalid)"

text \<open>The constructor value-initialises the entries.\<close>

definition empty_extent :: extent where
  "empty_extent = \<lparr>x_compression = CNone, x_uncomprOffset = 0, x_uncomprSize = 0, x_comprBlockAddr = 0\<rparr>"

definition new_extent_map :: "nat \<Rightarrow> nat \<Rightarrow> nat \<Rightarrow> nat \<Rightarrow> nat \<Rightarrow> extent_map" where
  "new_extent_map uncomprSize comprBlocks comprBlockSize algo0 algo1 =
     \<lparr>em_blockSize = comprBlockSize, em_uncomprSize = uncomprSize,
      em_comprAlgos = (convertComprAlgo algo0, convertComprAlgo algo1),
      em_entries = replicate comprBlocks empty_extent, em_lastAddedIndex = SIZE_MAX\<rparr>"

subsection \<open>Adding an extent\<close>

text \<open>The slot of a new extent; the extent before it gets its size.\<close>

definition next_slot :: "nat \<Rightarrow> extent_map \<Rightarrow> (map_error, extent_map) outcome" where
  "next_slot uncomprOffset m =
     (let last = em_lastAddedIndex m; es = em_entries m in
      if last = SIZE_MAX then Done (m\<lparr>em_lastAddedIndex := 0\<rparr>)
      else if last \<ge> sz_sub (length es) 1 then Fail AllExtentsAdded
      else Done (m\<lparr>em_entries := es[last := (es ! last)\<lparr>x_uncomprSize := sz_sub uncomprOffset (x_uncomprOffset (es ! last))\<rparr>],
                  em_lastAddedIndex := last + 1\<rparr>))"

definition extent_compression :: "lcluster_type \<Rightarrow> extent_map \<Rightarrow> (map_error, compression) outcome" where
  "extent_compression type m =
     (case type of
        LPlain \<Rightarrow> Done CNone
      | LHead1 \<Rightarrow> Done (fst (em_comprAlgos m))
      | LHead2 \<Rightarrow> (if snd (em_comprAlgos m) = CInvalid then Fail UnsupportedSecondAlgorithm
                   else Done (snd (em_comprAlgos m)))
      | LNonHead \<Rightarrow> Fail UnexpectedNonHead)"

definition em_add :: "lcluster_type \<Rightarrow> nat \<Rightarrow> nat \<Rightarrow> extent_map \<Rightarrow> (map_error, extent_map) outcome" where
  "em_add type uncomprOffset blockAddr m =
     (if uncomprOffset > em_uncomprSize m then Fail InvalidUncompressedOffset
      else if uncomprOffset = em_uncomprSize m then Done m
      else bind_outcome (next_slot uncomprOffset m) (\<lambda>m.
        bind_outcome (extent_compression type m) (\<lambda>c.
          let i = em_lastAddedIndex m; n = length (em_entries m) in
          if i \<ge> n then Undefined OutOfBoundsWrite
          else Done (m\<lparr>em_entries := (em_entries m)[i := \<lparr>
            x_compression = c, x_uncomprOffset = uncomprOffset,
            x_uncomprSize = (if i = n - 1 then sz_sub (em_uncomprSize m) uncomprOffset else 0),
            x_comprBlockAddr = sz_mul blockAddr (em_blockSize m)\<rparr>]\<rparr>))))"

subsection \<open>Compacted indexes\<close>

text \<open>
  The entries of a pack and the block address of its first head entry.  In every pack the upper
  bits of an entry are the type of the cluster and the lower bits the offset in the cluster.
\<close>

fun add_heads :: "nat \<Rightarrow> nat \<Rightarrow> nat \<Rightarrow> nat list \<Rightarrow> extent_map \<Rightarrow> (map_error, extent_map) outcome" where
  "add_heads clusterSize clusterIndex blkaddr [] m = Done m"
| "add_heads clusterSize clusterIndex blkaddr (e # es) m =
     (let type = lcluster_of (e div 4096); off = e AND (clusterSize - 1) in
      if type \<noteq> LNonHead
        then bind_outcome (em_add type (sz_mul clusterIndex clusterSize OR off) blkaddr m)
               (add_heads clusterSize (clusterIndex + 1) (u32_add blkaddr 1) es)
      else add_heads clusterSize (clusterIndex + 1) blkaddr es m)"

definition processCompact4BIndexes :: "bytes \<Rightarrow> nat \<Rightarrow> nat \<Rightarrow> extent_map \<Rightarrow> (map_error, extent_map) outcome" where
  "processCompact4BIndexes d clusterIndex clusterSize =
     add_heads clusterSize clusterIndex (u32_add (le32_at d 4) 1) [le16_at d 0, le16_at d 2]"

definition processSingleCompact4BIndex :: "bytes \<Rightarrow> nat \<Rightarrow> nat \<Rightarrow> extent_map \<Rightarrow> (map_error, extent_map) outcome" where
  "processSingleCompact4BIndex d clusterIndex clusterSize =
     add_heads clusterSize clusterIndex (u32_add (le32_at d 4) 1) [le16_at d 0]"

definition entry_2b :: "bytes \<Rightarrow> nat \<Rightarrow> nat" where
  "entry_2b d i = (le32_at d (i * 14 div 8) div 2 ^ (i * 14 mod 8)) mod 2 ^ 14"

definition processCompact2BIndexes :: "bytes \<Rightarrow> nat \<Rightarrow> nat \<Rightarrow> extent_map \<Rightarrow> (map_error, extent_map) outcome" where
  "processCompact2BIndexes d clusterIndex clusterSize =
     add_heads clusterSize clusterIndex (u32_add (le32_at d 28) 1) (map (entry_2b d) [0..<16])"

text \<open>
  The loops over the packs.  A loop counts its entries down in an \<open>unsigned int\<close>; a count that
  passes zero makes it run on past the end of the indexes that were read.
\<close>

type_synonym pack_reader = "bytes \<Rightarrow> nat \<Rightarrow> nat \<Rightarrow> extent_map \<Rightarrow> (map_error, extent_map) outcome"

function pack_loop ::
  "(nat \<Rightarrow> bool) \<Rightarrow> pack_reader \<Rightarrow> nat \<Rightarrow> nat \<Rightarrow> nat \<Rightarrow> nat \<Rightarrow> bytes \<Rightarrow> nat \<Rightarrow> extent_map \<Rightarrow>
   (map_error, bytes \<times> nat \<times> nat \<times> extent_map) outcome" where
  "pack_loop cond proc clusterSize perPack packSize n d clusterIndex m =
     (if \<not> cond n then Done (d, clusterIndex, n, m)
      else if length d < packSize \<or> packSize = 0 then Undefined OutOfBoundsRead
      else bind_outcome (proc (take packSize d) clusterIndex clusterSize m)
             (pack_loop cond proc clusterSize perPack packSize (u32_sub n perPack) (drop packSize d)
               (clusterIndex + perPack)))"
  by auto
termination by (relation "measure (\<lambda>(cond, proc, cs, p, sz, n, d, i, m). length d)") auto

declare pack_loop.simps [simp del]

text \<open>How many entries of each kind the indexes have: \<open>(4b initial, 2b, 4b at the end)\<close>.\<close>

definition compact_counts :: "bool \<Rightarrow> nat \<Rightarrow> nat \<Rightarrow> nat \<times> nat \<times> nat" where
  "compact_counts compacted2b indexesOffset logicalClusters =
     (if compacted2b then
        (let a = (32 - indexesOffset mod 32) div 4; initial = (if a = 8 then 0 else a) in
         if initial > logicalClusters then (0, 0, logicalClusters)
         else (let twoB = (logicalClusters - initial) - (logicalClusters - initial) mod 16 in
               (initial, twoB, logicalClusters - initial - twoB)))
      else (0, 0, logicalClusters))"

text \<open>All the indexes, in the order of the three loops.\<close>

definition process_indexes ::
  "nat \<Rightarrow> nat \<times> nat \<times> nat \<Rightarrow> bytes \<Rightarrow> extent_map \<Rightarrow> (map_error, extent_map) outcome" where
  "process_indexes clusterSize counts d m =
     (case counts of (initial, twoB, final) \<Rightarrow>
        bind_outcome (pack_loop (\<lambda>n. n \<noteq> 0) processCompact4BIndexes clusterSize 2 8 initial d 0 m)
          (\<lambda>(d, i, _, m). bind_outcome (pack_loop (\<lambda>n. n \<noteq> 0) processCompact2BIndexes clusterSize 16 32 twoB d i m)
            (\<lambda>(d, i, _, m). bind_outcome (pack_loop (\<lambda>n. n > 1) processCompact4BIndexes clusterSize 2 8 final d i m)
              (\<lambda>(d, i, n, m).
                if n = 0 then Done m
                else if length d < 8 then Undefined OutOfBoundsRead
                else processSingleCompact4BIndex (take 8 d) i clusterSize m))))"

definition kMaxUncompressedSize :: nat where
  "kMaxUncompressedSize = 512 * 1024 * 1024"

definition check_filled :: "nat \<Rightarrow> extent_map \<Rightarrow> (map_error, extent_map) outcome" where
  "check_filled compressedBlocks m =
     (if em_lastAddedIndex m \<noteq> sz_sub compressedBlocks 1 then Fail MapNotFilled else Done m)"

definition round_up :: "nat \<Rightarrow> nat \<Rightarrow> nat" where
  "round_up n s = (n + s - 1) div s * s"

definition fromCompactIndexes ::
  "(nat \<Rightarrow> nat \<Rightarrow> bytes option) \<Rightarrow> nat \<Rightarrow> nat \<Rightarrow> nat \<Rightarrow> nat \<Rightarrow> nat \<Rightarrow> (map_error, extent_map) outcome" where
  "fromCompactIndexes rd fileSize extentsOffset compressedBlocks blockSize uncompressedSize =
     (if blockSize \<noteq> 4096 then Fail (UnsupportedBlockSize blockSize)
      else if compressedBlocks > fileSize div blockSize \<or> uncompressedSize > kMaxUncompressedSize then Fail InodeTooBig
      else if extentsOffset mod 4 \<noteq> 0 then Fail BadExtentsAlignment
      else case rd 8 extentsOffset of
        None \<Rightarrow> Fail IndexReadFailed
      | Some header \<Rightarrow>
          (let advise = le16_at header 4; algo1 = u8_at header 6 mod 16; algo2 = u8_at header 6 div 16;
               clusterSize = blockSize * 2 ^ (u8_at header 7 mod 8);
               logicalClusters = div_round_up uncompressedSize clusterSize;
               indexesOffset = sz_add extentsOffset 8 in
           if algo1 \<noteq> 0 \<or> algo2 \<noteq> 0 then Fail (UnsupportedAlgorithm algo1 algo2)
           else if advise div 2 \<noteq> 0 then Fail (UnsupportedAdvise advise)
           else if odd advise \<and> clusterSize \<noteq> 4096 then Fail (UnsupportedClusterSize clusterSize)
           else
             (let counts = compact_counts (odd advise) indexesOffset logicalClusters;
                  indexesSize = (case counts of (initial, twoB, final) \<Rightarrow> initial * 4 + twoB * 2 + round_up final 2 * 4) in
              case rd indexesSize indexesOffset of
                None \<Rightarrow> Fail IndexReadFailed
              | Some d \<Rightarrow>
                  bind_outcome (process_indexes clusterSize counts d
                      (new_extent_map uncompressedSize compressedBlocks blockSize algo1 algo2))
                    (check_filled compressedBlocks))))"

subsection \<open>Legacy indexes\<close>

fun add_legacy :: "nat \<Rightarrow> nat \<Rightarrow> nat \<Rightarrow> bytes \<Rightarrow> extent_map \<Rightarrow> (map_error, extent_map) outcome" where
  "add_legacy clusterSize 0 clusterNum d m = Done m"
| "add_legacy clusterSize (Suc n) clusterNum d m =
     (let advise = le16_at d 0; clusterOffset = le16_at d 2; blkAddr = le32_at d 4; type = lcluster_of advise in
      if type \<noteq> LNonHead
        then bind_outcome (em_add type (sz_mul clusterNum clusterSize OR clusterOffset) blkAddr m)
               (add_legacy clusterSize n (clusterNum + 1) (drop 8 d))
      else add_legacy clusterSize n (clusterNum + 1) (drop 8 d) m)"

definition fromLegacyIndexes ::
  "(nat \<Rightarrow> nat \<Rightarrow> bytes option) \<Rightarrow> nat \<Rightarrow> nat \<Rightarrow> nat \<Rightarrow> nat \<Rightarrow> nat \<Rightarrow> (map_error, extent_map) outcome" where
  "fromLegacyIndexes rd fileSize extentsOffset compressedBlocks blockSize uncompressedSize =
     (if compressedBlocks > fileSize div blockSize \<or> uncompressedSize > kMaxUncompressedSize then Fail InodeTooBig
      else if extentsOffset mod 4 \<noteq> 0 then Fail BadExtentsAlignment
      else case rd 8 extentsOffset of
        None \<Rightarrow> Fail IndexReadFailed
      | Some header \<Rightarrow>
          (let algo1 = u8_at header 6 mod 16; algo2 = u8_at header 6 div 16;
               clusterSize = blockSize * 2 ^ (u8_at header 7 mod 8);
               logicalClusters = div_round_up uncompressedSize clusterSize in
           if algo1 \<noteq> 0 \<or> algo2 \<noteq> 0 then Fail (UnsupportedAlgorithm algo1 algo2)
           else case rd (logicalClusters * 8) (sz_add (sz_add extentsOffset 8) 8) of
             None \<Rightarrow> Fail IndexReadFailed
           | Some d \<Rightarrow>
               bind_outcome (add_legacy clusterSize logicalClusters 0 d
                   (new_extent_map uncompressedSize compressedBlocks blockSize algo1 algo2))
                 (check_filled compressedBlocks)))"

subsection \<open>Finding an extent\<close>

text \<open>\<open>std::lower_bound\<close>: the first position in a range whose entry does not satisfy the predicate.\<close>

function lower_bound :: "('a \<Rightarrow> bool) \<Rightarrow> 'a list \<Rightarrow> nat \<Rightarrow> nat \<Rightarrow> nat" where
  "lower_bound before xs first len =
     (if len = 0 then first
      else if before (xs ! (first + len div 2))
        then lower_bound before xs (first + len div 2 + 1) (len - len div 2 - 1)
      else lower_bound before xs first (len div 2))"
  by auto
termination by (relation "measure (\<lambda>(p, xs, f, n). n)") auto

declare lower_bound.simps [simp del]

definition extent_before :: "nat \<Rightarrow> extent \<Rightarrow> bool" where
  "extent_before offset e \<longleftrightarrow> sz_sub (sz_add (x_uncomprOffset e) (x_uncomprSize e)) 1 < offset"

text \<open>The result is the position in the vector of entries; its length stands for the end.\<close>

definition em_find :: "extent_map \<Rightarrow> nat \<Rightarrow> (map_error, nat) outcome" where
  "em_find m offset =
     (let es = em_entries m; it = lower_bound (extent_before offset) es 0 (length es) in
      if it \<noteq> length es \<and> x_uncomprOffset (es ! it) > offset
        then (if it = 0 then Undefined IteratorOutOfRange else Done (it - 1))
      else Done it)"

subsection \<open>Extents cover the file without gaps\<close>

text \<open>
  \<open>map_ok lo m\<close>: the extents added so far follow each other without gap or overlap, each but the
  newest has its size, and the newest starts below \<open>lo\<close>.
\<close>

abbreviation "x_off m i \<equiv> x_uncomprOffset (em_entries m ! i)"
abbreviation "x_sz m i \<equiv> x_uncomprSize (em_entries m ! i)"

definition map_ok :: "nat \<Rightarrow> extent_map \<Rightarrow> bool" where
  "map_ok lo m \<longleftrightarrow>
     em_lastAddedIndex m = SIZE_MAX \<or>
     (em_lastAddedIndex m < length (em_entries m) \<and> x_off m (em_lastAddedIndex m) < lo \<and>
      x_off m (em_lastAddedIndex m) < em_uncomprSize m \<and>
      (\<forall>i < em_lastAddedIndex m. x_off m (Suc i) = x_off m i + x_sz m i \<and> 0 < x_sz m i) \<and>
      (em_lastAddedIndex m = length (em_entries m) - 1 \<longrightarrow>
         x_sz m (em_lastAddedIndex m) = em_uncomprSize m - x_off m (em_lastAddedIndex m)))"

definition same_map :: "extent_map \<Rightarrow> extent_map \<Rightarrow> bool" where
  "same_map m m' \<longleftrightarrow>
     length (em_entries m') = length (em_entries m) \<and> em_uncomprSize m' = em_uncomprSize m \<and>
     em_blockSize m' = em_blockSize m \<and> em_comprAlgos m' = em_comprAlgos m"

lemma same_map_refl [simp]: "same_map m m"
  by (simp add: same_map_def)

lemma same_map_trans: "same_map m m' \<Longrightarrow> same_map m' m'' \<Longrightarrow> same_map m m''"
  by (simp add: same_map_def)

lemma map_ok_mono: "map_ok lo m \<Longrightarrow> lo \<le> hi \<Longrightarrow> map_ok hi m"
  by (auto simp: map_ok_def)

definition map_room :: "extent_map \<Rightarrow> bool" where
  "map_room m \<longleftrightarrow> em_entries m \<noteq> [] \<and> length (em_entries m) < SIZE_MAX"

lemma map_room_same: "same_map m m' \<Longrightarrow> map_room m \<Longrightarrow> map_room m'"
  by (auto simp: map_room_def same_map_def simp flip: length_greater_0_conv)

lemma em_add_ok:
  assumes "map_ok lo m" "map_room m" "lo \<le> off"
  shows "defined (em_add type off addr m) \<and>
    (\<forall>m'. em_add type off addr m = Done m' \<longrightarrow> map_ok (Suc off) m' \<and> same_map m m')"
proof (cases "off < em_uncomprSize m")
  case False
  then show ?thesis using assms map_ok_mono [of lo m "Suc off"] by (auto simp: em_add_def)
next
  case True
  have room: "em_entries m \<noteq> []" "length (em_entries m) < SIZE_MAX" using assms(2) by (auto simp: map_room_def)
  have slots: "\<exists>u. next_slot off m = Done u \<and> same_map m u \<and> em_lastAddedIndex u < length (em_entries m) \<and>
      (\<forall>i < em_lastAddedIndex u. x_off u i + x_sz u i = (if Suc i = em_lastAddedIndex u then off else x_off u (Suc i)) \<and> 0 < x_sz u i)"
    if "next_slot off m \<noteq> Fail AllExtentsAdded"
  proof (cases "em_lastAddedIndex m = SIZE_MAX")
    case True
    then show ?thesis using room by (auto simp: next_slot_def same_map_def)
  next
    case False
    let ?last = "em_lastAddedIndex m"
    have last: "?last < length (em_entries m)" "x_off m ?last < lo"
      "\<And>i. i < ?last \<Longrightarrow> x_off m (Suc i) = x_off m i + x_sz m i \<and> 0 < x_sz m i"
      using assms(1) False by (auto simp: map_ok_def)
    have one: "sz_sub (length (em_entries m)) 1 = length (em_entries m) - 1"
      using room by (simp add: sz_sub_def Suc_leI)
    have more: "?last + 1 < length (em_entries m)"
      using that False room one by (auto simp: next_slot_def Let_def split: if_splits)
    let ?u = "m\<lparr>em_entries := (em_entries m)[?last := (em_entries m ! ?last)\<lparr>x_uncomprSize := sz_sub off (x_off m ?last)\<rparr>],
        em_lastAddedIndex := ?last + 1\<rparr>"
    have "next_slot off m = Done ?u"
      using False more room one by (auto simp: next_slot_def Let_def)
    moreover have "x_off ?u i + x_sz ?u i = (if Suc i = ?last + 1 then off else x_off ?u (Suc i)) \<and> 0 < x_sz ?u i"
      if "i < ?last + 1" for i
      using that last assms(3) by (cases "i = ?last") (auto simp: nth_list_update wrap_simps)
    ultimately show ?thesis using more by (intro exI [of _ ?u]) (auto simp: same_map_def)
  qed
  show ?thesis
  proof (cases "next_slot off m = Fail AllExtentsAdded")
    case True
    then show ?thesis using \<open>off < em_uncomprSize m\<close> by (simp add: em_add_def)
  next
    case False
    from slots [OF this] obtain u where u: "next_slot off m = Done u" "same_map m u"
      "em_lastAddedIndex u < length (em_entries m)"
      "\<And>i. i < em_lastAddedIndex u \<Longrightarrow>
        x_off u i + x_sz u i = (if Suc i = em_lastAddedIndex u then off else x_off u (Suc i)) \<and> 0 < x_sz u i"
      by blast
    let ?last = "em_lastAddedIndex u" and ?n = "length (em_entries m)"
    let ?new = "\<lambda>c. \<lparr>x_compression = c, x_uncomprOffset = off,
        x_uncomprSize = (if ?last = ?n - 1 then sz_sub (em_uncomprSize m) off else 0),
        x_comprBlockAddr = sz_mul addr (em_blockSize m)\<rparr>"
    have n: "length (em_entries u) = ?n" "em_uncomprSize u = em_uncomprSize m" "em_blockSize u = em_blockSize m"
      using u(2) by (auto simp: same_map_def)
    have res: "em_add type off addr m = bind_outcome (extent_compression type u)
        (\<lambda>c. Done (u\<lparr>em_entries := (em_entries u)[?last := ?new c]\<rparr>))"
      using \<open>off < em_uncomprSize m\<close> u(1,3) n by (simp add: em_add_def Let_def)
    have "map_ok (Suc off) (u\<lparr>em_entries := (em_entries u)[?last := ?new c]\<rparr>)" for c
      using u(3,4) n True by (auto simp: map_ok_def nth_list_update wrap_simps)
    moreover have "same_map m (u\<lparr>em_entries := (em_entries u)[?last := ?new c]\<rparr>)" for c
      using u(2) by (simp add: same_map_def)
    moreover have "defined (extent_compression type u)"
      by (auto simp: extent_compression_def split: lcluster_type.splits)
    ultimately show ?thesis unfolding res by (auto intro: defined_bind)
  qed
qed

lemma or_offset: "(x * 2 ^ k) OR (e AND (2 ^ k - 1)) = x * 2 ^ k + e mod (2 ^ k :: nat)"
proof -
  have "e AND (2 ^ k - 1) = take_bit k e"
    by (simp add: take_bit_eq_mask mask_eq_exp_minus_1)
  moreover have "push_bit k x + take_bit k e = push_bit k x OR take_bit k e"
    by (rule disjunctive_add) (auto simp: bit_simps)
  ultimately show ?thesis by (simp add: push_bit_eq_mult take_bit_eq_mod)
qed

lemma add_heads_ok:
  assumes "map_ok (ci * 2 ^ k) m" "map_room m" "(ci + length es) * 2 ^ k < SIZE_LIMIT"
  shows "defined (add_heads (2 ^ k) ci a es m) \<and>
    (\<forall>m'. add_heads (2 ^ k) ci a es m = Done m' \<longrightarrow> map_ok ((ci + length es) * 2 ^ k) m' \<and> same_map m m')"
  using assms
proof (induction es arbitrary: ci a m)
  case Nil
  then show ?case by simp
next
  case (Cons e es)
  have ci: "ci * 2 ^ k < SIZE_LIMIT"
    using Cons.prems(3) by (simp add: algebra_simps)
  define off where "off = ci * 2 ^ k + e mod 2 ^ k"
  have range: "ci * 2 ^ k \<le> off" "Suc off \<le> (ci + 1) * 2 ^ k"
    by (simp_all add: off_def algebra_simps Suc_leI)
  have off: "sz_mul ci (2 ^ k) OR (e AND (2 ^ k - 1)) = off"
    using ci or_offset [of ci k e] by (simp add: wrap_simps off_def)
  have next': "(ci + 1 + length es) * 2 ^ k < SIZE_LIMIT" using Cons.prems(3) by simp
  show ?case
  proof (cases "lcluster_of (e div 4096) = LNonHead")
    case True
    have "map_ok ((ci + 1) * 2 ^ k) m" using map_ok_mono [OF Cons.prems(1)] by simp
    from Cons.IH [OF this Cons.prems(2) next'] True show ?thesis by simp
  next
    case False
    note add = em_add_ok [OF Cons.prems(1,2) range(1), of "lcluster_of (e div 4096)" a]
    have rest: "defined (add_heads (2 ^ k) (ci + 1) (u32_add a 1) es u) \<and>
        (\<forall>m'. add_heads (2 ^ k) (ci + 1) (u32_add a 1) es u = Done m' \<longrightarrow>
          map_ok ((ci + 1 + length es) * 2 ^ k) m' \<and> same_map m m')"
      if "em_add (lcluster_of (e div 4096)) off a m = Done u" for u
    proof -
      have u: "map_ok (Suc off) u" "same_map m u" using add that by auto
      from Cons.IH [OF map_ok_mono [OF u(1) range(2)] map_room_same [OF u(2) Cons.prems(2)] next'] u(2)
      show ?thesis by (auto intro: same_map_trans)
    qed
    have eq: "add_heads (2 ^ k) ci a (e # es) m =
        bind_outcome (em_add (lcluster_of (e div 4096)) off a m) (add_heads (2 ^ k) (ci + 1) (u32_add a 1) es)"
      using False by (simp only: add_heads.simps Let_def off if_True not_False_eq_True)
    show ?thesis
      unfolding eq using add rest by (auto intro!: defined_bind)
  qed
qed

text \<open>What the three pack readers share: \<open>n\<close> entries per pack.\<close>

definition pack_ok :: "pack_reader \<Rightarrow> nat \<Rightarrow> bool" where
  "pack_ok proc n \<longleftrightarrow>
     (\<forall>d ci k m. map_ok (ci * 2 ^ k) m \<longrightarrow> map_room m \<longrightarrow> (ci + n) * 2 ^ k < SIZE_LIMIT \<longrightarrow>
        defined (proc d ci (2 ^ k) m) \<and>
        (\<forall>m'. proc d ci (2 ^ k) m = Done m' \<longrightarrow> map_ok ((ci + n) * 2 ^ k) m' \<and> same_map m m'))"

lemma packs_ok: "pack_ok processCompact4BIndexes 2" "pack_ok processCompact2BIndexes 16"
    "pack_ok processSingleCompact4BIndex 1"
  unfolding pack_ok_def processCompact4BIndexes_def processCompact2BIndexes_def processSingleCompact4BIndex_def
  using add_heads_ok [where es = "[_, _]"] add_heads_ok [where es = "map (entry_2b _) [0..<16]"]
    add_heads_ok [where es = "[_]"]
  by simp_all

lemma pack_loop_ok:
  assumes "pack_ok proc per" "per \<le> packSize"
  shows "pack_loop cond proc (2 ^ k) per packSize n d ci m = Done (d', ci', n', m') \<Longrightarrow>
    map_ok (ci * 2 ^ k) m \<Longrightarrow> map_room m \<Longrightarrow> (ci + length d) * 2 ^ k < SIZE_LIMIT \<Longrightarrow>
    map_ok (ci' * 2 ^ k) m' \<and> same_map m m' \<and> ci' + length d' \<le> ci + length d"
proof (induction "length d" arbitrary: n d ci m rule: less_induct)
  case less
  show ?case
  proof (cases "cond n")
    case False
    then show ?thesis using less.prems by (subst (asm) pack_loop.simps) auto
  next
    case True
    then have size: "packSize \<le> length d" "0 < packSize"
      using less.prems(1) by (subst (asm) pack_loop.simps; auto split: if_splits)+
    with True less.prems(1) obtain u where u: "proc (take packSize d) ci (2 ^ k) m = Done u"
      "pack_loop cond proc (2 ^ k) per packSize (u32_sub n per) (drop packSize d) (ci + per) u = Done (d', ci', n', m')"
      by (subst (asm) pack_loop.simps) auto
    have per: "ci + per \<le> ci + length d" using assms(2) size by simp
    have "(ci + per) * 2 ^ k < SIZE_LIMIT"
      using less.prems(4) mult_le_mono1 [OF per, of "2 ^ k"] by linarith
    then have mu: "map_ok ((ci + per) * 2 ^ k) u" "same_map m u"
      using assms(1) less.prems(2,3) u(1) by (auto simp: pack_ok_def)
    have shrink: "ci + per + length (drop packSize d) \<le> ci + length d" using assms(2) size by simp
    then have "(ci + per + length (drop packSize d)) * 2 ^ k < SIZE_LIMIT"
      using less.prems(4) mult_le_mono1 [OF shrink, of "2 ^ k"] by linarith
    have lt: "length (drop packSize d) < length d" using size by simp
    note less.hyps [OF lt u(2) mu(1) map_room_same [OF mu(2) less.prems(3)] \<open>(ci + per + length (drop packSize d)) * 2 ^ k < SIZE_LIMIT\<close>]
    with mu(2) shrink show ?thesis by (meson order_trans same_map_trans)
  qed
qed

text \<open>With a whole number of packs in the buffer the loop stays inside it.\<close>

lemma pack_loop_defined:
  assumes "pack_ok proc per" "per \<le> packSize" "0 < packSize" "0 < per"
    and cond: "\<not> cond r" "\<And>i. 0 < i \<Longrightarrow> cond (i * per + r)"
  shows "j * packSize \<le> length d \<Longrightarrow> map_ok (ci * 2 ^ k) m \<Longrightarrow> map_room m \<Longrightarrow> (ci + length d) * 2 ^ k < SIZE_LIMIT \<Longrightarrow>
    defined (pack_loop cond proc (2 ^ k) per packSize (j * per + r) d ci m) \<and>
    (\<forall>d' ci' n' m'. pack_loop cond proc (2 ^ k) per packSize (j * per + r) d ci m = Done (d', ci', n', m') \<longrightarrow>
       n' = r \<and> length d' = length d - j * packSize)"
proof (induction j arbitrary: d ci m)
  case 0
  then show ?case using cond(1) by (subst (1 2) pack_loop.simps) auto
next
  case (Suc j)
  have size: "packSize \<le> length d" "j * packSize \<le> length (drop packSize d)" using Suc.prems(1) by simp_all
  have per: "ci + per \<le> ci + length d" using assms(2) size by simp
  have bound: "(ci + per) * 2 ^ k < SIZE_LIMIT"
    using Suc.prems(4) mult_le_mono1 [OF per, of "2 ^ k"] by linarith
  have shrink: "ci + per + length (drop packSize d) \<le> ci + length d" using assms(2) size by simp
  have next': "(ci + per + length (drop packSize d)) * 2 ^ k < SIZE_LIMIT"
    using Suc.prems(4) mult_le_mono1 [OF shrink, of "2 ^ k"] by linarith
  have sub: "u32_sub (Suc j * per + r) per = j * per + r" by (simp add: u32_sub_def)
  let ?p = "proc (take packSize d) ci (2 ^ k) m"
  have eq: "pack_loop cond proc (2 ^ k) per packSize (Suc j * per + r) d ci m =
      bind_outcome ?p (pack_loop cond proc (2 ^ k) per packSize (j * per + r) (drop packSize d) (ci + per))"
    using cond(2) [of "Suc j"] size(1) assms(3) sub by (subst pack_loop.simps) simp
  have p: "defined ?p" "\<And>u. ?p = Done u \<Longrightarrow> map_ok ((ci + per) * 2 ^ k) u \<and> same_map m u"
    using assms(1) Suc.prems(2,3) bound by (auto simp: pack_ok_def)
  have rest: "defined (pack_loop cond proc (2 ^ k) per packSize (j * per + r) (drop packSize d) (ci + per) u) \<and>
      (\<forall>d' ci' n' m'. pack_loop cond proc (2 ^ k) per packSize (j * per + r) (drop packSize d) (ci + per) u =
          Done (d', ci', n', m') \<longrightarrow> n' = r \<and> length d' = length d - Suc j * packSize)" if "?p = Done u" for u
    using Suc.IH [OF size(2) _ _ next', of u] p(2) [OF that] map_room_same [of m u] Suc.prems(3) by auto
  have "defined (bind_outcome ?p (pack_loop cond proc (2 ^ k) per packSize (j * per + r) (drop packSize d) (ci + per)))"
    using defined_bind [OF p(1)] rest by blast
  then show ?case unfolding eq bind_outcome_Done using rest by blast
qed

lemma compact_counts_shape:
  assumes "compact_counts b off n = (initial, twoB, final)"
  shows "initial + twoB + final = n \<and> initial \<le> 7 \<and> twoB mod 16 = 0 \<and> (off mod 8 = 0 \<longrightarrow> even initial)"
proof (cases b)
  case True
  define a where "a = (32 - off mod 32) div 4"
  have a: "a \<le> 8" "off mod 8 = 0 \<longrightarrow> even a"
    unfolding a_def by (simp, presburger)
  have "initial \<in> {0, a} \<and> initial \<noteq> 8 \<and> initial + twoB + final = n \<and> twoB mod 16 = 0"
  proof -
    have "(n - (i + (n - i) mod 16)) mod 16 = 0" for i
      by (simp add: diff_diff_left [symmetric] minus_mod_eq_div_mult)
    then show ?thesis
      using assms True unfolding compact_counts_def Let_def a_def [symmetric]
      by (simp split: if_splits) (safe, simp_all)
  qed
  with a show ?thesis by auto
qed (use assms in \<open>auto simp: compact_counts_def\<close>)

text \<open>Processing all the indexes.\<close>

lemma process_indexes_ok:
  assumes "process_indexes (2 ^ k) counts d m = Done m'" "map_ok 0 m" "map_room m"
    "(length d + 1) * 2 ^ k < SIZE_LIMIT"
  shows "\<exists>hi. map_ok hi m' \<and> same_map m m'"
proof -
  obtain i t f where counts: "counts = (i, t, f)" by (cases counts)
  from assms(1) obtain d1 c1 n1 m1 d2 c2 n2 m2 d3 c3 n3 m3 where
    l1: "pack_loop (\<lambda>n. n \<noteq> 0) processCompact4BIndexes (2 ^ k) 2 8 i d 0 m = Done (d1, c1, n1, m1)" and
    l2: "pack_loop (\<lambda>n. n \<noteq> 0) processCompact2BIndexes (2 ^ k) 16 32 t d1 c1 m1 = Done (d2, c2, n2, m2)" and
    l3: "pack_loop (\<lambda>n. n > 1) processCompact4BIndexes (2 ^ k) 2 8 f d2 c2 m2 = Done (d3, c3, n3, m3)" and
    last: "(if n3 = 0 then Done m3 else if length d3 < 8 then Undefined OutOfBoundsRead
       else processSingleCompact4BIndex (take 8 d3) c3 (2 ^ k) m3) = Done m'"
    unfolding process_indexes_def counts by (auto split: prod.splits)
  have le: "(a + length b) * 2 ^ k < SIZE_LIMIT" if "a + length b \<le> length d" for a and b :: bytes
  proof -
    have "length d * 2 ^ k < SIZE_LIMIT" using assms(4) by simp
    then show ?thesis using mult_le_mono1 [OF that, of "2 ^ k"] by (rule le_less_trans [rotated])
  qed
  have m1: "map_ok (c1 * 2 ^ k) m1" "same_map m m1" "c1 + length d1 \<le> length d"
    using pack_loop_ok [OF packs_ok(1) _ l1] assms(2,3) le [of 0 d] by auto
  have m2: "map_ok (c2 * 2 ^ k) m2" "same_map m1 m2" "c2 + length d2 \<le> length d"
    using pack_loop_ok [OF packs_ok(2) _ l2 m1(1) map_room_same [OF m1(2) assms(3)] le [OF m1(3)]] m1(3) by auto
  have s2: "same_map m m2" using m1(2) m2(2) by (rule same_map_trans)
  have m3: "map_ok (c3 * 2 ^ k) m3" "same_map m2 m3" "c3 + length d3 \<le> length d"
    using pack_loop_ok [OF packs_ok(1) _ l3 m2(1) map_room_same [OF s2 assms(3)] le [OF m2(3)]] m2(3) by auto
  have s3: "same_map m m3" using s2 m3(2) by (rule same_map_trans)
  have c3: "(c3 + 1) * 2 ^ k < SIZE_LIMIT"
  proof -
    have "c3 + 1 \<le> length d + 1" using m3(3) by simp
    from mult_le_mono1 [OF this] assms(4) show ?thesis by (rule le_less_trans)
  qed
  show ?thesis
  proof (cases "n3 = 0")
    case True
    then show ?thesis using last m3(1) s3 by auto
  next
    case False
    then have "processSingleCompact4BIndex (take 8 d3) c3 (2 ^ k) m3 = Done m'" using last by (auto split: if_splits)
    then have "map_ok ((c3 + 1) * 2 ^ k) m'" "same_map m3 m'"
      using packs_ok(3) m3(1) map_room_same [OF s3 assms(3)] c3 by (auto simp: pack_ok_def)
    then show ?thesis using s3 by (auto intro: same_map_trans)
  qed
qed

subsection \<open>The binary search\<close>

lemma lower_bound_range: "lower_bound p xs first len \<in> {first..first + len}"
  by (induction p xs first len rule: lower_bound.induct)
     (subst lower_bound.simps; force)

lemma lower_bound_correct:
  assumes "\<And>i j. i < j \<Longrightarrow> j < first + len \<Longrightarrow> p (xs ! j) \<Longrightarrow> p (xs ! i)"
  shows "(\<forall>i \<in> {first..<lower_bound p xs first len}. p (xs ! i)) \<and>
    (\<forall>i \<in> {lower_bound p xs first len..<first + len}. \<not> p (xs ! i))"
  using assms
proof (induction p xs first len rule: lower_bound.induct)
  case (1 p xs first len)
  let ?h = "len div 2"
  show ?case
  proof (cases "len = 0")
    case True
    then show ?thesis by (subst (1 2) lower_bound.simps) auto
  next
    case False
    have sum: "first + ?h + 1 + (len - ?h - 1) = first + len" using False by simp
    show ?thesis
    proof (cases "p (xs ! (first + ?h))")
      case True
      have "lower_bound p xs first len = lower_bound p xs (first + ?h + 1) (len - ?h - 1)"
        using False True by (subst lower_bound.simps) simp
      moreover have "p (xs ! i)" if "i < first + ?h + 1" for i
        using 1(3) [of i "first + ?h"] that True False by (cases "i = first + ?h") auto
      moreover have "(\<forall>i \<in> {first + ?h + 1..<lower_bound p xs (first + ?h + 1) (len - ?h - 1)}. p (xs ! i)) \<and>
          (\<forall>i \<in> {lower_bound p xs (first + ?h + 1) (len - ?h - 1)..<first + len}. \<not> p (xs ! i))"
        using 1(1) [OF False True] 1(3) sum by simp
      ultimately show ?thesis by (metis atLeastLessThan_iff not_le)
    next
      case no: False
      have "lower_bound p xs first len = lower_bound p xs first ?h"
        using False no by (subst lower_bound.simps) simp
      moreover have "\<not> p (xs ! i)" if "first + ?h \<le> i" "i < first + len" for i
        using 1(3) [of "first + ?h" i] that no by (cases "i = first + ?h") auto
      moreover have "(\<forall>i \<in> {first..<lower_bound p xs first ?h}. p (xs ! i)) \<and>
          (\<forall>i \<in> {lower_bound p xs first ?h..<first + ?h}. \<not> p (xs ! i))"
        using 1(2) [OF False no] 1(3) by simp
      ultimately show ?thesis by (metis atLeastLessThan_iff not_le)
    qed
  qed
qed

subsection \<open>The extents of a map built from compacted indexes\<close>

definition reader_ok :: "(nat \<Rightarrow> nat \<Rightarrow> bytes option) \<Rightarrow> bool" where
  "reader_ok rd \<longleftrightarrow> (\<forall>n off d. rd n off = Some d \<longrightarrow> length d = n)"

definition covers :: "extent_map \<Rightarrow> bool" where
  "covers m \<longleftrightarrow>
     (\<forall>i < length (em_entries m). 0 < x_sz m i \<and>
        x_off m i + x_sz m i = (if Suc i = length (em_entries m) then em_uncomprSize m else x_off m (Suc i)))"

lemma map_ok_covers:
  assumes "map_ok hi m" "em_lastAddedIndex m = length (em_entries m) - 1" "map_room m"
  shows "covers m"
proof -
  have last: "em_lastAddedIndex m \<noteq> SIZE_MAX" "0 < length (em_entries m)" using assms(2,3) by (auto simp: map_room_def)
  show ?thesis
    unfolding covers_def
  proof (intro allI impI)
    fix i assume "i < length (em_entries m)"
    then consider "i < em_lastAddedIndex m" | "i = em_lastAddedIndex m" using assms(2) by linarith
    then show "0 < x_sz m i \<and>
        x_off m i + x_sz m i = (if Suc i = length (em_entries m) then em_uncomprSize m else x_off m (Suc i))"
      using assms(1,2) last by cases (auto simp: map_ok_def)
  qed
qed

lemma new_map_ok: "map_ok 0 (new_extent_map us n bs a b)"
  by (simp add: map_ok_def new_extent_map_def)

text \<open>The number of indexes, and why nothing overflows on the way.\<close>

lemma compact_bounds:
  assumes "uncompressedSize \<le> kMaxUncompressedSize" "k < 8"
    "compact_counts b off (div_round_up uncompressedSize (4096 * 2 ^ k)) = (i, t, f)"
  shows "(i * 4 + t * 2 + round_up f 2 * 4 + 1) * 2 ^ (12 + k) < SIZE_LIMIT"
proof -
  let ?n = "div_round_up uncompressedSize (4096 * 2 ^ k)"
  have k: "(2::nat) ^ k \<le> 128" using assms(2) power_increasing [of k 7 "2 :: nat"] by simp
  have "?n = (uncompressedSize + (4096 * 2 ^ k - 1)) div (4096 * 2 ^ k)"
    using assms(1) k by (intro div_round_up_small) (auto simp: kMaxUncompressedSize_def)
  also have "\<dots> \<le> (uncompressedSize + (4096 * 2 ^ k - 1)) div 4096"
    by (intro div_le_mono2) auto
  also have "\<dots> \<le> (512 * 1024 * 1024 + 524288) div 4096"
    using assms(1) k by (intro div_le_mono) (simp add: kMaxUncompressedSize_def)
  finally have n: "?n \<le> 131200" by simp
  have "round_up f 2 \<le> f + 1" by (simp add: round_up_def)
  then have "i * 4 + t * 2 + round_up f 2 * 4 + 1 \<le> 524805"
    using n compact_counts_shape [OF assms(3)] by linarith
  moreover have "(2::nat) ^ (12 + k) \<le> 524288" using k by (simp add: power_add)
  ultimately have "(i * 4 + t * 2 + round_up f 2 * 4 + 1) * 2 ^ (12 + k) \<le> 524805 * 524288"
    by (rule mult_le_mono)
  then show ?thesis by linarith
qed

text \<open>The steps of the constructor up to the indexes.\<close>

lemma fromCompactIndexes_cases:
  assumes "reader_ok rd"
  shows "(\<exists>e. fromCompactIndexes rd fileSize eoff cb bs us = Fail e) \<or>
    (\<exists>k i t f d. k < 8 \<and> bs = 4096 \<and> us \<le> kMaxUncompressedSize \<and> cb \<le> fileSize div 4096 \<and> eoff mod 4 = 0 \<and>
       (\<exists>b. compact_counts b (sz_add eoff 8) (div_round_up us (4096 * 2 ^ k)) = (i, t, f)) \<and>
       length d = i * 4 + t * 2 + round_up f 2 * 4 \<and>
       fromCompactIndexes rd fileSize eoff cb bs us =
         bind_outcome (process_indexes (2 ^ (12 + k)) (i, t, f) d (new_extent_map us cb 4096 0 0)) (check_filled cb))"
proof (cases "\<exists>e. fromCompactIndexes rd fileSize eoff cb bs us = Fail e")
  case False
  then obtain header where checks: "bs = 4096" "cb \<le> fileSize div 4096" "us \<le> kMaxUncompressedSize" "eoff mod 4 = 0"
      "rd 8 eoff = Some header"
    unfolding fromCompactIndexes_def by (auto split: if_splits option.splits)
  let ?k = "u8_at header 7 mod 8" and ?b = "odd (le16_at header 4)"
  obtain i t f where counts: "compact_counts ?b (sz_add eoff 8) (div_round_up us (4096 * 2 ^ ?k)) = (i, t, f)"
    by (metis prod_cases3)
  have pow: "4096 * 2 ^ ?k = (2::nat) ^ (12 + ?k)" by (simp add: power_add)
  from False obtain d where d: "rd (i * 4 + t * 2 + round_up f 2 * 4) (sz_add eoff 8) = Some d"
      "fromCompactIndexes rd fileSize eoff cb bs us =
         bind_outcome (process_indexes (2 ^ (12 + ?k)) (i, t, f) d (new_extent_map us cb 4096 0 0)) (check_filled cb)"
    unfolding fromCompactIndexes_def
    by (auto simp: checks Let_def counts pow [symmetric] split: if_splits option.splits)
  have "length d = i * 4 + t * 2 + round_up f 2 * 4" using assms d(1) by (auto simp: reader_ok_def)
  moreover have "?k < 8" by simp
  ultimately show ?thesis
    by (intro disjI2, rule_tac x = ?k in exI, rule_tac x = i in exI, rule_tac x = t in exI, rule_tac x = f in exI,
        rule_tac x = d in exI) (intro conjI exI [of _ ?b]; simp add: checks counts d(2) [unfolded checks(1)])
qed blast

lemma compact_map_covers_aux:
  assumes "reader_ok rd" "fromCompactIndexes rd fileSize eoff cb bs us = Done m" "0 < cb" "fileSize < 2 ^ 63"
  shows "covers m \<and> length (em_entries m) = cb \<and> em_uncomprSize m = us"
proof -
  obtain k i t f d b where
    k: "k < 8" "us \<le> kMaxUncompressedSize" "cb \<le> fileSize div 4096"
      "compact_counts b (sz_add eoff 8) (div_round_up us (4096 * 2 ^ k)) = (i, t, f)"
      "length d = i * 4 + t * 2 + round_up f 2 * 4"
    and "fromCompactIndexes rd fileSize eoff cb bs us =
      bind_outcome (process_indexes (2 ^ (12 + k)) (i, t, f) d (new_extent_map us cb 4096 0 0)) (check_filled cb)"
    using fromCompactIndexes_cases [OF assms(1), of fileSize eoff cb bs us] assms(2)
    by (metis outcome.distinct(1))
  with assms(2) have eq: "bind_outcome (process_indexes (2 ^ (12 + k)) (i, t, f) d (new_extent_map us cb 4096 0 0))
      (check_filled cb) = Done m" by simp
  let ?new = "new_extent_map us cb 4096 0 0"
  have cb: "cb < SIZE_MAX" using k(3) assms(4) div_le_dividend [of fileSize 4096] by simp
  have room: "map_room ?new" using assms(3) cb by (simp add: map_room_def new_extent_map_def)
  from eq have "process_indexes (2 ^ (12 + k)) (i, t, f) d ?new = Done m" and filled: "em_lastAddedIndex m = cb - 1"
    using assms(3) by (auto simp: check_filled_def wrap_simps Suc_leI sz_sub_def split: if_splits)
  from process_indexes_ok [OF this(1) new_map_ok room] compact_bounds [OF k(2,1,4)] k(5)
  obtain hi where "map_ok hi m" "same_map ?new m" by auto
  moreover from this(2) have "length (em_entries m) = cb" "em_uncomprSize m = us"
    by (auto simp: same_map_def new_extent_map_def)
  ultimately show ?thesis using map_ok_covers [OF _ _ map_room_same [OF _ room]] filled by auto
qed

text \<open>
  C38. The extents of a map built from compacted indexes cover the file from the first extent to the
  end: there are as many as the inode has compressed blocks, none is empty, and each starts where
  the one before it ends.
\<close>

theorem compact_map_covers:
  assumes "reader_ok rd" "fromCompactIndexes rd fileSize eoff cb bs us = Done m" "0 < cb" "fileSize < 2 ^ 63"
  shows "covers m \<and> length (em_entries m) = cb \<and> em_uncomprSize m = us"
  using compact_map_covers_aux [OF assms] .

subsection \<open>Finding the extent of an offset\<close>

lemma covers_mono:
  assumes "covers m" "i < j" "j < length (em_entries m)"
  shows "x_off m i + x_sz m i \<le> x_off m j"
  using assms(2,3)
proof (induction j)
  case (Suc j)
  have "x_off m j + x_sz m j = x_off m (Suc j)" using assms(1) Suc.prems(2) by (auto simp: covers_def)
  then show ?case using Suc by (cases "i = j") auto
qed simp

lemma covers_end:
  assumes "covers m" "i < length (em_entries m)"
  shows "x_off m i + x_sz m i \<le> em_uncomprSize m" "0 < x_sz m i"
proof -
  let ?last = "length (em_entries m) - 1"
  have "x_off m ?last + x_sz m ?last = em_uncomprSize m" using assms by (auto simp: covers_def)
  then show "x_off m i + x_sz m i \<le> em_uncomprSize m"
  proof (cases "i = ?last")
    case False
    then have "i < ?last" "?last < length (em_entries m)" using assms(2) by auto
    from covers_mono [OF assms(1) this] \<open>x_off m ?last + x_sz m ?last = em_uncomprSize m\<close> show ?thesis by linarith
  qed simp
  show "0 < x_sz m i" using assms by (auto simp: covers_def)
qed

lemma em_find_covers:
  assumes "covers m" "em_entries m \<noteq> []" "em_uncomprSize m < SIZE_LIMIT" "off < em_uncomprSize m"
  shows "(if off < x_off m 0 then em_find m off = Undefined IteratorOutOfRange
    else \<exists>i < length (em_entries m). em_find m off = Done i \<and> x_off m i \<le> off \<and> off < x_off m i + x_sz m i)"
proof -
  let ?n = "length (em_entries m)" and ?p = "extent_before off"
  define r where "r = lower_bound ?p (em_entries m) 0 ?n"
  have p: "?p (em_entries m ! i) \<longleftrightarrow> x_off m i + x_sz m i \<le> off" if "i < ?n" for i
    using covers_end [OF assms(1) that] assms(3) by (auto simp: extent_before_def wrap_simps sz_sub_def)
  have mono: "?p (em_entries m ! i)" if "i < j" "j < 0 + ?n" "?p (em_entries m ! j)" for i j
    using covers_mono [OF assms(1) that(1)] p [of i] p [of j] that by simp
  have search: "\<forall>i \<in> {0..<r}. ?p (em_entries m ! i)" "\<forall>i \<in> {r..<?n}. \<not> ?p (em_entries m ! i)" "r \<le> ?n"
    using lower_bound_correct [of 0 ?n ?p "em_entries m", OF mono] lower_bound_range [of ?p "em_entries m" 0 ?n]
    by (auto simp: r_def)
  have pos: "0 < ?n" using assms(2) by simp
  have "x_off m (?n - 1) + x_sz m (?n - 1) = em_uncomprSize m" using assms(1) pos by (auto simp: covers_def)
  then have "\<not> ?p (em_entries m ! (?n - 1))" using p [of "?n - 1"] pos assms(4) by simp
  then have r: "r < ?n" using search(1,3) pos by (metis One_nat_def Suc_pred atLeastLessThan_iff le_neq_implies_less lessI zero_le)
  have upper: "off < x_off m r + x_sz m r" using search(2) r p [OF r] by auto
  have lower: "x_off m r \<le> off" if "r \<noteq> 0"
  proof -
    have "?p (em_entries m ! (r - 1))" "r - 1 < ?n" using search(1) that r by auto
    moreover have "x_off m (r - 1) + x_sz m (r - 1) = x_off m r"
      using assms(1) that r by (auto simp: covers_def)
    ultimately show ?thesis using p [of "r - 1"] by simp
  qed
  have le: "x_off m 0 \<le> off" if "r \<noteq> 0"
    using lower [OF that] covers_mono [OF assms(1), of 0 r] that r by simp
  have find: "em_find m off =
      (if x_off m r > off then (if r = 0 then Undefined IteratorOutOfRange else Done (r - 1)) else Done r)"
    using r by (simp add: em_find_def Let_def r_def)
  show ?thesis
  proof (cases "r = 0")
    case True
    then show ?thesis using find upper r by auto
  next
    case False
    then show ?thesis using find lower [OF False] le [OF False] upper r by auto
  qed
qed

text \<open>
  C39. For a map built from compacted indexes the binary search returns the extent that contains the
  offset.  Only for an offset before the first extent it steps back from the beginning of the
  vector, which is undefined.
\<close>

theorem compact_find_correct:
  assumes "reader_ok rd" "fromCompactIndexes rd fileSize eoff cb bs us = Done m" "0 < cb" "fileSize < 2 ^ 63"
    "off < us"
  shows "if off < x_off m 0 then em_find m off = Undefined IteratorOutOfRange
    else \<exists>i < cb. em_find m off = Done i \<and> x_off m i \<le> off \<and> off < x_off m i + x_sz m i"
proof -
  have "us \<le> kMaxUncompressedSize"
    using assms(2) by (auto simp: fromCompactIndexes_def split: if_splits)
  moreover have "covers m" "length (em_entries m) = cb" "em_uncomprSize m = us"
    using compact_map_covers_aux [OF assms(1-4)] by auto
  ultimately show ?thesis
    using em_find_covers [of m off] assms(3,5) by (auto simp: kMaxUncompressedSize_def simp flip: length_greater_0_conv)
qed

subsection \<open>Compacted indexes are read inside their buffer\<close>

lemma process_indexes_defined:
  assumes "compact_counts b ioff n = (i, t, f)" "ioff mod 8 = 0" "length d = i * 4 + t * 2 + round_up f 2 * 4"
    "map_ok 0 m" "map_room m" "(length d + 1) * 2 ^ k < SIZE_LIMIT"
  shows "defined (process_indexes (2 ^ k) (i, t, f) d m)"
proof -
  from compact_counts_shape [OF assms(1)] assms(2) obtain a c where i: "i = a * 2 + 0" and t: "t = c * 16 + 0"
    by (metis add_0_right dvd_def even_iff_mod_2_eq_zero mod_0_imp_dvd mult.commute)
  have f: "f = f div 2 * 2 + f mod 2" by simp
  have up: "round_up f 2 * 4 = f div 2 * 8 + (if f mod 2 = 0 then 0 else 8)" unfolding round_up_def by (cases "even f") (auto elim!: evenE oddE)
  have le: "(x + length e) * 2 ^ k < SIZE_LIMIT" if "x + length e \<le> length d" for x and e :: bytes
  proof -
    have "length d * 2 ^ k < SIZE_LIMIT" using assms(6) by simp
    then show ?thesis using mult_le_mono1 [OF that, of "2 ^ k"] by (rule le_less_trans [rotated])
  qed
  let ?l1 = "pack_loop (\<lambda>n. n \<noteq> 0) processCompact4BIndexes (2 ^ k) 2 8 i d 0 m"
  have l1: "defined ?l1 \<and> (\<forall>d' c' n' m'. ?l1 = Done (d', c', n', m') \<longrightarrow> length d' = length d - a * 8)"
    using pack_loop_defined [OF packs_ok(1), where packSize = 8 and cond = "\<lambda>n. n \<noteq> 0" and r = 0 and j = a and d = d
        and ci = 0 and m = m and k = k] assms(3-5) i le [of 0 d] by auto
  have l2: "defined (pack_loop (\<lambda>n. n \<noteq> 0) processCompact2BIndexes (2 ^ k) 16 32 t d1 c1 m1) \<and>
      (\<forall>d' c' n' m'. pack_loop (\<lambda>n. n \<noteq> 0) processCompact2BIndexes (2 ^ k) 16 32 t d1 c1 m1 = Done (d', c', n', m') \<longrightarrow>
        length d' = length d1 - c * 32)"
    if "map_ok (c1 * 2 ^ k) m1" "same_map m m1" "c1 + length d1 \<le> length d" "length d1 = length d - a * 8" for d1 c1 m1
    using pack_loop_defined [OF packs_ok(2), where packSize = 32 and cond = "\<lambda>n. n \<noteq> 0" and r = 0 and j = c and d = d1
        and ci = c1 and m = m1 and k = k] that assms(3,5) i t le [OF that(3)] map_room_same [OF that(2)] by auto
  have l3: "defined (pack_loop (\<lambda>n. n > 1) processCompact4BIndexes (2 ^ k) 2 8 f d2 c2 m2) \<and>
      (\<forall>d' c' n' m'. pack_loop (\<lambda>n. n > 1) processCompact4BIndexes (2 ^ k) 2 8 f d2 c2 m2 = Done (d', c', n', m') \<longrightarrow>
        n' = f mod 2 \<and> length d' = length d2 - f div 2 * 8)"
    if "map_ok (c2 * 2 ^ k) m2" "same_map m m2" "c2 + length d2 \<le> length d" "length d2 = length d - a * 8 - c * 32" for d2 c2 m2
    using pack_loop_defined [OF packs_ok(1), where packSize = 8 and cond = "\<lambda>n. n > 1" and r = "f mod 2" and j = "f div 2"
        and d = d2 and ci = c2 and m = m2 and k = k] that assms(3,5) i t up le [OF that(3)] map_room_same [OF that(2)] by auto
  let ?L3 = "\<lambda>d i m. pack_loop (\<lambda>n. n > 1) processCompact4BIndexes (2 ^ k) 2 8 f d i m"
  let ?final = "\<lambda>(d, i, n, m). if n = 0 then Done m else if length d < 8 then Undefined OutOfBoundsRead
      else processSingleCompact4BIndex (take 8 d) i (2 ^ k) m"
  have s3: "defined (bind_outcome (?L3 d2 c2 m2) ?final)"
    if m2: "map_ok (c2 * 2 ^ k) m2" "same_map m m2" "c2 + length d2 \<le> length d" "length d2 = length d - a * 8 - c * 32" for d2 c2 m2
  proof (rule defined_bind)
    fix x assume x: "?L3 d2 c2 m2 = Done x"
    obtain d3 c3 n3 m3 where x': "x = (d3, c3, n3, m3)" by (cases x)
    have n3: "n3 = f mod 2" "length d3 = length d2 - f div 2 * 8" using l3 [OF m2] x x' by auto
    have m3: "map_ok (c3 * 2 ^ k) m3" "same_map m2 m3" "c3 + length d3 \<le> c2 + length d2"
      using pack_loop_ok [OF packs_ok(1) _ x [unfolded x'] m2(1) map_room_same [OF m2(2) assms(5)] le [OF m2(3)]] by auto
    have "c3 + 1 \<le> length d + 1" using m3(3) m2(3) by simp
    from mult_le_mono1 [OF this] assms(6) have "(c3 + 1) * 2 ^ k < SIZE_LIMIT" by (rule le_less_trans)
    then have "defined (processSingleCompact4BIndex (take 8 d3) c3 (2 ^ k) m3)"
      using packs_ok(3) m3(1) map_room_same [OF same_map_trans [OF m2(2) m3(2)] assms(5)] by (auto simp: pack_ok_def)
    moreover have "8 \<le> length d3" if "n3 \<noteq> 0"
      using that n3 m2(4) assms(3) i t up by auto
    ultimately show "defined (?final x)" by (cases "n3 = 0") (auto simp: x')
  qed (use l3 [OF m2] in blast)
  let ?L2 = "\<lambda>d i m. pack_loop (\<lambda>n. n \<noteq> 0) processCompact2BIndexes (2 ^ k) 16 32 t d i m"
  have s2: "defined (bind_outcome (?L2 d1 c1 m1) (\<lambda>(d, i, _, m). bind_outcome (?L3 d i m) ?final))"
    if m1: "map_ok (c1 * 2 ^ k) m1" "same_map m m1" "c1 + length d1 \<le> length d" "length d1 = length d - a * 8" for d1 c1 m1
  proof (rule defined_bind)
    fix x assume x: "?L2 d1 c1 m1 = Done x"
    obtain d2 c2 n2 m2 where x': "x = (d2, c2, n2, m2)" by (cases x)
    have "map_ok (c2 * 2 ^ k) m2" "same_map m1 m2" "c2 + length d2 \<le> c1 + length d1"
      using pack_loop_ok [OF packs_ok(2) _ x [unfolded x'] m1(1) map_room_same [OF m1(2) assms(5)] le [OF m1(3)]] by auto
    then show "defined ((\<lambda>(d, i, _, m). bind_outcome (?L3 d i m) ?final) x)"
      using s3 [of c2 m2 d2] l2 [OF m1] x x' m1 by (auto intro: same_map_trans)
  qed (use l2 [OF m1] in blast)
  show ?thesis
    unfolding process_indexes_def prod.case
  proof (rule defined_bind)
    fix x assume x: "?l1 = Done x"
    obtain d1 c1 n1 m1 where x': "x = (d1, c1, n1, m1)" by (cases x)
    have "map_ok (0 * 2 ^ k) m" using assms(4) by simp
    from pack_loop_ok [OF packs_ok(1) _ x [unfolded x'] this assms(5) le [of 0 d]]
    have "map_ok (c1 * 2 ^ k) m1" "same_map m m1" "c1 + length d1 \<le> length d" by auto
    then show "defined ((\<lambda>(d, i, _, m). bind_outcome (?L2 d i m) (\<lambda>(d, i, _, m). bind_outcome (?L3 d i m) ?final)) x)"
      using s2 [of c1 m1 d1] l1 x x' by auto
  qed (use l1 in blast)
qed

text \<open>
  Reading compacted indexes never leaves the buffer of indexes nor the vector of extents, for
  every image, provided the inode has a compressed block and its map starts on an 8-byte boundary,
  as the maps of all inodes do.
\<close>

theorem compact_indexes_defined:
  assumes "reader_ok rd" "0 < cb" "eoff mod 8 = 0" "fileSize < 2 ^ 63"
  shows "defined (fromCompactIndexes rd fileSize eoff cb bs us)"
proof (cases "\<exists>e. fromCompactIndexes rd fileSize eoff cb bs us = Fail e")
  case False
  then obtain k i t f d b where
    k: "k < 8" "us \<le> kMaxUncompressedSize" "cb \<le> fileSize div 4096"
      "compact_counts b (sz_add eoff 8) (div_round_up us (4096 * 2 ^ k)) = (i, t, f)"
      "length d = i * 4 + t * 2 + round_up f 2 * 4"
    and eq: "fromCompactIndexes rd fileSize eoff cb bs us =
      bind_outcome (process_indexes (2 ^ (12 + k)) (i, t, f) d (new_extent_map us cb 4096 0 0)) (check_filled cb)"
    using fromCompactIndexes_cases [OF assms(1), of fileSize eoff cb bs us] by metis
  have cb: "cb < SIZE_MAX" using k(3) assms(4) div_le_dividend [of fileSize 4096] by simp
  then have room: "map_room (new_extent_map us cb 4096 0 0)" using assms(2) by (simp add: map_room_def new_extent_map_def)
  have "sz_add eoff 8 mod 8 = 0" using assms(3) by (simp add: sz_add_def mod_mod_cancel)
  from process_indexes_defined [OF k(4) this k(5) new_map_ok room] compact_bounds [OF k(2,1,4)] k(5)
  show ?thesis unfolding eq by (intro defined_bind) (auto simp: check_filled_def)
qed auto

subsection \<open>Images that mislead the map\<close>

definition index_reader :: "bytes \<Rightarrow> nat \<Rightarrow> nat \<Rightarrow> bytes option" where
  "index_reader entries n off = (if off = 0 then Some (replicate n 0) else if n = length entries then Some entries else None)"

lemma index_reader_ok: "reader_ok (index_reader entries)"
  by (auto simp: reader_ok_def index_reader_def)

lemma zero_fields [simp]:
  "i + 1 < n \<Longrightarrow> le16_at (replicate n 0) i = 0" "i < n \<Longrightarrow> u8_at (replicate n 0) i = 0"
  by (simp_all add: le_defs)

lemmas index_evaluation =
  fromCompactIndexes_def fromLegacyIndexes_def index_reader_def kMaxUncompressedSize_def compact_counts_def
  div_round_up_def sz_add_def sz_sub_def sz_mul_def round_up_def process_indexes_def pack_loop.simps
  processCompact4BIndexes_def processSingleCompact4BIndex_def new_extent_map_def em_add_def next_slot_def
  extent_compression_def convertComprAlgo_def lcluster_of_def le_defs check_filled_def u32_add_def u32_sub_def empty_extent_def

lemma add_legacy_two:
  "add_legacy cs 2 n d m =
     (let advise = le16_at d 0; type = lcluster_of advise in
      if type \<noteq> LNonHead
        then bind_outcome (em_add type (sz_mul n cs OR le16_at d 2) (le32_at d 4) m) (add_legacy cs 1 (n + 1) (drop 8 d))
      else add_legacy cs 1 (n + 1) (drop 8 d) m)"
  by (simp add: numeral_2_eq_2 Let_def)

text \<open>
  An inode without compressed blocks makes the map write outside its vector: the guard against
  too many extents compares with the size minus one, which wraps around for an empty vector.
\<close>

theorem empty_map_written:
  "fromCompactIndexes (index_reader (replicate 8 0)) 4096 0 0 4096 100 = Undefined OutOfBoundsWrite"
  by (simp add: index_evaluation)

text \<open>
  An image whose first cluster is no head is accepted, and the search for the start of the file
  then dereferences an iterator before the beginning of the vector.
\<close>

theorem find_before_begin:
  "\<exists>rd m. reader_ok rd \<and> fromCompactIndexes rd 4096 0 1 4096 8192 = Done m \<and>
    em_find m 0 = Undefined IteratorOutOfRange"
proof -
  let ?rd = "index_reader [0, 0x20, 0, 0, 0, 0, 0, 0]"
  have "\<exists>m. fromCompactIndexes ?rd 4096 0 1 4096 8192 = Done m \<and> em_find m 0 = Undefined IteratorOutOfRange"
    by (simp add: index_evaluation em_find_def lower_bound.simps extent_before_def)
  then show ?thesis using index_reader_ok by blast
qed

text \<open>
  The legacy indexes are not checked to be in order: two clusters whose offsets overlap are
  accepted and give an extent with a size close to \<open>2 ^ 64\<close>, although extents are documented to be
  required strictly in order.
\<close>

theorem legacy_extent_wraps:
  "\<exists>rd m. reader_ok rd \<and> fromLegacyIndexes rd 8192 0 2 4096 8192 = Done m \<and>
    x_uncomprSize (em_entries m ! 0) = SIZE_LIMIT - 904"
proof -
  let ?rd = "index_reader [0, 0, 0x88, 0x13, 1, 0, 0, 0, 0, 0, 0, 0, 2, 0, 0, 0]"
  have "\<exists>m. fromLegacyIndexes ?rd 8192 0 2 4096 8192 = Done m \<and> x_uncomprSize (em_entries m ! 0) = SIZE_LIMIT - 904"
    by (simp add: index_evaluation add_legacy_two)
  then show ?thesis using index_reader_ok by blast
qed

lemma sample_map:
  obtains m where "fromCompactIndexes (index_reader (replicate 8 0)) 4096 0 1 4096 100 = Done m" "x_off m 0 = 0"
proof -
  have "\<exists>m. fromCompactIndexes (index_reader (replicate 8 0)) 4096 0 1 4096 100 = Done m \<and> x_off m 0 = 0"
    by (simp add: index_evaluation)
  then show thesis using that by blast
qed

theorem compact_map_covers_witness:
  "\<exists>m. fromCompactIndexes (index_reader (replicate 8 0)) 4096 0 1 4096 100 = Done m \<and> covers m"
proof -
  obtain m where m: "fromCompactIndexes (index_reader (replicate 8 0)) 4096 0 1 4096 100 = Done m" by (rule sample_map)
  from compact_map_covers [OF index_reader_ok this] m show ?thesis by simp
qed

theorem compact_find_correct_witness:
  "\<exists>m i. fromCompactIndexes (index_reader (replicate 8 0)) 4096 0 1 4096 100 = Done m \<and> em_find m 42 = Done i"
proof -
  obtain m where m: "fromCompactIndexes (index_reader (replicate 8 0)) 4096 0 1 4096 100 = Done m" "x_off m 0 = 0"
    by (rule sample_map)
  from compact_find_correct [OF index_reader_ok m(1), of 42] m show ?thesis by auto
qed

theorem compact_indexes_defined_witness:
  "defined (fromCompactIndexes (index_reader (replicate 8 0)) 4096 0 1 4096 100)"
  by (rule compact_indexes_defined [OF index_reader_ok]) simp_all

subsection \<open>The packed 14-bit entries\<close>

lemma le_value_slice: "le_value (slice b n d) = le_value d div 256 ^ b mod 256 ^ n"
proof -
  have bound: "le_value xs < 256 ^ length xs" for xs
  proof (induction xs)
    case (Cons x xs)
    have "unat x < 256" using unsigned_less [where 'a = nat, of x] by simp
    with Cons show ?case by simp
  qed simp
  have low: "le_value (take k xs) = le_value xs mod 256 ^ k" for k xs
  proof (cases "k \<le> length xs")
    case True
    have "le_value xs = le_value (take k xs) + 256 ^ k * le_value (drop k xs)"
      using le_value_append [of "take k xs" "drop k xs"] True by simp
    then show ?thesis using bound [of "take k xs"] True by simp
  next
    case False
    then have "(256::nat) ^ length xs \<le> 256 ^ k" by (intro power_increasing) auto
    with bound [of xs] have "le_value xs < 256 ^ k" by (rule less_le_trans)
    then show ?thesis using False by simp
  qed
  have high: "le_value (drop k xs) = le_value xs div 256 ^ k" for k xs
  proof (cases "k \<le> length xs")
    case True
    have "le_value xs = le_value (take k xs) + 256 ^ k * le_value (drop k xs)"
      using le_value_append [of "take k xs" "drop k xs"] True by simp
    then show ?thesis using bound [of "take k xs"] True by simp
  next
    case False
    then have "(256::nat) ^ length xs \<le> 256 ^ k" by (intro power_increasing) auto
    with bound [of xs] have "le_value xs < 256 ^ k" by (rule less_le_trans)
    then show ?thesis using False by simp
  qed
  show ?thesis by (simp add: slice_def low high)
qed

text \<open>
  Reading a 14-bit entry through an unaligned 32-bit word and a shift gives bits \<open>14 * i\<close> to
  \<open>14 * i + 13\<close> of the pack.
\<close>

theorem entry_2b_bits:
  assumes "i < 16" "length d = 32"
  shows "entry_2b d i = le_value d div 2 ^ (14 * i) mod 2 ^ 14"
proof -
  let ?b = "i * 14 div 8" and ?s = "i * 14 mod 8"
  have b: "?b + 4 \<le> length d" using assms by simp
  have s: "?s \<le> 6" by presburger
  have e: "8 * ?b + ?s = 14 * i" using mult_div_mod_eq [of 8 "i * 14"] by (simp only: mult.commute [of 14 i])
  have "le32_at d ?b = le_value d div 256 ^ ?b mod 2 ^ 32"
    using le32_at_value [OF b] le_value_slice [of ?b 4 d] by simp
  moreover have "x mod 2 ^ 32 div 2 ^ ?s mod 2 ^ 14 = x div 2 ^ ?s mod 2 ^ 14" for x :: nat
  proof -
    have "x mod 2 ^ 32 div 2 ^ ?s = x div 2 ^ ?s mod 2 ^ (32 - ?s)"
      using s by (metis drop_bit_eq_div drop_bit_take_bit take_bit_eq_mod)
    moreover have "2 ^ 14 dvd (2 ^ (32 - ?s) :: nat)" using s by (intro le_imp_power_dvd) simp
    ultimately show ?thesis by (simp add: mod_mod_cancel)
  qed
  moreover have "256 ^ ?b * 2 ^ ?s = (2 :: nat) ^ (14 * i)"
  proof -
    have "256 ^ ?b = (2 :: nat) ^ (8 * ?b)" by (simp add: power_mult)
    then show ?thesis by (simp only: power_add [symmetric] e)
  qed
  ultimately show ?thesis
    by (simp only: entry_2b_def) (metis div_mult2_eq)
qed

theorem entry_2b_bits_witness: "entry_2b (replicate 32 0xAB) 3 = le_value (replicate 32 0xAB) div 2 ^ 42 mod 2 ^ 14"
  using entry_2b_bits [of 3 "replicate 32 0xAB"] by simp

end
