(* ===== verification/ErofsData.thy ===== *)
theory ErofsData
  imports ErofsImageFile ErofsSuperBlock ErofsExtentMap
begin

section \<open>The data readers of EROFS inodes\<close>

text \<open>
  \<open>lib/erofs/ErofsInodeFlatDataReader.{h,cpp}\<close> and \<open>lib/erofs/ErofsInodeCompressedDataReader.{h,cpp}\<close>.
  A read takes the bytes of the destination buffer and gives them back as the code leaves them,
  with a flag that says whether it succeeded, because one caller goes on after a failed read.
  The LZ4 library is a parameter.  A refused read of the image file leaves in the buffer what the
  image file wrote to it before it refused, and behind that what was there.
\<close>

subsection \<open>Plain data\<close>

record plain_reader =
  d_blocksAddress :: nat
  d_dataSize :: nat
  d_accessAdvice :: nat

definition plain_new :: "nat \<Rightarrow> nat \<Rightarrow> nat \<Rightarrow> nat \<Rightarrow> plain_reader" where
  "plain_new blockAddr blockSize dataSize advice =
     \<lparr>d_blocksAddress = blockAddr, d_dataSize = dataSize, d_accessAdvice = advice\<rparr>"

text \<open>A read of the image into the destination.  A refused one has overwritten the start of it.\<close>

definition file_read :: "image_read \<Rightarrow> bytes \<Rightarrow> nat \<Rightarrow> bool \<times> bytes" where
  "file_read rd out off = 
     (case img_read rd (length out) off of
        None \<Rightarrow> (let w = take (length out) (img_refused rd (length out) off) in (False, w @ drop (length w) out))
      | Some d \<Rightarrow> (True, d))"

definition plain_read :: "image_read \<Rightarrow> plain_reader \<Rightarrow> bytes \<Rightarrow> nat \<Rightarrow> bool \<times> bytes" where
  "plain_read rd r out offset =
     (if offset \<ge> d_dataSize r \<or> length out > d_dataSize r - offset then (False, out)
      else file_read rd out (sz_add (d_blocksAddress r) offset))"

subsection \<open>Plain data with a tail after the inode\<close>

record inline_reader =
  n_contigBlocksSize :: nat
  n_contigBlocksAddress :: nat
  n_tailBlockAddress :: nat
  n_dataSize :: nat
  n_accessAdvice :: nat

definition inline_new :: "nat \<Rightarrow> nat \<Rightarrow> nat \<Rightarrow> nat \<Rightarrow> nat \<Rightarrow> inline_reader" where
  "inline_new blockAddr tailBlockAddr blockSize dataSize advice =
     \<lparr>n_contigBlocksSize = dataSize div blockSize * blockSize, n_contigBlocksAddress = blockAddr,
      n_tailBlockAddress = tailBlockAddr, n_dataSize = dataSize, n_accessAdvice = advice\<rparr>"

definition inline_read :: "image_read \<Rightarrow> inline_reader \<Rightarrow> bytes \<Rightarrow> nat \<Rightarrow> bool \<times> bytes" where
  "inline_read rd r out offset =
     (let n = length out; contig = n_contigBlocksSize r in
      if offset \<ge> n_dataSize r \<or> n > n_dataSize r - offset then (False, out)
      else if offset + n \<ge> contig then
        (if offset \<ge> contig then file_read rd out (sz_add (n_tailBlockAddress r) (offset - contig))
         else
           (let contigSize = contig - offset in
            case file_read rd (take contigSize out) (sz_add (n_contigBlocksAddress r) offset) of
              (False, d) \<Rightarrow> (False, d @ drop contigSize out)
            | (True, d) \<Rightarrow> (case file_read rd (drop contigSize out) (n_tailBlockAddress r) of (ok, t) \<Rightarrow> (ok, d @ t))))
      else file_read rd out (sz_add (n_contigBlocksAddress r) offset))"

subsection \<open>Compressed data\<close>

text \<open>
  The two functions of the LZ4 library the code calls: from the compressed bytes, the bytes of the
  destination and its capacity they give a return value and the bytes the destination then has.
\<close>

type_synonym lz4_function = "bytes \<Rightarrow> bytes \<Rightarrow> int \<Rightarrow> int \<times> bytes"

record lz4 =
  LZ4_decompress_safe :: lz4_function
  LZ4_decompress_safe_partial :: lz4_function

record compressed_reader =
  z_extents :: extent_map
  z_dataSize :: nat
  z_blockSize :: nat
  z_accessAdvice :: nat
  z_haveLz4ZeroPadding :: bool
  z_lastDecompressedBlockAddr :: nat
  z_decompressedBlock :: bytes
  z_contigBlockRange :: "nat \<times> nat"

fun contig_from :: "nat \<Rightarrow> nat \<Rightarrow> nat \<Rightarrow> extent list \<Rightarrow> nat \<times> nat" where
  "contig_from blockSize first prev [] = (first, sz_add (sz_sub prev first) blockSize)"
| "contig_from blockSize first prev (e # es) =
     (if x_comprBlockAddr e \<noteq> sz_add prev blockSize then (0, 0)
      else contig_from blockSize first (x_comprBlockAddr e) es)"

definition getExtendContigRange :: "extent_map \<Rightarrow> nat \<Rightarrow> (map_error, nat \<times> nat) outcome" where
  "getExtendContigRange m blockSize =
     (case em_entries m of
        [] \<Rightarrow> Undefined IteratorOutOfRange
      | e # es \<Rightarrow> Done (contig_from blockSize (x_comprBlockAddr e) (x_comprBlockAddr e) es))"

definition compressed_new ::
  "erofs_superblock \<Rightarrow> extent_map \<Rightarrow> nat \<Rightarrow> nat \<Rightarrow> (map_error, compressed_reader) outcome" where
  "compressed_new sb extents uncompressedSize advice =
     bind_outcome (if advice \<noteq> 0 then getExtendContigRange extents (m_blockSize sb) else Done (0, 0)) (\<lambda>range.
       Done \<lparr>z_extents = extents, z_dataSize = uncompressedSize, z_blockSize = m_blockSize sb, z_accessAdvice = advice,
         z_haveLz4ZeroPadding = hasFeature sb ZeroPadding, z_lastDecompressedBlockAddr = SIZE_MAX,
         z_decompressedBlock = [], z_contigBlockRange = range\<rparr>)"

definition createFull ::
  "image_read \<Rightarrow> nat \<Rightarrow> erofs_superblock \<Rightarrow> nat \<Rightarrow> nat \<Rightarrow> nat \<Rightarrow> nat \<Rightarrow> (map_error, compressed_reader) outcome" where
  "createFull rd fileSize sb compressedBlocks extentsOffset dataSize advice =
     bind_outcome (fromLegacyIndexes (img_read rd) fileSize extentsOffset compressedBlocks (m_blockSize sb) dataSize)
       (\<lambda>m. compressed_new sb m dataSize advice)"

definition createCompact ::
  "image_read \<Rightarrow> nat \<Rightarrow> erofs_superblock \<Rightarrow> nat \<Rightarrow> nat \<Rightarrow> nat \<Rightarrow> nat \<Rightarrow> (map_error, compressed_reader) outcome" where
  "createCompact rd fileSize sb compressedBlocks extentsOffset dataSize advice =
     bind_outcome (fromCompactIndexes (img_read rd) fileSize extentsOffset compressedBlocks (m_blockSize sb) dataSize)
       (\<lambda>m. compressed_new sb m dataSize advice)"

text \<open>\<open>static_cast<int>\<close> of a \<open>size_t\<close>.\<close>

definition int_cast :: "nat \<Rightarrow> int" where
  "int_cast n = (if n mod 2 ^ 32 < 2 ^ 31 then int (n mod 2 ^ 32) else int (n mod 2 ^ 32) - 2 ^ 32)"

definition decompressLz4 :: "lz4 \<Rightarrow> bool \<Rightarrow> bytes \<Rightarrow> bytes \<Rightarrow> bool \<times> bytes" where
  "decompressLz4 lib zeroPadding block out =
     (let inputMargin = (if zeroPadding then length (takeWhile (\<lambda>b. b = 0) block) else 0) in
      if zeroPadding \<and> inputMargin \<ge> length block then (False, out)
      else
        (let (ret, d) = (if zeroPadding then LZ4_decompress_safe lib else LZ4_decompress_safe_partial lib)
               (drop inputMargin block) out (int_cast (length out)) in
         (ret = int_cast (length out), d)))"

text \<open>\<open>std::vector::resize\<close> throws when it is asked for more than the largest vector.\<close>

datatype io_exception = LengthError

abbreviation PTRDIFF_MAX :: nat where "PTRDIFF_MAX \<equiv> 9223372036854775807"

type_synonym 'r read_state = "(io_exception, bool \<times> bytes \<times> 'r) outcome"

definition readLz4Compressed ::
  "lz4 \<Rightarrow> image_read \<Rightarrow> compressed_reader \<Rightarrow> extent \<Rightarrow> bytes \<Rightarrow> nat \<Rightarrow> compressed_reader read_state" where
  "readLz4Compressed lib rd r e out offset =
     (let n = length out; addr = x_comprBlockAddr e; us = x_uncomprSize e in
      if z_lastDecompressedBlockAddr r = addr then
        (if offset + n > length (z_decompressedBlock r) then Undefined OutOfBoundsRead
         else Done (True, slice offset n (z_decompressedBlock r), r))
      else case img_read rd (z_blockSize r) addr of
        None \<Rightarrow> Done (False, out, r)
      | Some block \<Rightarrow>
          (if offset = 0 \<and> us = n then
             (case decompressLz4 lib (z_haveLz4ZeroPadding r) block out of (ok, d) \<Rightarrow> Done (ok, d, r))
           else if length (z_decompressedBlock r) < us \<and> us > PTRDIFF_MAX then Fail LengthError
           else
             (let buf = z_decompressedBlock r @ replicate (us - length (z_decompressedBlock r)) 0;
                  (ok, d) = decompressLz4 lib (z_haveLz4ZeroPadding r) block (take us buf);
                  r = r\<lparr>z_lastDecompressedBlockAddr := SIZE_MAX, z_decompressedBlock := d @ drop us buf\<rparr> in
              if \<not> ok then Done (False, out, r)
              else if offset + n > length (z_decompressedBlock r) then Undefined OutOfBoundsRead
              else Done (True, slice offset n (z_decompressedBlock r), r\<lparr>z_lastDecompressedBlockAddr := addr\<rparr>))))"

definition readUncompressed :: "image_read \<Rightarrow> extent \<Rightarrow> bytes \<Rightarrow> nat \<Rightarrow> bool \<times> bytes" where
  "readUncompressed rd e out offset = file_read rd out (sz_add (x_comprBlockAddr e) offset)"

definition read_extent ::
  "lz4 \<Rightarrow> image_read \<Rightarrow> compressed_reader \<Rightarrow> extent \<Rightarrow> bytes \<Rightarrow> nat \<Rightarrow> compressed_reader read_state" where
  "read_extent lib rd r e out offset =
     (case x_compression e of
        CNone \<Rightarrow> (case readUncompressed rd e out offset of (ok, d) \<Rightarrow> Done (ok, d, r))
      | CLz4 \<Rightarrow> readLz4Compressed lib rd r e out offset
      | _ \<Rightarrow> Done (False, out, r))"

text \<open>The loop over the extents from the one that holds the first byte.\<close>

fun read_extents ::
  "lz4 \<Rightarrow> image_read \<Rightarrow> extent list \<Rightarrow> nat \<Rightarrow> bytes \<Rightarrow> compressed_reader \<Rightarrow> compressed_reader read_state" where
  "read_extents lib rd [] clusterOffset out r =
     (if out = [] then Done (True, [], r) else Undefined IteratorOutOfRange)"
| "read_extents lib rd (e # es) clusterOffset out r =
     (if out = [] then Done (True, [], r)
      else
        (let clusterAmount = min (sz_sub (x_uncomprSize e) clusterOffset) (length out) in
         bind_outcome (read_extent lib rd r e (take clusterAmount out) clusterOffset) (\<lambda>(ok, d, r).
           if \<not> ok then Done (False, d @ drop clusterAmount out, r)
           else bind_outcome (read_extents lib rd es 0 (drop clusterAmount out) r) (\<lambda>(ok, d', r). Done (ok, d @ d', r)))))"

definition compressed_read ::
  "lz4 \<Rightarrow> image_read \<Rightarrow> compressed_reader \<Rightarrow> bytes \<Rightarrow> nat \<Rightarrow> compressed_reader read_state" where
  "compressed_read lib rd r out offset =
     (if offset \<ge> z_dataSize r \<or> length out > z_dataSize r - offset then Done (False, out, r)
      else case em_find (z_extents r) offset of
        Undefined u \<Rightarrow> Undefined u
      | Fail _ \<Rightarrow> Done (False, out, r)
      | Done i \<Rightarrow>
          (let es = em_entries (z_extents r) in
           if i = length es then Done (False, out, r)
           else read_extents lib rd (drop i es) (sz_sub offset (x_uncomprOffset (es ! i))) out r))"

subsection \<open>Reading from an image\<close>

lemma file_read_length [simp]:
  "(\<And>n off d. img_read rd n off = Some d \<Longrightarrow> length d = n) \<Longrightarrow> length (snd (file_read rd out off)) = length out"
  by (auto simp: file_read_def split: option.splits)

context sound_image
begin

lemma file_read_sound:
  "opened f \<Longrightarrow> file_read (rd f) out off = (ok, d) \<Longrightarrow>
     length d = length out \<and> (ok \<longrightarrow> d = slice off (length out) (content f) \<and> off + length out \<le> length (content f))"
  using rd_sound [of f "length out" off] rd_inside [of f "length out" off]
  by (auto simp: file_read_def split: option.splits)

end

context complete_image
begin

lemma file_read_complete:
  "opened f \<Longrightarrow> off < length (content f) \<Longrightarrow> off + length out \<le> length (content f) \<Longrightarrow>
     file_read (rd f) out off = (True, slice off (length out) (content f))"
  by (simp add: file_read_def rd_eq)

lemma plain_read_complete:
  assumes "opened f" "a + n \<le> length (content f)" "length (content f) < SIZE_LIMIT"
    "off < n" "off + length out \<le> n"
  shows "plain_read (rd f) (plain_new a bs n adv) out off = (True, slice off (length out) (slice a n (content f)))"
  using assms by (auto simp: plain_read_def plain_new_def wrap_simps file_read_complete slice_slice)

lemma inline_read_complete:
  assumes "opened f" "length (content f) < SIZE_LIMIT" "t < length (content f)"
    and range: "a + n div bs * bs \<le> length (content f)" "t + n mod bs \<le> length (content f)"
    and read: "off < n" "off + length out \<le> n"
  shows "inline_read (rd f) (inline_new a t bs n adv) out off =
    (True, slice off (length out) (slice a (n div bs * bs) (content f) @ slice t (n mod bs) (content f)))"
proof -
  let ?c = "content f" and ?b = "n div bs * bs" and ?r = "inline_new a t bs n adv"
  let ?A = "slice a ?b ?c" and ?T = "slice t (n mod bs) ?c"
  have n: "?b + n mod bs = n" by simp
  have A: "length ?A = ?b" using range by (simp add: slice_simps)
  have T: "length ?T = n mod bs" using range by (simp add: slice_simps)
  have r: "n_contigBlocksSize ?r = ?b" "n_contigBlocksAddress ?r = a" "n_tailBlockAddress ?r = t" "n_dataSize ?r = n"
    by (simp_all add: inline_new_def)
  consider (contig) "off + length out < ?b" | (tail) "?b \<le> off" | (both) "off < ?b" "?b \<le> off + length out"
    by linarith
  then show ?thesis
  proof cases
    case contig
    have "file_read (rd f) out (a + off) = (True, slice (a + off) (length out) ?c)"
      using contig range assms(1) by (intro file_read_complete) auto
    moreover have "sz_add a off = a + off" using contig range assms(2) by (simp add: wrap_simps)
    ultimately show ?thesis
      using contig read r A by (simp add: inline_read_def Let_def slice_slice)
  next
    case tail
    have "file_read (rd f) out (t + (off - ?b)) = (True, slice (t + (off - ?b)) (length out) ?c)"
      using tail range read n assms(1) by (intro file_read_complete) linarith+
    moreover have "sz_add t (off - ?b) = t + (off - ?b)" using tail range read n assms(2) by (intro sz_add_small) linarith
    moreover have "slice (off - ?b) (length out) ?T = slice (t + (off - ?b)) (length out) ?c"
      using tail read n by (intro slice_slice) linarith
    ultimately show ?thesis
      using tail read r A by (simp add: inline_read_def Let_def)
  next
    case both
    let ?k = "?b - off"
    have out: "length (take ?k out) = ?k" "length (drop ?k out) = off + length out - ?b" using both by auto
    have tail_fits: "0 + (off + length out - ?b) \<le> n mod bs" using both read n by linarith
    have tail_end: "t + (off + length out - ?b) \<le> length ?c" using both range read n by linarith
    have "file_read (rd f) (take ?k out) (a + off) = (True, slice (a + off) ?k ?c)"
      using file_read_complete [of f "a + off" "take ?k out"] both range assms(1) out(1) by auto
    moreover have "file_read (rd f) (drop ?k out) t = (True, slice t (off + length out - ?b) ?c)"
      by (rule file_read_complete [of f t "drop ?k out", unfolded out(2), OF assms(1,3) tail_end])
    moreover have "sz_add a off = a + off" using both range assms(2) by (simp add: wrap_simps)
    moreover have "slice off (length out) (?A @ ?T) = slice off ?k ?A @ slice 0 (off + length out - ?b) ?T"
    proof -
      have "slice off (?k + (off + length out - ?b)) (?A @ ?T) =
          slice off ?k (?A @ ?T) @ slice (off + ?k) (off + length out - ?b) (?A @ ?T)"
        by (rule slice_append)
      then show ?thesis using both A by simp
    qed
    moreover have "slice off ?k ?A = slice (a + off) ?k ?c" using both by (intro slice_slice) simp
    moreover have "slice 0 (off + length out - ?b) ?T = slice t (off + length out - ?b) ?c"
      using slice_slice [of 0 "off + length out - ?b" "n mod bs" t ?c] tail_fits by simp
    ultimately show ?thesis
      using both read r by (simp add: inline_read_def Let_def)
  qed
qed

end

end
