(* ===== verification/ErofsInode.thy ===== *)
theory ErofsInode
  imports PackageChecks ErofsData
begin

section \<open>EROFS inodes\<close>

text \<open>
  \<open>lib/erofs/ErofsInode.{h,cpp}\<close>: reading an inode structure of 32 or 64 bytes from the image, what
  of it is kept, and reading the data it stands for through the reader its format asks for.  An
  inode that could not be read keeps the defaults of the members, which is how the code says that
  it is not valid.
\<close>

datatype data_format = FlatPlain | CompressedFull | FlatInline | CompressedCompact | ChunkBased | InvalidFormat

datatype file_type = FT_unknown | FT_regular | FT_directory | FT_symlink | FT_block | FT_character | FT_fifo | FT_socket

datatype data_reader = PlainReader plain_reader | InlineReader inline_reader | CompressedReader compressed_reader

record inode =
  i_inodeNumber :: nat
  i_inodeFileOffset :: nat
  i_inodeReaderHints :: nat
  i_inodeHeaderSize :: nat
  i_dataFormat :: data_format
  i_type :: file_type
  i_size :: nat
  i_mode :: nat
  i_uid :: nat
  i_gid :: nat
  i_modificationTime :: "nat \<times> nat"
  i_rawBlockAddress :: nat
  i_compressedBlocks :: nat
  i_inodeReader :: "data_reader option"

definition blank_inode :: "erofs_superblock \<Rightarrow> nat \<Rightarrow> nat \<Rightarrow> inode" where
  "blank_inode sb n hints =
     \<lparr>i_inodeNumber = n, i_inodeFileOffset = inodeOffset sb n, i_inodeReaderHints = hints, i_inodeHeaderSize = 0,
      i_dataFormat = InvalidFormat, i_type = FT_unknown, i_size = 0, i_mode = 0, i_uid = 0, i_gid = 0,
      i_modificationTime = (0, 0), i_rawBlockAddress = 0, i_compressedBlocks = 0, i_inodeReader = None\<rparr>"

subsection \<open>The on-disk structures\<close>

record inode_compact =
  ic_format :: nat
  ic_xattrCount :: nat
  ic_mode :: nat
  ic_size :: nat
  ic_data :: nat
  ic_uid :: nat
  ic_gid :: nat

definition read_inode_compact :: "bytes \<Rightarrow> inode_compact" where
  "read_inode_compact d = \<lparr>ic_format = le16_at d 0, ic_xattrCount = le16_at d 2, ic_mode = le16_at d 4,
     ic_size = le32_at d 8, ic_data = le32_at d 16, ic_uid = le16_at d 24, ic_gid = le16_at d 26\<rparr>"

record inode_extended =
  ix_format :: nat
  ix_xattrCount :: nat
  ix_mode :: nat
  ix_size :: nat
  ix_data :: nat
  ix_uid :: nat
  ix_gid :: nat
  ix_mtimeSecs :: nat
  ix_mtimeNSecs :: nat

definition read_inode_extended :: "bytes \<Rightarrow> inode_extended" where
  "read_inode_extended d = \<lparr>ix_format = le16_at d 0, ix_xattrCount = le16_at d 2, ix_mode = le16_at d 4,
     ix_size = le64_at d 8, ix_data = le32_at d 16, ix_uid = le32_at d 24, ix_gid = le32_at d 28,
     ix_mtimeSecs = le64_at d 32, ix_mtimeNSecs = le32_at d 40\<rparr>"

subsection \<open>Processing an inode structure\<close>

definition processDataFormat :: "nat \<Rightarrow> inode \<Rightarrow> inode" where
  "processDataFormat inodeFormat i =
     (let k = inodeFormat div 2 mod 8 in
      i\<lparr>i_dataFormat :=
          (if k = 0 then FlatPlain else if k = 1 then CompressedFull else if k = 2 then FlatInline
           else if k = 3 then CompressedCompact else if k = 4 then ChunkBased else InvalidFormat)\<rparr>)"

abbreviation S_IFMT_bits :: "nat \<Rightarrow> nat" where "S_IFMT_bits mode \<equiv> mode div 4096 mod 16"

definition processMode :: "nat \<Rightarrow> inode \<Rightarrow> inode" where
  "processMode mode i =
     (let i = i\<lparr>i_mode := mode\<rparr> in
      if S_IFMT_bits mode = 4 then i\<lparr>i_type := FT_directory\<rparr>
      else if S_IFMT_bits mode = 8 then i\<lparr>i_type := FT_regular\<rparr>
      else if S_IFMT_bits mode = 10 then i\<lparr>i_type := FT_symlink\<rparr>
      else i)"

text \<open>The four bytes that mean a block address or a number of blocks, as the format says.\<close>

definition processData :: "erofs_superblock \<Rightarrow> nat \<Rightarrow> inode \<Rightarrow> inode" where
  "processData sb data i =
     (case i_dataFormat i of
        FlatPlain \<Rightarrow> i\<lparr>i_rawBlockAddress := (if data = INT32_MAX then SIZE_MAX else sz_mul data (m_blockSize sb))\<rparr>
      | FlatInline \<Rightarrow> i\<lparr>i_rawBlockAddress := (if data = INT32_MAX then SIZE_MAX else sz_mul data (m_blockSize sb))\<rparr>
      | CompressedFull \<Rightarrow> i\<lparr>i_compressedBlocks := data\<rparr>
      | CompressedCompact \<Rightarrow> i\<lparr>i_compressedBlocks := data\<rparr>
      | _ \<Rightarrow> i)"

definition processCompactInode :: "erofs_superblock \<Rightarrow> inode_compact \<Rightarrow> inode \<Rightarrow> inode" where
  "processCompactInode sb c i =
     (if ic_xattrCount c \<noteq> 0 then i
      else
        (let i = i\<lparr>i_inodeHeaderSize := 32, i_size := ic_size c\<rparr>;
             i = processMode (ic_mode c) (processDataFormat (ic_format c) i);
             i = processData sb (ic_data c) i in
         i\<lparr>i_uid := ic_uid c, i_gid := ic_gid c,
           i_modificationTime := (s_buildTimeSec (m_superBlock sb), s_buildTimeNSec (m_superBlock sb))\<rparr>))"

definition processExtendedInode :: "erofs_superblock \<Rightarrow> inode_extended \<Rightarrow> inode \<Rightarrow> inode" where
  "processExtendedInode sb x i =
     (if ix_xattrCount x \<noteq> 0 then i
      else if ix_size x \<ge> SIZE_MAX then i
      else
        (let i = i\<lparr>i_inodeHeaderSize := 64, i_size := ix_size x\<rparr>;
             i = processMode (ix_mode x) (processDataFormat (ix_format x) i);
             i = processData sb (ix_data x) i in
         i\<lparr>i_uid := ix_uid x, i_gid := ix_gid x, i_modificationTime := (ix_mtimeSecs x, ix_mtimeNSecs x)\<rparr>))"

text \<open>The constructor.\<close>

definition load_inode :: "image_read \<Rightarrow> erofs_superblock \<Rightarrow> nat \<Rightarrow> nat \<Rightarrow> inode" where
  "load_inode rd sb n hints =
     (let i = blank_inode sb n hints in
      case img_read rd 32 (i_inodeFileOffset i) of
        None \<Rightarrow> i
      | Some buf \<Rightarrow>
          (let compactInode = read_inode_compact buf in
           if even (ic_format compactInode) then processCompactInode sb compactInode i
           else case img_read rd 32 (sz_add (i_inodeFileOffset i) 32) of
             None \<Rightarrow> i
           | Some buf2 \<Rightarrow> processExtendedInode sb (read_inode_extended (buf @ buf2)) i))"

definition inode_valid :: "inode \<Rightarrow> bool" where
  "inode_valid i \<longleftrightarrow> i_type i \<noteq> FT_unknown"

definition inode_permissions :: "inode \<Rightarrow> perms" where
  "inode_permissions i =
     (let m = (word_of_nat (i_mode i) :: mode) in
      or_if (m AND S_IRUSR \<noteq> 0) owner_read
      (or_if (m AND S_IWUSR \<noteq> 0) owner_write
      (or_if (m AND S_IXUSR \<noteq> 0) owner_exec
      (or_if (m AND S_IRGRP \<noteq> 0) group_read
      (or_if (m AND S_IWGRP \<noteq> 0) group_write
      (or_if (m AND S_IXGRP \<noteq> 0) group_exec
      (or_if (m AND S_IROTH \<noteq> 0) others_read
      (or_if (m AND S_IWOTH \<noteq> 0) others_write
      (or_if (m AND S_IXOTH \<noteq> 0) others_exec 0)))))))))"

subsection \<open>Reading the data\<close>

text \<open>The reader for the format; the constructors of the compressed ones read the map of extents.\<close>

definition make_reader ::
  "image_read \<Rightarrow> nat \<Rightarrow> erofs_superblock \<Rightarrow> inode \<Rightarrow> (map_error option, data_reader) outcome" where
  "make_reader rd fileSize sb i =
     (let after = sz_add (i_inodeFileOffset i) (i_inodeHeaderSize i); hints = i_inodeReaderHints i in
      case i_dataFormat i of
        FlatInline \<Rightarrow> Done (InlineReader (inline_new (i_rawBlockAddress i) after (m_blockSize sb) (i_size i) hints))
      | FlatPlain \<Rightarrow> Done (PlainReader (plain_new (i_rawBlockAddress i) (m_blockSize sb) (i_size i) hints))
      | CompressedFull \<Rightarrow>
          (case createFull rd fileSize sb (i_compressedBlocks i) after (i_size i) hints of
             Done r \<Rightarrow> Done (CompressedReader r) | Fail e \<Rightarrow> Fail (Some e) | Undefined u \<Rightarrow> Undefined u)
      | CompressedCompact \<Rightarrow>
          (case createCompact rd fileSize sb (i_compressedBlocks i) after (i_size i) hints of
             Done r \<Rightarrow> Done (CompressedReader r) | Fail e \<Rightarrow> Fail (Some e) | Undefined u \<Rightarrow> Undefined u)
      | ChunkBased \<Rightarrow> Fail None
      | InvalidFormat \<Rightarrow> Fail None)"

fun reader_read :: "lz4 \<Rightarrow> image_read \<Rightarrow> data_reader \<Rightarrow> bytes \<Rightarrow> nat \<Rightarrow> data_reader read_state" where
  "reader_read lib rd (PlainReader r) out off = (case plain_read rd r out off of (ok, d) \<Rightarrow> Done (ok, d, PlainReader r))"
| "reader_read lib rd (InlineReader r) out off = (case inline_read rd r out off of (ok, d) \<Rightarrow> Done (ok, d, InlineReader r))"
| "reader_read lib rd (CompressedReader r) out off =
     (case compressed_read lib rd r out off of
        Done (ok, d, r) \<Rightarrow> Done (ok, d, CompressedReader r) | Fail e \<Rightarrow> Fail e | Undefined u \<Rightarrow> Undefined u)"

text \<open>
  \<open>ErofsInode::read\<close>: the number of bytes or -1, the destination buffer, and the inode with the
  reader it keeps.
\<close>

definition inode_read ::
  "lz4 \<Rightarrow> image_read \<Rightarrow> nat \<Rightarrow> erofs_superblock \<Rightarrow> inode \<Rightarrow> bytes \<Rightarrow> nat \<Rightarrow> (io_exception, int \<times> bytes \<times> inode) outcome" where
  "inode_read lib rd fileSize sb i out offset =
     (if offset \<ge> i_size i \<or> out = [] then Done (0, out, i)
      else
        (let n = min (length out) (i_size i - offset) in
         case (case i_inodeReader i of Some r \<Rightarrow> Done r | None \<Rightarrow> make_reader rd fileSize sb i) of
           Fail _ \<Rightarrow> Done (-1, out, i)
         | Undefined u \<Rightarrow> Undefined u
         | Done r \<Rightarrow>
             (case reader_read lib rd r (take n out) offset of
                Fail e \<Rightarrow> Fail e
              | Undefined u \<Rightarrow> Undefined u
              | Done (ok, d, r) \<Rightarrow>
                  Done ((if ok then int n else -1), d @ drop n out, i\<lparr>i_inodeReader := Some r\<rparr>))))"

end
