(* ===== verification/ErofsReader.thy ===== *)
theory ErofsReader
  imports ErofsInode
begin

section \<open>Walking an EROFS image\<close>

text \<open>
  \<open>lib/erofs/ErofsReader.{h,cpp}\<close>: the reader that walks the directory tree of an image breadth
  first and hands out its entries one by one.  The texts of error messages and the read-ahead hints
  to the kernel are left out; the hints that go with an entry are kept, because they decide whether
  the reader of a compressed file looks at its map of extents.
\<close>

subsection \<open>Names\<close>

abbreviation NAME_MAX :: nat where "NAME_MAX \<equiv> 255"
abbreviation EROFS_MAX_NAME_LEN :: nat where "EROFS_MAX_NAME_LEN \<equiv> 255"

definition validateFileName :: "string \<Rightarrow> bool" where
  "validateFileName fileName \<longleftrightarrow>
     \<not> (fileName = [] \<or> length fileName > NAME_MAX \<or> fileName = ''.'' \<or> fileName = ''..'') \<and>
     \<not> list_ex (\<lambda>ch. ch = CHR ''/'' \<or> ch = CHR 0x00) fileName"

subsection \<open>Directory blocks\<close>

record dir_entry =
  e_inode :: nat
  e_fileName :: string
  e_fileType :: file_type

abbreviation sizeof_dirent :: nat where "sizeof_dirent \<equiv> 12"

definition dirent_nid :: "bytes \<Rightarrow> nat \<Rightarrow> nat" where
  "dirent_nid d i = le64_at d (i * sizeof_dirent)"

definition dirent_nameOffset :: "bytes \<Rightarrow> nat \<Rightarrow> nat" where
  "dirent_nameOffset d i = le16_at d (i * sizeof_dirent + 8)"

definition dirent_fileType :: "bytes \<Rightarrow> nat \<Rightarrow> nat" where
  "dirent_fileType d i = u8_at d (i * sizeof_dirent + 10)"

definition convert_fileType :: "nat \<Rightarrow> file_type" where
  "convert_fileType t =
     (if t = 1 then FT_regular else if t = 2 then FT_directory else if t = 7 then FT_symlink
      else if t = 3 then FT_character else if t = 4 then FT_block else if t = 5 then FT_fifo
      else if t = 6 then FT_socket else FT_unknown)"

text \<open>
  \<open>strnlen\<close> on the part of the buffer from an offset: it stops at a zero byte or at the limit, and
  reads past the buffer when it meets neither.
\<close>

fun strnlen :: "bytes \<Rightarrow> nat \<Rightarrow> nat option" where
  "strnlen bs 0 = Some 0"
| "strnlen [] (Suc n) = None"
| "strnlen (b # bs) (Suc n) = (if b = 0 then Some 0 else map_option Suc (strnlen bs n))"

datatype block_error = BadFirstOffset | BadDirent nat | BadName nat | BadFileName string

text \<open>
  The length of the name of an entry.  \<open>data\<close> is the whole buffer of the reader, of which the
  directory block takes the first \<open>dataSize\<close> bytes.
\<close>

definition dirent_nameLen :: "bytes \<Rightarrow> nat \<Rightarrow> nat \<Rightarrow> nat \<Rightarrow> (block_error, nat) outcome" where
  "dirent_nameLen data dataSize nEntries i =
     (let nameOff = dirent_nameOffset data i in
      if i + 1 = nEntries then
        (case strnlen (drop nameOff data) (sz_sub dataSize nameOff) of
           None \<Rightarrow> Undefined OutOfBoundsRead | Some n \<Rightarrow> Done n)
      else Done (sz_sub (dirent_nameOffset data (i + 1)) nameOff))"

definition process_dirent :: "bytes \<Rightarrow> nat \<Rightarrow> nat \<Rightarrow> nat \<Rightarrow> dir_entry list \<Rightarrow> (block_error, dir_entry list) outcome" where
  "process_dirent data dataSize nEntries i entries =
     (if dirent_nid data i > UINT32_MAX \<or> dirent_fileType data i = 0 \<or> dirent_fileType data i \<ge> 8 then Fail (BadDirent i)
      else bind_outcome (dirent_nameLen data dataSize nEntries i) (\<lambda>nameLen.
        let nameOff = dirent_nameOffset data i in
        if nameLen = 0 \<or> nameLen > EROFS_MAX_NAME_LEN \<or> sz_add nameOff nameLen > dataSize then Fail (BadName i)
        else
          (let fileName = to_string (slice nameOff nameLen data) in
           if fileName = ''.'' \<or> fileName = ''..'' then Done entries
           else if \<not> validateFileName fileName then Fail (BadFileName fileName)
           else Done (entries @ [\<lparr>e_inode = dirent_nid data i, e_fileName = fileName,
             e_fileType = convert_fileType (dirent_fileType data i)\<rparr>]))))"

fun process_dirents ::
  "bytes \<Rightarrow> nat \<Rightarrow> nat \<Rightarrow> nat list \<Rightarrow> dir_entry list \<Rightarrow> (block_error, dir_entry list) outcome" where
  "process_dirents data dataSize nEntries [] entries = Done entries"
| "process_dirents data dataSize nEntries (i # is) entries =
     bind_outcome (process_dirent data dataSize nEntries i entries) (process_dirents data dataSize nEntries is)"

definition processDirectoryBlock :: "bytes \<Rightarrow> nat \<Rightarrow> dir_entry list \<Rightarrow> (block_error, dir_entry list) outcome" where
  "processDirectoryBlock data dataSize entries =
     (if dirent_nameOffset data 0 < sizeof_dirent \<or> dirent_nameOffset data 0 \<ge> dataSize then Fail BadFirstOffset
      else
        (let nEntries = dirent_nameOffset data 0 div sizeof_dirent in
         process_dirents data dataSize nEntries [0..<nEntries] entries))"

subsection \<open>Directories\<close>

datatype reader_error =
    FirstBlockUnreadable | BadSuperBlock superblock_error | RootUnreadable | EntryInvalid path string | DirectoryInvalid path
  | ReadThrows

record erofs_reader =
  m_image :: "erofs_superblock option"
  m_dirBlockBuffer :: bytes
  m_error :: "reader_error option"
  m_dirStack :: "(path \<times> nat) list"
  m_currentDir :: "dir_entry list"
  m_currentDirIndex :: nat
  m_adviceFlags :: nat

text \<open>What the code works on: the LZ4 library, the image file and its size.\<close>

record environment =
  env_lz4 :: lz4
  env_read :: image_read
  env_size :: nat

abbreviation "env_inode_read env \<equiv> inode_read (env_lz4 env) (env_read env) (env_size env)"

text \<open>
  The loop over the blocks of a directory: the result is the entries or nothing, with the buffer as
  it is left.  A read that fails with -1 is not noticed, as the code compares the result with 0; the
  block is then processed with what the buffer holds: the bytes of a refused block, where the image put them
  into the buffer before it checked them, and what was there before.
\<close>

type_synonym dir_result = "(reader_error, dir_entry list option \<times> bytes) outcome"

function read_dir_blocks ::
  "environment \<Rightarrow> erofs_superblock \<Rightarrow> inode \<Rightarrow> nat \<Rightarrow> bytes \<Rightarrow> dir_entry list \<Rightarrow> dir_result" where
  "read_dir_blocks env sb i offset buf results =
     (if offset \<ge> i_size i then Done (Some results, buf)
      else
        (let amount = min (m_blockSize sb) (i_size i - offset) in
         if amount < sizeof_dirent then Done (None, buf)
         else case env_inode_read env sb i (take amount buf) offset of
           Undefined u \<Rightarrow> Undefined u
         | Fail e \<Rightarrow> Fail ReadThrows
         | Done (ret, d, i') \<Rightarrow>
             (let buf = d @ drop amount buf in
              if ret = 0 then Done (None, buf)
              else case processDirectoryBlock buf amount results of
                Undefined u \<Rightarrow> Undefined u
              | Fail e \<Rightarrow> Done (None, buf)
              | Done results \<Rightarrow> read_dir_blocks env sb (i\<lparr>i_inodeReader := i_inodeReader i'\<rparr>) (offset + amount) buf results)))"
  by auto
termination
  by (relation "measure (\<lambda>(env, sb, i, offset, buf, results). i_size i - offset)") auto

declare read_dir_blocks.simps [simp del]

definition readDirectory :: "environment \<Rightarrow> erofs_superblock \<Rightarrow> nat \<Rightarrow> bytes \<Rightarrow> dir_result" where
  "readDirectory env sb dirInode buf =
     (let i = load_inode (env_read env) sb dirInode 0 in
      if i_type i \<noteq> FT_directory then Done (None, buf)
      else read_dir_blocks env sb i 0 buf [])"

subsection \<open>The walk\<close>

record erofs_entry =
  y_path :: path
  y_inode :: inode

definition entry_isValid :: "erofs_entry \<Rightarrow> bool" where
  "entry_isValid e \<longleftrightarrow> inode_valid (y_inode e)"

definition entry_size :: "erofs_entry \<Rightarrow> nat" where
  "entry_size e = (if i_type (y_inode e) = FT_directory then 0 else i_size (y_inode e))"

definition entry_read ::
  "environment \<Rightarrow> erofs_superblock \<Rightarrow> erofs_entry \<Rightarrow> bytes \<Rightarrow> nat \<Rightarrow> (io_exception, int \<times> bytes \<times> erofs_entry) outcome" where
  "entry_read env sb e out offset =
     (case env_inode_read env sb (y_inode e) out offset of
        Done (n, d, i) \<Rightarrow> Done (n, d, e\<lparr>y_inode := i\<rparr>) | Fail x \<Rightarrow> Fail x | Undefined u \<Rightarrow> Undefined u)"

abbreviation ReadDataSequentially :: nat where "ReadDataSequentially \<equiv> 1"
abbreviation ReadDataOnce :: nat where "ReadDataOnce \<equiv> 2"
abbreviation Advice_ReadAllOnce :: nat where "Advice_ReadAllOnce \<equiv> 1"

definition inode_hints :: "nat \<Rightarrow> dir_entry \<Rightarrow> nat" where
  "inode_hints advice e =
     (if (advice AND Advice_ReadAllOnce) = Advice_ReadAllOnce \<and> e_fileType e = FT_regular
      then ReadDataOnce OR ReadDataSequentially else 0)"

text \<open>The constructor.\<close>

definition reader_create :: "environment \<Rightarrow> (reader_error, erofs_reader) outcome" where
  "reader_create env =
     (let s = \<lparr>m_image = None, m_dirBlockBuffer = [], m_error = None, m_dirStack = [], m_currentDir = [],
               m_currentDirIndex = 0, m_adviceFlags = 0\<rparr> in
      case img_read (env_read env) 4096 0 of
        None \<Rightarrow> Done (s\<lparr>m_error := Some FirstBlockUnreadable\<rparr>)
      | Some buf \<Rightarrow>
          (case superblock_parse buf of
             Undefined u \<Rightarrow> Undefined u
           | Fail e \<Rightarrow> Done (s\<lparr>m_error := Some (BadSuperBlock e)\<rparr>)
           | Done sb \<Rightarrow>
               (if m_blockSize sb \<noteq> 4096 then Done s
                else case readDirectory env sb (rootInode sb) (replicate (m_blockSize sb) 0) of
                  Undefined u \<Rightarrow> Undefined u
                | Fail e \<Rightarrow> Fail e
                | Done (None, b) \<Rightarrow> Done (s\<lparr>m_error := Some RootUnreadable, m_dirBlockBuffer := b\<rparr>)
                | Done (Some entries, b) \<Rightarrow>
                    Done (s\<lparr>m_image := Some sb, m_dirBlockBuffer := b, m_currentDir := entries,
                           m_dirStack := (if entries = [] then [] else [(empty_path, rootInode sb)])\<rparr>))))"

text \<open>\<open>IErofsReader::create\<close>: a reader with an error is not handed out.\<close>

definition IErofsReader_create :: "environment \<Rightarrow> (reader_error, erofs_reader) outcome" where
  "IErofsReader_create env =
     bind_outcome (reader_create env) (\<lambda>s. case m_error s of None \<Rightarrow> Done s | Some e \<Rightarrow> Fail e)"

definition hasNext :: "erofs_reader \<Rightarrow> bool" where
  "hasNext s \<longleftrightarrow> m_error s = None \<and> m_dirStack s \<noteq> []"

definition atEnd :: "erofs_reader \<Rightarrow> bool" where
  "atEnd s \<longleftrightarrow> m_dirStack s = []"

definition hasError :: "erofs_reader \<Rightarrow> bool" where
  "hasError s \<longleftrightarrow> m_error s \<noteq> None"

definition setAdvice :: "nat \<Rightarrow> erofs_reader \<Rightarrow> erofs_reader" where
  "setAdvice flags s = s\<lparr>m_adviceFlags := flags\<rparr>"

text \<open>The loop that looks for the next directory with entries.  \<open>False\<close> says that a directory was bad.\<close>

fun next_directory :: "environment \<Rightarrow> erofs_superblock \<Rightarrow> (path \<times> nat) list \<Rightarrow> erofs_reader \<Rightarrow> (reader_error, bool \<times> erofs_reader) outcome" where
  "next_directory env sb [] s = Done (True, s\<lparr>m_dirStack := []\<rparr>)"
| "next_directory env sb (front # rest) s =
     (case readDirectory env sb (snd front) (m_dirBlockBuffer s) of
        Undefined u \<Rightarrow> Undefined u
      | Fail e \<Rightarrow> Fail e
      | Done (None, b) \<Rightarrow>
          Done (False, s\<lparr>m_dirStack := front # rest, m_dirBlockBuffer := b, m_error := Some (DirectoryInvalid (fst front))\<rparr>)
      | Done (Some entries, b) \<Rightarrow>
          (if entries = [] then next_directory env sb rest (s\<lparr>m_dirBlockBuffer := b\<rparr>)
           else Done (True, s\<lparr>m_dirStack := front # rest, m_dirBlockBuffer := b, m_currentDir := entries\<rparr>)))"

definition next_entry :: "environment \<Rightarrow> erofs_reader \<Rightarrow> (reader_error, erofs_entry option \<times> erofs_reader) outcome" where
  "next_entry env s =
     (if m_dirStack s = [] then Done (None, s)
      else if m_error s \<noteq> None then Done (None, s)
      else if m_currentDirIndex s \<ge> length (m_currentDir s) then Undefined OutOfBoundsRead
      else case m_image s of
        None \<Rightarrow> Fail ReadThrows
      | Some sb \<Rightarrow>
          (let e = m_currentDir s ! m_currentDirIndex s;
               (frontPath, _) = hd (m_dirStack s);
               currentPath = path_append frontPath (e_fileName e);
               s = s\<lparr>m_currentDirIndex := m_currentDirIndex s + 1,
                     m_dirStack := m_dirStack s @ (if e_fileType e = FT_directory then [(currentPath, e_inode e)] else [])\<rparr>;
               entry = \<lparr>y_path = currentPath,
                        y_inode = load_inode (env_read env) sb (e_inode e) (inode_hints (m_adviceFlags s) e)\<rparr> in
           if \<not> entry_isValid entry then
             Done (None, s\<lparr>m_error := Some (EntryInvalid frontPath (e_fileName e))\<rparr>)
           else if m_currentDirIndex s \<ge> length (m_currentDir s) then
             bind_outcome (next_directory env sb (tl (m_dirStack s)) (s\<lparr>m_currentDir := [], m_currentDirIndex := 0\<rparr>))
               (\<lambda>(ok, s). Done ((if ok then Some entry else None), s))
           else Done (Some entry, s)))"

end
