(* ===== verification/ErofsCompressed.thy ===== *)
theory ErofsCompressed
  imports ErofsData
begin

section \<open>Compressed data reads back\<close>

text \<open>
  What the compressed data reader of \<open>ErofsData\<close> promises: the bytes it delivers are those of the
  decompressed extents, whatever was read before, and a read that does not succeed reports failure
  without touching memory it does not own.
\<close>

subsection \<open>Where extents are stored\<close>

definition addrs_ok :: "extent_map \<Rightarrow> bool" where
  "addrs_ok m \<longleftrightarrow> em_blockSize m = 4096 \<and> (\<forall>e \<in> set (em_entries m). x_comprBlockAddr e < 2 ^ 44)"

lemma em_add_addrs:
  assumes "addrs_ok m" "a < U32_LIMIT" "em_add type off a m = Done m'"
  shows "addrs_ok m'"
proof -
  have slot: "addrs_ok u" if "next_slot off m = Done u" for u
    using that assms(1)
    by (cases "em_lastAddedIndex m < length (em_entries m)")
      (auto simp: next_slot_def addrs_ok_def Let_def list_update_beyond split: if_splits
        dest!: set_update_subset_insert [THEN subsetD])
  have "sz_mul a 4096 < 2 ^ 44" using assms(2) by (simp add: sz_mul_def)
  then show ?thesis
    using assms(1,3) slot
    by (auto simp: em_add_def addrs_ok_def Let_def split: if_splits dest!: set_update_subset_insert [THEN subsetD])
qed

lemma u32_add_less [simp]: "u32_add a b < U32_LIMIT"
  by (simp add: u32_add_def)

lemma add_heads_addrs:
  "addrs_ok m \<Longrightarrow> a < U32_LIMIT \<Longrightarrow> add_heads cs ci a es m = Done m' \<Longrightarrow> addrs_ok m'"
proof (induction es arbitrary: ci a m)
  case (Cons e es)
  from Cons.prems show ?case
    by (auto simp: Let_def split: if_splits
        dest: Cons.IH [OF Cons.prems(1,2)] Cons.IH [OF em_add_addrs [OF Cons.prems(1,2)] u32_add_less])
qed simp

definition pack_addrs :: "pack_reader \<Rightarrow> bool" where
  "pack_addrs proc \<longleftrightarrow> (\<forall>d ci cs m m'. proc d ci cs m = Done m' \<longrightarrow> addrs_ok m \<longrightarrow> addrs_ok m')"

lemma packs_addrs:
  "pack_addrs processCompact4BIndexes" "pack_addrs processCompact2BIndexes" "pack_addrs processSingleCompact4BIndex"
  by (auto simp: pack_addrs_def processCompact4BIndexes_def processCompact2BIndexes_def processSingleCompact4BIndex_def
      simp del: add_heads.simps intro: add_heads_addrs [OF _ u32_add_less])

lemma pack_loop_addrs:
  "pack_addrs proc \<Longrightarrow> pack_loop cond proc cs p sz n d ci m = Done (d', ci', n', m') \<Longrightarrow> addrs_ok m \<Longrightarrow> addrs_ok m'"
proof (induction cond proc cs p sz n d ci m rule: pack_loop.induct)
  case (1 cond proc cs p sz n d ci m)
  show ?case
  proof (cases "cond n \<and> \<not> (length d < sz \<or> sz = 0)")
    case True
    with "1.prems"(2) obtain u where u: "proc (take sz d) ci cs m = Done u"
      "pack_loop cond proc cs p sz (u32_sub n p) (drop sz d) (ci + p) u = Done (d', ci', n', m')"
      by (subst (asm) pack_loop.simps) auto
    have "addrs_ok u" using "1.prems"(1,3) u(1) unfolding pack_addrs_def by blast
    from "1.IH" [OF _ _ u(1) "1.prems"(1) u(2) this] True show ?thesis by blast
  qed (use "1.prems" in \<open>subst (asm) pack_loop.simps, auto split: if_splits\<close>)
qed

lemma process_indexes_addrs:
  assumes "process_indexes cs counts d m = Done m'" "addrs_ok m"
  shows "addrs_ok m'"
proof -
  obtain i t f where c: "counts = (i, t, f)" by (cases counts)
  from assms(1) obtain d1 c1 n1 m1 d2 c2 n2 m2 d3 c3 n3 m3 where
    l1: "pack_loop (\<lambda>n. n \<noteq> 0) processCompact4BIndexes cs 2 8 i d 0 m = Done (d1, c1, n1, m1)" and
    l2: "pack_loop (\<lambda>n. n \<noteq> 0) processCompact2BIndexes cs 16 32 t d1 c1 m1 = Done (d2, c2, n2, m2)" and
    l3: "pack_loop (\<lambda>n. n > 1) processCompact4BIndexes cs 2 8 f d2 c2 m2 = Done (d3, c3, n3, m3)" and
    l4: "(if n3 = 0 then Done m3 else if length d3 < 8 then Undefined OutOfBoundsRead
          else processSingleCompact4BIndex (take 8 d3) c3 cs m3) = Done m'"
    unfolding process_indexes_def c by auto
  have "addrs_ok m1" using pack_loop_addrs [OF packs_addrs(1) l1 assms(2)] by blast
  then have "addrs_ok m2" using pack_loop_addrs [OF packs_addrs(2) l2] by blast
  then have "addrs_ok m3" using pack_loop_addrs [OF packs_addrs(1) l3] by blast
  then show ?thesis using l4 packs_addrs(3) by (auto simp: pack_addrs_def split: if_splits)
qed

lemma compact_addrs:
  assumes "reader_ok rd" "fromCompactIndexes rd fileSize eoff cb bs us = Done m"
  shows "addrs_ok m \<and> us \<le> kMaxUncompressedSize"
proof -
  obtain k i t f d b where eq: "us \<le> kMaxUncompressedSize" "fromCompactIndexes rd fileSize eoff cb bs us =
      bind_outcome (process_indexes (2 ^ (12 + k)) (i, t, f) d (new_extent_map us cb 4096 0 0)) (check_filled cb)"
    using fromCompactIndexes_cases [OF assms(1), of fileSize eoff cb bs us]
    by (elim disjE exE conjE) (use assms(2) in simp, blast)
  moreover have "addrs_ok (new_extent_map us cb 4096 0 0)"
    by (auto simp: addrs_ok_def new_extent_map_def empty_extent_def)
  moreover have "bind_outcome (process_indexes (2 ^ (12 + k)) (i, t, f) d (new_extent_map us cb 4096 0 0)) (check_filled cb) = Done m"
    using eq(2) assms(2) by simp
  ultimately show ?thesis
    by (auto simp: check_filled_def split: if_splits dest: process_indexes_addrs)
qed

subsection \<open>What an extent decompresses to\<close>

text \<open>
  What is relied on of LZ4: there is a partial function from the compressed bytes and the size of the
  destination to its contents, a call returns that size exactly where the function is defined and then
  has filled the destination with its value, and no call changes the size of the destination.
\<close>

type_synonym lz4_meaning = "bool \<Rightarrow> bytes \<Rightarrow> nat \<Rightarrow> bytes option"

definition lz4_ok :: "lz4 \<Rightarrow> lz4_meaning \<Rightarrow> bool" where
  "lz4_ok lib dec \<longleftrightarrow>
     (\<forall>zp src out. length out < 2 ^ 31 \<longrightarrow>
        (case (if zp then LZ4_decompress_safe lib else LZ4_decompress_safe_partial lib) src out (int (length out)) of
           (ret, d) \<Rightarrow> length d = length out \<and>
             (case dec zp src (length out) of None \<Rightarrow> ret \<noteq> int (length out) | Some x \<Rightarrow> ret = int (length out) \<and> x = d)))"

definition lz4_strip :: "bool \<Rightarrow> bytes \<Rightarrow> bytes" where
  "lz4_strip zp block = (if zp then dropWhile (\<lambda>b. b = 0) block else block)"

definition lz4_extent :: "lz4_meaning \<Rightarrow> bool \<Rightarrow> nat \<Rightarrow> bytes \<Rightarrow> extent \<Rightarrow> bytes option" where
  "lz4_extent dec zp bs c e =
     (if x_comprBlockAddr e < length c \<and> x_comprBlockAddr e + bs \<le> length c
      then (let b = slice (x_comprBlockAddr e) bs c in
        if zp \<and> lz4_strip zp b = [] then None else dec zp (lz4_strip zp b) (x_uncomprSize e))
      else None)"

definition extent_bytes :: "lz4_meaning \<Rightarrow> bool \<Rightarrow> nat \<Rightarrow> bytes \<Rightarrow> extent \<Rightarrow> bytes" where
  "extent_bytes dec zp bs c e =
     (let n = x_uncomprSize e; d = slice (x_comprBlockAddr e) n c in
      case x_compression e of
        CNone \<Rightarrow> d @ replicate (n - length d) 0
      | CLz4 \<Rightarrow> (case lz4_extent dec zp bs c e of None \<Rightarrow> replicate n 0 | Some d \<Rightarrow> d)
      | _ \<Rightarrow> replicate n 0)"

definition extent_intact :: "lz4_meaning \<Rightarrow> bool \<Rightarrow> nat \<Rightarrow> bytes \<Rightarrow> extent \<Rightarrow> bool" where
  "extent_intact dec zp bs c e \<longleftrightarrow>
     (case x_compression e of
        CNone \<Rightarrow> x_comprBlockAddr e + x_uncomprSize e \<le> length c
      | CLz4 \<Rightarrow> lz4_extent dec zp bs c e \<noteq> None
      | _ \<Rightarrow> False)"

lemma dec_length: "lz4_ok lib dec \<Longrightarrow> n < 2 ^ 31 \<Longrightarrow> dec zp src n = Some d \<Longrightarrow> length d = n"
  unfolding lz4_ok_def
  by (elim allE [of _ zp] allE [of _ src] allE [of _ "replicate n 0"]) (auto split: prod.splits)

lemma length_extent_bytes:
  assumes "lz4_ok lib dec" "x_uncomprSize e < 2 ^ 31"
  shows "length (extent_bytes dec zp bs c e) = x_uncomprSize e"
  using dec_length [OF assms]
  by (auto simp: extent_bytes_def lz4_extent_def Let_def slice_def split: compression.splits option.splits if_splits)

lemma decompressLz4_ok:
  assumes "lz4_ok lib dec" "length out < 2 ^ 31"
  shows "\<exists>ok d. decompressLz4 lib zp block out = (ok, d) \<and> length d = length out \<and>
    (ok \<longrightarrow> \<not> (zp \<and> lz4_strip zp block = []) \<and> dec zp (lz4_strip zp block) (length out) = Some d) \<and>
    (\<not> ok \<longrightarrow> (zp \<and> lz4_strip zp block = []) \<or> dec zp (lz4_strip zp block) (length out) = None)"
proof -
  let ?margin = "if zp then length (takeWhile (\<lambda>b. b = 0) block) else 0"
  let ?f = "if zp then LZ4_decompress_safe lib else LZ4_decompress_safe_partial lib"
  have strip: "drop ?margin block = lz4_strip zp block"
    by (simp add: lz4_strip_def dropWhile_eq_drop)
  have cast: "int_cast (length out) = int (length out)" using assms(2) by (simp add: int_cast_def)
  have empty: "(zp \<and> ?margin \<ge> length block) = (zp \<and> lz4_strip zp block = [])"
    using strip by (auto simp: lz4_strip_def dropWhile_eq_drop)
  obtain ret d where r: "?f (lz4_strip zp block) out (int (length out)) = (ret, d)" by (cases "?f (lz4_strip zp block) out (int (length out))")
  have l: "length d = length out \<and> (case dec zp (lz4_strip zp block) (length out) of
      None \<Rightarrow> ret \<noteq> int (length out) | Some x \<Rightarrow> ret = int (length out) \<and> x = d)"
    using assms r unfolding lz4_ok_def
    by (elim allE [of _ zp] allE [of _ "lz4_strip zp block"] allE [of _ out]) simp
  show ?thesis
  proof (cases "zp \<and> lz4_strip zp block = []")
    case True
    then show ?thesis using empty by (auto simp: decompressLz4_def Let_def)
  next
    case False
    then have "decompressLz4 lib zp block out = (ret = int (length out), d)"
      using empty r by (simp only: decompressLz4_def Let_def strip cast empty if_False prod.case)
    then show ?thesis using l False by (auto split: option.splits)
  qed
qed

subsection \<open>The state of a reader\<close>

text \<open>
  The bounce buffer holds the data of the extent whose block address is noted.  Blocks are
  \<open>unshared\<close> when two compressed extents at one address have the same size; the reader looks its
  buffer up by the address alone.
\<close>

definition unshared :: "extent_map \<Rightarrow> bool" where
  "unshared m \<longleftrightarrow>
     (\<forall>e \<in> set (em_entries m). \<forall>e' \<in> set (em_entries m).
        x_compression e = CLz4 \<and> x_compression e' = CLz4 \<and> x_comprBlockAddr e = x_comprBlockAddr e' \<longrightarrow>
          x_uncomprSize e = x_uncomprSize e')"

definition buffer_ok :: "lz4_meaning \<Rightarrow> bytes \<Rightarrow> compressed_reader \<Rightarrow> bool" where
  "buffer_ok dec c r \<longleftrightarrow>
     z_lastDecompressedBlockAddr r = SIZE_MAX \<or>
     (\<exists>e \<in> set (em_entries (z_extents r)). x_compression e = CLz4 \<and>
        x_comprBlockAddr e = z_lastDecompressedBlockAddr r \<and> x_uncomprSize e \<le> length (z_decompressedBlock r) \<and>
        lz4_extent dec (z_haveLz4ZeroPadding r) (z_blockSize r) c e =
          Some (take (x_uncomprSize e) (z_decompressedBlock r)))"

definition extents_ok :: "compressed_reader \<Rightarrow> bool" where
  "extents_ok r \<longleftrightarrow> unshared (z_extents r) \<and>
     (\<forall>e \<in> set (em_entries (z_extents r)). 0 < x_uncomprSize e \<and> x_uncomprSize e < 2 ^ 31 \<and> x_comprBlockAddr e < 2 ^ 44)"

definition same_reader :: "compressed_reader \<Rightarrow> compressed_reader \<Rightarrow> bool" where
  "same_reader r r' \<longleftrightarrow>
     z_extents r' = z_extents r \<and> z_dataSize r' = z_dataSize r \<and> z_blockSize r' = z_blockSize r \<and>
     z_haveLz4ZeroPadding r' = z_haveLz4ZeroPadding r"

lemma same_reader_refl [simp]: "same_reader r r"
  by (simp add: same_reader_def)

lemma same_reader_trans: "same_reader r r' \<Longrightarrow> same_reader r' r'' \<Longrightarrow> same_reader r r''"
  by (simp add: same_reader_def)

lemma extents_ok_same: "same_reader r r' \<Longrightarrow> extents_ok r \<Longrightarrow> extents_ok r'"
  by (simp add: same_reader_def extents_ok_def)

abbreviation "reader_bytes dec c r \<equiv> extent_bytes dec (z_haveLz4ZeroPadding r) (z_blockSize r) c"
abbreviation "reader_intact dec c r \<equiv> extent_intact dec (z_haveLz4ZeroPadding r) (z_blockSize r) c"

lemma slice_padded:
  "off + n \<le> length xs \<Longrightarrow> slice off n (xs @ ys) = slice off n xs"
  by simp

lemma slice_take: "off + n \<le> k \<Longrightarrow> slice off n (take k xs) = slice off n xs"
  by (simp add: slice_def drop_take min_def)

definition answers :: "image_read \<Rightarrow> bytes \<Rightarrow> bool" where
  "answers rd c \<longleftrightarrow> (\<forall>n off. off < length c \<longrightarrow> off + n \<le> length c \<longrightarrow> img_read rd n off \<noteq> None)"

lemma answers_Some: "answers rd c \<Longrightarrow> off < length c \<Longrightarrow> off + n \<le> length c \<Longrightarrow> \<exists>d. img_read rd n off = Some d"
  by (auto simp: answers_def)

text \<open>What every read from a reader promises; \<open>whole\<close> says that the image answers every read inside it.\<close>

definition reads_ok ::
  "bool \<Rightarrow> lz4_meaning \<Rightarrow> bytes \<Rightarrow> compressed_reader \<Rightarrow> bytes \<Rightarrow> bytes \<Rightarrow> bool \<Rightarrow> compressed_reader read_state \<Rightarrow> bool" where
  "reads_ok whole dec c r out expected intact res \<longleftrightarrow>
     (\<exists>ok d r'. res = Done (ok, d, r') \<and> same_reader r r' \<and> buffer_ok dec c r' \<and> length d = length out \<and>
        (ok \<longrightarrow> d = expected) \<and> (whole \<and> intact \<longrightarrow> ok))"

lemma reads_ok_failed:
  "buffer_ok dec c r \<Longrightarrow> \<not> (whole \<and> intact) \<Longrightarrow> reads_ok whole dec c r out ex intact (Done (False, out, r))"
  by (auto simp: reads_ok_def)

lemma reads_ok_intact:
  "reads_ok whole dec c r out ex intact res \<Longrightarrow> (intact' \<longrightarrow> intact) \<Longrightarrow> reads_ok whole dec c r out ex intact' res"
  unfolding reads_ok_def by blast

context sound_image
begin

lemma readLz4Compressed_ok:
  assumes "opened f" "lz4_ok lib dec" "buffer_ok dec (content f) r" "extents_ok r"
    and e: "e \<in> set (em_entries (z_extents r))" "x_compression e = CLz4"
    and range: "co + length out \<le> x_uncomprSize e"
    and whole: "whole \<longrightarrow> answers (rd f) (content f)"
  shows "reads_ok whole dec (content f) r out (slice co (length out) (reader_bytes dec (content f) r e))
    (reader_intact dec (content f) r e) (readLz4Compressed lib (rd f) r e out co)"
proof -
  let ?c = "content f" and ?zp = "z_haveLz4ZeroPadding r" and ?bs = "z_blockSize r"
  let ?us = "x_uncomprSize e" and ?addr = "x_comprBlockAddr e"
  have us: "0 < ?us" "?us < 2 ^ 31" "?addr < 2 ^ 44" using assms(4) e(1) by (auto simp: extents_ok_def)
  have bytes: "reader_bytes dec ?c r e = d" if "lz4_extent dec ?zp ?bs ?c e = Some d" for d
    using that e(2) by (simp add: extent_bytes_def Let_def)
  have intact: "reader_intact dec ?c r e \<longleftrightarrow> lz4_extent dec ?zp ?bs ?c e \<noteq> None"
    using e(2) by (simp add: extent_intact_def)
  show ?thesis
  proof (cases "z_lastDecompressedBlockAddr r = ?addr")
    case True
    then have "z_lastDecompressedBlockAddr r \<noteq> SIZE_MAX" using us(3) by auto
    with assms(3) obtain e' where e': "e' \<in> set (em_entries (z_extents r))" "x_compression e' = CLz4"
        "x_comprBlockAddr e' = ?addr" "x_uncomprSize e' \<le> length (z_decompressedBlock r)"
        "lz4_extent dec ?zp ?bs ?c e' = Some (take (x_uncomprSize e') (z_decompressedBlock r))"
      using True by (auto simp: buffer_ok_def)
    have same: "x_uncomprSize e' = ?us"
      using assms(4) e e' unfolding extents_ok_def unshared_def by metis
    have hit: "lz4_extent dec ?zp ?bs ?c e = Some (take ?us (z_decompressedBlock r))"
      using e'(5) by (simp only: lz4_extent_def e'(3) same)
    have "readLz4Compressed lib (rd f) r e out co = Done (True, slice co (length out) (z_decompressedBlock r), r)"
      using True range e'(4) same by (simp add: readLz4Compressed_def)
    moreover have "length (slice co (length out) (z_decompressedBlock r)) = length out"
      using range e'(4) same by (simp add: slice_simps)
    ultimately show ?thesis
      using range assms(3) by (auto simp: reads_ok_def bytes [OF hit] slice_take)
  next
    case miss: False
    show ?thesis
    proof (cases "img_read (rd f) ?bs ?addr")
      case None
      then have "whole \<Longrightarrow> lz4_extent dec ?zp ?bs ?c e = None"
        using whole answers_Some [of "rd f" ?c ?addr ?bs] by (auto simp: lz4_extent_def)
      moreover have "readLz4Compressed lib (rd f) r e out co = Done (False, out, r)"
        using None miss by (simp add: readLz4Compressed_def)
      ultimately show ?thesis using reads_ok_failed [OF assms(3)] intact by metis
    next
      case (Some block)
      have block: "block = slice ?addr ?bs ?c" "?addr < length ?c" "?addr + ?bs \<le> length ?c"
        using rd_sound [OF assms(1) Some] rd_inside [OF assms(1) Some] by auto
      have lz: "lz4_extent dec ?zp ?bs ?c e =
          (if ?zp \<and> lz4_strip ?zp block = [] then None else dec ?zp (lz4_strip ?zp block) ?us)"
        using block(2,3) by (simp only: lz4_extent_def Let_def block(1) if_True simp_thms)
      show ?thesis
      proof (cases "co = 0 \<and> ?us = length out")
        case True
        obtain ok d where d: "decompressLz4 lib ?zp block out = (ok, d)" "length d = length out"
            "ok \<longrightarrow> \<not> (?zp \<and> lz4_strip ?zp block = []) \<and> dec ?zp (lz4_strip ?zp block) ?us = Some d"
            "\<not> ok \<longrightarrow> (?zp \<and> lz4_strip ?zp block = []) \<or> dec ?zp (lz4_strip ?zp block) ?us = None"
          using decompressLz4_ok [OF assms(2), of out ?zp block] us True by auto
        have "readLz4Compressed lib (rd f) r e out co = Done (ok, d, r)"
          using miss Some True d(1) by (simp add: readLz4Compressed_def)
        moreover have "lz4_extent dec ?zp ?bs ?c e = (if ok then Some d else None)"
          using d(3,4) lz by auto
        ultimately show ?thesis
          using d(2) assms(3) True bytes by (cases ok) (auto simp: reads_ok_def intact slice_def)
      next
        case False
        define buf where "buf = z_decompressedBlock r @ replicate (?us - length (z_decompressedBlock r)) 0"
        have buf: "length (take ?us buf) = ?us" "?us \<le> length buf" by (simp_all add: buf_def)
        obtain ok d where d: "decompressLz4 lib ?zp block (take ?us buf) = (ok, d)" "length d = ?us"
            "ok \<longrightarrow> \<not> (?zp \<and> lz4_strip ?zp block = []) \<and> dec ?zp (lz4_strip ?zp block) ?us = Some d"
            "\<not> ok \<longrightarrow> (?zp \<and> lz4_strip ?zp block = []) \<or> dec ?zp (lz4_strip ?zp block) ?us = None"
          using decompressLz4_ok [OF assms(2), of "take ?us buf" ?zp block] us buf by auto
        define r1 where "r1 = r\<lparr>z_lastDecompressedBlockAddr := SIZE_MAX, z_decompressedBlock := d @ drop ?us buf\<rparr>"
        have lz': "lz4_extent dec ?zp ?bs ?c e = (if ok then Some d else None)"
          using d(3,4) lz by auto
        have "readLz4Compressed lib (rd f) r e out co =
            (if \<not> ok then Done (False, out, r1)
             else Done (True, slice co (length out) (z_decompressedBlock r1), r1\<lparr>z_lastDecompressedBlockAddr := ?addr\<rparr>))"
          using miss Some False d(1,2) us range
          by (simp add: readLz4Compressed_def Let_def buf_def [symmetric] r1_def [symmetric]) (auto simp: r1_def)
        moreover have "same_reader r r1" "same_reader r (r1\<lparr>z_lastDecompressedBlockAddr := ?addr\<rparr>)" "buffer_ok dec ?c r1"
          by (simp_all add: same_reader_def r1_def buffer_ok_def)
        moreover have "buffer_ok dec ?c (r1\<lparr>z_lastDecompressedBlockAddr := ?addr\<rparr>)" if ok
          using that lz' e d(2) by (auto simp: buffer_ok_def r1_def)
        moreover have "slice co (length out) (z_decompressedBlock r1) = slice co (length out) d"
          using range d(2) by (simp add: r1_def)
        ultimately show ?thesis
          using lz' range d(2) bytes [of d] by (cases ok) (auto simp: reads_ok_def intact slice_simps)
      qed
    qed
  qed
qed

end

context sound_image
begin

lemma read_extent_ok:
  assumes "opened f" "lz4_ok lib dec" "buffer_ok dec (content f) r" "extents_ok r" "length (content f) < 2 ^ 63"
    and e: "e \<in> set (em_entries (z_extents r))"
    and range: "co + length out \<le> x_uncomprSize e" "out \<noteq> []"
    and whole: "whole \<longrightarrow> answers (rd f) (content f)"
  shows "reads_ok whole dec (content f) r out (slice co (length out) (reader_bytes dec (content f) r e))
    (reader_intact dec (content f) r e) (read_extent lib (rd f) r e out co)"
proof (cases "x_compression e")
  case CLz4
  then show ?thesis
    using readLz4Compressed_ok [OF assms(1-4) e _ range(1) whole] by (simp add: read_extent_def)
next
  case CNone
  let ?c = "content f" and ?us = "x_uncomprSize e" and ?addr = "x_comprBlockAddr e"
  have us: "?us < 2 ^ 31" "?addr < 2 ^ 44" using assms(4) e by (auto simp: extents_ok_def)
  then have wrap: "sz_add ?addr co = ?addr + co" using range by (intro sz_add_small) simp
  obtain ok d where r: "file_read (rd f) out (?addr + co) = (ok, d)" by (cases "file_read (rd f) out (?addr + co)")
  have d: "length d = length out" "ok \<Longrightarrow> d = slice (?addr + co) (length out) ?c" "ok \<Longrightarrow> ?addr + co + length out \<le> length ?c"
    using file_read_sound [OF assms(1) r] by auto
  have "slice co (length out) (reader_bytes dec ?c r e) = d" if ok
  proof -
    have "co + length out \<le> length (slice ?addr ?us ?c)" using d(3) [OF that] range by (auto simp: slice_def)
    then show ?thesis
      using CNone range d(2) [OF that] by (simp add: extent_bytes_def Let_def slice_slice)
  qed
  moreover have "ok" if "whole" "reader_intact dec ?c r e"
    using whole that CNone range r answers_Some [of "rd f" ?c "?addr + co" "length out"]
    by (auto simp: extent_intact_def file_read_def simp flip: length_greater_0_conv)
  ultimately show ?thesis
    using CNone assms(3) d(1) by (auto simp: reads_ok_def read_extent_def readUncompressed_def wrap r)
qed (use assms(3) in \<open>auto simp: reads_ok_def read_extent_def extent_intact_def\<close>)

lemma read_extents_ok:
  assumes "opened f" "lz4_ok lib dec" "buffer_ok dec (content f) r" "extents_ok r" "length (content f) < 2 ^ 63"
    and es: "set es \<subseteq> set (em_entries (z_extents r))" "es \<noteq> [] \<Longrightarrow> co < x_uncomprSize (hd es)"
    and range: "co + length out \<le> sum_list (map x_uncomprSize es)"
    and whole: "whole \<longrightarrow> answers (rd f) (content f)"
  shows "reads_ok whole dec (content f) r out (slice co (length out) (concat (map (reader_bytes dec (content f) r) es)))
    (\<forall>e \<in> set es. reader_intact dec (content f) r e) (read_extents lib (rd f) es co out r)"
  using assms(3,4) es range
proof (induction es arbitrary: co out r)
  case Nil
  then show ?case by (auto simp: reads_ok_def)
next
  case (Cons e es)
  let ?c = "content f" and ?us = "x_uncomprSize e"
  show ?case
  proof (cases "out = []")
    case True
    then show ?thesis using Cons.prems(1) by (auto simp: reads_ok_def)
  next
    case False
    define n where "n = min (?us - co) (length out)"
    have n: "0 < n" "n \<le> length out" "co + n \<le> ?us" "sz_sub ?us co = ?us - co"
      using Cons.prems(4) False by (auto simp: n_def wrap_simps)
    have e: "e \<in> set (em_entries (z_extents r))" using Cons.prems(3) by simp
    have len: "length (reader_bytes dec ?c r e) = ?us"
      using length_extent_bytes [OF assms(2)] Cons.prems(2) e by (auto simp: extents_ok_def)
    from read_extent_ok [OF assms(1,2) Cons.prems(1,2) assms(5) e _ _ whole, of co "take n out"] n False
    obtain ok d r1 where r1: "read_extent lib (rd f) r e (take n out) co = Done (ok, d, r1)" "same_reader r r1"
        "buffer_ok dec ?c r1" "length d = n" "ok \<longrightarrow> d = slice co n (reader_bytes dec ?c r e)"
        "whole \<and> reader_intact dec ?c r e \<longrightarrow> ok"
      by (auto simp: reads_ok_def)
    have step: "read_extents lib (rd f) (e # es) co out r =
        (if \<not> ok then Done (False, d @ drop n out, r1)
         else bind_outcome (read_extents lib (rd f) es 0 (drop n out) r1) (\<lambda>(ok, d', r). Done (ok, d @ d', r)))"
      using False r1(1) n by (simp add: n_def)
    show ?thesis
    proof (cases ok)
      case False
      then show ?thesis using step r1 n by (auto simp: reads_ok_def)
    next
      case True
      have rest: "0 + length (drop n out) \<le> sum_list (map x_uncomprSize es)"
        using Cons.prems(5) by (auto simp: n_def)
      have "es \<noteq> [] \<Longrightarrow> 0 < x_uncomprSize (hd es)"
        using Cons.prems(2,3) by (cases es) (auto simp: extents_ok_def)
      moreover have "set es \<subseteq> set (em_entries (z_extents r1))"
        using Cons.prems(3) r1(2) by (auto simp: same_reader_def)
      ultimately obtain ok' d' r2 where r2: "read_extents lib (rd f) es 0 (drop n out) r1 = Done (ok', d', r2)"
          "same_reader r1 r2" "buffer_ok dec ?c r2" "length d' = length out - n"
          "ok' \<longrightarrow> d' = slice 0 (length out - n) (concat (map (reader_bytes dec ?c r) es))"
          "whole \<and> (\<forall>e \<in> set es. reader_intact dec ?c r e) \<longrightarrow> ok'"
        using Cons.IH [OF r1(3) extents_ok_same [OF r1(2) Cons.prems(2)] _ _ rest] r1(2)
        by (auto simp: reads_ok_def same_reader_def)
      have "slice co (length out) (concat (map (reader_bytes dec ?c r) (e # es))) =
          slice co n (reader_bytes dec ?c r e) @ slice 0 (length out - n) (concat (map (reader_bytes dec ?c r) es))"
      proof -
        have "slice co (n + (length out - n)) (reader_bytes dec ?c r e @ concat (map (reader_bytes dec ?c r) es)) =
            slice co n (reader_bytes dec ?c r e @ concat (map (reader_bytes dec ?c r) es)) @
            slice (co + n) (length out - n) (reader_bytes dec ?c r e @ concat (map (reader_bytes dec ?c r) es))"
          by (rule slice_append)
        moreover have "slice (co + n) (length out - n) (reader_bytes dec ?c r e @ concat (map (reader_bytes dec ?c r) es)) =
            slice 0 (length out - n) (concat (map (reader_bytes dec ?c r) es))"
          using n(3) len by (cases "n = length out") (auto simp: n_def min_def split: if_splits)
        ultimately show ?thesis using n len by simp
      qed
      then show ?thesis
        using step True r1 r2 n same_reader_trans [OF r1(2) r2(2)] by (auto simp: reads_ok_def)
    qed
  qed
qed

text \<open>The whole file, extent after extent.\<close>

lemma compressed_read_ok:
  assumes "opened f" "lz4_ok lib dec" "buffer_ok dec (content f) r" "extents_ok r" "length (content f) < 2 ^ 63"
    and m: "covers (z_extents r)" "em_entries (z_extents r) \<noteq> []" "x_off (z_extents r) 0 = 0"
      "em_uncomprSize (z_extents r) = z_dataSize r" "z_dataSize r < SIZE_LIMIT"
    and range: "off < z_dataSize r" "off + length out \<le> z_dataSize r"
    and whole: "whole \<longrightarrow> answers (rd f) (content f)"
  shows "reads_ok whole dec (content f) r out
    (slice off (length out) (concat (map (reader_bytes dec (content f) r) (em_entries (z_extents r)))))
    (\<forall>e \<in> set (em_entries (z_extents r)). reader_intact dec (content f) r e) (compressed_read lib (rd f) r out off)"
proof -
  let ?m = "z_extents r" and ?c = "content f"
  let ?es = "em_entries ?m" and ?B = "reader_bytes dec ?c r"
  have sizes: "length (?B e) = x_uncomprSize e" if "e \<in> set ?es" for e
    using length_extent_bytes [OF assms(2)] assms(4) that by (auto simp: extents_ok_def)
  have starts: "j \<le> length ?es \<Longrightarrow> sum_list (map x_uncomprSize (take j ?es)) =
      (if j = length ?es then em_uncomprSize ?m else x_off ?m j)" for j
  proof (induction j)
    case (Suc j)
    then have "take (Suc j) ?es = take j ?es @ [?es ! j]" by (simp add: take_Suc_conv_app_nth)
    then show ?case using Suc m(1) by (auto simp: covers_def)
  qed (use m in auto)
  obtain i where i: "i < length ?es" "em_find ?m off = Done i" "x_off ?m i \<le> off" "off < x_off ?m i + x_sz ?m i"
    using em_find_covers [OF m(1,2), of off] m(3,4,5) range by auto
  have len: "sum_list (map x_uncomprSize (take i ?es)) = x_off ?m i" using starts [of i] i by simp
  have blen: "length (concat (map ?B xs)) = sum_list (map x_uncomprSize xs)" if "set xs \<subseteq> set ?es" for xs
    using that sizes by (induction xs) auto
  have prefix: "length (concat (map ?B (take i ?es))) = x_off ?m i"
    using blen [of "take i ?es"] len set_take_subset [of i ?es] by simp
  have total: "sum_list (map x_uncomprSize (take i ?es)) + sum_list (map x_uncomprSize (drop i ?es)) = z_dataSize r"
  proof -
    have "sum_list (map x_uncomprSize ?es) = z_dataSize r" using starts [of "length ?es"] m(4) by simp
    then show ?thesis by (metis append_take_drop_id map_append sum_list_append)
  qed
  have all: "concat (map ?B ?es) = concat (map ?B (take i ?es)) @ concat (map ?B (drop i ?es))"
    by (metis append_take_drop_id concat_append map_append)
  have res: "compressed_read lib (rd f) r out off = read_extents lib (rd f) (drop i ?es) (off - x_off ?m i) out r"
    using range i by (auto simp: compressed_read_def Let_def wrap_simps)
  have hd: "hd (drop i ?es) = ?es ! i" using i(1) by (rule hd_drop_conv_nth)
  have rd': "reads_ok whole dec ?c r out (slice (off - x_off ?m i) (length out) (concat (map ?B (drop i ?es))))
      (\<forall>e \<in> set (drop i ?es). reader_intact dec ?c r e) (compressed_read lib (rd f) r out off)"
    unfolding res
  proof (rule read_extents_ok [OF assms(1-5) _ _ _ whole])
    show "set (drop i ?es) \<subseteq> set ?es" by (rule set_drop_subset)
    show "off - x_off ?m i < x_uncomprSize (hd (drop i ?es))" unfolding hd using i(3,4) by linarith
    show "off - x_off ?m i + length out \<le> sum_list (map x_uncomprSize (drop i ?es))"
      using total len range i by linarith
  qed
  have "slice off (length out) (concat (map ?B ?es)) = slice (off - x_off ?m i) (length out) (concat (map ?B (drop i ?es)))"
    unfolding all using prefix i(3) by simp
  then show ?thesis using reads_ok_intact [OF rd'] set_drop_subset [of i ?es] by (simp add: subset_iff)
qed

end

subsection \<open>Files with compacted indexes\<close>

text \<open>A sequence of reads, each into a buffer of its own.\<close>

fun compressed_reads :: "lz4 \<Rightarrow> image_read \<Rightarrow> compressed_reader \<Rightarrow> (bytes \<times> nat) list \<Rightarrow> compressed_reader option" where
  "compressed_reads lib rd r [] = Some r"
| "compressed_reads lib rd r ((out, off) # rs) =
     (case compressed_read lib rd r out off of
        Done (_, _, r) \<Rightarrow> compressed_reads lib rd r rs
      | _ \<Rightarrow> None)"

definition inode_content :: "lz4_meaning \<Rightarrow> bytes \<Rightarrow> compressed_reader \<Rightarrow> bytes" where
  "inode_content dec c r = concat (map (reader_bytes dec c r) (em_entries (z_extents r)))"

lemma createCompact_ok:
  assumes "image_sound rd c" "createCompact rd fileSize sb cb eoff n adv = Done r" "0 < cb" "fileSize < 2 ^ 63"
    "unshared (z_extents r)"
  shows "covers (z_extents r)" "em_entries (z_extents r) \<noteq> []" "em_uncomprSize (z_extents r) = z_dataSize r"
    "z_dataSize r = n" "n < 2 ^ 30" "extents_ok r" "buffer_ok dec c' r"
proof -
  have rd: "reader_ok (img_read rd)" using assms(1) by (auto simp: reader_ok_def dest: image_soundD)
  from assms(2) obtain m where m: "fromCompactIndexes (img_read rd) fileSize eoff cb (m_blockSize sb) n = Done m"
    "compressed_new sb m n adv = Done r" by (auto simp: createCompact_def)
  have r: "z_extents r = m" "z_dataSize r = n" "z_lastDecompressedBlockAddr r = SIZE_MAX"
    using m(2) by (auto simp: compressed_new_def)
  have c: "covers m" "length (em_entries m) = cb" "em_uncomprSize m = n"
    using compact_map_covers_aux [OF rd m(1) assms(3,4)] by auto
  have a: "addrs_ok m" "n \<le> kMaxUncompressedSize" using compact_addrs [OF rd m(1)] by auto
  show n: "n < 2 ^ 30" using a(2) by (simp add: kMaxUncompressedSize_def)
  have "0 < x_uncomprSize e \<and> x_uncomprSize e < 2 ^ 31" if "e \<in> set (em_entries m)" for e
  proof -
    from that obtain i where i: "i < length (em_entries m)" "e = em_entries m ! i" by (auto simp: in_set_conv_nth)
    then show ?thesis using covers_end [OF c(1) i(1)] c(3) n by simp
  qed
  then show "extents_ok r" using assms(5) a(1) r by (auto simp: extents_ok_def addrs_ok_def)
  show "covers (z_extents r)" "em_entries (z_extents r) \<noteq> []" "em_uncomprSize (z_extents r) = z_dataSize r"
    "z_dataSize r = n" "buffer_ok dec c' r"
    using c r assms(3) by (auto simp: buffer_ok_def)
qed

lemma compressed_read_outside:
  "\<not> (off < z_dataSize r \<and> off + length out \<le> z_dataSize r) \<Longrightarrow> compressed_read lib rd r out off = Done (False, out, r)"
  by (auto simp: compressed_read_def)

lemma compressed_reads_same:
  assumes "image_sound rd c" "length c < 2 ^ 63" "lz4_ok lib dec"
  shows "compressed_reads lib rd r rs = Some r' \<Longrightarrow> buffer_ok dec c r \<Longrightarrow> extents_ok r \<Longrightarrow> covers (z_extents r) \<Longrightarrow>
    em_entries (z_extents r) \<noteq> [] \<Longrightarrow> x_off (z_extents r) 0 = 0 \<Longrightarrow> em_uncomprSize (z_extents r) = z_dataSize r \<Longrightarrow>
    z_dataSize r < SIZE_LIMIT \<Longrightarrow> same_reader r r' \<and> buffer_ok dec c r'"
proof (induction rs arbitrary: r)
  case (Cons x rs)
  obtain out off where x: "x = (out, off)" by (cases x)
  from Cons.prems(1) x obtain ok d r1 where r1: "compressed_read lib rd r out off = Done (ok, d, r1)"
    "compressed_reads lib rd r1 rs = Some r'"
    by (auto split: outcome.splits)
  have "same_reader r r1 \<and> buffer_ok dec c r1"
  proof (cases "off < z_dataSize r \<and> off + length out \<le> z_dataSize r")
    case True
    from some_image.compressed_read_ok [of "(rd, c)" lib dec r off out False] assms Cons.prems True r1(1)
    show ?thesis by (auto simp: reads_ok_def)
  next
    case False
    then show ?thesis using compressed_read_outside [OF False] r1(1) Cons.prems(2) by auto
  qed
  then show ?case
    using Cons.IH [OF r1(2)] Cons.prems extents_ok_same same_reader_trans by (simp add: same_reader_def extents_ok_def)
qed simp

text \<open>
  C25. Reads of a compressed file with compacted indexes, whatever was read before and whatever the
  image answers: a read inside the file never touches foreign memory, and where it succeeds it
  delivers the bytes of the decompressed extents; it does succeed when the image answers and every
  extent can be decompressed.  The map has to start at offset 0 and two compressed extents must not
  share a block with different sizes.
\<close>

theorem compressed_file_reads:
  assumes image: "image_sound rd c" "length c < 2 ^ 63" "lz4_ok lib dec"
    and create: "createCompact rd fileSize sb cb eoff n adv = Done r0" "0 < cb" "fileSize < 2 ^ 63"
    and map: "x_off (z_extents r0) 0 = 0" "unshared (z_extents r0)"
    and before: "compressed_reads lib rd r0 rs = Some r"
    and range: "off < n" "off + length out \<le> n"
  shows "\<exists>ok d r'. compressed_read lib rd r out off = Done (ok, d, r') \<and>
    (ok \<longrightarrow> d = slice off (length out) (inode_content dec c r0)) \<and>
    (answers rd c \<and> (\<forall>e \<in> set (em_entries (z_extents r0)). reader_intact dec c r0 e) \<longrightarrow> ok)"
proof -
  note r0 = createCompact_ok(1-6) [OF image(1) create map(2)] createCompact_ok(7) [OF image(1) create map(2), of dec c]
  have r: "same_reader r0 r" "buffer_ok dec c r"
    using compressed_reads_same [OF image before] r0 map(1) by auto
  from some_image.compressed_read_ok [of "(rd, c)" lib dec r off out "answers rd c"] image r r0 map(1) range
    extents_ok_same [OF r(1) r0(6)]
  have "reads_ok (answers rd c) dec c r out
    (slice off (length out) (concat (map (reader_bytes dec c r) (em_entries (z_extents r)))))
    (\<forall>e \<in> set (em_entries (z_extents r)). reader_intact dec c r e) (compressed_read lib rd r out off)"
    by (auto simp: same_reader_def)
  moreover have "z_extents r = z_extents r0" "z_haveLz4ZeroPadding r = z_haveLz4ZeroPadding r0" "z_blockSize r = z_blockSize r0"
    using r(1) by (auto simp: same_reader_def)
  ultimately show ?thesis by (auto simp: reads_ok_def inode_content_def)
qed

subsection \<open>A sample file\<close>

text \<open>A decompressor that copies, and an image with one compressed block after a block of indexes.\<close>

definition copy_lz4 :: lz4 where
  "copy_lz4 = (let f = (\<lambda>src out cap. if nat cap \<le> length src then (cap, take (nat cap) src) else (-1, out)) in
     \<lparr>LZ4_decompress_safe = f, LZ4_decompress_safe_partial = f\<rparr>)"

definition copy_meaning :: lz4_meaning where
  "copy_meaning zp src n = (if n \<le> length src then Some (take n src) else None)"

lemma copy_lz4_ok: "lz4_ok copy_lz4 copy_meaning"
  by (auto simp: lz4_ok_def copy_lz4_def copy_meaning_def Let_def)

definition sample_image :: bytes where
  "sample_image = replicate 8 0 @ [0, 0x10, 0, 0, 0, 0, 0, 0] @ replicate 4080 0 @ replicate 4096 7"

lemma sample_image_reads:
  "img_read (image_rd sample_image) 8 0 = Some (replicate 8 0)"
  "img_read (image_rd sample_image) 8 8 = Some [0, 0x10, 0, 0, 0, 0, 0, 0]"
  by (simp_all add: image_rd_read sample_image_def) (simp add: slice_def)

definition sample_sb :: erofs_superblock where
  "sample_sb = \<lparr>m_superBlock = read_superblock_struct sample_superblock 1024, m_blockSize = 4096, m_features = {}\<rparr>"

text \<open>The reader of the sample file: 100 bytes, compressed.\<close>

definition sample_reader :: compressed_reader where
  "sample_reader = \<lparr>z_extents = \<lparr>em_blockSize = 4096, em_uncomprSize = 100, em_comprAlgos = (CLz4, CLz4),
       em_entries = [\<lparr>x_compression = CLz4, x_uncomprOffset = 0, x_uncomprSize = 100, x_comprBlockAddr = 4096\<rparr>],
       em_lastAddedIndex = 0\<rparr>,
     z_dataSize = 100, z_blockSize = 4096, z_accessAdvice = 3, z_haveLz4ZeroPadding = False,
     z_lastDecompressedBlockAddr = SIZE_MAX, z_decompressedBlock = [], z_contigBlockRange = (4096, 4096)\<rparr>"

lemma sample_create: "createCompact (image_rd sample_image) 8192 sample_sb 1 0 100 3 = Done sample_reader"
proof -
  have "(0x1000 :: nat) AND 4095 = 0" by (simp add: and_nat_def)
  then show ?thesis
    by (simp add: createCompact_def sample_sb_def sample_reader_def fromCompactIndexes_def sample_image_reads
        kMaxUncompressedSize_def compact_counts_def div_round_up_def sz_add_def sz_sub_def sz_mul_def round_up_def
        process_indexes_def pack_loop.simps processSingleCompact4BIndex_def new_extent_map_def em_add_def next_slot_def
        extent_compression_def convertComprAlgo_def lcluster_of_def le_defs check_filled_def u32_add_def u32_sub_def
        empty_extent_def compressed_new_def getExtendContigRange_def hasFeature_def Let_def)
qed

lemma compressed_file_reads_witness:
  "\<exists>r'. compressed_read copy_lz4 (image_rd sample_image) sample_reader [0, 0, 0] 7 = Done (True, [7, 7, 7], r')"
proof -
  let ?e = "\<lparr>x_compression = CLz4, x_uncomprOffset = 0, x_uncomprSize = 100, x_comprBlockAddr = 4096\<rparr> :: extent"
  have len: "length sample_image = 8192" by (simp add: sample_image_def)
  have es: "em_entries (z_extents sample_reader) = [?e]" by (simp add: sample_reader_def)
  have s: "slice 4096 4096 sample_image = replicate 4096 7" by (simp add: sample_image_def slice_def drop_Cons')
  have ext: "lz4_extent copy_meaning False 4096 sample_image ?e = Some (replicate 100 7)"
    using len s by (simp add: lz4_extent_def copy_meaning_def lz4_strip_def)
  have bytes: "inode_content copy_meaning sample_image sample_reader = replicate 100 7"
    unfolding inode_content_def es using ext by (simp add: sample_reader_def extent_bytes_def Let_def)
  have intact: "\<forall>e \<in> set (em_entries (z_extents sample_reader)). reader_intact copy_meaning sample_image sample_reader e"
    unfolding es using ext by (simp add: sample_reader_def extent_intact_def)
  have "answers (image_rd sample_image) sample_image" by (simp add: answers_def image_rd_read)
  moreover have "x_off (z_extents sample_reader) 0 = 0" "unshared (z_extents sample_reader)"
    by (simp_all add: sample_reader_def unshared_def)
  ultimately obtain d r' where r': "compressed_read copy_lz4 (image_rd sample_image) sample_reader [0, 0, 0] 7 = Done (True, d, r')"
      "d = slice 7 (Suc (Suc (Suc 0))) (replicate 100 7)"
    using compressed_file_reads [OF image_sound_rd _ copy_lz4_ok sample_create, of "[]" sample_reader 7 "[0, 0, 0]"]
      intact len bytes by auto
  have "slice 7 (Suc (Suc (Suc 0))) (replicate 100 7) = [7, 7, 7 :: byte]" by (simp add: slice_def)
  with r' show ?thesis by auto
qed

text \<open>An image whose second pack of indexes repeats the block address of the first.\<close>

definition shared_image :: bytes where
  "shared_image = replicate 8 0 @ [0, 0x10, 0, 0x20, 0, 0, 0, 0] @ [0, 0x10, 0, 0x20, 0, 0, 0, 0] @
     [0, 0x20, 0, 0, 0, 0, 0, 0] @ replicate 4064 0 @ replicate 4096 7"

definition fill_lz4 :: lz4 where
  "fill_lz4 = (let f = (\<lambda>src out cap. (cap, replicate (length out) 1)) in
     \<lparr>LZ4_decompress_safe = f, LZ4_decompress_safe_partial = f\<rparr>)"

lemma fill_lz4_ok: "lz4_ok fill_lz4 (\<lambda>zp src n. Some (replicate n 1))"
  by (simp add: lz4_ok_def fill_lz4_def Let_def)

definition shared_reader :: compressed_reader where
  "shared_reader = \<lparr>z_extents = \<lparr>em_blockSize = 4096, em_uncomprSize = 20480, em_comprAlgos = (CLz4, CLz4),
       em_entries = [\<lparr>x_compression = CLz4, x_uncomprOffset = 0, x_uncomprSize = 8192, x_comprBlockAddr = 4096\<rparr>,
         \<lparr>x_compression = CLz4, x_uncomprOffset = 8192, x_uncomprSize = 12288, x_comprBlockAddr = 4096\<rparr>],
       em_lastAddedIndex = 1\<rparr>,
     z_dataSize = 20480, z_blockSize = 4096, z_accessAdvice = 0, z_haveLz4ZeroPadding = False,
     z_lastDecompressedBlockAddr = SIZE_MAX, z_decompressedBlock = [], z_contigBlockRange = (0, 0)\<rparr>"

lemma shared_image_reads:
  "img_read (image_rd shared_image) 8 0 = Some (replicate 8 0)"
  "img_read (image_rd shared_image) 24 8 =
     Some [0, 0x10, 0, 0x20, 0, 0, 0, 0, 0, 0x10, 0, 0x20, 0, 0, 0, 0, 0, 0x20, 0, 0, 0, 0, 0, 0]"
  "\<exists>d. img_read (image_rd shared_image) 4096 4096 = Some d"
  by (simp_all add: image_rd_read shared_image_def) (simp add: slice_def)

lemma shared_create: "createCompact (image_rd shared_image) 8192 sample_sb 2 0 20480 0 = Done shared_reader"
proof -
  have a: "(0x1000 :: nat) AND 4095 = 0" by (simp add: and_nat_def)
  have two: "replicate 2 x = [x, x]" for x :: extent by (simp add: numeral_2_eq_2)
  show ?thesis
    by (simp add: createCompact_def sample_sb_def shared_reader_def fromCompactIndexes_def shared_image_reads a
        index_evaluation compressed_new_def hasFeature_def Let_def two)
qed

text \<open>
  Two compressed extents at one block address with different sizes make the reader copy past the end
  of its bounce buffer, because the buffer is looked up by the address alone: one byte from each extent
  of an image that repeats a block address is enough.
\<close>

theorem shared_block_overread:
  "\<exists>lib dec rd r r' d. lz4_ok lib dec \<and> createCompact rd 8192 sample_sb 2 0 20480 0 = Done r \<and>
     compressed_read lib rd r [0] 0 = Done (True, d, r') \<and>
     compressed_read lib rd r' [0] 20479 = Undefined OutOfBoundsRead"
proof -
  obtain blk where blk: "img_read (image_rd shared_image) 4096 4096 = Some blk" using shared_image_reads(3) by blast
  let ?r' = "shared_reader\<lparr>z_lastDecompressedBlockAddr := 4096, z_decompressedBlock := replicate 8192 1\<rparr>"
  note evaluation = compressed_read_def shared_reader_def em_find_def lower_bound.simps extent_before_def sz_sub_def
    sz_add_def read_extent_def readLz4Compressed_def decompressLz4_def fill_lz4_def int_cast_def Let_def
  have "compressed_read fill_lz4 (image_rd shared_image) shared_reader [0] 0 = Done (True, [1], ?r')"
    by (simp add: evaluation blk) (simp add: slice_def)
  moreover have "compressed_read fill_lz4 (image_rd shared_image) ?r' [0] 20479 = Undefined OutOfBoundsRead"
    by (simp add: evaluation)
  ultimately show ?thesis using fill_lz4_ok shared_create by blast
qed

end
