(* ===== verification/ErofsInodeReads.thy ===== *)
theory ErofsInodeReads
  imports ErofsInode ErofsCompressed
begin

section \<open>Reading files of an EROFS image\<close>

text \<open>
  What the supported formats (plain, inline and compressed, with flat or compacted indexes) promise
  together: reading an inode delivers the bytes the format assigns to it, whatever was read from it before.  The statements are about a complete image, such
  as an opened raw image file (\<open>raw_read_eq\<close>).
\<close>

definition inode_tail :: "inode \<Rightarrow> nat" where
  "inode_tail i = sz_add (i_inodeFileOffset i) (i_inodeHeaderSize i)"

text \<open>The reader of a compressed inode, with flat or with compacted indexes.\<close>

definition inode_compressed :: "bytes \<Rightarrow> erofs_superblock \<Rightarrow> inode \<Rightarrow> (map_error, compressed_reader) outcome" where
  "inode_compressed c sb i =
     (if i_dataFormat i = CompressedFull
      then createFull (image_rd c) (length c) sb (i_compressedBlocks i) (inode_tail i) (i_size i) (i_inodeReaderHints i)
      else createCompact (image_rd c) (length c) sb (i_compressedBlocks i) (inode_tail i) (i_size i) (i_inodeReaderHints i))"

text \<open>The bytes of an inode.\<close>

definition inode_bytes :: "lz4_meaning \<Rightarrow> bytes \<Rightarrow> erofs_superblock \<Rightarrow> inode \<Rightarrow> bytes" where
  "inode_bytes dec c sb i =
     (case i_dataFormat i of
        FlatPlain \<Rightarrow> slice (i_rawBlockAddress i) (i_size i) c
      | FlatInline \<Rightarrow>
          slice (i_rawBlockAddress i) (i_size i div m_blockSize sb * m_blockSize sb) c @
          slice (inode_tail i) (i_size i mod m_blockSize sb) c
      | ChunkBased \<Rightarrow> []
      | InvalidFormat \<Rightarrow> []
      | _ \<Rightarrow> (case inode_compressed c sb i of Done r \<Rightarrow> inode_content dec c r | _ \<Rightarrow> []))"

text \<open>
  The map of an intact compressed file: its extents follow each other from offset 0 to the end of the file
  and do not share blocks.  All of it but the start and the sharing holds for every map
  that is built from compacted indexes (\<open>createCompact_ok\<close>); flat indexes say it themselves.
\<close>

definition compressed_intact :: "lz4_meaning \<Rightarrow> bytes \<Rightarrow> compressed_reader \<Rightarrow> bool" where
  "compressed_intact dec c r \<longleftrightarrow>
     covers (z_extents r) \<and> em_entries (z_extents r) \<noteq> [] \<and> x_off (z_extents r) 0 = 0 \<and>
     em_uncomprSize (z_extents r) = z_dataSize r \<and> z_dataSize r < SIZE_LIMIT \<and> extents_ok r \<and>
     (\<forall>e \<in> set (em_entries (z_extents r)). reader_intact dec c r e)"

text \<open>The inode's data lies inside the image, and what is compressed can be decompressed.\<close>

definition inode_intact :: "lz4_meaning \<Rightarrow> bytes \<Rightarrow> erofs_superblock \<Rightarrow> inode \<Rightarrow> bool" where
  "inode_intact dec c sb i \<longleftrightarrow>
     (case i_dataFormat i of
        FlatPlain \<Rightarrow> i_rawBlockAddress i + i_size i \<le> length c
      | FlatInline \<Rightarrow>
          inode_tail i < length c \<and> inode_tail i + i_size i mod m_blockSize sb \<le> length c \<and>
          i_rawBlockAddress i + i_size i div m_blockSize sb * m_blockSize sb \<le> length c
      | CompressedFull \<Rightarrow> (case inode_compressed c sb i of Done r \<Rightarrow> compressed_intact dec c r | _ \<Rightarrow> False)
      | CompressedCompact \<Rightarrow>
          0 < i_compressedBlocks i \<and>
          (case inode_compressed c sb i of
             Done r \<Rightarrow> x_off (z_extents r) 0 = 0 \<and> unshared (z_extents r) \<and>
               (\<forall>e \<in> set (em_entries (z_extents r)). reader_intact dec c r e)
           | _ \<Rightarrow> False)
      | _ \<Rightarrow> False)"

fun inode_reads ::
  "lz4 \<Rightarrow> image_read \<Rightarrow> nat \<Rightarrow> erofs_superblock \<Rightarrow> inode \<Rightarrow> (bytes \<times> nat) list \<Rightarrow> inode option" where
  "inode_reads lib rd fs sb i [] = Some i"
| "inode_reads lib rd fs sb i ((out, off) # rs) =
     (case inode_read lib rd fs sb i out off of
        Done (_, _, i) \<Rightarrow> inode_reads lib rd fs sb i rs
      | _ \<Rightarrow> None)"

text \<open>The reader an inode keeps is the one its format asks for, in any state earlier reads left it.\<close>

definition reader_fits :: "lz4_meaning \<Rightarrow> bytes \<Rightarrow> erofs_superblock \<Rightarrow> inode \<Rightarrow> data_reader \<Rightarrow> bool" where
  "reader_fits dec c sb i r \<longleftrightarrow>
     (\<exists>r0. make_reader (image_rd c) (length c) sb i = Done r0 \<and>
        (case (r0, r) of
           (CompressedReader z0, CompressedReader z) \<Rightarrow> same_reader z0 z \<and> buffer_ok dec c z
         | _ \<Rightarrow> r = r0))"

lemma answers_image [simp]: "answers (image_rd c) c"
  by (simp add: answers_def image_rd_read)

lemma createFull_fields:
  "createFull rd fileSize sb cb eoff n adv = Done r \<Longrightarrow> z_dataSize r = n \<and> buffer_ok dec c r"
  by (auto simp: createFull_def compressed_new_def buffer_ok_def)

text \<open>A compressed inode that is intact has a reader, and what reading needs of it.\<close>

abbreviation "compressed_format i \<equiv> i_dataFormat i = CompressedFull \<or> i_dataFormat i = CompressedCompact"

lemma inode_compressed_intact:
  assumes "inode_intact dec c sb i" "compressed_format i" "length c < 2 ^ 63"
  obtains z where "inode_compressed c sb i = Done z" "compressed_intact dec c z" "buffer_ok dec c z" "z_dataSize z = i_size i"
    "make_reader (image_rd c) (length c) sb i = Done (CompressedReader z)"
proof (cases "i_dataFormat i = CompressedFull")
  case True
  then obtain z where z: "inode_compressed c sb i = Done z" "compressed_intact dec c z"
    using assms(1) by (auto simp: inode_intact_def split: outcome.splits)
  then have "z_dataSize z = i_size i \<and> buffer_ok dec c z"
    using True createFull_fields by (auto simp: inode_compressed_def)
  moreover have "make_reader (image_rd c) (length c) sb i = Done (CompressedReader z)"
    using z(1) True by (simp add: make_reader_def inode_compressed_def inode_tail_def Let_def)
  ultimately show thesis using that z by blast
next
  case False
  then have compact: "i_dataFormat i = CompressedCompact" using assms(2) by simp
  then obtain z where z: "inode_compressed c sb i = Done z" "x_off (z_extents z) 0 = 0" "unshared (z_extents z)"
      "0 < i_compressedBlocks i" "\<forall>e \<in> set (em_entries (z_extents z)). reader_intact dec c z e"
    using assms(1) by (auto simp: inode_intact_def split: outcome.splits)
  then have create: "createCompact (image_rd c) (length c) sb (i_compressedBlocks i) (inode_tail i) (i_size i) (i_inodeReaderHints i) = Done z"
    using False by (simp add: inode_compressed_def)
  note ok = createCompact_ok [OF image_sound_rd create z(4) assms(3) z(3)]
  have "compressed_intact dec c z" using ok(1-6) z(2,5) by (simp add: compressed_intact_def)
  moreover have "make_reader (image_rd c) (length c) sb i = Done (CompressedReader z)"
    using create compact by (simp add: make_reader_def inode_tail_def Let_def)
  ultimately show thesis using that z(1) ok(4,7) by blast
qed

lemma make_reader_intact:
  assumes "inode_intact dec c sb i" "length c < 2 ^ 63"
  obtains r where "make_reader (image_rd c) (length c) sb i = Done r" "reader_fits dec c sb i r"
proof (cases "compressed_format i")
  case True
  obtain z where "make_reader (image_rd c) (length c) sb i = Done (CompressedReader z)" "buffer_ok dec c z"
    by (rule inode_compressed_intact [OF assms(1) True assms(2)])
  with that [of "CompressedReader z"] show thesis by (simp add: reader_fits_def)
next
  case False
  then show thesis using assms that
    by (cases "i_dataFormat i") (auto simp: make_reader_def inode_intact_def reader_fits_def Let_def)
qed

lemma reader_read_fits:
  assumes "inode_intact dec c sb i" "reader_fits dec c sb i r" "length c < 2 ^ 63" "lz4_ok lib dec"
    "off < i_size i" "off + length out \<le> i_size i"
  shows "\<exists>r'. reader_read lib (image_rd c) r out off = Done (True, slice off (length out) (inode_bytes dec c sb i), r') \<and>
    reader_fits dec c sb i r'"
proof -
  have compressed: ?thesis if fmt: "compressed_format i"
  proof -
    obtain z0 where z0: "inode_compressed c sb i = Done z0" "compressed_intact dec c z0" "z_dataSize z0 = i_size i"
        "make_reader (image_rd c) (length c) sb i = Done (CompressedReader z0)"
      by (rule inode_compressed_intact [OF assms(1) fmt assms(3)])
    with assms(2) obtain z where z: "r = CompressedReader z" "same_reader z0 z" "buffer_ok dec c z"
      by (cases r) (auto simp: reader_fits_def)
    have same: "z_extents z = z_extents z0" "z_haveLz4ZeroPadding z = z_haveLz4ZeroPadding z0" "z_blockSize z = z_blockSize z0"
        "z_dataSize z = z_dataSize z0"
      using z(2) by (auto simp: same_reader_def)
    have "reads_ok True dec c z out
        (slice off (length out) (concat (map (reader_bytes dec c z) (em_entries (z_extents z)))))
        (\<forall>e \<in> set (em_entries (z_extents z)). reader_intact dec c z e) (compressed_read lib (image_rd c) z out off)"
      using z0(2,3) assms(3-6) same z(3) extents_ok_same [OF z(2)]
      by (intro plain_image.compressed_read_ok) (auto simp: compressed_intact_def)
    then obtain z' where z': "compressed_read lib (image_rd c) z out off =
        Done (True, slice off (length out) (inode_content dec c z0), z')" "same_reader z z'" "buffer_ok dec c z'"
      using z0(2) by (auto simp: reads_ok_def same inode_content_def compressed_intact_def)
    have "reader_fits dec c sb i (CompressedReader z')"
      using z0(4) z'(2,3) same_reader_trans [OF z(2)] by (auto simp: reader_fits_def)
    then show ?thesis using z' fmt z0(1) by (auto simp: z(1) inode_bytes_def)
  qed
  show ?thesis
  proof (cases "i_dataFormat i")
    case FlatPlain
    with assms(2) have r: "r = PlainReader (plain_new (i_rawBlockAddress i) (m_blockSize sb) (i_size i) (i_inodeReaderHints i))"
      by (auto simp: reader_fits_def make_reader_def Let_def)
    have "plain_read (image_rd c) (plain_new (i_rawBlockAddress i) (m_blockSize sb) (i_size i) (i_inodeReaderHints i)) out off =
        (True, slice off (length out) (slice (i_rawBlockAddress i) (i_size i) c))"
      using assms(1,3,5,6) FlatPlain by (intro plain_image.plain_read_complete) (auto simp: inode_intact_def)
    then show ?thesis using FlatPlain assms(2) by (simp add: r inode_bytes_def)
  next
    case FlatInline
    with assms(2) have r: "r = InlineReader (inline_new (i_rawBlockAddress i) (inode_tail i) (m_blockSize sb) (i_size i) (i_inodeReaderHints i))"
      by (auto simp: reader_fits_def make_reader_def Let_def inode_tail_def)
    have "inline_read (image_rd c) (inline_new (i_rawBlockAddress i) (inode_tail i) (m_blockSize sb) (i_size i) (i_inodeReaderHints i)) out off =
        (True, slice off (length out) (inode_bytes dec c sb i))"
      using assms(1,3,5,6) FlatInline
      by (simp add: inode_bytes_def) (intro plain_image.inline_read_complete, auto simp: inode_intact_def)
    then show ?thesis using assms(2) by (simp add: r)
  qed (use compressed assms(1) in \<open>auto simp: inode_intact_def\<close>)
qed

definition inode_ready :: "lz4_meaning \<Rightarrow> bytes \<Rightarrow> erofs_superblock \<Rightarrow> inode \<Rightarrow> inode \<Rightarrow> bool" where
  "inode_ready dec c sb i i' \<longleftrightarrow>
     i'\<lparr>i_inodeReader := None\<rparr> = i\<lparr>i_inodeReader := None\<rparr> \<and>
     (\<forall>r. i_inodeReader i' = Some r \<longrightarrow> reader_fits dec c sb i r)"

lemma inode_same_fields:
  assumes "i'\<lparr>i_inodeReader := None\<rparr> = i\<lparr>i_inodeReader := None\<rparr>"
  shows "i_size i' = i_size i" "make_reader rd fs sb i' = make_reader rd fs sb i"
proof -
  have "i' = i\<lparr>i_inodeReader := i_inodeReader i'\<rparr>" using assms by (cases i, cases i') simp
  then obtain x where x: "i' = i\<lparr>i_inodeReader := x\<rparr>" by blast
  show "i_size i' = i_size i" by (simp add: x)
  show "make_reader rd fs sb i' = make_reader rd fs sb i" by (cases "i_dataFormat i") (simp_all add: x make_reader_def Let_def)
qed

lemma inode_read_ready:
  assumes "inode_intact dec c sb i" "inode_ready dec c sb i i'" "length c < 2 ^ 63" "lz4_ok lib dec"
  shows "\<exists>i''. inode_read lib (image_rd c) (length c) sb i' out off =
      (let k = min (length out) (i_size i - off) in Done (int k, slice off k (inode_bytes dec c sb i) @ drop k out, i'')) \<and>
    inode_ready dec c sb i i''"
proof (cases "off \<ge> i_size i \<or> out = []")
  case True
  then have "inode_read lib (image_rd c) (length c) sb i' out off = Done (0, out, i')"
    using inode_same_fields(1) [of i' i] assms(2) by (auto simp: inode_read_def inode_ready_def)
  then show ?thesis using True assms(2) by (intro exI [of _ i']) (auto simp: Let_def)
next
  case False
  let ?k = "min (length out) (i_size i - off)"
  have keep: "i'\<lparr>i_inodeReader := None\<rparr> = i\<lparr>i_inodeReader := None\<rparr>" using assms(2) by (simp add: inode_ready_def)
  note same = inode_same_fields [OF keep]
  obtain r where r: "(case i_inodeReader i' of Some r \<Rightarrow> Done r | None \<Rightarrow> make_reader (image_rd c) (length c) sb i') = Done r"
      "reader_fits dec c sb i r"
    using assms(2) make_reader_intact [OF assms(1,3)] same(2)
    by (cases "i_inodeReader i'") (auto simp: inode_ready_def)
  have fits: "off + ?k \<le> i_size i" using False by linarith
  obtain r' where r': "reader_read lib (image_rd c) r (take ?k out) off =
      Done (True, slice off ?k (inode_bytes dec c sb i), r')" "reader_fits dec c sb i r'"
    using reader_read_fits [OF assms(1) r(2) assms(3,4), of off "take ?k out"] False fits by auto
  have "inode_read lib (image_rd c) (length c) sb i' out off =
      Done (int ?k, slice off ?k (inode_bytes dec c sb i) @ drop ?k out, i'\<lparr>i_inodeReader := Some r'\<rparr>)"
    using False r(1) r'(1) same(1) by (simp add: inode_read_def Let_def)
  moreover have "inode_ready dec c sb i (i'\<lparr>i_inodeReader := Some r'\<rparr>)"
    using keep r'(2) by (simp add: inode_ready_def)
  ultimately show ?thesis by (simp add: Let_def)
qed

text \<open>
  C20. An intact inode in one of the supported formats (plain, inline, compressed with flat or with
  compacted indexes) reads back: after any reads of it, a read at an offset gives the bytes of the file from
  there on, as many as are asked for and there are, leaves the rest of the buffer alone, and returns their
  number, which is 0 from the end of the file.
\<close>

theorem inode_reads_back:
  assumes "inode_intact dec c sb i" "i_inodeReader i = None" "length c < 2 ^ 63" "lz4_ok lib dec"
    "inode_reads lib (image_rd c) (length c) sb i rs = Some i'"
  shows "\<exists>i''. inode_read lib (image_rd c) (length c) sb i' out off =
    (let k = min (length out) (i_size i - off) in Done (int k, slice off k (inode_bytes dec c sb i) @ drop k out, i''))"
proof -
  have run: "inode_reads lib (image_rd c) (length c) sb j rs = Some i' \<Longrightarrow> inode_ready dec c sb i j \<Longrightarrow> inode_ready dec c sb i i'" for j
  proof (induction rs arbitrary: j)
    case (Cons x rs)
    obtain b o' where x: "x = (b, o')" by (cases x)
    from inode_read_ready [OF assms(1) Cons.prems(2) assms(3,4), of b o'] Cons.prems(1) Cons.IH x
    show ?case by (auto simp: Let_def)
  qed simp
  have "inode_ready dec c sb i i" using assms(2) by (simp add: inode_ready_def)
  from inode_read_ready [OF assms(1) run [OF assms(5) this] assms(3,4)] show ?thesis by blast
qed

subsection \<open>A sample file with its data after the inode\<close>

definition write_inode_compact :: "inode_compact \<Rightarrow> bytes" where
  "write_inode_compact c =
     le_bytes 2 (ic_format c) @ le_bytes 2 (ic_xattrCount c) @ le_bytes 2 (ic_mode c) @ le_bytes 2 1 @
     le_bytes 4 (ic_size c) @ le_bytes 4 0 @ le_bytes 4 (ic_data c) @ le_bytes 4 0 @
     le_bytes 2 (ic_uid c) @ le_bytes 2 (ic_gid c) @ le_bytes 4 0"

definition inode_compact_fits :: "inode_compact \<Rightarrow> bool" where
  "inode_compact_fits c \<longleftrightarrow>
     ic_format c < 65536 \<and> ic_xattrCount c < 65536 \<and> ic_mode c < 65536 \<and> ic_size c < U32_LIMIT \<and>
     ic_data c < U32_LIMIT \<and> ic_uid c < 65536 \<and> ic_gid c < 65536"

lemma length_write_inode_compact [simp]: "length (write_inode_compact c) = 32"
  by (simp add: write_inode_compact_def)

lemma read_write_inode_compact:
  assumes "inode_compact_fits c"
  shows "read_inode_compact (write_inode_compact c) = c"
  using assms
  by (cases c) (simp add: read_inode_compact_def inode_compact_fits_def le16_at_value le32_at_value,
      simp add: write_inode_compact_def le_value_le_bytes)

text \<open>
  A regular file of three bytes, mode 0644, at the start of an image: format 4 is the compact inode
  with its data after it.
\<close>

definition sample_inode_image :: bytes where
  "sample_inode_image = write_inode_compact \<lparr>ic_format = 4, ic_xattrCount = 0, ic_mode = 0x81A4, ic_size = 3,
     ic_data = 0, ic_uid = 0, ic_gid = 0\<rparr> @ [10, 20, 30]"

definition plain_sb :: erofs_superblock where
  "plain_sb = \<lparr>m_superBlock = \<lparr>s_magic = EROFS_MAGIC, s_checksum = 0, s_featureCompat = 0, s_blockSizeBits = 12,
     s_extensionSlots = 0, s_rootInode = 0, s_inodeCount = 1, s_buildTimeSec = 7, s_buildTimeNSec = 0, s_blocks = 1,
     s_metaBlockAddr = 0, s_featureIncompat = 0\<rparr>, m_blockSize = 4096, m_features = {}\<rparr>"

lemma plain_sb_blockSize [simp]: "m_blockSize plain_sb = 4096"
  by (simp add: plain_sb_def)

lemma sample_inode_load:
  "load_inode (image_rd sample_inode_image) plain_sb 0 0 =
     \<lparr>i_inodeNumber = 0, i_inodeFileOffset = 0, i_inodeReaderHints = 0, i_inodeHeaderSize = 32,
      i_dataFormat = FlatInline, i_type = FT_regular, i_size = 3, i_mode = 0x81A4, i_uid = 0, i_gid = 0,
      i_modificationTime = (7, 0), i_rawBlockAddress = 0, i_compressedBlocks = 0, i_inodeReader = None\<rparr>"
proof -
  have "img_read (image_rd sample_inode_image) 32 0 = Some (write_inode_compact \<lparr>ic_format = 4, ic_xattrCount = 0, ic_mode = 0x81A4,
      ic_size = 3, ic_data = 0, ic_uid = 0, ic_gid = 0\<rparr>)"
    by (simp add: image_rd_read sample_inode_image_def)
  then show ?thesis
    by (simp add: load_inode_def blank_inode_def plain_sb_def inodeOffset_def sz_add_def sz_mul_def
        read_write_inode_compact inode_compact_fits_def processCompactInode_def processDataFormat_def processMode_def
        processData_def Let_def)
qed

text \<open>The sample compressed file with flat indexes: the header, 8 reserved bytes and one index of 8 bytes.\<close>

definition flat_image :: bytes where
  "flat_image = replicate 16 0 @ [1, 0, 0, 0, 1, 0, 0, 0] @ replicate 4072 0 @ replicate 4096 7"

lemma flat_image_reads:
  "img_read (image_rd flat_image) 8 0 = Some (replicate 8 0)"
  "img_read (image_rd flat_image) 8 16 = Some [1, 0, 0, 0, 1, 0, 0, 0]"
  "slice 4096 4096 flat_image = replicate 4096 7" "length flat_image = 8192"
  by (simp_all add: image_rd_read flat_image_def) (simp_all add: slice_def drop_Cons')

lemma flat_create: "createFull (image_rd flat_image) 8192 sample_sb 1 0 100 3 = Done sample_reader"
proof -
  have "(1 :: nat) AND 3 = 1" by (simp add: and_nat_def)
  then show ?thesis
    by (simp add: createFull_def sample_sb_def sample_reader_def fromLegacyIndexes_def flat_image_reads
        kMaxUncompressedSize_def div_round_up_def sz_add_def sz_sub_def sz_mul_def new_extent_map_def em_add_def next_slot_def
        extent_compression_def convertComprAlgo_def lcluster_of_def le_defs check_filled_def u32_add_def u32_sub_def
        empty_extent_def compressed_new_def getExtendContigRange_def hasFeature_def Let_def)
qed

definition flat_inode :: inode where
  "flat_inode = \<lparr>i_inodeNumber = 0, i_inodeFileOffset = 0, i_inodeReaderHints = 3, i_inodeHeaderSize = 0,
     i_dataFormat = CompressedFull, i_type = FT_regular, i_size = 100, i_mode = 0x81A4, i_uid = 0, i_gid = 0,
     i_modificationTime = (7, 0), i_rawBlockAddress = 0, i_compressedBlocks = 1, i_inodeReader = None\<rparr>"

lemma flat_inode_intact:
  "inode_intact copy_meaning flat_image sample_sb flat_inode"
  "inode_bytes copy_meaning flat_image sample_sb flat_inode = replicate 100 7"
proof -
  let ?e = "\<lparr>x_compression = CLz4, x_uncomprOffset = 0, x_uncomprSize = 100, x_comprBlockAddr = 4096\<rparr> :: extent"
  have z: "inode_compressed flat_image sample_sb flat_inode = Done sample_reader"
    using flat_create by (simp add: inode_compressed_def flat_inode_def inode_tail_def sz_add_def flat_image_reads(4))
  have es: "em_entries (z_extents sample_reader) = [?e]" by (simp add: sample_reader_def)
  have ext: "lz4_extent copy_meaning False 4096 flat_image ?e = Some (replicate 100 7)"
    using flat_image_reads(3,4) by (simp add: lz4_extent_def copy_meaning_def lz4_strip_def)
  then have "inode_content copy_meaning flat_image sample_reader = replicate 100 7"
    unfolding inode_content_def es by (simp add: sample_reader_def extent_bytes_def Let_def)
  with z show "inode_bytes copy_meaning flat_image sample_sb flat_inode = replicate 100 7"
    by (simp add: inode_bytes_def, simp add: flat_inode_def)
  have "compressed_intact copy_meaning flat_image sample_reader"
    using ext by (simp add: compressed_intact_def sample_reader_def covers_def extents_ok_def unshared_def extent_intact_def)
  with z show "inode_intact copy_meaning flat_image sample_sb flat_inode"
    by (simp add: inode_intact_def, simp add: flat_inode_def)
qed

lemma inode_reads_back_witness:
  "(\<exists>i''. inode_read copy_lz4 (image_rd sample_inode_image) 35 plain_sb (load_inode (image_rd sample_inode_image) plain_sb 0 0)
     [1, 1, 1, 1] 1 = Done (2, [20, 30, 1, 1], i'')) \<and>
   (\<exists>i''. inode_read copy_lz4 (image_rd flat_image) 8192 sample_sb flat_inode [0, 0, 0] 7 = Done (3, [7, 7, 7], i''))"
proof -
  let ?c = sample_inode_image and ?i = "load_inode (image_rd sample_inode_image) plain_sb 0 0"
  have len: "length ?c = 35" by (simp add: sample_inode_image_def)
  have bytes: "inode_bytes copy_meaning ?c plain_sb ?i = [10, 20, 30]"
    by (simp add: sample_inode_load inode_bytes_def inode_tail_def sz_add_def) (simp add: sample_inode_image_def slice_def)
  have "inode_intact copy_meaning ?c plain_sb ?i"
    using len by (simp add: sample_inode_load inode_intact_def inode_tail_def sz_add_def)
  from inode_reads_back [OF this _ _ copy_lz4_ok, of "[]" ?i "[1, 1, 1, 1]" 1] len bytes
  have inline: "\<exists>i''. inode_read copy_lz4 (image_rd ?c) 35 plain_sb ?i [1, 1, 1, 1] 1 = Done (2, [20, 30, 1, 1], i'')"
    by (simp add: sample_inode_load Let_def slice_def)
  from inode_reads_back [OF flat_inode_intact(1) _ _ copy_lz4_ok, of "[]" flat_inode "[0, 0, 0]" 7] flat_inode_intact(2) flat_image_reads(4)
  have "\<exists>i''. inode_read copy_lz4 (image_rd flat_image) 8192 sample_sb flat_inode [0, 0, 0] 7 =
      Done (3, slice 7 3 (replicate 100 7), i'')"
    by (simp add: flat_inode_def Let_def numeral_3_eq_3)
  moreover have "slice 7 3 (replicate 100 7) = [7, 7, 7 :: byte]" by (simp add: slice_def numeral_3_eq_3)
  ultimately show ?thesis using inline by simp
qed

end
