(* ===== verification/ErofsWalk.thy ===== *)
theory ErofsWalk
  imports ErofsReader ErofsInodeReads
begin

section \<open>The walk visits the directory tree\<close>

text \<open>
  What the reader of \<open>ErofsReader\<close> promises: the names it hands out are safe, a directory block
  gives back the entries that were written to it, and the entries come in the breadth-first order
  of the tree the image holds.
\<close>

subsection \<open>Names\<close>

lemma validateFileName_chars: "validateFileName n \<Longrightarrow> n \<notin> {[], ''.'', ''..''} \<and> CHR ''/'' \<notin> set n \<and> CHR 0x00 \<notin> set n"
  by (auto simp: validateFileName_def list_ex_iff)

lemma validateFileName_not_dots: "validateFileName n \<Longrightarrow> n \<noteq> '''' \<and> n \<noteq> ''.'' \<and> n \<noteq> ''..''"
  by (auto simp: validateFileName_def)

definition good_entries :: "dir_entry list \<Rightarrow> bool" where
  "good_entries es \<longleftrightarrow> (\<forall>e \<in> set es. validateFileName (e_fileName e) \<and> e_inode e \<le> UINT32_MAX)"

lemma process_dirent_good:
  "process_dirent data n k i es = Done es' \<Longrightarrow> good_entries es \<Longrightarrow> good_entries es'"
  by (auto simp: process_dirent_def good_entries_def Let_def split: if_splits)

lemma process_dirents_good:
  "process_dirents data n k is es = Done es' \<Longrightarrow> good_entries es \<Longrightarrow> good_entries es'"
  by (induction "is" arbitrary: es) (auto dest: process_dirent_good)

lemma processDirectoryBlock_good:
  "processDirectoryBlock data n es = Done es' \<Longrightarrow> good_entries es \<Longrightarrow> good_entries es'"
  by (auto simp: processDirectoryBlock_def Let_def split: if_splits dest: process_dirents_good)

lemma read_dir_blocks_good:
  "read_dir_blocks env sb i off buf es = Done (Some es', b) \<Longrightarrow> good_entries es \<Longrightarrow> good_entries es'"
proof (induction env sb i off buf es rule: read_dir_blocks.induct)
  case (1 env sb i off buf es)
  let ?n = "min (m_blockSize sb) (i_size i - off)"
  show ?case
  proof (cases "off \<ge> i_size i \<or> ?n < sizeof_dirent")
    case True
    then show ?thesis using "1.prems" by (subst (asm) read_dir_blocks.simps) (auto simp: Let_def split: if_splits)
  next
    case False
    from "1.prems"(1) False obtain ret d i' where r: "env_inode_read env sb i (take ?n buf) off = Done (ret, d, i')"
      by (subst (asm) read_dir_blocks.simps) (auto simp: Let_def split: outcome.splits)
    from "1.prems"(1) False r obtain es1 where es1: "ret \<noteq> 0" "processDirectoryBlock (d @ drop ?n buf) ?n es = Done es1"
      "read_dir_blocks env sb (i\<lparr>i_inodeReader := i_inodeReader i'\<rparr>) (off + ?n) (d @ drop ?n buf) es1 = Done (Some es', b)"
      by (subst (asm) read_dir_blocks.simps) (auto simp: Let_def split: if_splits outcome.splits)
    from "1.IH" [OF _ refl _ r refl refl refl es1(1,2,3)] False
      processDirectoryBlock_good [OF es1(2) "1.prems"(2)]
    show ?thesis by auto
  qed
qed

lemma readDirectory_good: "readDirectory env sb n buf = Done (Some es, b) \<Longrightarrow> good_entries es"
  by (auto simp: readDirectory_def Let_def good_entries_def [of "[]"] split: if_splits dest: read_dir_blocks_good)

subsection \<open>The state of the walk\<close>

definition safe_path :: "path \<Rightarrow> bool" where
  "safe_path p \<longleftrightarrow> \<not> p_absolute p \<and> \<not> p_trailing p \<and> (\<forall>n \<in> set (p_names p). validateFileName n)"

text \<open>
  The invariant of a reader: an entry of the current directory is next as long as there are
  directories on the stack, its names are valid and so are those of all paths on the stack.
\<close>

definition walk_ok :: "erofs_reader \<Rightarrow> bool" where
  "walk_ok s \<longleftrightarrow>
     (hasNext s \<longrightarrow> m_currentDirIndex s < length (m_currentDir s) \<and> m_image s \<noteq> None) \<and>
     good_entries (m_currentDir s) \<and> (\<forall>(p, n) \<in> set (m_dirStack s). safe_path p)"

lemma safe_path_append: "safe_path p \<Longrightarrow> validateFileName n \<Longrightarrow> safe_path (path_append p n)"
  by (auto simp: safe_path_def path_append_def)

lemma safe_path_normal: "safe_path p \<Longrightarrow> p_names p \<noteq> [] \<Longrightarrow> verifyPackagePath p \<and> lexically_normal p = p"
proof -
  assume p: "safe_path p" "p_names p \<noteq> []"
  have names: "normal_names ab acc ns = rev acc @ ns" if "\<forall>n \<in> set ns. validateFileName n" for ab acc ns
    using that by (induction ns arbitrary: acc) (auto dest: validateFileName_not_dots)
  have "''..'' \<notin> set (p_names p)" "''.'' \<notin> set (p_names p)"
    using p(1) validateFileName_not_dots by (auto simp: safe_path_def)
  moreover have "last (p_names p) \<in> set (p_names p)" using p(2) by simp
  ultimately have "last (p_names p) \<noteq> ''..''" "last (p_names p) \<noteq> ''.''" by metis+
  with p show ?thesis
    using names [of "p_names p" False "[]"] \<open>''..'' \<notin> set (p_names p)\<close>
    by (auto simp: safe_path_def verifyPackagePath_def lexically_normal_def path_empty_def path_parts_def list_ex_iff Let_def)
qed

lemma next_directory_ok:
  "next_directory env sb st s = Done (ok, s') \<Longrightarrow> m_image s \<noteq> None \<Longrightarrow> m_error s = None \<Longrightarrow> m_currentDirIndex s = 0 \<Longrightarrow>
     m_currentDir s = [] \<Longrightarrow> \<forall>(p, n) \<in> set st. safe_path p \<Longrightarrow> walk_ok s'"
proof (induction st arbitrary: s)
  case Nil
  then show ?case by (auto simp: walk_ok_def hasNext_def good_entries_def)
next
  case (Cons front st)
  from Cons.prems(1) obtain r b where r: "readDirectory env sb (snd front) (m_dirBlockBuffer s) = Done (r, b)"
    by (auto split: outcome.splits)
  show ?case
  proof (cases r)
    case None
    then show ?thesis using Cons.prems r by (auto simp: walk_ok_def hasNext_def good_entries_def)
  next
    case (Some es)
    have good: "good_entries es" using r Some readDirectory_good by blast
    show ?thesis
    proof (cases "es = []")
      case True
      then show ?thesis using Cons.IH [of "s\<lparr>m_dirBlockBuffer := b\<rparr>"] Cons.prems r Some by auto
    next
      case False
      then show ?thesis using Cons.prems r Some good by (auto simp: walk_ok_def hasNext_def)
    qed
  qed
qed

lemma reader_create_ok: "reader_create env = Done s \<Longrightarrow> walk_ok s"
  by (auto simp: reader_create_def Let_def walk_ok_def hasNext_def good_entries_def [of "[]"] safe_path_def
      split: option.splits outcome.splits if_splits) (metis readDirectory_good)

text \<open>One call, with the state it leaves: \<open>s1\<close> is the state after the entry has been taken.\<close>

lemma next_entry_eq:
  assumes "m_dirStack s = (fp, fi) # st" "m_error s = None" "m_currentDirIndex s < length (m_currentDir s)" "m_image s = Some sb"
    and e: "e = m_currentDir s ! m_currentDirIndex s" and p: "p = path_append fp (e_fileName e)"
    and q: "q = st @ (if e_fileType e = FT_directory then [(p, e_inode e)] else [])"
    and s1: "s1 = s\<lparr>m_currentDirIndex := m_currentDirIndex s + 1, m_dirStack := (fp, fi) # q\<rparr>"
    and entry: "entry = \<lparr>y_path = p, y_inode = load_inode (env_read env) sb (e_inode e) (inode_hints (m_adviceFlags s) e)\<rparr>"
  shows "next_entry env s =
    (if \<not> entry_isValid entry then Done (None, s1\<lparr>m_error := Some (EntryInvalid fp (e_fileName e))\<rparr>)
     else if m_currentDirIndex s + 1 \<ge> length (m_currentDir s) then
       bind_outcome (next_directory env sb q (s1\<lparr>m_currentDir := [], m_currentDirIndex := 0\<rparr>))
         (\<lambda>(ok, s). Done ((if ok then Some entry else None), s))
     else Done (Some entry, s1))"
proof -
  have a: "s\<lparr>m_currentDirIndex := m_currentDirIndex s + 1, m_dirStack := m_dirStack s @
      (if e_fileType e = FT_directory then [(p, e_inode e)] else [])\<rparr> = s1"
    by (simp add: assms(1) s1 q)
  have b: "m_adviceFlags s1 = m_adviceFlags s" "tl (m_dirStack s1) = q" "m_currentDirIndex s1 = m_currentDirIndex s + 1"
      "m_currentDir s1 = m_currentDir s"
    by (simp_all add: s1)
  have c: "\<not> length (m_currentDir s) \<le> m_currentDirIndex s" "m_dirStack s \<noteq> []" "hd (m_dirStack s) = (fp, fi)"
    using assms(1,3) by simp_all
  show ?thesis
    by (simp only: next_entry_def Let_def assms(2,4) c option.case prod.case e [symmetric] p [symmetric] a b
        entry [symmetric] if_False simp_thms)
qed

lemma next_entry_ok:
  assumes "walk_ok s" "next_entry env s = Done (r, s')"
  shows "walk_ok s' \<and> (\<forall>e. r = Some e \<longrightarrow> safe_path (y_path e) \<and> p_names (y_path e) \<noteq> [] \<and> entry_isValid e)"
proof (cases "hasNext s")
  case False
  then show ?thesis using assms by (auto simp: next_entry_def hasNext_def split: if_splits)
next
  case True
  then obtain sb where s: "m_dirStack s \<noteq> []" "m_error s = None" "m_currentDirIndex s < length (m_currentDir s)" "m_image s = Some sb"
    using assms(1) by (auto simp: walk_ok_def hasNext_def)
  obtain fp fi st where stack: "m_dirStack s = (fp, fi) # st" using s(1) by (cases "m_dirStack s") auto
  define e where "e = m_currentDir s ! m_currentDirIndex s"
  define p where "p = path_append fp (e_fileName e)"
  define q where "q = st @ (if e_fileType e = FT_directory then [(p, e_inode e)] else [])"
  define s1 where "s1 = s\<lparr>m_currentDirIndex := m_currentDirIndex s + 1, m_dirStack := (fp, fi) # q\<rparr>"
  define entry where "entry = \<lparr>y_path = p, y_inode = load_inode (env_read env) sb (e_inode e) (inode_hints (m_adviceFlags s) e)\<rparr>"
  note res = next_entry_eq [OF stack s(2,3,4) e_def p_def q_def s1_def entry_def]
  have e: "validateFileName (e_fileName e)" using assms(1) s(3) by (auto simp: walk_ok_def good_entries_def e_def)
  have fp: "safe_path fp" using assms(1) stack by (simp add: walk_ok_def)
  have p: "safe_path p" "p_names p \<noteq> []" using safe_path_append [OF fp e] by (simp_all add: p_def path_append_def)
  have st': "\<forall>(r, n) \<in> set q. safe_path r" using assms(1) stack p by (auto simp: q_def walk_ok_def)
  have st: "\<forall>(r, n) \<in> set (m_dirStack s1). safe_path r" using st' fp by (simp add: s1_def)
  consider (bad) "\<not> entry_isValid entry" | (more) "entry_isValid entry" "m_currentDirIndex s + 1 < length (m_currentDir s)"
    | (last) "entry_isValid entry" "m_currentDirIndex s + 1 \<ge> length (m_currentDir s)" by linarith
  then show ?thesis
  proof cases
    case bad
    then show ?thesis using assms st by (auto simp: res walk_ok_def hasNext_def s1_def)
  next
    case more
    then have r: "r = Some entry" "s' = s1" using assms(2) by (auto simp: res)
    have "walk_ok s1" using more(2) st assms(1) s by (auto simp: walk_ok_def s1_def)
    then show ?thesis using r p more(1) by (simp add: entry_def)
  next
    case last
    then obtain ok where ok: "next_directory env sb q (s1\<lparr>m_currentDir := [], m_currentDirIndex := 0\<rparr>) = Done (ok, s')"
      "r = (if ok then Some entry else None)" using assms(2) by (auto simp: res)
    have "walk_ok s'" using next_directory_ok [OF ok(1)] s st' by (simp add: s1_def)
    then show ?thesis using ok(2) p last(1) by (simp add: entry_def)
  qed
qed

text \<open>The state after a number of calls of \<open>next\<close>, with the advice flags set in between.\<close>

fun reader_calls :: "environment \<Rightarrow> erofs_reader \<Rightarrow> nat option list \<Rightarrow> erofs_reader option" where
  "reader_calls env s [] = Some s"
| "reader_calls env s (Some flags # cs) = reader_calls env (setAdvice flags s) cs"
| "reader_calls env s (None # cs) =
     (case next_entry env s of Done (_, s) \<Rightarrow> reader_calls env s cs | _ \<Rightarrow> None)"

lemma reader_calls_ok: "walk_ok s \<Longrightarrow> reader_calls env s cs = Some s' \<Longrightarrow> walk_ok s'"
proof (induction env s cs rule: reader_calls.induct)
  case (2 env s flags cs)
  then show ?case by (simp add: setAdvice_def walk_ok_def hasNext_def)
next
  case (3 env s cs)
  then show ?case by (auto split: outcome.splits dest: next_entry_ok)
qed simp

text \<open>
  C11. Whatever image the reader walks, every entry it hands out has a relative path in normal form
  that passes the check of the package reader and whose names are neither empty nor dots and hold no slash
  and no NUL, and as long as it says there is more the current directory has an entry at its index.
\<close>

theorem walk_paths_safe:
  assumes "reader_create env = Done s0" "reader_calls env s0 cs = Some s"
  shows "(hasNext s \<longrightarrow> m_currentDirIndex s < length (m_currentDir s)) \<and>
    (\<forall>e s'. next_entry env s = Done (Some e, s') \<longrightarrow>
       verifyPackagePath (y_path e) \<and> lexically_normal (y_path e) = y_path e \<and>
       (\<forall>n \<in> set (p_names (y_path e)). n \<notin> {[], ''.'', ''..''} \<and> CHR ''/'' \<notin> set n \<and> CHR 0x00 \<notin> set n))"
proof -
  have ok: "walk_ok s" using reader_calls_ok [OF reader_create_ok [OF assms(1)] assms(2)] .
  then have "hasNext s \<longrightarrow> m_currentDirIndex s < length (m_currentDir s)" by (simp add: walk_ok_def)
  moreover have "verifyPackagePath (y_path e) \<and> lexically_normal (y_path e) = y_path e \<and>
       (\<forall>n \<in> set (p_names (y_path e)). n \<notin> {[], ''.'', ''..''} \<and> CHR ''/'' \<notin> set n \<and> CHR 0x00 \<notin> set n)" if "next_entry env s = Done (Some e, s')" for e s'
    using next_entry_ok [OF ok that] safe_path_normal validateFileName_chars by (auto simp: safe_path_def)
  ultimately show ?thesis by blast
qed

subsection \<open>Directory blocks\<close>

text \<open>An entry as it is written: the inode, the name and the code of the type.\<close>

type_synonym raw_dirent = "nat \<times> string \<times> nat"

fun dirent_headers :: "nat \<Rightarrow> raw_dirent list \<Rightarrow> bytes" where
  "dirent_headers off [] = []"
| "dirent_headers off ((n, s, t) # es) =
     (le_bytes 8 n @ le_bytes 2 off @ [word_of_nat t, 0]) @ dirent_headers (off + length s) es"

definition dirent_names :: "raw_dirent list \<Rightarrow> bytes" where
  "dirent_names es = concat (map (\<lambda>(n, s, t). of_string s) es)"

definition write_dir_block :: "raw_dirent list \<Rightarrow> bytes" where
  "write_dir_block es = dirent_headers (12 * length es) es @ dirent_names es"

definition dirent_fits :: "raw_dirent \<Rightarrow> bool" where
  "dirent_fits e \<longleftrightarrow>
     (case e of (n, s, t) \<Rightarrow> n \<le> UINT32_MAX \<and> 0 < t \<and> t < 8 \<and> (validateFileName s \<or> s = ''.'' \<or> s = ''..''))"

definition listing :: "raw_dirent list \<Rightarrow> dir_entry list" where
  "listing es =
     map (\<lambda>(n, s, t). \<lparr>e_inode = n, e_fileName = s, e_fileType = convert_fileType t\<rparr>)
       (filter (\<lambda>(n, s, t). s \<noteq> ''.'' \<and> s \<noteq> ''..'') es)"

abbreviation name_len :: "raw_dirent \<Rightarrow> nat" where "name_len e \<equiv> length (fst (snd e))"

lemma length_dirent_headers [simp]: "length (dirent_headers off es) = 12 * length es"
  by (induction off es rule: dirent_headers.induct) auto

lemma length_dirent_names: "length (dirent_names es) = sum_list (map name_len es)"
  by (induction es) (auto simp: dirent_names_def)

lemma dirent_header_at:
  "i < length es \<Longrightarrow> slice (12 * i) 12 (dirent_headers off es) =
     (case es ! i of (n, s, t) \<Rightarrow>
        le_bytes 8 n @ le_bytes 2 (off + sum_list (map name_len (take i es))) @ [word_of_nat t, 0])"
proof (induction off es arbitrary: i rule: dirent_headers.induct)
  case (2 off n s t es)
  show ?case
  proof (cases i)
    case 0
    have "slice 0 12 ((le_bytes 8 n @ le_bytes 2 off @ [word_of_nat t, 0]) @ dirent_headers (off + length s) es) =
        le_bytes 8 n @ le_bytes 2 off @ [word_of_nat t, 0]"
      by (simp add: slice_def)
    then show ?thesis by (simp add: 0 del: append_assoc append_Cons append_Nil)
  next
    case (Suc j)
    have "slice (12 * Suc j) 12 ((le_bytes 8 n @ le_bytes 2 off @ [word_of_nat t, 0]) @ dirent_headers (off + length s) es) =
        slice (12 * j) 12 (dirent_headers (off + length s) es)"
      by (simp add: slice_def)
    then show ?thesis using 2 Suc by (simp add: add.assoc del: append_assoc append_Cons append_Nil)
  qed
qed simp

lemma dirent_name_at:
  "i < length es \<Longrightarrow> slice (sum_list (map name_len (take i es))) (name_len (es ! i)) (dirent_names es) = of_string (fst (snd (es ! i)))"
proof (induction es arbitrary: i)
  case (Cons e es)
  obtain n s t where e: "e = (n, s, t)" by (cases e)
  show ?case
  proof (cases i)
    case 0
    then show ?thesis by (simp add: e dirent_names_def slice_def)
  next
    case (Suc j)
    then show ?thesis using Cons.IH [of j] Cons.prems by (simp add: e dirent_names_def slice_def)
  qed
qed simp

lemma strnlen_padded: "0 \<notin> set xs \<Longrightarrow> strnlen (xs @ replicate k 0 @ zs) (length xs + k) = Some (length xs)"
proof (induction xs)
  case Nil
  then show ?case by (cases k) simp_all
qed auto

lemma of_string_no_zero: "validateFileName s \<or> s = ''.'' \<or> s = ''..'' \<Longrightarrow> 0 \<notin> set (of_string s)"
proof -
  assume s: "validateFileName s \<or> s = ''.'' \<or> s = ''..''"
  have "(word_of_nat (of_char c) :: byte) \<noteq> 0" if "c \<in> set s" for c
  proof
    assume "(word_of_nat (of_char c) :: byte) = 0"
    then have "unat (word_of_nat (of_char c) :: byte) = 0" by simp
    then have "of_char c = (0 :: nat)" by (simp add: unsigned_of_nat take_bit_eq_mod)
    then have "(of_char c :: nat) = of_char (CHR 0x00)" by simp
    then have "c = CHR 0x00" by (simp only: of_char_eq_iff)
    with that s show False by (auto simp: validateFileName_def list_ex_iff)
  qed
  then show ?thesis by (auto simp: of_string_def)
qed

lemma slice_field: "slice a n (slice b m xs) = slice (b + a) n xs" if "a + n \<le> m"
  using that by (rule slice_slice)

lemma processDirectoryBlock_write:
  assumes "es \<noteq> []" "\<forall>e \<in> set es. dirent_fits e" "length (write_dir_block es) + pad \<le> 4096"
  shows "processDirectoryBlock (write_dir_block es @ replicate pad 0 @ rest) (length (write_dir_block es) + pad) acc =
    Done (acc @ listing es)"
proof -
  let ?n = "length es" and ?size = "length (write_dir_block es) + pad"
  define data where "data = write_dir_block es @ replicate pad 0 @ rest"
  define at where "at i = 12 * ?n + sum_list (map name_len (take i es))" for i
  have size: "length (write_dir_block es) = at ?n" by (simp add: write_dir_block_def length_dirent_names at_def)
  have at_Suc: "at (Suc i) = at i + name_len (es ! i)" if "i < ?n" for i
    using that by (simp add: at_def take_Suc_conv_app_nth)
  have at_mono: "at i \<le> at j" if "i \<le> j" for i j
    using that by (auto simp: at_def take_add dest!: le_Suc_ex)
  have at_le: "at i \<le> at ?n" for i by (simp add: at_def) (metis append_take_drop_id le_add1 map_append sum_list_append)
  have len: "?size \<le> length data" by (simp add: data_def)
  have header: "slice (12 * i) 12 data = (case es ! i of (n, s, t) \<Rightarrow> le_bytes 8 n @ le_bytes 2 (at i) @ [word_of_nat t, 0])"
    if "i < ?n" for i
    using dirent_header_at [OF that, of "12 * ?n"] that by (simp add: data_def write_dir_block_def at_def)
  have fields: "dirent_nid data i = fst (es ! i)" "dirent_nameOffset data i = at i" "dirent_fileType data i = snd (snd (es ! i))"
    if i: "i < ?n" for i
  proof -
    obtain n s t where e: "es ! i = (n, s, t)" by (cases "es ! i")
    have fits: "n \<le> UINT32_MAX" "t < 8" using assms(2) i e nth_mem [OF i] by (auto simp: dirent_fits_def)
    have room: "12 * i + 12 \<le> length data"
      using i len size at_mono [of 0 ?n] by (simp add: at_def)
    have b: "at i < 65536" using at_le [of i] size assms(3) by simp
    have "le64_at data (12 * i) = le_value (slice 0 8 (slice (12 * i) 12 data))"
      using room by (simp add: le64_at_value slice_field)
    then show "dirent_nid data i = fst (es ! i)"
      using fits(1) by (simp add: dirent_nid_def mult.commute [of i] header [OF i] e slice_head slice_exact le_value_le_bytes)
    have "le16_at data (12 * i + 8) = le_value (slice 8 2 (slice (12 * i) 12 data))"
      using room by (simp add: le16_at_value slice_field)
    then show "dirent_nameOffset data i = at i"
      using b by (simp add: dirent_nameOffset_def mult.commute [of i] header [OF i] e le_value_le_bytes)
    have "data ! (12 * i + 10) = slice (12 * i) 12 data ! 10"
      using room by (simp add: slice_nth)
    then show "dirent_fileType data i = snd (snd (es ! i))"
      using fits(2) by (simp add: dirent_fileType_def mult.commute [of i] header [OF i] e u8_at_def nth_append unsigned_of_nat take_bit_eq_mod)
  qed
  have name: "slice (at i) (name_len (es ! i)) data = of_string (fst (snd (es ! i)))" if "i < ?n" for i
  proof -
    have "slice (at i) (name_len (es ! i)) (write_dir_block es) = of_string (fst (snd (es ! i)))"
      using dirent_name_at [OF that] by (simp add: write_dir_block_def at_def)
    moreover have "at i + name_len (es ! i) \<le> length (write_dir_block es)"
      using at_Suc [OF that] at_le [of "Suc i"] size by simp
    ultimately show ?thesis by (simp add: data_def)
  qed
  have nameLen: "dirent_nameLen data ?size ?n i = Done (name_len (es ! i))" if i: "i < ?n" for i
  proof (cases "i + 1 = ?n")
    case True
    have "drop (at i) data = of_string (fst (snd (es ! i))) @ replicate pad 0 @ rest"
    proof -
      have "drop (at i) data = slice (at i) (name_len (es ! i)) data @ drop (at ?n) data"
        using at_Suc [OF i] True unfolding slice_def by (metis Suc_eq_plus1 add.commute append_take_drop_id drop_drop)
      then show ?thesis using name [OF i] size by (simp add: data_def)
    qed
    moreover have "sz_sub ?size (at i) = name_len (es ! i) + pad"
      using at_Suc [OF i] True size at_le [of i] by (simp add: wrap_simps)
    moreover have "0 \<notin> set (of_string (fst (snd (es ! i))))"
      using assms(2) nth_mem [OF i] by (intro of_string_no_zero) (auto simp: dirent_fits_def)
    ultimately show ?thesis
      using strnlen_padded [of "of_string (fst (snd (es ! i)))" pad rest] True fields(2) [OF i] by (simp add: dirent_nameLen_def)
  next
    case False
    then show ?thesis using i fields(2) [of i] fields(2) [of "i + 1"] at_Suc [OF i] by (simp add: dirent_nameLen_def wrap_simps)
  qed
  have step: "process_dirent data ?size ?n i as = Done (as @ listing [es ! i])" if i: "i < ?n" for i as
  proof -
    obtain n s t where e: "es ! i = (n, s, t)" by (cases "es ! i")
    have fits: "n \<le> UINT32_MAX" "0 < t" "t < 8" "validateFileName s \<or> s = ''.'' \<or> s = ''..''"
      using assms(2) i e nth_mem [OF i] by (auto simp: dirent_fits_def)
    then have l: "0 < length s" "length s \<le> 255" by (auto simp: validateFileName_def)
    have sum: "sz_add (at i) (length s) = at i + length s" "at i + length s \<le> ?size"
      using at_Suc [OF i] e at_le [of "Suc i"] size assms(3) by (simp_all add: wrap_simps)
    show ?thesis
      using fits l sum fields [OF i] nameLen [OF i] name [OF i] e
      by (auto simp: process_dirent_def Let_def listing_def dest: validateFileName_not_dots)
  qed
  have all: "process_dirents data ?size ?n [i..<?n] as = Done (as @ listing (drop i es))" if "i \<le> ?n" for i as
    using that
  proof (induction "?n - i" arbitrary: i as)
    case 0
    then show ?case by (simp add: listing_def)
  next
    case (Suc k)
    then have i: "i < ?n" by simp
    have "drop i es = es ! i # drop (Suc i) es" using i by (simp add: Cons_nth_drop_Suc)
    then have "listing (drop i es) = listing [es ! i] @ listing (drop (Suc i) es)" by (simp add: listing_def)
    then show ?case using Suc i step [OF i] by (simp add: upt_conv_Cons)
  qed
  have first: "dirent_nameOffset data 0 = 12 * ?n" using assms(1) fields(2) [of 0] by (simp add: at_def)
  have first_fits: "dirent_fits (es ! 0)" using assms(1,2) by simp
  have "0 < name_len (es ! 0)"
    using first_fits by (auto simp: dirent_fits_def validateFileName_def split: prod.splits)
  moreover have "at 0 = 12 * ?n" "at (Suc 0) = at 0 + name_len (es ! 0)"
    using at_Suc [of 0] assms(1) by (auto simp: at_def)
  ultimately have "12 * ?n < ?size" using at_le [of "Suc 0"] size by linarith
  then show ?thesis
    using first assms(1) all [of 0 acc] by (simp add: processDirectoryBlock_def data_def [symmetric] Let_def Suc_le_eq)
qed

text \<open>
  C26. A directory block gives back the entries that were written to it: what the reader makes of the
  encoding of a list of entries, padded with zero bytes to the size of the block, is these entries
  without \<open>.\<close> and \<open>..\<close>, after those found before.
\<close>

theorem dir_block_roundtrip:
  assumes "es \<noteq> []" "\<forall>e \<in> set es. dirent_fits e" "length (write_dir_block es) + pad \<le> 4096"
  shows "processDirectoryBlock (write_dir_block es @ replicate pad 0 @ rest) (length (write_dir_block es) + pad) acc =
    Done (acc @ listing es)"
  by (rule processDirectoryBlock_write [OF assms])

lemma dir_block_roundtrip_witness:
  "processDirectoryBlock (write_dir_block [(36, ''.'', 2), (37, ''a'', 1)] @ [0, 0]) 28 [] =
     Done [\<lparr>e_inode = 37, e_fileName = ''a'', e_fileType = FT_regular\<rparr>]"
  using dir_block_roundtrip [of "[(36, ''.'', 2), (37, ''a'', 1)]" 2 "[]" "[]"]
  by (simp add: dirent_fits_def validateFileName_def write_dir_block_def dirent_names_def listing_def convert_fileType_def
      numeral_2_eq_2)

subsection \<open>Breadth first\<close>

text \<open>
  The abstract traversal: a queue of directories with their paths, and all entries with their paths in
  the order they are visited.  \<open>ls\<close> lists a directory; a queue has a visit when the tree below it is
  finite.
\<close>

definition subdirs :: "path \<Rightarrow> dir_entry list \<Rightarrow> (path \<times> nat) list" where
  "subdirs p es = map (\<lambda>e. (path_append p (e_fileName e), e_inode e)) (filter (\<lambda>e. e_fileType e = FT_directory) es)"

definition entry_paths :: "path \<Rightarrow> dir_entry list \<Rightarrow> (path \<times> dir_entry) list" where
  "entry_paths p es = map (\<lambda>e. (path_append p (e_fileName e), e)) es"

inductive visits :: "(nat \<Rightarrow> dir_entry list) \<Rightarrow> (path \<times> nat) list \<Rightarrow> (path \<times> dir_entry) list \<Rightarrow> bool" for ls where
  visits_Nil: "visits ls [] []"
| visits_Cons: "visits ls (q @ subdirs p (ls d)) out \<Longrightarrow> visits ls ((p, d) # q) (entry_paths p (ls d) @ out)"

inductive_cases visits_NilE: "visits ls [] out"
inductive_cases visits_ConsE: "visits ls ((p, d) # q) out"

text \<open>
  The image holds the tree \<open>ls\<close> below the directories \<open>D\<close>: each of them is read, whatever the buffer
  holds, and the inodes of all entries are valid.
\<close>

definition holds_tree :: "environment \<Rightarrow> erofs_superblock \<Rightarrow> nat set \<Rightarrow> (nat \<Rightarrow> dir_entry list) \<Rightarrow> bool" where
  "holds_tree env sb D ls \<longleftrightarrow>
     (\<forall>d \<in> D. (\<forall>buf. length buf = 4096 \<longrightarrow>
         (\<exists>b. readDirectory env sb d buf = Done (Some (ls d), b) \<and> length b = 4096)) \<and>
       (\<forall>e \<in> set (ls d). (\<forall>h. inode_valid (load_inode (env_read env) sb (e_inode e) h)) \<and>
          (e_fileType e = FT_directory \<longrightarrow> e_inode e \<in> D)))"

text \<open>An entry that was handed out for a visited one, without advice: its path, and the inode the directory entry names.\<close>

fun is_entry :: "environment \<Rightarrow> erofs_superblock \<Rightarrow> erofs_entry \<Rightarrow> path \<times> dir_entry \<Rightarrow> bool" where
  "is_entry env sb y (p, e) \<longleftrightarrow> y_path y = p \<and> y_inode y = load_inode (env_read env) sb (e_inode e) 0"

text \<open>Calling \<open>next\<close> while there is a next entry, at most \<open>n\<close> times.\<close>

fun walk :: "environment \<Rightarrow> nat \<Rightarrow> erofs_reader \<Rightarrow> erofs_entry list \<times> erofs_reader" where
  "walk env 0 s = ([], s)"
| "walk env (Suc n) s =
     (if \<not> hasNext s then ([], s)
      else case next_entry env s of
        Done (Some e, s) \<Rightarrow> (case walk env n s of (es, s) \<Rightarrow> (e # es, s))
      | Done (None, s) \<Rightarrow> ([], s)
      | _ \<Rightarrow> ([], s))"

text \<open>In the middle of a directory: its entries from \<open>i\<close> on are still to come, then the queue.\<close>

definition in_directory :: "erofs_superblock \<Rightarrow> (nat \<Rightarrow> dir_entry list) \<Rightarrow> erofs_reader \<Rightarrow> path \<Rightarrow> nat \<Rightarrow> nat \<Rightarrow> (path \<times> nat) list \<Rightarrow> bool" where
  "in_directory sb ls s p d i q \<longleftrightarrow>
     m_error s = None \<and> m_image s = Some sb \<and> m_currentDir s = ls d \<and> m_currentDirIndex s = i \<and> i < length (ls d) \<and>
     m_dirStack s = (p, d) # q \<and> length (m_dirBlockBuffer s) = 4096 \<and> m_adviceFlags s = 0"

definition finished :: "erofs_reader \<Rightarrow> bool" where
  "finished s \<longleftrightarrow> m_error s = None \<and> m_dirStack s = []"

text \<open>After the last entry of a directory: the walk is over or at the first entry of the next directory.\<close>

definition at_front :: "erofs_superblock \<Rightarrow> (nat \<Rightarrow> dir_entry list) \<Rightarrow> nat set \<Rightarrow> erofs_reader \<Rightarrow> (path \<times> dir_entry) list \<Rightarrow> bool" where
  "at_front sb ls D s out \<longleftrightarrow>
     finished s \<and> out = [] \<or>
     (\<exists>p d r out'. in_directory sb ls s p d 0 r \<and> insert d (snd ` set r) \<subseteq> D \<and>
        visits ls (r @ subdirs p (ls d)) out' \<and> out = entry_paths p (ls d) @ out')"

lemma next_directory_visits:
  assumes "visits ls q out" "holds_tree env sb D ls" "snd ` set q \<subseteq> D"
    and "m_error s = None" "m_image s = Some sb" "m_currentDirIndex s = 0" "length (m_dirBlockBuffer s) = 4096"
    "m_adviceFlags s = 0"
  shows "\<exists>s'. next_directory env sb q s = Done (True, s') \<and> at_front sb ls D s' out"
  using assms
proof (induction q out arbitrary: s rule: visits.induct)
  case visits_Nil
  then show ?case by (auto simp: finished_def at_front_def)
next
  case (visits_Cons q p d out)
  have d: "d \<in> D" "snd ` set q \<subseteq> D" using visits_Cons.prems(2) by auto
  obtain b where b: "readDirectory env sb d (m_dirBlockBuffer s) = Done (Some (ls d), b)" "length b = 4096"
    using visits_Cons.prems(1,6) d(1) unfolding holds_tree_def by blast
  show ?case
  proof (cases "ls d = []")
    case True
    then have same: "q @ subdirs p (ls d) = q" "entry_paths p (ls d) = []" by (simp_all add: subdirs_def entry_paths_def)
    have "next_directory env sb ((p, d) # q) s = next_directory env sb q (s\<lparr>m_dirBlockBuffer := b\<rparr>)"
      using b True by simp
    then show ?thesis
      using visits_Cons.IH [of "s\<lparr>m_dirBlockBuffer := b\<rparr>"] visits_Cons.prems d(2) b(2) unfolding same by simp
  next
    case False
    define s' where "s' = s\<lparr>m_dirStack := (p, d) # q, m_dirBlockBuffer := b, m_currentDir := ls d\<rparr>"
    have "next_directory env sb ((p, d) # q) s = Done (True, s')" using b False by (simp add: s'_def)
    moreover have "in_directory sb ls s' p d 0 q"
      using visits_Cons.prems b(2) False by (simp add: in_directory_def s'_def)
    ultimately show ?thesis using visits_Cons.hyps d unfolding at_front_def by blast
  qed
qed

lemma no_advice: "inode_hints 0 e = 0"
  by (simp add: inode_hints_def)

lemma next_entry_visits:
  assumes "in_directory sb ls s p d i q" "holds_tree env sb D ls" "insert d (snd ` set q) \<subseteq> D"
    and "visits ls (q @ subdirs p (drop i (ls d))) out"
  shows "\<exists>e s'. next_entry env s = Done (Some e, s') \<and> is_entry env sb e (path_append p (e_fileName (ls d ! i)), ls d ! i) \<and> hasNext s \<and>
    (Suc i < length (ls d) \<and> (\<exists>q'. in_directory sb ls s' p d (Suc i) q' \<and> insert d (snd ` set q') \<subseteq> D \<and>
        visits ls (q' @ subdirs p (drop (Suc i) (ls d))) out) \<or>
     Suc i = length (ls d) \<and> at_front sb ls D s' out)"
proof -
  have s: "m_error s = None" "m_image s = Some sb" "m_currentDir s = ls d" "m_currentDirIndex s = i" "i < length (ls d)"
    "m_dirStack s = (p, d) # q" "length (m_dirBlockBuffer s) = 4096" "m_adviceFlags s = 0"
    using assms(1) by (auto simp: in_directory_def)
  define e where "e = ls d ! i"
  have e: "e \<in> set (ls d)" using s(5) by (simp add: e_def)
  have dD: "d \<in> D" using assms(3) by simp
  have valid: "inode_valid (load_inode (env_read env) sb (e_inode e) h)" for h
    using assms(2) e dD unfolding holds_tree_def by blast
  have sub: "e_fileType e = FT_directory \<Longrightarrow> e_inode e \<in> D"
    using assms(2) e dD unfolding holds_tree_def by blast
  define pe where "pe = path_append p (e_fileName e)"
  define q' where "q' = q @ (if e_fileType e = FT_directory then [(pe, e_inode e)] else [])"
  define s1 where "s1 = s\<lparr>m_currentDirIndex := m_currentDirIndex s + 1, m_dirStack := (p, d) # q'\<rparr>"
  define entry where "entry = \<lparr>y_path = pe, y_inode = load_inode (env_read env) sb (e_inode e) (inode_hints (m_adviceFlags s) e)\<rparr>"
  have here: "m_currentDirIndex s < length (m_currentDir s)" "e = m_currentDir s ! m_currentDirIndex s"
    using s by (simp_all add: e_def)
  have q': "insert d (snd ` set q') \<subseteq> D" using assms(3) sub by (auto simp: q'_def)
  have drop: "drop i (ls d) = e # drop (Suc i) (ls d)" using s(5) by (simp add: e_def Cons_nth_drop_Suc)
  have queue: "q @ subdirs p (drop i (ls d)) = q' @ subdirs p (drop (Suc i) (ls d))"
    by (simp add: drop q'_def pe_def subdirs_def)
  have res: "next_entry env s =
      (if Suc i \<ge> length (ls d) then
         bind_outcome (next_directory env sb q' (s1\<lparr>m_currentDir := [], m_currentDirIndex := 0\<rparr>))
           (\<lambda>(ok, s). Done ((if ok then Some entry else None), s))
       else Done (Some entry, s1))"
    using next_entry_eq [OF s(6,1) here(1) s(2) here(2) pe_def q'_def s1_def entry_def] valid s(3,4)
    by (simp add: entry_isValid_def entry_def)
  have more: "hasNext s" using s by (simp add: hasNext_def)
  show ?thesis
  proof (cases "Suc i < length (ls d)")
    case True
    then have "in_directory sb ls s1 p d (Suc i) q'" using s by (simp add: in_directory_def s1_def)
    then show ?thesis using True res more q' assms(4) unfolding queue by (auto simp: entry_def pe_def e_def s(8) no_advice)
  next
    case False
    then have last: "Suc i = length (ls d)" using s(5) by simp
    then have v: "visits ls q' out" using assms(4) unfolding queue by (simp add: subdirs_def)
    obtain s' where s': "next_directory env sb q' (s1\<lparr>m_currentDir := [], m_currentDirIndex := 0\<rparr>) = Done (True, s')" "at_front sb ls D s' out"
      using next_directory_visits [OF v assms(2), of "s1\<lparr>m_currentDir := [], m_currentDirIndex := 0\<rparr>"] q' s
      by (auto simp: s1_def)
    have "next_entry env s = Done (Some entry, s')" using res last s'(1) by simp
    then show ?thesis using s'(2) last more by (auto simp: entry_def pe_def e_def s(8) no_advice)
  qed
qed

lemma walk_visits:
  assumes "holds_tree env sb D ls"
  shows "in_directory sb ls s p d i q \<Longrightarrow> insert d (snd ` set q) \<subseteq> D \<Longrightarrow>
    visits ls (q @ subdirs p (drop i (ls d))) out \<Longrightarrow> n = length (drop i (ls d)) + length out \<Longrightarrow>
    \<exists>es s'. walk env n s = (es, s') \<and> list_all2 (is_entry env sb) es (entry_paths p (drop i (ls d)) @ out) \<and> finished s'"
proof (induction n arbitrary: s p d i q out)
  case 0
  then show ?case by (simp add: in_directory_def)
next
  case (Suc n)
  obtain e s' where e: "next_entry env s = Done (Some e, s')" "is_entry env sb e (path_append p (e_fileName (ls d ! i)), ls d ! i)" "hasNext s"
    and more: "Suc i < length (ls d) \<and> (\<exists>q'. in_directory sb ls s' p d (Suc i) q' \<and> insert d (snd ` set q') \<subseteq> D \<and>
        visits ls (q' @ subdirs p (drop (Suc i) (ls d))) out) \<or>
     Suc i = length (ls d) \<and> at_front sb ls D s' out"
    using next_entry_visits [OF Suc.prems(1) assms Suc.prems(2,3)] by blast
  have i: "i < length (ls d)" using Suc.prems(1) by (simp add: in_directory_def)
  have drop: "drop i (ls d) = ls d ! i # drop (Suc i) (ls d)" using i by (simp add: Cons_nth_drop_Suc)
  have rest: "\<exists>es t. walk env n s' = (es, t) \<and> list_all2 (is_entry env sb) es (entry_paths p (drop (Suc i) (ls d)) @ out) \<and> finished t"
    using more unfolding at_front_def
  proof (elim disjE conjE exE)
    fix q' assume "in_directory sb ls s' p d (Suc i) q'" "insert d (snd ` set q') \<subseteq> D"
      "visits ls (q' @ subdirs p (drop (Suc i) (ls d))) out"
    from Suc.IH [OF this] Suc.prems(4) drop show ?thesis by simp
  next
    assume "Suc i = length (ls d)" "finished s'" "out = []"
    moreover have "walk env n s' = ([], s')" using \<open>finished s'\<close> by (cases n) (simp_all add: finished_def hasNext_def)
    ultimately show ?thesis by (simp add: entry_paths_def)
  next
    fix p' d' q' out' assume "Suc i = length (ls d)" and q: "in_directory sb ls s' p' d' 0 q'" "insert d' (snd ` set q') \<subseteq> D"
      "visits ls (q' @ subdirs p' (ls d')) out'" "out = entry_paths p' (ls d') @ out'"
    then have "n = length (drop 0 (ls d')) + length out'" using Suc.prems(4) drop by (simp add: entry_paths_def)
    from Suc.IH [OF q(1,2) _ this] q(3,4) \<open>Suc i = length (ls d)\<close> show ?thesis by (simp add: entry_paths_def)
  qed
  then obtain es t where "walk env n s' = (es, t)" "list_all2 (is_entry env sb) es (entry_paths p (drop (Suc i) (ls d)) @ out)" "finished t"
    by blast
  then show ?case using e by (simp add: drop entry_paths_def del: is_entry.simps)
qed

subsection \<open>Directories of an image\<close>

text \<open>The content of a directory: blocks of 4096 bytes, the last one shorter, each the encoding of some entries.\<close>

fun dir_blocks :: "bytes \<Rightarrow> raw_dirent list list \<Rightarrow> bool" where
  "dir_blocks bs [] \<longleftrightarrow> bs = []"
| "dir_blocks bs (es # ess) \<longleftrightarrow>
     es \<noteq> [] \<and> (\<forall>e \<in> set es. dirent_fits e) \<and>
     take 4096 bs = write_dir_block es @ replicate (length (take 4096 bs) - length (write_dir_block es)) 0 \<and>
     dir_blocks (drop 4096 bs) ess"

lemma write_dir_block_length: "es \<noteq> [] \<Longrightarrow> 12 \<le> length (write_dir_block es)"
  by (cases es) (auto simp: write_dir_block_def)

lemma inode_ready_reader:
  "inode_ready dec c sb i i' \<Longrightarrow> inode_ready dec c sb i i'' \<Longrightarrow>
     inode_ready dec c sb i (i'\<lparr>i_inodeReader := i_inodeReader i''\<rparr>)"
  by (auto simp: inode_ready_def)

lemma read_dir_blocks_intact:
  assumes "inode_intact dec c sb i" "length c < 2 ^ 63" "lz4_ok lib dec" "m_blockSize sb = 4096"
    "length (inode_bytes dec c sb i) = i_size i"
    and env: "env = \<lparr>env_lz4 = lib, env_read = image_rd c, env_size = length c\<rparr>"
  shows "dir_blocks (drop off (inode_bytes dec c sb i)) ess \<Longrightarrow> inode_ready dec c sb i i' \<Longrightarrow> length buf = 4096 \<Longrightarrow>
    \<exists>b. read_dir_blocks env sb i' off buf acc = Done (Some (acc @ concat (map listing ess)), b) \<and> length b = 4096"
proof (induction ess arbitrary: off i' buf acc)
  case Nil
  then have "i_size i' \<le> off" using assms(5) inode_same_fields(1) [of i' i] by (simp add: inode_ready_def)
  then show ?case using Nil.prems(3) by (subst read_dir_blocks.simps) simp
next
  case (Cons es ess)
  let ?B = "inode_bytes dec c sb i"
  define k where "k = min 4096 (i_size i - off)"
  have size: "i_size i' = i_size i" using Cons.prems(2) inode_same_fields(1) [of i' i] by (simp add: inode_ready_def)
  have blk: "slice off k ?B = take 4096 (drop off ?B)" using assms(5) by (simp add: slice_def k_def min_def)
  have len: "length (take 4096 (drop off ?B)) = k" using assms(5) by (simp add: k_def)
  have es: "es \<noteq> []" "\<forall>e \<in> set es. dirent_fits e"
    "slice off k ?B = write_dir_block es @ replicate (k - length (write_dir_block es)) 0"
    "dir_blocks (drop (off + 4096) ?B) ess"
    using Cons.prems(1) unfolding dir_blocks.simps blk len by (auto simp: add.commute)
  have wlen: "12 \<le> length (write_dir_block es)" "length (write_dir_block es) \<le> k"
    using write_dir_block_length [OF es(1)] arg_cong [OF es(3), of length] blk len by auto
  then have off: "off < i_size i" "12 \<le> k" by (auto simp: k_def)
  obtain i'' where i'': "inode_read lib (image_rd c) (length c) sb i' (take k buf) off = Done (int k, slice off k ?B, i'')"
      "inode_ready dec c sb i i''"
    using inode_read_ready [OF assms(1) Cons.prems(2) assms(2,3), of "take k buf" off] Cons.prems(3)
    by (auto simp: k_def Let_def)
  let ?pad = "k - length (write_dir_block es)" and ?rest = "drop k buf"
  have block: "processDirectoryBlock (slice off k ?B @ ?rest) k acc = Done (acc @ listing es)"
  proof -
    have n: "length (write_dir_block es) + ?pad = k" "k \<le> 4096" using wlen by (simp_all add: k_def)
    show ?thesis
      using processDirectoryBlock_write [OF es(1,2), of ?pad ?rest acc] unfolding n(1) es(3) append_assoc using n(2) by blast
  qed
  have step: "read_dir_blocks env sb i' off buf acc =
      read_dir_blocks env sb (i'\<lparr>i_inodeReader := i_inodeReader i''\<rparr>) (off + k) (slice off k ?B @ ?rest) (acc @ listing es)"
    by (subst read_dir_blocks.simps)
       (use off i''(1) block wlen in \<open>simp add: env size assms(4) k_def [symmetric]\<close>)
  have rest: "dir_blocks (drop (off + k) ?B) ess"
    using es(4) assms(5) by (cases "i_size i - off \<le> 4096") (auto simp: k_def min_def)
  have "length (slice off k ?B @ ?rest) = 4096" using blk len Cons.prems(3) by (simp add: k_def)
  from Cons.IH [OF rest inode_ready_reader [OF Cons.prems(2) i''(2)] this, of "acc @ listing es"]
  show ?case unfolding step by simp
qed

text \<open>
  The image \<open>c\<close> holds the tree \<open>T\<close> below the directories \<open>D\<close>: every directory is an intact inode
  whose content encodes its entries, and every entry is the inode of a directory of the tree, of a
  regular file or of a symbolic link.
\<close>

definition image_tree :: "lz4_meaning \<Rightarrow> bytes \<Rightarrow> erofs_superblock \<Rightarrow> nat set \<Rightarrow> (nat \<Rightarrow> raw_dirent list list) \<Rightarrow> bool" where
  "image_tree dec c sb D T \<longleftrightarrow>
     (\<forall>d \<in> D. (let i = load_inode (image_rd c) sb d 0 in
        i_type i = FT_directory \<and> inode_intact dec c sb i \<and> length (inode_bytes dec c sb i) = i_size i \<and>
        dir_blocks (inode_bytes dec c sb i) (T d)) \<and>
      (\<forall>e \<in> set (concat (map listing (T d))).
         inode_valid (load_inode (image_rd c) sb (e_inode e) 0) \<and> (e_fileType e = FT_directory \<longrightarrow> e_inode e \<in> D)))"

lemma process_hints:
  "processDataFormat f (i\<lparr>i_inodeReaderHints := h\<rparr>) = (processDataFormat f i)\<lparr>i_inodeReaderHints := h\<rparr>"
  "processMode m (i\<lparr>i_inodeReaderHints := h\<rparr>) = (processMode m i)\<lparr>i_inodeReaderHints := h\<rparr>"
  "processData sb x (i\<lparr>i_inodeReaderHints := h\<rparr>) = (processData sb x i)\<lparr>i_inodeReaderHints := h\<rparr>"
  by (simp_all add: processDataFormat_def processMode_def processData_def Let_def split: data_format.splits)

lemma process_inode_hints:
  "processCompactInode sb c (i\<lparr>i_inodeReaderHints := h\<rparr>) = (processCompactInode sb c i)\<lparr>i_inodeReaderHints := h\<rparr>"
  "processExtendedInode sb x (i\<lparr>i_inodeReaderHints := h\<rparr>) = (processExtendedInode sb x i)\<lparr>i_inodeReaderHints := h\<rparr>"
proof -
  have commute: "i\<lparr>i_inodeReaderHints := h, i_inodeHeaderSize := k, i_size := n\<rparr> = i\<lparr>i_inodeHeaderSize := k, i_size := n, i_inodeReaderHints := h\<rparr>" for k n
    by simp
  show "processCompactInode sb c (i\<lparr>i_inodeReaderHints := h\<rparr>) = (processCompactInode sb c i)\<lparr>i_inodeReaderHints := h\<rparr>"
    "processExtendedInode sb x (i\<lparr>i_inodeReaderHints := h\<rparr>) = (processExtendedInode sb x i)\<lparr>i_inodeReaderHints := h\<rparr>"
    by (simp_all only: processCompactInode_def processExtendedInode_def Let_def commute process_hints) simp_all
qed

lemma load_inode_hints: "i_type (load_inode rd sb n h) = i_type (load_inode rd sb n h')"
proof -
  have blank: "blank_inode sb n h = (blank_inode sb n 0)\<lparr>i_inodeReaderHints := h\<rparr>" for h
    by (simp add: blank_inode_def)
  have "i_type (load_inode rd sb n h) = i_type (load_inode rd sb n 0)" for h
    unfolding load_inode_def Let_def blank [of h] by (simp add: process_inode_hints split: option.splits)
  then show ?thesis by metis
qed

lemma load_inode_fresh: "i_inodeReader (load_inode rd sb n h) = None"
proof -
  have p: "i_inodeReader (processData sb x (processMode m (processDataFormat f i))) = i_inodeReader i" for sb x m f i
    by (auto simp: processData_def processMode_def processDataFormat_def Let_def split: data_format.splits)
  show ?thesis
    by (auto simp: load_inode_def Let_def processCompactInode_def processExtendedInode_def p blank_inode_def split: option.splits)
qed

lemma image_tree_holds:
  assumes "image_tree dec c sb D T" "length c < 2 ^ 63" "lz4_ok lib dec" "m_blockSize sb = 4096"
  shows "holds_tree \<lparr>env_lz4 = lib, env_read = image_rd c, env_size = length c\<rparr> sb D (\<lambda>d. concat (map listing (T d)))"
  unfolding holds_tree_def
proof (intro ballI conjI allI impI)
  let ?env = "\<lparr>env_lz4 = lib, env_read = image_rd c, env_size = length c\<rparr>"
  fix d and buf :: bytes assume d: "d \<in> D" and buf: "length buf = 4096"
  let ?i = "load_inode (image_rd c) sb d 0"
  have i: "i_type ?i = FT_directory" "inode_intact dec c sb ?i" "length (inode_bytes dec c sb ?i) = i_size ?i"
      "dir_blocks (drop 0 (inode_bytes dec c sb ?i)) (T d)"
    using assms(1) d by (auto simp: image_tree_def Let_def)
  have "inode_ready dec c sb ?i ?i" by (simp add: inode_ready_def load_inode_fresh)
  from read_dir_blocks_intact [where off = 0 and i' = ?i and ess = "T d" and acc = "[]" and buf = buf and env = ?env,
      OF i(2) assms(2-4) i(3) refl i(4) this buf]
  show "\<exists>b. readDirectory ?env sb d buf = Done (Some (concat (map listing (T d))), b) \<and> length b = 4096"
    using i(1) by (simp add: readDirectory_def Let_def)
next
  fix d e h assume "d \<in> D" and e: "e \<in> set (concat (map listing (T d)))"
  then have "inode_valid (load_inode (image_rd c) sb (e_inode e) 0)" using assms(1) unfolding image_tree_def by blast
  then show "inode_valid (load_inode (env_read \<lparr>env_lz4 = lib, env_read = image_rd c, env_size = length c\<rparr>) sb (e_inode e) h)"
    using load_inode_hints [of "image_rd c" sb "e_inode e" h 0] by (simp add: inode_valid_def)
next
  fix d e assume "d \<in> D" "e \<in> set (concat (map listing (T d)))" "e_fileType e = FT_directory"
  then show "e_inode e \<in> D" using assms(1) unfolding image_tree_def by blast
qed

lemma reader_walks_tree_aux:
  assumes image: "img_read (image_rd c) 4096 0 = Some first" "superblock_parse first = Done sb" "m_blockSize sb = 4096" "length c < 2 ^ 63"
    and tree: "image_tree dec c sb D T" "rootInode sb \<in> D" "lz4_ok lib dec"
      "visits (\<lambda>d. concat (map listing (T d))) [(empty_path, rootInode sb)] out"
  shows "\<exists>s0 es s. IErofsReader_create \<lparr>env_lz4 = lib, env_read = image_rd c, env_size = length c\<rparr> = Done s0 \<and>
    walk \<lparr>env_lz4 = lib, env_read = image_rd c, env_size = length c\<rparr> (length out) s0 = (es, s) \<and>
    list_all2 (is_entry \<lparr>env_lz4 = lib, env_read = image_rd c, env_size = length c\<rparr> sb) es out \<and> atEnd s \<and> \<not> hasError s"
proof -
  let ?env = "\<lparr>env_lz4 = lib, env_read = image_rd c, env_size = length c\<rparr>" and ?ls = "\<lambda>d. concat (map listing (T d))"
  let ?root = "rootInode sb"
  have holds: "holds_tree ?env sb D ?ls" by (rule image_tree_holds [OF tree(1) image(4) tree(3) image(3)])
  have "length (replicate 4096 (0 :: byte)) = 4096" by simp
  then obtain b where b: "readDirectory ?env sb ?root (replicate 4096 0) = Done (Some (?ls ?root), b)" "length b = 4096"
    using holds tree(2) unfolding holds_tree_def by blast
  define s0 where "s0 = \<lparr>m_image = Some sb, m_dirBlockBuffer = b, m_error = None,
    m_dirStack = (if ?ls ?root = [] then [] else [(empty_path, ?root)]), m_currentDir = ?ls ?root,
    m_currentDirIndex = 0, m_adviceFlags = 0\<rparr>"
  have create: "IErofsReader_create ?env = Done s0"
    using image b by (simp add: IErofsReader_create_def reader_create_def s0_def Let_def)
  obtain out' where out': "visits ?ls (subdirs empty_path (?ls ?root)) out'" "out = entry_paths empty_path (?ls ?root) @ out'"
    using tree(4) by (elim visits_ConsE) auto
  show ?thesis
  proof (cases "?ls ?root = []")
    case True
    then have "visits ?ls [] out'" using out'(1) by (simp only: True subdirs_def list.map filter.simps)
    then have "out' = []" by (rule visits_NilE)
    then have "out = []" using out'(2) by (simp only: True entry_paths_def list.map append_Nil)
    then show ?thesis using create True by (auto simp: s0_def atEnd_def hasError_def)
  next
    case False
    then have "in_directory sb ?ls s0 empty_path ?root 0 []" using b(2) by (simp add: in_directory_def s0_def)
    from walk_visits [OF holds this, of out' "length out"] tree(2) out' create
    show ?thesis by (auto simp: finished_def atEnd_def hasError_def entry_paths_def)
  qed
qed

text \<open>
  C10. The reader of an image that holds a finite tree hands out its entries in breadth-first order, each
  once, with its path and the inode its directory entry names, and then is at its end without an error.
\<close>

theorem reader_walks_tree:
  assumes image: "img_read (image_rd c) 4096 0 = Some first" "superblock_parse first = Done sb" "m_blockSize sb = 4096" "length c < 2 ^ 63"
    and tree: "image_tree dec c sb D T" "rootInode sb \<in> D" "lz4_ok lib dec"
      "visits (\<lambda>d. concat (map listing (T d))) [(empty_path, rootInode sb)] out"
  shows "\<exists>s0 es s. IErofsReader_create \<lparr>env_lz4 = lib, env_read = image_rd c, env_size = length c\<rparr> = Done s0 \<and>
    walk \<lparr>env_lz4 = lib, env_read = image_rd c, env_size = length c\<rparr> (length out) s0 = (es, s) \<and>
    list_all2 (is_entry \<lparr>env_lz4 = lib, env_read = image_rd c, env_size = length c\<rparr> sb) es out \<and> atEnd s \<and> \<not> hasError s"
  by (rule reader_walks_tree_aux [OF assms])

subsection \<open>A sample image: a root directory with one file\<close>

definition tree_first_block :: bytes where
  "tree_first_block = replicate 1024 0 @ le_bytes 4 EROFS_MAGIC @ le_bytes 4 0 @ le_bytes 4 0 @ [12 :: byte, 0] @ le_bytes 2 0 @
     le_bytes 8 2 @ le_bytes 8 7 @ le_bytes 4 0 @ le_bytes 4 2 @ le_bytes 4 1 @ replicate 3028 0"

definition tree_sb :: erofs_superblock where
  "tree_sb = \<lparr>m_superBlock = \<lparr>s_magic = EROFS_MAGIC, s_checksum = 0, s_featureCompat = 0, s_blockSizeBits = 12,
     s_extensionSlots = 0, s_rootInode = 0, s_inodeCount = 2, s_buildTimeSec = 7, s_buildTimeNSec = 0, s_blocks = 2,
     s_metaBlockAddr = 1, s_featureIncompat = 0\<rparr>, m_blockSize = 4096, m_features = {}\<rparr>"

lemma tree_sb_fields [simp]: "m_blockSize tree_sb = 4096" "rootInode tree_sb = 0" "inodeOffset tree_sb 0 = 4096" "inodeOffset tree_sb 3 = 4192"
  by (simp_all add: tree_sb_def rootInode_def inodeOffset_def sz_add_def sz_mul_def)

lemma length_tree_first_block [simp]: "length tree_first_block = 4096"
  by (simp add: tree_first_block_def)

lemma tree_sb_parse: "superblock_parse tree_first_block = Done tree_sb"
proof -
  have "read_superblock_struct tree_first_block 1024 = m_superBlock tree_sb"
    by (simp add: read_superblock_struct_def le16_at_value le32_at_value le64_at_value)
       (simp add: tree_first_block_def tree_sb_def le_value_le_bytes u8_at_def nth_append slice_def drop_Cons' le_value_zeros)
  then show ?thesis
    by (simp add: superblock_parse_def Let_def checkChecksum_def int_shift_def superblock_features_def has_bit_def)
       (simp add: tree_sb_def)
qed

definition root_entries :: "raw_dirent list" where
  "root_entries = [(0, ''.'', 2), (0, ''..'', 2), (3, ''a'', 1)]"

definition root_inode :: inode_compact where
  "root_inode = \<lparr>ic_format = 4, ic_xattrCount = 0, ic_mode = 0x41ED, ic_size = 40, ic_data = 0, ic_uid = 0, ic_gid = 0\<rparr>"

definition file_inode :: inode_compact where
  "file_inode = \<lparr>ic_format = 4, ic_xattrCount = 0, ic_mode = 0x81A4, ic_size = 2, ic_data = 0, ic_uid = 0, ic_gid = 0\<rparr>"

definition tree_image :: bytes where
  "tree_image = tree_first_block @ write_inode_compact root_inode @ write_dir_block root_entries @ replicate 24 0 @
     write_inode_compact file_inode @ [1, 2]"

lemma length_root_block [simp]: "length (write_dir_block root_entries) = 40"
  by (simp add: write_dir_block_def root_entries_def dirent_names_def)

lemma length_tree_image [simp]: "length tree_image = 4226"
  by (simp add: tree_image_def)

lemma tree_reads:
  "img_read (image_rd tree_image) 4096 0 = Some tree_first_block"
  "img_read (image_rd tree_image) 32 4096 = Some (write_inode_compact root_inode)"
  "img_read (image_rd tree_image) 32 4192 = Some (write_inode_compact file_inode)"
  "slice 4128 40 tree_image = write_dir_block root_entries"
  by (simp_all add: image_rd_read) (simp_all add: tree_image_def)

lemma tree_load:
  "load_inode (image_rd tree_image) tree_sb 0 h =
     (blank_inode tree_sb 0 h)\<lparr>i_inodeHeaderSize := 32, i_dataFormat := FlatInline, i_type := FT_directory, i_size := 40,
       i_mode := 0x41ED, i_modificationTime := (7, 0)\<rparr>"
  "i_type (load_inode (image_rd tree_image) tree_sb 3 h) = FT_regular"
  by (simp_all add: load_inode_def blank_inode_def tree_reads read_write_inode_compact root_inode_def file_inode_def
      inode_compact_fits_def processCompactInode_def processDataFormat_def processMode_def processData_def Let_def)
    (simp_all add: tree_sb_def sz_mul_def)

lemma tree_listing: "listing root_entries = [\<lparr>e_inode = 3, e_fileName = ''a'', e_fileType = FT_regular\<rparr>]"
  by (simp add: listing_def root_entries_def convert_fileType_def)

lemma tree_image_tree: "image_tree copy_meaning tree_image tree_sb {0} (\<lambda>d. [root_entries])"
proof -
  let ?i = "load_inode (image_rd tree_image) tree_sb 0 0"
  have fits: "\<forall>e \<in> set root_entries. dirent_fits e" "root_entries \<noteq> []"
    by (auto simp: root_entries_def dirent_fits_def validateFileName_def)
  have bytes: "inode_bytes copy_meaning tree_image tree_sb ?i = write_dir_block root_entries"
    by (simp add: tree_load inode_bytes_def inode_tail_def blank_inode_def sz_add_def tree_reads)
  moreover have "inode_intact copy_meaning tree_image tree_sb ?i"
    by (simp add: tree_load inode_intact_def inode_tail_def blank_inode_def sz_add_def)
  ultimately show ?thesis
    using fits tree_load(2) [of 0] by (simp add: image_tree_def tree_listing inode_valid_def) (simp add: tree_load blank_inode_def)
qed

definition tree_env :: environment where
  "tree_env = \<lparr>env_lz4 = copy_lz4, env_read = image_rd tree_image, env_size = 4226\<rparr>"

lemma tree_visits:
  "visits (\<lambda>d. concat (map listing [root_entries])) [(empty_path, rootInode tree_sb)]
     [(path_append empty_path ''a'', \<lparr>e_inode = 3, e_fileName = ''a'', e_fileType = FT_regular\<rparr>)]"
  using visits_Cons [of "\<lambda>d. concat (map listing [root_entries])" "[]" empty_path 0 "[]"] visits_Nil
  by (simp add: tree_listing subdirs_def entry_paths_def)

lemma reader_walks_tree_witness:
  "\<exists>s0 es s. IErofsReader_create tree_env = Done s0 \<and> walk tree_env (Suc 0) s0 = (es, s) \<and>
     map y_path es = [\<lparr>p_absolute = False, p_names = [''a''], p_trailing = False\<rparr>] \<and> atEnd s \<and> \<not> hasError s"
proof -
  let ?out = "[(path_append empty_path ''a'', \<lparr>e_inode = 3, e_fileName = ''a'', e_fileType = FT_regular\<rparr>)]"
  have p: "path_append empty_path ''a'' = \<lparr>p_absolute = False, p_names = [''a''], p_trailing = False\<rparr>"
    by (simp add: path_append_def)
  have env: "tree_env = \<lparr>env_lz4 = copy_lz4, env_read = image_rd tree_image, env_size = length tree_image\<rparr>"
    by (simp add: tree_env_def)
  have "rootInode tree_sb \<in> {0}" "length tree_image < 2 ^ 63" by simp_all
  from reader_walks_tree [OF tree_reads(1) tree_sb_parse tree_sb_fields(1) this(2) tree_image_tree this(1) copy_lz4_ok tree_visits]
  obtain s0 es s where w: "IErofsReader_create tree_env = Done s0" "walk tree_env (length ?out) s0 = (es, s)"
    "list_all2 (is_entry tree_env tree_sb) es ?out" "atEnd s \<and> \<not> hasError s"
    unfolding env by blast
  have "map y_path es = [path_append empty_path ''a'']" using w(3) by (auto simp: list_all2_Cons2)
  then show ?thesis using w(1,2,4) unfolding p by simp
qed

lemma walk_paths_safe_witness:
  "\<exists>s0 e s'. reader_create tree_env = Done s0 \<and> hasNext s0 \<and> m_currentDirIndex s0 < length (m_currentDir s0) \<and>
     next_entry tree_env s0 = Done (Some e, s') \<and> verifyPackagePath (y_path e)"
proof -
  have "holds_tree tree_env tree_sb {0} (\<lambda>d. concat (map listing [root_entries]))"
    using image_tree_holds [OF tree_image_tree, of copy_lz4] copy_lz4_ok by (simp add: tree_env_def)
  moreover have "length (replicate 4096 (0 :: byte)) = 4096" by simp
  ultimately obtain b where b: "readDirectory tree_env tree_sb 0 (replicate 4096 0) = Done (Some (listing root_entries), b)"
    unfolding holds_tree_def by fastforce
  define s0 where "s0 = \<lparr>m_image = Some tree_sb, m_dirBlockBuffer = b, m_error = None, m_dirStack = [(empty_path, 0)],
    m_currentDir = listing root_entries, m_currentDirIndex = 0, m_adviceFlags = 0\<rparr>"
  have create: "reader_create tree_env = Done s0"
    using b by (simp add: reader_create_def s0_def Let_def tree_env_def tree_reads tree_sb_parse tree_listing)
  obtain e s' where n: "next_entry tree_env s0 = Done (Some e, s')"
    using tree_load(2) [of "inode_hints 0 (hd (listing root_entries))"]
    by (simp add: next_entry_def s0_def tree_listing Let_def entry_isValid_def inode_valid_def tree_env_def)
  have "hasNext s0" by (simp add: s0_def hasNext_def)
  moreover have "reader_calls tree_env s0 [] = Some s0" by simp
  note walk_paths_safe [OF create this]
  ultimately show ?thesis using create n by blast
qed

end
