(* ===== verification/ErofsFaults.thy ===== *)
theory ErofsFaults
  imports ErofsWalk
begin

section \<open>EROFS images that do not fit\<close>

text \<open>
  What the EROFS reader makes of images that are damaged or that a dm-verity check refuses to read:
  behaviour of the walk the other theories exclude by their assumptions.
\<close>

subsection \<open>Directories that cannot be read\<close>

text \<open>A directory of one plain block that the image does not deliver.\<close>

definition unreadable_directory :: "environment \<Rightarrow> erofs_superblock \<Rightarrow> nat \<Rightarrow> bool" where
  "unreadable_directory env sb n \<longleftrightarrow>
     (let i = load_inode (env_read env) sb n 0 in
      i_type i = FT_directory \<and> i_dataFormat i = FlatPlain \<and> sizeof_dirent \<le> i_size i \<and> i_size i \<le> m_blockSize sb \<and>
      img_read (env_read env) (i_size i) (sz_add (i_rawBlockAddress i) 0) = None)"

lemma load_inode_reader [simp]: "i_inodeReader (load_inode rd sb n h) = None"
  by (simp add: load_inode_fresh)

text \<open>
  A directory whose block cannot be read, for instance because it fails its dm-verity check, is
  not an error: its entries are what the refused read left in the block buffer, and behind that what the
  block read before it left there.
\<close>

theorem refused_directory_block:
  assumes "unreadable_directory env sb n" "length buf = m_blockSize sb"
    and i: "i = load_inode (env_read env) sb n 0"
    and w: "w = take (i_size i) (img_refused (env_read env) (i_size i) (sz_add (i_rawBlockAddress i) 0))"
    and entries: "processDirectoryBlock (w @ drop (length w) buf) (i_size i) [] = Done entries"
  shows "readDirectory env sb n buf = Done (Some entries, w @ drop (length w) buf)"
proof -
  let ?b = "w @ drop (length w) buf"
  have f: "i_type i = FT_directory" "i_dataFormat i = FlatPlain" "sizeof_dirent \<le> i_size i" "i_size i \<le> m_blockSize sb"
    "img_read (env_read env) (i_size i) (sz_add (i_rawBlockAddress i) 0) = None"
    using assms(1) by (simp_all add: unreadable_directory_def Let_def i)
  define r where "r = PlainReader (plain_new (i_rawBlockAddress i) (m_blockSize sb) (i_size i) (i_inodeReaderHints i))"
  have len: "length w \<le> i_size i" by (simp add: w)
  have part: "w @ drop (length w) (take (i_size i) buf) = take (i_size i) ?b"
    using len f(4) assms(2) by (simp add: drop_take)
  have "file_read (env_read env) (take (i_size i) buf) (sz_add (i_rawBlockAddress i) 0) = (False, take (i_size i) ?b)"
    using f(4,5) assms(2) part by (simp add: ErofsData.file_read_def min_absorb2 w Let_def)
  then have "reader_read (env_lz4 env) (env_read env) r (take (i_size i) buf) 0 = Done (False, take (i_size i) ?b, r)"
    using f assms(2) by (simp add: r_def plain_read_def plain_new_def min_absorb2)
  moreover have "i_inodeReader i = None" by (simp add: i load_inode_fresh)
  ultimately have rd: "env_inode_read env sb i (take (i_size i) buf) 0 = Done (-1, take (i_size i) ?b, i\<lparr>i_inodeReader := Some r\<rparr>)"
    using f assms(2) by (auto simp: inode_read_def make_reader_def r_def Let_def min_absorb2)
  have buf': "take (i_size i) ?b @ drop (i_size i) buf = ?b"
    using len append_take_drop_id [of "i_size i - length w" "drop (length w) buf"] by simp
  have over: "read_dir_blocks env sb (i\<lparr>i_inodeReader := Some r\<rparr>) (i_size i) ?b entries = Done (Some entries, ?b)"
    by (subst read_dir_blocks.simps) simp
  have "read_dir_blocks env sb i 0 buf [] = Done (Some entries, ?b)"
    using f(3,4) rd assms(2) entries over buf'
    by (subst read_dir_blocks.simps) (simp add: min_absorb2 Let_def)
  then show ?thesis using f(1) by (simp add: readDirectory_def Let_def i)
qed

text \<open>
  An image in which the inode 3 is a directory whose block lies outside the image.  The refused read
  leaves a directory block in the buffer that lists \<open>d\<close>, and this is what the directory holds then.
\<close>

definition loop_entries :: "raw_dirent list" where
  "loop_entries = [(0, ''.'', 2), (0, ''..'', 2), (3, ''d'', 2)]"

definition loop_inode :: inode_compact where
  "loop_inode = \<lparr>ic_format = 0, ic_xattrCount = 0, ic_mode = 0x41ED, ic_size = 40, ic_data = 99, ic_uid = 0, ic_gid = 0\<rparr>"

definition loop_image :: bytes where
  "loop_image = tree_first_block @ write_inode_compact root_inode @ write_dir_block loop_entries @ replicate 24 0 @
     write_inode_compact loop_inode"

lemma length_loop_block [simp]: "length (write_dir_block loop_entries) = 40"
  by (simp add: write_dir_block_def loop_entries_def dirent_names_def)

lemma length_loop_image [simp]: "length loop_image = 4224"
  by (simp add: loop_image_def)

definition loop_reader :: image_read where
  "loop_reader = \<lparr>img_read = img_read (image_rd loop_image), img_refused = (\<lambda>_ _. write_dir_block loop_entries)\<rparr>"

lemma loop_reads:
  "img_read loop_reader 32 4192 = Some (write_inode_compact loop_inode)"
  "img_read loop_reader 40 (sz_add 405504 0) = None"
  by (simp add: loop_reader_def image_rd_read, simp add: loop_image_def) (simp add: loop_reader_def image_rd_read sz_add_def)

lemma loop_load:
  "load_inode loop_reader tree_sb 3 h =
     (blank_inode tree_sb 3 h)\<lparr>i_inodeHeaderSize := 32, i_dataFormat := FlatPlain, i_type := FT_directory, i_size := 40,
       i_mode := 0x41ED, i_rawBlockAddress := 405504, i_modificationTime := (7, 0)\<rparr>"
  by (simp_all add: load_inode_def blank_inode_def loop_reads read_write_inode_compact loop_inode_def
      inode_compact_fits_def processCompactInode_def processDataFormat_def processMode_def processData_def Let_def)
    (simp_all add: tree_sb_def sz_mul_def)

lemma refused_directory_block_witness:
  "\<exists>env. env_read env = loop_reader \<and>
     readDirectory env tree_sb 3 (replicate 4096 0) =
       Done (Some [\<lparr>e_inode = 3, e_fileName = ''d'', e_fileType = FT_directory\<rparr>], write_dir_block loop_entries @ replicate 4056 0)"
proof -
  let ?env = "\<lparr>env_lz4 = copy_lz4, env_read = loop_reader, env_size = 4224\<rparr>"
  have u: "unreadable_directory ?env tree_sb 3"
    by (simp add: unreadable_directory_def loop_load Let_def) (simp add: loop_reads)
  have fits: "\<forall>e \<in> set loop_entries. dirent_fits e" "loop_entries \<noteq> []"
    by (auto simp: loop_entries_def dirent_fits_def validateFileName_def)
  have "processDirectoryBlock (write_dir_block loop_entries @ replicate 4056 0) 40 [] = Done (listing loop_entries)"
    using processDirectoryBlock_write [of loop_entries 0 "replicate 4056 0" "[]"] fits by simp
  moreover have "listing loop_entries = [\<lparr>e_inode = 3, e_fileName = ''d'', e_fileType = FT_directory\<rparr>]"
    by (simp add: listing_def loop_entries_def convert_fileType_def)
  moreover have "drop (length (write_dir_block loop_entries)) (replicate 4096 0) = replicate 4056 (0 :: byte)" by simp
  ultimately have "processDirectoryBlock (write_dir_block loop_entries @ drop (length (write_dir_block loop_entries)) (replicate 4096 0)) 40 [] =
      Done [\<lparr>e_inode = 3, e_fileName = ''d'', e_fileType = FT_directory\<rparr>]" by presburger
  moreover have "write_dir_block loop_entries = take (i_size (load_inode (env_read ?env) tree_sb 3 0))
      (img_refused (env_read ?env) (i_size (load_inode (env_read ?env) tree_sb 3 0))
        (sz_add (i_rawBlockAddress (load_inode (env_read ?env) tree_sb 3 0)) 0))"
    by (simp add: loop_load) (simp add: loop_reader_def)
  moreover have "length (replicate 4096 (0 :: byte)) = m_blockSize tree_sb" by (simp add: tree_sb_def)
  moreover have "i_size (load_inode (env_read ?env) tree_sb 3 0) = 40" by (simp add: loop_load)
  ultimately have "readDirectory ?env tree_sb 3 (replicate 4096 0) =
      Done (Some [\<lparr>e_inode = 3, e_fileName = ''d'', e_fileType = FT_directory\<rparr>],
        write_dir_block loop_entries @ drop (length (write_dir_block loop_entries)) (replicate 4096 0))"
    by (intro refused_directory_block [OF u _ refl]) simp_all
  then have "readDirectory ?env tree_sb 3 (replicate 4096 0) =
      Done (Some [\<lparr>e_inode = 3, e_fileName = ''d'', e_fileType = FT_directory\<rparr>], write_dir_block loop_entries @ replicate 4056 0)"
    by simp
  then show ?thesis by (intro exI [of _ ?env]) simp
qed

end
