(* ===== verification/ArchiveEntries.thy ===== *)
theory ArchiveEntries
  imports PackageChecks
begin

section \<open>Entries of an archive\<close>

text \<open>
  \<open>lib/archive/ArchiveEntries.cpp\<close>: what the archive reader hands out, a directory, a symlink or a
  regular file, how each is read and written to a directory, and how its content is checked against
  the signed digest.  libarchive is a parameter of the model: a record of the functions of
  \<open>ILibarchiveReader\<close> on a state of its own, about which nothing is assumed.  SHA-256 is the
  parameter \<open>H\<close>.
\<close>

subsection \<open>The archive library\<close>

text \<open>
  The header of an entry and the answers of the library: \<open>HeaderFailed\<close> is every result that is
  neither \<open>ARCHIVE_OK\<close> with an entry nor \<open>ARCHIVE_EOF\<close>.  The offset of a block is an \<open>int64_t\<close>.
\<close>

record archive_entry =
  ae_pathname :: "string option"
  ae_filetype :: mode
  ae_perm :: mode
  ae_mtime :: int
  ae_size :: int
  ae_symlink :: "string option"

datatype header_answer = HeaderEof | HeaderFailed | HeaderOk archive_entry
datatype block_answer = BlockEof | BlockFailed | BlockOk bytes "64 word"

record 'a libarchive =
  nextHeader :: "'a \<Rightarrow> header_answer \<times> 'a"
  readData :: "nat \<Rightarrow> 'a \<Rightarrow> bytes option \<times> 'a"
  readDataBlock :: "'a \<Rightarrow> block_answer \<times> 'a"

abbreviation AE_IFMT :: mode where "AE_IFMT \<equiv> 0xF000"
abbreviation AE_IFREG :: mode where "AE_IFREG \<equiv> 0x8000"
abbreviation AE_IFLNK :: mode where "AE_IFLNK \<equiv> 0xA000"
abbreviation AE_IFDIR :: mode where "AE_IFDIR \<equiv> 0x4000"

text \<open>\<open>MAX_PACKAGE_ENTRY_SIZE\<close>: 128 MiB.\<close>

abbreviation MAX_PACKAGE_ENTRY_SIZE :: nat where "MAX_PACKAGE_ENTRY_SIZE \<equiv> 134217728"

subsection \<open>The digest builder\<close>

text \<open>
  A builder is the sequence of bytes it was fed.  Without data it is fed zeros, in chunks of 512.
\<close>

fun feed_zeros :: "nat \<Rightarrow> bytes \<Rightarrow> bytes" where
  "feed_zeros len builder =
     (if len = 0 then builder
      else let chunk = min len 512 in feed_zeros (len - chunk) (builder @ replicate chunk 0))"

declare feed_zeros.simps [simp del]

lemma feed_zeros_eq: "feed_zeros len builder = builder @ replicate len 0"
proof (induction len builder rule: feed_zeros.induct)
  case (1 len builder)
  show ?case
    using 1 by (subst feed_zeros.simps) (auto simp: Let_def simp flip: replicate_add)
qed

definition builder_update :: "bytes option \<Rightarrow> nat \<Rightarrow> bytes \<Rightarrow> bytes" where
  "builder_update data len builder =
     (if len = 0 then builder
      else case data of None \<Rightarrow> feed_zeros len builder | Some d \<Rightarrow> builder @ take len d)"

definition finalise :: "(bytes \<Rightarrow> bytes) \<Rightarrow> bytes \<Rightarrow> bytes" where
  "finalise H builder = H builder"

lemma builder_update_data [simp]: "builder_update (Some d) (length d) builder = builder @ d"
  by (simp add: builder_update_def)

lemma builder_update_zeros [simp]: "builder_update None n builder = builder @ replicate n 0"
  by (simp add: builder_update_def feed_zeros_eq)

subsection \<open>The entries\<close>

record base_entry =
  be_path :: path
  be_type :: PackageChecks.file_type
  be_size :: nat
  be_perms :: perms
  be_modTime :: int
  be_uid :: nat
  be_gid :: nat

record symlink_entry = base_entry +
  se_target :: string
  se_offset :: nat

record file_entry = base_entry +
  fe_digest :: "bytes option"
  fe_index :: nat
  fe_builder :: "bytes option"
  fe_eof :: bool

datatype package_entry = DirectoryEntry base_entry | SymlinkEntry symlink_entry | FileEntry file_entry

definition kDefaultDirectoryPerms :: perms where
  "kDefaultDirectoryPerms =
     owner_read OR owner_write OR owner_exec OR group_read OR group_exec OR others_read OR others_exec"

definition kDefaultSymLinkPerms :: perms where
  "kDefaultSymLinkPerms = owner_read OR owner_write OR group_read OR others_read"

definition kDefaultExecutableFilePerms :: perms where
  "kDefaultExecutableFilePerms =
     owner_read OR owner_write OR owner_exec OR group_read OR group_exec OR others_read OR others_exec"

definition kDefaultFilePerms :: perms where
  "kDefaultFilePerms = owner_read OR owner_write OR group_read OR others_read"

text \<open>The state an entry shares with its reader.\<close>

record 'a shared_read_state =
  rs_archive :: 'a
  rs_error :: "error_code option"
  rs_endOfArchive :: bool
  rs_entryIndex :: nat

text \<open>A directory entry for the components of a path up to and including one of them.\<close>

definition directory_create :: "string list \<Rightarrow> int \<Rightarrow> base_entry" where
  "directory_create parts modTime =
     \<lparr>be_path = foldl path_append empty_path parts, be_type = TypeDirectory, be_size = 0,
      be_perms = kDefaultDirectoryPerms, be_modTime = modTime, be_uid = 0, be_gid = 0\<rparr>"

definition symlink_create ::
  "(bytes \<Rightarrow> bytes) \<Rightarrow> path \<Rightarrow> string option \<Rightarrow> int \<Rightarrow> bytes option \<Rightarrow> error_code + symlink_entry" where
  "symlink_create H path target modTime digest =
     (case target of
        None \<Rightarrow> Inl PackageInvalidEntry
      | Some t \<Rightarrow>
          if t = [] then Inl PackageInvalidEntry
          else if digest \<noteq> None \<and> the digest \<noteq> H (of_string t) then Inl PackageSignatureInvalid
          else Inr \<lparr>be_path = path, be_type = TypeSymlink, be_size = length t, be_perms = kDefaultSymLinkPerms,
            be_modTime = modTime, be_uid = 0, be_gid = 0, se_target = t, se_offset = 0\<rparr>)"

definition symlink_read :: "nat \<Rightarrow> symlink_entry \<Rightarrow> bytes \<times> symlink_entry" where
  "symlink_read sz s =
     (if se_offset s \<ge> length (se_target s) then ([], s)
      else let len = min sz (length (se_target s) - se_offset s) in
        (of_string (slice (se_offset s) len (se_target s)), s\<lparr>se_offset := se_offset s + len\<rparr>))"

definition file_create ::
  "'a shared_read_state \<Rightarrow> path \<Rightarrow> int \<Rightarrow> bool \<Rightarrow> int \<Rightarrow> bytes option \<Rightarrow> error_code + file_entry" where
  "file_create rs path sz executable modTime digest =
     (let sz = max sz 0 in
      if sz > int MAX_PACKAGE_ENTRY_SIZE then Inl PackageContentsInvalid
      else Inr \<lparr>be_path = path, be_type = TypeRegular, be_size = nat sz,
        be_perms = (if executable then kDefaultExecutableFilePerms else kDefaultFilePerms),
        be_modTime = modTime, be_uid = 0, be_gid = 0, fe_digest = digest,
        fe_index = rs_entryIndex rs, fe_builder = None, fe_eof = False\<rparr>)"

subsection \<open>Reading a file\<close>

text \<open>\<open>None\<close> is a reader that was destroyed.\<close>

definition checkReadState :: "'a shared_read_state option \<Rightarrow> file_entry \<Rightarrow> error_code + 'a shared_read_state" where
  "checkReadState readState f =
     (case readState of
        None \<Rightarrow> Inl InternalError
      | Some rs \<Rightarrow>
          (case rs_error rs of
             Some e \<Rightarrow> Inl e
           | None \<Rightarrow> if rs_endOfArchive rs \<or> rs_entryIndex rs \<noteq> fe_index f then Inl InternalError else Inr rs))"

text \<open>The first argument is whether the caller gave a buffer.  A left result is \<open>-1\<close> with the error.\<close>

definition file_entry_read ::
  "'a libarchive \<Rightarrow> (bytes \<Rightarrow> bytes) \<Rightarrow> bool \<Rightarrow> nat \<Rightarrow> 'a shared_read_state option \<Rightarrow> file_entry \<Rightarrow>
   (error_code + bytes) \<times> 'a shared_read_state option \<times> file_entry" where
  "file_entry_read lib H buf sz readState f =
     (if \<not> buf then (Inl InvalidArgument, readState, f)
      else case checkReadState readState f of
        Inl e \<Rightarrow> (Inl e, readState, f)
      | Inr rs \<Rightarrow>
          if fe_eof f then (Inr [], readState, f)
          else (case readData lib sz (rs_archive rs) of
            (None, a) \<Rightarrow>
              (Inl PackageContentsInvalid, Some (rs\<lparr>rs_archive := a, rs_error := Some PackageContentsInvalid\<rparr>), f)
          | (Some d, a) \<Rightarrow>
              let rs = rs\<lparr>rs_archive := a\<rparr>;
                  f = f\<lparr>fe_eof := (length d = 0)\<rparr> in
              (case fe_digest f of
                 None \<Rightarrow> (Inr d, Some rs, f)
               | Some digest \<Rightarrow>
                   let builder = builder_update (Some d) (length d) (case fe_builder f of None \<Rightarrow> [] | Some b \<Rightarrow> b);
                       f = f\<lparr>fe_builder := Some builder\<rparr> in
                   if fe_eof f \<and> finalise H builder \<noteq> digest then (Inl PackageSignatureInvalid, Some rs, f)
                   else (Inr d, Some rs, f))))"

subsection \<open>Writing entries to a directory\<close>

text \<open>\<open>pwrite\<close> on a file: a hole is filled with zeros, and writing nothing changes nothing.\<close>

definition pwrite :: "bytes \<Rightarrow> bytes \<Rightarrow> nat \<Rightarrow> bytes" where
  "pwrite out d off =
     (if d = [] then out
      else take off (out @ replicate (off - length out) 0) @ d @ drop (off + length d) out)"

text \<open>
  What the system calls answer while an entry is written.  \<open>wc_pwrite\<close> is the number of bytes that
  are written of a block.
\<close>

record write_calls =
  wc_stat :: stat_result
  wc_check :: syscalls
  wc_create_ok :: bool
  wc_pwrite :: "bytes \<Rightarrow> nat \<Rightarrow> nat"
  wc_write_mode_ok :: bool
  wc_mode_ok :: bool
  wc_unlink_ok :: bool

text \<open>The changes to the target, in their order; a directory is made with a mode.\<close>

datatype write_effect =
  Prepared fs_effect | DirectoryMade mode | LinkMade string | FileCreated | FileContent bytes
  | ModeSet mode | TimeSet int | FileRemoved | FileClosed

text \<open>
  The loop over the blocks of a file.  Its state is the content of the output file, the builder, the
  offset after the last block and the library.  The sum of the offset and the size of a block is one
  of \<open>uint64_t\<close>.
\<close>

type_synonym 'a write_state = "bytes \<times> bytes \<times> int \<times> 'a"

definition write_block ::
  "'a libarchive \<Rightarrow> (bytes \<Rightarrow> nat \<Rightarrow> nat) \<Rightarrow> nat \<Rightarrow> 'a write_state \<Rightarrow>
   ('a write_state, (error_code + bytes \<times> int) \<times> bytes \<times> 'a) step" where
  "write_block lib pw maxSize = (\<lambda>(out, builder, currentOffset, a).
     (case readDataBlock lib a of
        (BlockEof, a) \<Rightarrow> Return (Inr (builder, currentOffset), out, a)
      | (BlockFailed, a) \<Rightarrow> Return (Inl PackageContentsInvalid, out, a)
      | (BlockOk d off, a) \<Rightarrow>
          let blockOffset = sint off; blockEnd = nat ((blockOffset + int (length d)) mod int SIZE_LIMIT) in
          if length d > MAX_PACKAGE_ENTRY_SIZE \<or> blockEnd > MAX_PACKAGE_ENTRY_SIZE then
            Return (Inl PackageContentsInvalid, out, a)
          else if blockOffset < currentOffset then Return (Inl PackageContentsInvalid, out, a)
          else if blockEnd > maxSize then Return (Inl PackageContentsInvalid, out, a)
          else
            let builder = (if blockOffset > currentOffset
                           then builder_update None (nat (blockOffset - currentOffset)) builder else builder);
                builder = builder_update (Some d) (length d) builder;
                written = pw d (nat blockOffset);
                out = pwrite out (take written d) (nat blockOffset) in
            if written \<noteq> length d then Return (Inl PackageContentsInvalid, out, a)
            else Continue (out, builder, blockOffset + int (length d), a)))"

definition write_blocks ::
  "'a libarchive \<Rightarrow> (bytes \<Rightarrow> nat \<Rightarrow> nat) \<Rightarrow> nat \<Rightarrow> 'a write_state \<Rightarrow>
   ((error_code + bytes \<times> int) \<times> bytes \<times> 'a) option" where
  "write_blocks lib pw maxSize = loop (write_block lib pw maxSize)"

definition doFileWrite ::
  "'a libarchive \<Rightarrow> (bytes \<Rightarrow> bytes) \<Rightarrow> write_calls \<Rightarrow> nat \<Rightarrow> file_entry \<Rightarrow> 'a \<Rightarrow>
   ((error_code + nat) \<times> write_effect list \<times> 'a) option" where
  "doFileWrite lib H sys maxSize f a =
     (case write_blocks lib (wc_pwrite sys) maxSize ([], [], 0, a) of
        None \<Rightarrow> None
      | Some (Inl e, out, a) \<Rightarrow> Some (Inl e, [FileContent out], a)
      | Some (Inr (builder, currentOffset), out, a) \<Rightarrow>
          if fe_digest f \<noteq> None \<and> the (fe_digest f) \<noteq> finalise H builder then
            Some (Inl PackageContentsInvalid, [FileContent out], a)
          else if \<not> wc_write_mode_ok sys then Some (Inl SystemCallFailed, [FileContent out], a)
          else
            let mode = (if be_perms f AND owner_exec = owner_exec then 0x1ED else 0x1A4) in
            Some (Inr (nat currentOffset), [FileContent out, ModeSet mode], a))"

definition file_writeTo ::
  "'a libarchive \<Rightarrow> (bytes \<Rightarrow> bytes) \<Rightarrow> write_calls \<Rightarrow> nat \<Rightarrow> extract_options \<Rightarrow> 'a shared_read_state option \<Rightarrow> file_entry \<Rightarrow>
   ((error_code + nat) \<times> write_effect list \<times> 'a shared_read_state option) option" where
  "file_writeTo lib H sys maxSize options readState f =
     (case checkReadState readState f of
        Inl e \<Rightarrow> Some (Inl e, [], readState)
      | Inr rs \<Rightarrow>
          (case checkExtraction (wc_check sys) (wc_stat sys) TypeRegular (be_perms f) options of
             (Inl e, prep) \<Rightarrow> Some (Inl (FileError e), map Prepared prep, readState)
           | (Inr SkipEntry, prep) \<Rightarrow> Some (Inr 0, map Prepared prep, readState)
           | (Inr ExtractEntry, prep) \<Rightarrow>
               if \<not> wc_create_ok sys then Some (Inl SystemCallFailed, map Prepared prep, readState)
               else (case doFileWrite lib H sys maxSize f (rs_archive rs) of
                 None \<Rightarrow> None
               | Some (r, effects, a) \<Rightarrow>
                   let (r, after) =
                     (case r of
                        Inl e \<Rightarrow> (Inl e, [])
                      | Inr n \<Rightarrow>
                          (if wc_mode_ok sys then (Inr n, [ModeSet (modeFromFsPerms (be_perms f)), TimeSet (be_modTime f)])
                           else (Inl SystemCallFailed, [TimeSet (be_modTime f)])));
                     removed = (if isl r \<and> wc_unlink_ok sys then [FileRemoved] else []) in
                   Some (r, map Prepared prep @ [FileCreated] @ effects @ after @ removed @ [FileClosed],
                     Some (rs\<lparr>rs_archive := a\<rparr>)))))"

text \<open>The mode of every directory the code makes, which is not that of the entry.\<close>

abbreviation mode_0755 :: mode where "mode_0755 \<equiv> 0x1ED"

definition directory_writeTo ::
  "write_calls \<Rightarrow> extract_options \<Rightarrow> base_entry \<Rightarrow> (error_code + nat) \<times> write_effect list" where
  "directory_writeTo sys options d =
     (case checkExtraction (wc_check sys) (wc_stat sys) TypeDirectory (be_perms d) options of
        (Inl e, prep) \<Rightarrow> (Inl (FileError e), map Prepared prep)
      | (Inr SkipEntry, prep) \<Rightarrow> (Inr 0, map Prepared prep)
      | (Inr ExtractEntry, prep) \<Rightarrow>
          if \<not> wc_create_ok sys then (Inl SystemCallFailed, map Prepared prep)
          else (Inr 0, map Prepared prep @ [DirectoryMade mode_0755, TimeSet (be_modTime d)]))"

definition symlink_writeTo ::
  "write_calls \<Rightarrow> nat \<Rightarrow> extract_options \<Rightarrow> symlink_entry \<Rightarrow> (error_code + nat) \<times> write_effect list" where
  "symlink_writeTo sys maxSize options s =
     (if length (se_target s) > maxSize then (Inl PackageInvalidEntry, [])
      else case checkExtraction (wc_check sys) (wc_stat sys) TypeSymlink (be_perms s) options of
        (Inl e, prep) \<Rightarrow> (Inl (FileError e), map Prepared prep)
      | (Inr SkipEntry, prep) \<Rightarrow> (Inr (length (se_target s)), map Prepared prep)
      | (Inr ExtractEntry, prep) \<Rightarrow>
          if \<not> wc_create_ok sys then (Inl SystemCallFailed, map Prepared prep)
          else (Inr (length (se_target s)), map Prepared prep @ [LinkMade (se_target s), TimeSet (be_modTime s)]))"

section \<open>What reading and writing a file guarantee\<close>

subsection \<open>Reading\<close>

text \<open>
  A number of reads of one entry, each with whatever the shared state then is: between them the
  reader may move on, fail, or serve other entries.
\<close>

fun file_reads ::
  "'a libarchive \<Rightarrow> (bytes \<Rightarrow> bytes) \<Rightarrow> ('a shared_read_state option \<times> nat) list \<Rightarrow> file_entry \<Rightarrow> (error_code + bytes) list" where
  "file_reads lib H [] f = []"
| "file_reads lib H ((rs, n) # calls) f =
     (case file_entry_read lib H True n rs f of (r, _, f) \<Rightarrow> r # file_reads lib H calls f)"

text \<open>What an entry remembers of the bytes it has delivered.\<close>

definition read_so_far :: "(bytes \<Rightarrow> bytes) \<Rightarrow> bytes \<Rightarrow> file_entry \<Rightarrow> bytes \<Rightarrow> bool" where
  "read_so_far H digest f acc \<longleftrightarrow>
     fe_digest f = Some digest \<and> (case fe_builder f of None \<Rightarrow> [] | Some b \<Rightarrow> b) = acc \<and> (fe_eof f \<longrightarrow> H acc = digest)"

lemma file_read_so_far:
  assumes "read_so_far H digest f acc" "file_entry_read lib H True n rs f = (Inr d, rs', f')"
  shows "read_so_far H digest f' (acc @ d)" "d = [] \<Longrightarrow> fe_eof f'"
  using assms
  by (auto simp: file_entry_read_def read_so_far_def Let_def finalise_def split: sum.splits if_splits option.splits prod.splits)

lemma file_reads_so_far:
  "read_so_far H digest f acc \<Longrightarrow> file_reads lib H calls f = map Inr ds @ [Inr []] \<Longrightarrow> H (acc @ concat ds) = digest"
proof (induction lib H calls f arbitrary: acc ds rule: file_reads.induct)
  case (2 lib H s n calls f)
  obtain r s' f' where rd: "file_entry_read lib H True n s f = (r, s', f')" using prod_cases3 by blast
  have eq: "r # file_reads lib H calls f' = map Inr ds @ [Inr []]" using 2(3) rd by simp
  then obtain d where r: "r = Inr d" by (cases ds) auto
  note so_far = file_read_so_far [OF 2(2) rd [unfolded r]]
  show ?case
  proof (cases ds)
    case Nil
    then show ?thesis using eq so_far r by (simp add: read_so_far_def)
  next
    case (Cons x xs)
    then have "file_reads lib H calls f' = map Inr xs @ [Inr []]" "x = d" using eq r by simp_all
    then show ?thesis using 2(1) [OF rd [symmetric] refl so_far(1)] Cons by simp
  qed
qed simp

text \<open>
  C15. A client that reads a signed file until a read returns nothing, without an error on the way, has
  been given bytes whose hash is the signed digest, whatever libarchive answers and whatever happens
  to the reader between the reads.
\<close>

theorem file_reads_verified:
  assumes "fe_digest f = Some digest" "fe_builder f = None" "\<not> fe_eof f"
    and "file_reads lib H calls f = map Inr ds @ [Inr []]"
  shows "H (concat ds) = digest"
proof -
  have "read_so_far H digest f []" using assms by (simp add: read_so_far_def)
  from file_reads_so_far [OF this assms(4)] show ?thesis by simp
qed

text \<open>
  The failed verification of a file is reported once only: the read that comes after it returns
  nothing and no error, which is how a verified file ends.
\<close>

theorem failed_digest_forgotten:
  assumes "file_entry_read lib H True n (Some rs) f = (Inl PackageSignatureInvalid, rs', f')" "rs_error rs = None"
  shows "file_entry_read lib H True m rs' f' = (Inr [], rs', f')"
proof -
  have c: "checkReadState (Some rs) f = Inr rs"
    using assms by (cases "checkReadState (Some rs) f") (auto simp: file_entry_read_def checkReadState_def split: if_splits)
  then have eof: "\<not> fe_eof f" using assms(1) by (auto simp: file_entry_read_def)
  obtain r a where rd: "readData lib n (rs_archive rs) = (r, a)" by fastforce
  with assms(1) c eof obtain d where r: "r = Some d" by (cases r) (auto simp: file_entry_read_def)
  with assms(1) c eof rd have st: "rs' = Some (rs\<lparr>rs_archive := a\<rparr>)" "fe_eof f'" "fe_index f' = fe_index f"
    by (auto simp: file_entry_read_def Let_def split: option.splits if_splits)
  then have "checkReadState rs' f' = Inr (rs\<lparr>rs_archive := a\<rparr>)"
    using c by (auto simp: checkReadState_def split: option.splits if_splits)
  then show ?thesis using st by (simp add: file_entry_read_def)
qed

text \<open>A library with one entry, held as the pieces its data is returned in.\<close>

definition pieces_lib :: "bytes list libarchive" where
  "pieces_lib =
     \<lparr>nextHeader = (\<lambda>a. (HeaderEof, a)),
      readData = (\<lambda>n a. (case a of [] \<Rightarrow> (Some [], []) | d # ds \<Rightarrow> (Some (take n d), ds))),
      readDataBlock = (\<lambda>a. (case a of [] \<Rightarrow> (BlockEof, []) | d # ds \<Rightarrow> (BlockOk d 0, ds)))\<rparr>"

definition sample_file :: "bytes option \<Rightarrow> file_entry" where
  "sample_file digest =
     \<lparr>be_path = path_of_string ''f'', be_type = TypeRegular, be_size = 2, be_perms = kDefaultFilePerms, be_modTime = 0,
      be_uid = 0, be_gid = 0, fe_digest = digest, fe_index = 1, fe_builder = None, fe_eof = False\<rparr>"

definition sample_state :: "'a \<Rightarrow> 'a shared_read_state" where
  "sample_state a = \<lparr>rs_archive = a, rs_error = None, rs_endOfArchive = False, rs_entryIndex = 1\<rparr>"

lemma file_reads_verified_witness:
  "file_reads pieces_lib rev [(Some (sample_state [[1, 2]]), 9), (Some (sample_state []), 9)] (sample_file (Some [2, 1])) =
     map Inr [[1, 2]] @ [Inr []] \<and> rev (concat [[1 :: byte, 2]]) = [2, 1]"
proof -
  have "file_reads pieces_lib rev [(Some (sample_state [[1, 2]]), 9), (Some (sample_state []), 9)] (sample_file (Some [2, 1])) =
     map Inr [[1, 2]] @ [Inr []]"
    by (simp add: file_entry_read_def checkReadState_def sample_state_def sample_file_def pieces_lib_def Let_def
        builder_update_def finalise_def)
  moreover from file_reads_verified [OF _ _ _ this] have "rev (concat [[1 :: byte, 2]]) = [2, 1]"
    by (simp add: sample_file_def)
  ultimately show ?thesis by blast
qed

lemma failed_digest_forgotten_witness:
  "\<exists>rs' f'. file_entry_read pieces_lib rev True 9 (Some (sample_state [])) (sample_file (Some [7])) =
       (Inl PackageSignatureInvalid, rs', f') \<and>
     file_entry_read pieces_lib rev True 9 rs' f' = (Inr [], rs', f')"
proof -
  obtain rs' f' where r: "file_entry_read pieces_lib rev True 9 (Some (sample_state [])) (sample_file (Some [7])) =
      (Inl PackageSignatureInvalid, rs', f')"
    by (simp add: file_entry_read_def checkReadState_def sample_state_def sample_file_def pieces_lib_def Let_def
        builder_update_def finalise_def)
  moreover have "rs_error (sample_state ([] :: bytes list)) = None" by (simp add: sample_state_def)
  ultimately show ?thesis using failed_digest_forgotten by blast
qed

text \<open>A read of no bytes ends the entry: the data that follows is never delivered, without an error.\<close>

lemma zero_size_read_ends_entry:
  assumes "checkReadState (Some rs) f = Inr rs" "readData lib 0 (rs_archive rs) = (Some [], a)" "fe_digest f = None" "\<not> fe_eof f"
  shows "file_reads lib H [(Some rs, 0), (Some rs, n)] f = [Inr [], Inr []]"
  using assms by (simp add: file_entry_read_def checkReadState_def split: if_splits option.splits)

subsection \<open>Writing\<close>

text \<open>The blocks of an entry end after at most a number of answers.\<close>

fun blocks_end :: "'a libarchive \<Rightarrow> nat \<Rightarrow> 'a \<Rightarrow> bool" where
  "blocks_end lib 0 a = False"
| "blocks_end lib (Suc n) a =
     (case readDataBlock lib a of (BlockOk _ _, a) \<Rightarrow> blocks_end lib n a | _ \<Rightarrow> True)"

text \<open>One round of the loop: it goes on only with a block inside the bounds that was written.\<close>

lemma write_block_Continue:
  "write_block lib pw maxSize (out, builder, cur, a) = Continue s \<longleftrightarrow>
     (\<exists>d off a'. readDataBlock lib a = (BlockOk d off, a') \<and> cur \<le> sint off \<and> length d \<le> MAX_PACKAGE_ENTRY_SIZE \<and>
        nat ((sint off + int (length d)) mod int SIZE_LIMIT) \<le> min MAX_PACKAGE_ENTRY_SIZE maxSize \<and>
        pw d (nat (sint off)) = length d \<and>
        s = (pwrite out d (nat (sint off)),
             (if sint off > cur then builder @ replicate (nat (sint off - cur)) 0 else builder) @ d,
             sint off + int (length d), a'))"
  by (cases "readDataBlock lib a"; cases "fst (readDataBlock lib a)") (auto simp: write_block_def Let_def)

lemma write_block_Return_Inr:
  "write_block lib pw maxSize (out, builder, cur, a) = Return (Inr (b, c), out', a') \<Longrightarrow> b = builder \<and> c = cur \<and> out' = out"
  by (cases "readDataBlock lib a"; cases "fst (readDataBlock lib a)") (auto simp: write_block_def Let_def split: if_splits)

lemma write_blocks_returns:
  assumes "blocks_end lib n a"
  shows "\<exists>r. write_blocks lib pw maxSize (out, builder, cur, a) = Some r"
proof -
  let ?I = "\<lambda>(s :: 'a write_state). \<exists>n. blocks_end lib n (snd (snd (snd s)))"
  let ?m = "\<lambda>(s :: 'a write_state). LEAST n. blocks_end lib n (snd (snd (snd s)))"
  show ?thesis unfolding write_blocks_def
  proof (rule loop_terminates [where I = ?I and m = ?m])
    fix s s' :: "'a write_state"
    assume I: "?I s" and step: "write_block lib pw maxSize s = Continue s'"
    obtain out builder cur a where s: "s = (out, builder, cur, a)" using prod_cases4 by blast
    obtain k where k: "?m s = k" "blocks_end lib k a" using I LeastI_ex [of "\<lambda>n. blocks_end lib n a"] by (auto simp: s)
    obtain d off a' where a': "readDataBlock lib a = (BlockOk d off, a')" "snd (snd (snd s')) = a'"
      using step by (auto simp: s write_block_Continue)
    obtain j where j: "k = Suc j" using k(2) by (cases k) auto
    then have e: "blocks_end lib j a'" using k(2) a'(1) by simp
    then have "?m s' \<le> j" by (simp add: a'(2) Least_le)
    then show "?I s' \<and> ?m s' < ?m s" using e a'(2) j k(1) by auto
  qed (use assms in auto)
qed

lemma pwrite_past:
  "length out \<le> off \<Longrightarrow> d \<noteq> [] \<Longrightarrow> pwrite out d off = out @ replicate (off - length out) 0 @ d"
  by (simp add: pwrite_def)

text \<open>
  While blocks are written: the builder was fed the file as written so far, and zeros up to the
  offset after the last block where that block was empty.
\<close>

definition written_ok :: "nat \<Rightarrow> bytes \<Rightarrow> bytes \<Rightarrow> int \<Rightarrow> bool" where
  "written_ok maxSize out builder cur \<longleftrightarrow>
     0 \<le> cur \<and> length out \<le> nat cur \<and> builder = out @ replicate (nat cur - length out) 0 \<and>
     nat cur \<le> maxSize \<and> nat cur \<le> MAX_PACKAGE_ENTRY_SIZE"

lemma sint_64_upper: "sint (w :: 64 word) < 9223372036854775808"
  using sint_lt [of w] by simp

lemma block_end_small:
  assumes "0 \<le> off" "off < 9223372036854775808" "n \<le> MAX_PACKAGE_ENTRY_SIZE"
  shows "nat ((off + int n) mod int SIZE_LIMIT) = nat off + n"
proof -
  have "off + int n < int SIZE_LIMIT" using assms by simp
  then have "(off + int n) mod int SIZE_LIMIT = off + int n" using assms by (intro mod_pos_pos_trivial) auto
  then show ?thesis using assms by simp
qed

lemma written_ok_step:
  assumes ok: "written_ok maxSize out builder cur" and off: "cur \<le> off" "off < 9223372036854775808"
    and fits: "length d \<le> MAX_PACKAGE_ENTRY_SIZE" "nat ((off + int (length d)) mod int SIZE_LIMIT) \<le> MAX_PACKAGE_ENTRY_SIZE"
      "nat ((off + int (length d)) mod int SIZE_LIMIT) \<le> maxSize"
  shows "written_ok maxSize (pwrite out d (nat off))
    ((if off > cur then builder @ replicate (nat (off - cur)) 0 else builder) @ d) (off + int (length d))"
proof -
  have nn: "0 \<le> off" using ok off by (simp add: written_ok_def)
  have bounds: "nat off + length d \<le> maxSize" "nat off + length d \<le> MAX_PACKAGE_ENTRY_SIZE"
    using fits block_end_small [OF nn off(2) fits(1)] by simp_all
  have len: "length out \<le> nat off" using ok off nat_mono [OF off(1)] by (simp add: written_ok_def)
  have b: "(if off > cur then builder @ replicate (nat (off - cur)) 0 else builder) = out @ replicate (nat off - length out) 0"
    using ok off by (auto simp: written_ok_def simp flip: replicate_add)
  show ?thesis
  proof (cases "d = []")
    case True
    then show ?thesis using b nn bounds len by (simp add: written_ok_def pwrite_def)
  next
    case False
    then show ?thesis using b nn bounds len pwrite_past [OF len False] by (simp add: written_ok_def nat_add_distrib)
  qed
qed

lemma write_blocks_ok:
  assumes "write_blocks lib pw maxSize (out, builder, cur, a) = Some (Inr (builder', cur'), out', a')"
    "written_ok maxSize out builder cur"
  shows "written_ok maxSize out' builder' cur'"
proof -
  have "\<exists>s. (case s of (out, builder, cur, a) \<Rightarrow> written_ok maxSize out builder cur) \<and>
      write_block lib pw maxSize s = Return (Inr (builder', cur'), out', a')"
  proof (rule loop_invariant [OF assms(1) [unfolded write_blocks_def]])
    fix s s' :: "'a write_state"
    assume I: "case s of (out, builder, cur, a) \<Rightarrow> written_ok maxSize out builder cur" and step: "write_block lib pw maxSize s = Continue s'"
    obtain out builder cur a where s: "s = (out, builder, cur, a)" using prod_cases4 by blast
    then show "case s' of (out, builder, cur, a) \<Rightarrow> written_ok maxSize out builder cur"
      using step I by (auto simp only: s write_block_Continue prod.case min.bounded_iff intro!: written_ok_step sint_64_upper)
  qed (use assms in simp)
  then show ?thesis by (auto dest: write_block_Return_Inr)
qed

text \<open>What the changes leave at the target, if it is a file.\<close>

fun file_left :: "write_effect list \<Rightarrow> bytes option \<Rightarrow> bytes option" where
  "file_left [] st = st"
| "file_left (Prepared (Chmod m) # es) st = file_left es st"
| "file_left (Prepared p # es) st = file_left es None"
| "file_left (FileCreated # es) st = file_left es (Some [])"
| "file_left (FileContent out # es) st = file_left es (Some out)"
| "file_left (FileRemoved # es) st = file_left es None"
| "file_left (e # es) st = file_left es st"

lemma file_left_append: "file_left (es @ fs) st = file_left fs (file_left es st)"
  by (induction es st rule: file_left.induct) auto

lemma doFileWrite_ok:
  assumes "doFileWrite lib H sys maxSize f a = Some (Inr n, effects, a')"
  shows "\<exists>out mode. effects = [FileContent out, ModeSet mode] \<and> length out \<le> n \<and> n \<le> min maxSize MAX_PACKAGE_ENTRY_SIZE \<and>
    (\<forall>digest. fe_digest f = Some digest \<longrightarrow> H (out @ replicate (n - length out) 0) = digest)"
proof -
  obtain r out' a1 where w: "write_blocks lib (wc_pwrite sys) maxSize ([], [], 0, a) = Some (r, out', a1)"
    using assms by (auto simp: doFileWrite_def split: option.splits)
  with assms obtain b c where r: "r = Inr (b, c)" by (cases r) (auto simp: doFileWrite_def)
  have "written_ok maxSize [] [] 0" by (simp add: written_ok_def)
  note ok = write_blocks_ok [OF w [unfolded r] this, unfolded written_ok_def]
  show ?thesis
    using assms w r ok by (cases "fe_digest f") (auto simp: doFileWrite_def finalise_def Let_def split: if_splits)
qed

lemma doFileWrite_effects:
  "doFileWrite lib H sys maxSize f a = Some (r, effects, a') \<Longrightarrow>
   \<exists>out es. effects = FileContent out # es \<and> (\<forall>st. file_left es st = st)"
  by (auto simp: doFileWrite_def Let_def split: option.splits sum.splits prod.splits if_splits)

lemma doFileWrite_returns:
  assumes "blocks_end lib k a"
  shows "\<exists>r. doFileWrite lib H sys maxSize f a = Some r"
proof -
  obtain r where "write_blocks lib (wc_pwrite sys) maxSize ([], [], 0, a) = Some r"
    using write_blocks_returns [OF assms] by blast
  then show ?thesis
    by (cases r; cases "fst r") (auto simp: doFileWrite_def Let_def)
qed

text \<open>
  C14. Extracting a file returns as soon as libarchive's blocks end.  When it succeeds and the file was
  written, the content left at the target, filled up with zeros to the size that is returned, has the
  signed hash, and the size is within the limits.  When it fails after the file was created nothing
  is left of it, provided it can be removed.
\<close>

theorem extracted_file_verified:
  assumes "checkReadState (Some rs) f = Inr rs" "blocks_end lib k (rs_archive rs)"
  shows "\<exists>r effects rs'. file_writeTo lib H sys maxSize options (Some rs) f = Some (r, effects, rs') \<and>
    (case r of
       Inr n \<Rightarrow> FileCreated \<in> set effects \<longrightarrow>
         (\<exists>out. file_left effects before = Some out \<and> length out \<le> n \<and> n \<le> min maxSize MAX_PACKAGE_ENTRY_SIZE \<and>
            (\<forall>digest. fe_digest f = Some digest \<longrightarrow> H (out @ replicate (n - length out) 0) = digest))
     | Inl e \<Rightarrow> FileCreated \<in> set effects \<longrightarrow> wc_unlink_ok sys \<longrightarrow> file_left effects before = None)"
proof -
  obtain c prep where c: "checkExtraction (wc_check sys) (wc_stat sys) TypeRegular (be_perms f) options = (c, prep)" by fastforce
  obtain r effects a where w: "doFileWrite lib H sys maxSize f (rs_archive rs) = Some (r, effects, a)"
    using doFileWrite_returns [OF assms(2)] by (metis prod_cases3)
  show ?thesis
  proof (cases "c = Inr ExtractEntry \<and> wc_create_ok sys")
    case False
    then show ?thesis
      using assms(1) c by (cases c; cases "projr c") (auto simp: file_writeTo_def)
  next
    case True
    show ?thesis
    proof (cases r)
      case (Inl e)
      then show ?thesis
        using assms(1) c True w doFileWrite_effects [OF w] by (auto simp: file_writeTo_def file_left_append)
    next
      case (Inr n)
      from doFileWrite_ok [OF w [unfolded Inr]] obtain out mode where
        "effects = [FileContent out, ModeSet mode]" "length out \<le> n" "n \<le> min maxSize MAX_PACKAGE_ENTRY_SIZE"
        "\<forall>digest. fe_digest f = Some digest \<longrightarrow> H (out @ replicate (n - length out) 0) = digest" by blast
      then show ?thesis
        using assms(1) c True w Inr by (auto simp: file_writeTo_def file_left_append Let_def)
    qed
  qed
qed

text \<open>
  A file as the blocks libarchive returns it in: in ascending order, none of them empty, with holes
  between them that stand for zeros.
\<close>

fun laid_out :: "nat \<Rightarrow> (bytes \<times> nat) list \<Rightarrow> bool" where
  "laid_out cur [] = True"
| "laid_out cur ((d, off) # bs) \<longleftrightarrow> cur \<le> off \<and> d \<noteq> [] \<and> laid_out (off + length d) bs"

fun sparse_bytes :: "nat \<Rightarrow> (bytes \<times> nat) list \<Rightarrow> bytes" where
  "sparse_bytes cur [] = []"
| "sparse_bytes cur ((d, off) # bs) = replicate (off - cur) 0 @ d @ sparse_bytes (off + length d) bs"

fun holds_blocks :: "'a libarchive \<Rightarrow> (bytes \<times> nat) list \<Rightarrow> 'a \<Rightarrow> bool" where
  "holds_blocks lib [] a \<longleftrightarrow> fst (readDataBlock lib a) = BlockEof"
| "holds_blocks lib ((d, off) # bs) a \<longleftrightarrow>
     fst (readDataBlock lib a) = BlockOk d (word_of_nat off) \<and> holds_blocks lib bs (snd (readDataBlock lib a))"

lemma sint_small: "off < 9223372036854775808 \<Longrightarrow> sint (word_of_nat off :: 64 word) = int off"
  by (simp add: signed_of_nat signed_take_bit_eq_if_positive bit_iff_odd take_bit_int_eq_self)

lemma write_blocks_laid_out:
  "holds_blocks lib bs a \<Longrightarrow> laid_out (length out) bs \<Longrightarrow>
   length (out @ sparse_bytes (length out) bs) \<le> min maxSize MAX_PACKAGE_ENTRY_SIZE \<Longrightarrow> (\<And>d off. pw d off = length d) \<Longrightarrow>
   \<exists>a'. write_blocks lib pw maxSize (out, out, int (length out), a) =
     Some (Inr (out @ sparse_bytes (length out) bs, int (length (out @ sparse_bytes (length out) bs))), out @ sparse_bytes (length out) bs, a')"
proof (induction bs arbitrary: out a)
  case Nil
  obtain a' where "readDataBlock lib a = (BlockEof, a')" using Nil by (cases "readDataBlock lib a") auto
  then show ?case by (simp add: write_blocks_def loop_Return write_block_def)
next
  case (Cons b bs)
  obtain d off where b: "b = (d, off)" by fastforce
  obtain a' where a': "readDataBlock lib a = (BlockOk d (word_of_nat off), a')" "holds_blocks lib bs a'"
    using Cons.prems(1) b by (cases "readDataBlock lib a") auto
  let ?out = "out @ replicate (off - length out) 0 @ d"
  have lay: "length out \<le> off" "d \<noteq> []" "laid_out (off + length d) bs" using Cons.prems(2) b by simp_all
  have all: "out @ sparse_bytes (length out) (b # bs) = ?out @ sparse_bytes (length ?out) bs" using b lay by simp
  have len: "length ?out = off + length d" using lay by simp
  have fits: "off + length d \<le> min maxSize MAX_PACKAGE_ENTRY_SIZE" using Cons.prems(3) len unfolding all by simp
  then have off: "sint (word_of_nat off :: 64 word) = int off" by (intro sint_small) simp
  have "write_block lib pw maxSize (out, out, int (length out), a) = Continue (?out, ?out, int (length ?out), a')"
    using a' off fits lay Cons.prems(4) block_end_small [of "int off" "length d"]
    by (auto simp: write_block_Continue pwrite_past simp flip: of_nat_diff)
  then have "write_blocks lib pw maxSize (out, out, int (length out), a) = write_blocks lib pw maxSize (?out, ?out, int (length ?out), a')"
    unfolding write_blocks_def by (rule loop_Continue)
  moreover have "laid_out (length ?out) bs" using lay(3) len by simp
  moreover have "length (?out @ sparse_bytes (length ?out) bs) \<le> min maxSize MAX_PACKAGE_ENTRY_SIZE"
    using Cons.prems(3) unfolding all .
  ultimately show ?case unfolding all using Cons.IH [OF a'(2), of ?out, OF _ _ Cons.prems(4)] by metis
qed

text \<open>
  C19. A signed file whose blocks libarchive returns in order, within the limits, is extracted in full
  when nothing is at the target and no system call fails: its bytes, with the holes filled, are what
  is left there, and their number is the result.
\<close>

theorem signed_file_extracts:
  assumes "checkReadState (Some rs) f = Inr rs" "holds_blocks lib bs (rs_archive rs)" "laid_out 0 bs"
    and "length (sparse_bytes 0 bs) \<le> min maxSize MAX_PACKAGE_ENTRY_SIZE"
    and "fe_digest f = None \<or> fe_digest f = Some (H (sparse_bytes 0 bs))"
    and "wc_stat sys = StatNoEntry" "wc_create_ok sys" "\<And>d off. wc_pwrite sys d off = length d" "wc_write_mode_ok sys" "wc_mode_ok sys"
  shows "\<exists>effects rs'. file_writeTo lib H sys maxSize options (Some rs) f = Some (Inr (length (sparse_bytes 0 bs)), effects, rs') \<and>
    file_left effects None = Some (sparse_bytes 0 bs)"
proof -
  have c: "checkExtraction (wc_check sys) (wc_stat sys) TypeRegular (be_perms f) options = (Inr ExtractEntry, [])"
    using assms(6) by (simp add: checkExtraction_def)
  obtain a where w: "write_blocks lib (wc_pwrite sys) maxSize ([], [], 0, rs_archive rs) =
      Some (Inr (sparse_bytes 0 bs, int (length (sparse_bytes 0 bs))), sparse_bytes 0 bs, a)"
    using write_blocks_laid_out [OF assms(2), of "[]" maxSize "wc_pwrite sys"] assms(3,4,8) by auto
  from assms(5) have d: "\<not> (fe_digest f \<noteq> None \<and> the (fe_digest f) \<noteq> finalise H (sparse_bytes 0 bs))"
    by (auto simp: finalise_def)
  show ?thesis
    using assms(1,7,9,10) c w d by (simp add: file_writeTo_def doFileWrite_def Let_def file_left_append)
qed

text \<open>The system calls of an undisturbed extraction.\<close>

definition quiet_calls :: write_calls where
  "quiet_calls =
     \<lparr>wc_stat = StatNoEntry, wc_check = \<lparr>fchmodat_ok = True, rmdir_ok = True, unlink_ok = True\<rparr>, wc_create_ok = True,
      wc_pwrite = (\<lambda>d off. length d), wc_write_mode_ok = True, wc_mode_ok = True, wc_unlink_ok = True\<rparr>"

text \<open>An archive whose only entry is held as its blocks.\<close>

definition blocks_lib :: "(bytes \<times> nat) list libarchive" where
  "blocks_lib =
     \<lparr>nextHeader = (\<lambda>a. (HeaderEof, a)), readData = (\<lambda>n a. (None, a)),
      readDataBlock = (\<lambda>a. (case a of [] \<Rightarrow> (BlockEof, []) | (d, off) # bs \<Rightarrow> (BlockOk d (word_of_nat off), bs)))\<rparr>"

lemma sample_check [simp]: "checkReadState (Some (sample_state a)) (sample_file d) = Inr (sample_state a)"
  by (simp add: checkReadState_def sample_state_def sample_file_def)

lemma quiet_calls_sel [simp]:
  "wc_stat quiet_calls = StatNoEntry" "wc_create_ok quiet_calls" "wc_pwrite quiet_calls d off = length d"
  "wc_write_mode_ok quiet_calls" "wc_mode_ok quiet_calls" "wc_unlink_ok quiet_calls"
  by (simp_all add: quiet_calls_def)

lemma signed_file_extracts_witness:
  "\<exists>effects rs'. file_writeTo blocks_lib rev quiet_calls 99 0 (Some (sample_state [([1, 2], 0), ([3], 4)])) (sample_file (Some [3, 0, 0, 2, 1])) =
       Some (Inr 5, effects, rs') \<and> file_left effects None = Some [1, 2, 0, 0, 3]"
proof -
  have two: "replicate 2 x = [x, x]" for x :: byte by (simp add: numeral_2_eq_2)
  have "holds_blocks blocks_lib [([1, 2], 0), ([3], 4)] (rs_archive (sample_state [([1, 2], 0), ([3], 4)]))"
    by (simp add: blocks_lib_def sample_state_def)
  note signed_file_extracts [OF sample_check this, of 99 "Some [3, 0, 0, 2, 1]" rev quiet_calls 0]
  moreover have "length (sparse_bytes 0 [([1 :: byte, 2], 0), ([3], 4)]) = 5" "sparse_bytes 0 [([1 :: byte, 2], 0), ([3], 4)] = [1, 2, 0, 0, 3]"
    by (simp_all add: two)
  ultimately show ?thesis by (simp only:) (simp add: sample_file_def)
qed

lemma extracted_file_verified_witness:
  "\<exists>r effects rs'. file_writeTo blocks_lib rev quiet_calls 99 0 (Some (sample_state [([1, 2], 0)])) (sample_file (Some [7])) =
       Some (Inl r, effects, rs') \<and> FileCreated \<in> set effects \<and> file_left effects None = None"
proof -
  have e: "blocks_end blocks_lib 2 (rs_archive (sample_state [([1, 2], 0)]))"
    by (simp add: blocks_lib_def sample_state_def numeral_2_eq_2)
  have "holds_blocks blocks_lib [([1, 2], 0)] [([1, 2], 0)]" by (simp add: blocks_lib_def)
  from write_blocks_laid_out [OF this, of "[]" 99 "wc_pwrite quiet_calls"]
  obtain a where "write_blocks blocks_lib (wc_pwrite quiet_calls) 99 ([], [], 0, [([1, 2], 0)]) = Some (Inr ([1, 2], 2), [1, 2], a)"
    by auto
  then have "\<exists>effects rs'. file_writeTo blocks_lib rev quiet_calls 99 0 (Some (sample_state [([1, 2], 0)])) (sample_file (Some [7])) =
       Some (Inl PackageContentsInvalid, effects, rs') \<and> FileCreated \<in> set effects"
    by (simp add: file_writeTo_def checkExtraction_def doFileWrite_def finalise_def sample_file_def checkReadState_def sample_state_def)
  with extracted_file_verified [OF sample_check e, of rev quiet_calls 99 0 "Some [7]" None] show ?thesis by fastforce
qed

text \<open>
  An empty block behind the end of the data is hashed as zeros but not written: the extraction
  succeeds and reports three bytes, and the file that is left has one.
\<close>

theorem empty_block_shortens_file:
  "\<exists>effects rs'. file_writeTo blocks_lib rev quiet_calls 99 0 (Some (sample_state [([1], 0), ([], 3)])) (sample_file (Some [0, 0, 1])) =
     Some (Inr 3, effects, rs') \<and> file_left effects None = Some [1]"
proof -
  let ?body = "write_block blocks_lib (wc_pwrite quiet_calls) 99"
  have two: "replicate 2 x = [x, x]" for x :: byte by (simp add: numeral_2_eq_2)
  have "?body ([], [], 0, [([1], 0), ([], 3)]) = Continue ([1], [1], 1, [([], 3)])"
    by (simp add: write_block_Continue blocks_lib_def pwrite_def)
  moreover have "?body ([1], [1], 1, [([], 3)]) = Continue ([1], [1, 0, 0], 3, [])"
    using sint_small [of 3] by (simp add: write_block_Continue blocks_lib_def pwrite_def two)
  moreover have "?body ([1], [1, 0, 0], 3, []) = Return (Inr ([1, 0, 0], 3), [1], [])"
    by (simp add: write_block_def blocks_lib_def)
  ultimately have "write_blocks blocks_lib (wc_pwrite quiet_calls) 99 ([], [], 0, [([1], 0), ([], 3)]) = Some (Inr ([1, 0, 0], 3), [1], [])"
    by (simp add: write_blocks_def loop_Continue loop_Return)
  then show ?thesis
    by (simp add: file_writeTo_def checkExtraction_def doFileWrite_def finalise_def sample_file_def checkReadState_def
        sample_state_def Let_def)
qed

end
