(* ===== verification/ArchiveReader.thy ===== *)
theory ArchiveReader
  imports ArchiveEntries "HOL-Library.AList" "HOL-Library.Sublist"
begin

section \<open>The archive reader\<close>

text \<open>
  \<open>lib/archive/ArchiveReader.cpp\<close>: walks an archive with libarchive, checks the path of every
  entry against the package directory and the symlinks seen so far, hands out the directories an
  entry lies in before the entry itself, and checks that exactly the signed files are there.
  A \<open>std::map\<close> is an association list with distinct keys.
\<close>

abbreviation MAX_DIRECTORY_COUNT :: nat where "MAX_DIRECTORY_COUNT \<equiv> 8192"
abbreviation MAX_SYMLINK_COUNT :: nat where "MAX_SYMLINK_COUNT \<equiv> 8192"

subsection \<open>State\<close>

datatype fs_tree = FSTreeNode (children: "(string \<times> fs_tree) list")

record 'a archive_reader =
  ar_digests :: "(path \<times> bytes) list option"
  ar_fstreeRoot :: fs_tree
  ar_fstreeSize :: nat
  ar_maxArchiveDirectories :: nat
  ar_entryStack :: "package_entry list"
  ar_symlinks :: "path list"
  ar_readState :: "'a shared_read_state"
  ar_verifiedEntries :: nat

definition new_archive_reader :: "'a \<Rightarrow> (path \<times> bytes) list option \<Rightarrow> 'a archive_reader" where
  "new_archive_reader a digests =
     \<lparr>ar_digests = digests, ar_fstreeRoot = FSTreeNode [], ar_fstreeSize = 0,
      ar_maxArchiveDirectories = MAX_DIRECTORY_COUNT, ar_entryStack = [], ar_symlinks = [],
      ar_readState = \<lparr>rs_archive = a, rs_error = None, rs_endOfArchive = False, rs_entryIndex = 0\<rparr>,
      ar_verifiedEntries = 0\<rparr>"

abbreviation ar_error :: "'a archive_reader \<Rightarrow> error_code option" where
  "ar_error r \<equiv> rs_error (ar_readState r)"

definition setError :: "error_code \<Rightarrow> 'a archive_reader \<Rightarrow> 'a archive_reader" where
  "setError e r = r\<lparr>ar_readState := (ar_readState r)\<lparr>rs_error := Some e\<rparr>\<rparr>"

definition archive_hasError :: "'a archive_reader \<Rightarrow> bool" where
  "archive_hasError r \<longleftrightarrow> ar_error r \<noteq> None"

subsection \<open>Parent directories\<close>

text \<open>
  The loop over the components of a path, with the part of the path already passed: the new
  tree, its size, the directory entries to queue, and an error.  The size never exceeds the limit by
  more than two.
\<close>

fun add_parents ::
  "nat \<Rightarrow> int \<Rightarrow> string list \<Rightarrow> string list \<Rightarrow> fs_tree \<Rightarrow> nat \<Rightarrow> fs_tree \<times> nat \<times> package_entry list \<times> error_code option" where
  "add_parents mx t pre [] node sz = (node, sz, [], None)"
| "add_parents mx t pre (n # ns) node sz =
     (if n = ''.'' \<or> n = [] then add_parents mx t (pre @ [n]) ns node sz
      else if n = ''..'' then (node, sz, [], Some PackageInvalidEntry)
      else case map_of (children node) n of
        Some child \<Rightarrow>
          (case add_parents mx t (pre @ [n]) ns child sz of
             (child, sz, es, err) \<Rightarrow> (FSTreeNode (AList.update n child (children node)), sz, es, err))
      | None \<Rightarrow>
          if sz > mx then
            (FSTreeNode (AList.update n (FSTreeNode []) (children node)), sz + 1, [], Some PackageContentsInvalid)
          else
            (case add_parents mx t (pre @ [n]) ns (FSTreeNode []) (sz + 1) of
               (child, sz, es, err) \<Rightarrow>
                 (FSTreeNode (AList.update n child (children node)), sz,
                  DirectoryEntry (directory_create (pre @ [n]) t) # es, err)))"

definition updateParentEntryStack :: "path \<Rightarrow> int \<Rightarrow> 'a archive_reader \<Rightarrow> 'a archive_reader" where
  "updateParentEntryStack parentPath dirModTime r =
     (case add_parents (ar_maxArchiveDirectories r) dirModTime [] (path_parts parentPath) (ar_fstreeRoot r) (ar_fstreeSize r) of
        (root, sz, es, err) \<Rightarrow>
          let r = r\<lparr>ar_fstreeRoot := root, ar_fstreeSize := sz, ar_entryStack := ar_entryStack r @ es\<rparr> in
          (case err of None \<Rightarrow> r | Some e \<Rightarrow> setError e r))"

subsection \<open>Entries\<close>

text \<open>\<open>std::mismatch\<close> of two sequences: what is left of each from the first difference on.\<close>

fun mismatch :: "'x list \<Rightarrow> 'x list \<Rightarrow> 'x list \<times> 'x list" where
  "mismatch (x # xs) (y # ys) = (if x = y then mismatch xs ys else (x # xs, y # ys))"
| "mismatch xs ys = (xs, ys)"

definition withinSymLink :: "'a archive_reader \<Rightarrow> path \<Rightarrow> bool" where
  "withinSymLink r p \<longleftrightarrow> list_ex (\<lambda>symlink. snd (mismatch (path_parts p) (path_parts symlink)) = []) (ar_symlinks r)"

text \<open>The switch over the type of an entry.\<close>

definition make_entry ::
  "(bytes \<Rightarrow> bytes) \<Rightarrow> 'a shared_read_state \<Rightarrow> path \<Rightarrow> archive_entry \<Rightarrow> bytes option \<Rightarrow> error_code + package_entry" where
  "make_entry H rs path ae digest =
     (let type = ae_filetype ae AND AE_IFMT; perms = ae_perm ae; modTime = ae_mtime ae in
      if type = AE_IFLNK then map_sum id SymlinkEntry (symlink_create H path (ae_symlink ae) modTime digest)
      else if type = AE_IFREG then
        map_sum id FileEntry (file_create rs path (ae_size ae) (perms AND (S_IXUSR OR S_IXGRP OR S_IXOTH) \<noteq> 0) modTime digest)
      else Inl PackageInvalidEntry)"

definition createEntry ::
  "(bytes \<Rightarrow> bytes) \<Rightarrow> path \<Rightarrow> archive_entry \<Rightarrow> 'a archive_reader \<Rightarrow> package_entry option \<times> 'a archive_reader" where
  "createEntry H path ae r =
     (let type = ae_filetype ae AND AE_IFMT;
          signed = ar_digests r \<noteq> None \<and> (type = AE_IFREG \<or> type = AE_IFLNK);
          digest = (if signed then map_of (the (ar_digests r)) path else None) in
      if signed \<and> digest = None then (None, setError PackageSignatureInvalid r)
      else
        let r = (if signed then r\<lparr>ar_verifiedEntries := sz_add (ar_verifiedEntries r) 1\<rparr> else r) in
        (case make_entry H (ar_readState r) path ae digest of
           Inl e \<Rightarrow> (None, setError e r)
         | Inr e \<Rightarrow> if ar_error r \<noteq> None then (None, r) else (Some e, r)))"

subsection \<open>The next entry\<close>

definition pop_entry :: "'a archive_reader \<Rightarrow> package_entry option \<times> 'a archive_reader" where
  "pop_entry r = (Some (hd (ar_entryStack r)), r\<lparr>ar_entryStack := tl (ar_entryStack r)\<rparr>)"

text \<open>What happens to an entry that is not a directory, after the checks on its path.\<close>

definition next_leaf ::
  "(bytes \<Rightarrow> bytes) \<Rightarrow> path \<Rightarrow> archive_entry \<Rightarrow> 'a archive_reader \<Rightarrow> package_entry option \<times> 'a archive_reader" where
  "next_leaf H path ae r =
     (if \<not> has_filename path then (None, setError PackageInvalidEntry r)
      else
        let r = (if has_parent_path path then updateParentEntryStack (parent_path path) (ae_mtime ae) r else r);
            link = (ae_filetype ae AND AE_IFMT = AE_IFLNK) in
        if link \<and> length (ar_symlinks r) \<ge> MAX_SYMLINK_COUNT then (None, setError PackageContentsInvalid r)
        else
          let r = (if link then r\<lparr>ar_symlinks := ar_symlinks r @ [path]\<rparr> else r) in
          (case createEntry H path ae r of
             (None, r) \<Rightarrow> (None, r)
           | (Some e, r) \<Rightarrow>
               if ar_entryStack r \<noteq> [] then pop_entry (r\<lparr>ar_entryStack := ar_entryStack r @ [e]\<rparr>)
               else (Some e, r)))"

text \<open>One round of the loop.\<close>

definition next_round ::
  "'a libarchive \<Rightarrow> (bytes \<Rightarrow> bytes) \<Rightarrow> 'a archive_reader \<Rightarrow>
   ('a archive_reader, package_entry option \<times> 'a archive_reader) step" where
  "next_round lib H r =
     (if ar_error r \<noteq> None then Return (None, r)
      else
        let (answer, a) = nextHeader lib (rs_archive (ar_readState r));
            r = r\<lparr>ar_readState := (ar_readState r)\<lparr>rs_archive := a\<rparr>\<rparr> in
        (case answer of
           HeaderEof \<Rightarrow>
             let r = r\<lparr>ar_readState := (ar_readState r)\<lparr>rs_endOfArchive := True\<rparr>\<rparr> in
             Return (None,
               if ar_digests r \<noteq> None \<and> length (the (ar_digests r)) \<noteq> ar_verifiedEntries r
               then setError PackageSignatureInvalid r else r)
         | HeaderFailed \<Rightarrow> Return (None, setError PackageContentsInvalid r)
         | HeaderOk ae \<Rightarrow>
             let r = r\<lparr>ar_readState := (ar_readState r)\<lparr>rs_entryIndex := sz_add (rs_entryIndex (ar_readState r)) 1\<rparr>\<rparr> in
             (case ae_pathname ae of
                None \<Rightarrow> Return (None, setError PackageInvalidEntry r)
              | Some archivePath \<Rightarrow>
                  let path = lexically_normal (path_of_string archivePath) in
                  if \<not> verifyPackagePath path then Return (None, setError PackageInvalidEntry r)
                  else if withinSymLink r path then Return (None, setError PackageInvalidEntry r)
                  else if ae_filetype ae AND AE_IFMT = AE_IFDIR then
                    let r = updateParentEntryStack path (ae_mtime ae) r in
                    if ar_entryStack r = [] then Continue r else Return (pop_entry r)
                  else Return (next_leaf H path ae r))))"

definition archive_next ::
  "'a libarchive \<Rightarrow> (bytes \<Rightarrow> bytes) \<Rightarrow> 'a archive_reader \<Rightarrow> (package_entry option \<times> 'a archive_reader) option" where
  "archive_next lib H r =
     (if ar_error r \<noteq> None \<or> rs_endOfArchive (ar_readState r) then Some (None, r)
      else if ar_entryStack r \<noteq> [] then Some (pop_entry r)
      else loop (next_round lib H) r)"

section \<open>The order in which entries are handed out\<close>

subsection \<open>Paths of entries\<close>

definition clean :: "string list \<Rightarrow> bool" where
  "clean ns \<longleftrightarrow> (\<forall>n \<in> set ns. n \<noteq> [] \<and> n \<noteq> ''.'' \<and> n \<noteq> ''..'')"

lemma clean_simps [simp]:
  "clean []" "clean (n # ns) \<longleftrightarrow> n \<noteq> [] \<and> n \<noteq> ''.'' \<and> n \<noteq> ''..'' \<and> clean ns" "clean (ms @ ns) \<longleftrightarrow> clean ms \<and> clean ns"
  by (auto simp: clean_def)

text \<open>A path the reader lets pass: relative, with clean names, or the directory itself.\<close>

definition inner_path :: "path \<Rightarrow> bool" where
  "inner_path p \<longleftrightarrow> \<not> p_absolute p \<and> (p_names p \<noteq> [] \<and> clean (p_names p) \<or> p_names p = [''.''])"

lemma split_path_nonempty: "[] \<notin> set (split_path acc s)"
  by (induction acc s rule: split_path.induct) auto

lemma normal_names_members:
  "n \<in> set (normal_names ab acc ns) \<Longrightarrow> n \<in> set acc \<or> n \<in> set ns \<and> n \<noteq> ''.''"
proof (induction ns arbitrary: acc)
  case (Cons m ns)
  have "set (tl acc) \<subseteq> set acc" by (cases acc) auto
  then show ?case
    using Cons.prems Cons.IH [of acc] Cons.IH [of "tl acc"] Cons.IH [of "m # acc"]
    by (auto split: if_splits)
qed simp

lemma inner_path_normal:
  assumes "verifyPackagePath (lexically_normal (path_of_string s))"
  shows "inner_path (lexically_normal (path_of_string s))"
proof -
  let ?p = "path_of_string s" and ?q = "lexically_normal (path_of_string s)"
  let ?ns = "normal_names (p_absolute ?p) [] (p_names ?p)"
  have q: "\<not> path_empty ?q" "\<not> p_absolute ?q" "''..'' \<notin> set (p_names ?q)"
    using assms by (auto simp: verifyPackagePath_def path_parts_def list_ex_iff split: if_splits)
  have p: "\<not> path_empty ?p" "\<not> p_absolute ?p" using q
    by (auto simp: lexically_normal_def Let_def split: if_splits)
  have "[] \<notin> set (p_names ?p)" using split_path_nonempty by (simp add: path_of_string_def Let_def)
  then have ns: "n \<in> set ?ns \<Longrightarrow> n \<noteq> [] \<and> n \<noteq> ''.''" for n
    using normal_names_members [of n "p_absolute ?p" "[]" "p_names ?p"] by auto
  show ?thesis
  proof (cases "?ns = []")
    case True
    then show ?thesis using p by (simp add: inner_path_def lexically_normal_def)
  next
    case False
    then have "p_names ?q = ?ns" using p by (simp add: lexically_normal_def Let_def)
    then show ?thesis using q ns False by (auto simp: inner_path_def clean_def)
  qed
qed

fun entry_path :: "package_entry \<Rightarrow> path" where
  "entry_path (DirectoryEntry d) = be_path d"
| "entry_path (SymlinkEntry s) = be_path s"
| "entry_path (FileEntry f) = be_path f"

definition is_dir :: "package_entry \<Rightarrow> bool" where
  "is_dir e \<longleftrightarrow> (case e of DirectoryEntry _ \<Rightarrow> True | _ \<Rightarrow> False)"

definition is_link :: "package_entry \<Rightarrow> bool" where
  "is_link e \<longleftrightarrow> (case e of SymlinkEntry _ \<Rightarrow> True | _ \<Rightarrow> False)"

lemma is_simps [simp]:
  "is_dir (DirectoryEntry d)" "\<not> is_dir (SymlinkEntry s)" "\<not> is_dir (FileEntry f)"
  "\<not> is_link (DirectoryEntry d)" "is_link (SymlinkEntry s)" "\<not> is_link (FileEntry f)"
  by (simp_all add: is_dir_def is_link_def)

abbreviation entry_names :: "package_entry \<Rightarrow> string list" where "entry_names e \<equiv> p_names (entry_path e)"

definition dir_names :: "package_entry list \<Rightarrow> string list set" where
  "dir_names es = entry_names ` {e \<in> set es. is_dir e}"

lemma dir_names_append [simp]: "dir_names (xs @ ys) = dir_names xs \<union> dir_names ys"
  by (auto simp: dir_names_def)

lemma dir_names_Cons [simp]: "dir_names (e # es) = (if is_dir e then {entry_names e} else {}) \<union> dir_names es"
  by (auto simp: dir_names_def)

lemma dir_names_Nil [simp]: "dir_names [] = {}"
  by (simp add: dir_names_def)

text \<open>
  What the clients of the reader rely on: an entry may follow others when it lies in the package
  directory, all directories it is in were handed out, it is not such a directory itself, and it is
  neither at nor below a symlink that was handed out.
\<close>

definition may_follow :: "package_entry list \<Rightarrow> package_entry \<Rightarrow> bool" where
  "may_follow es e \<longleftrightarrow>
     inner_path (entry_path e) \<and> \<not> p_trailing (entry_path e) \<and>
     (\<forall>qs. strict_prefix qs (entry_names e) \<longrightarrow> qs \<noteq> [] \<longrightarrow> qs \<in> dir_names es) \<and>
     (is_dir e \<longrightarrow> entry_names e \<notin> dir_names es) \<and>
     (\<forall>l \<in> set es. is_link l \<longrightarrow> \<not> prefix (entry_names l) (entry_names e))"

definition in_order :: "package_entry list \<Rightarrow> bool" where
  "in_order es \<longleftrightarrow> (\<forall>i < length es. may_follow (take i es) (es ! i))"

lemma in_order_Nil [simp]: "in_order []"
  by (simp add: in_order_def)

lemma in_order_snoc [simp]: "in_order (es @ [e]) \<longleftrightarrow> in_order es \<and> may_follow es e"
  by (auto simp: in_order_def nth_append less_Suc_eq)

subsection \<open>The tree of directories\<close>

text \<open>The directories a tree holds, as the names that lead to them.\<close>

fun in_tree :: "fs_tree \<Rightarrow> string list \<Rightarrow> bool" where
  "in_tree node [] = True"
| "in_tree node (n # ns) = (case map_of (children node) n of None \<Rightarrow> False | Some child \<Rightarrow> in_tree child ns)"

abbreviation dir_entry_for :: "int \<Rightarrow> string list \<Rightarrow> package_entry" where
  "dir_entry_for t qs \<equiv> DirectoryEntry (directory_create qs t)"

lemma foldl_path_append:
  "foldl path_append p ns = p\<lparr>p_names := p_names p @ ns, p_trailing := (if ns = [] then p_trailing p else False)\<rparr>"
  by (induction ns arbitrary: p) (auto simp: path_append_def)

lemma dir_entry_names [simp]:
  "p_names (be_path (directory_create qs t)) = qs" "\<not> p_trailing (be_path (directory_create qs t))"
  "\<not> p_absolute (be_path (directory_create qs t))"
  by (simp_all add: directory_create_def foldl_path_append)

lemma in_empty_tree [simp]: "in_tree (FSTreeNode []) qs \<longleftrightarrow> qs = []"
  by (cases qs) auto

text \<open>
  What the tree of a reader and the entries it has handed out or queued have to do with each other,
  below the directory \<open>pre\<close>.
\<close>

definition tree_matches :: "package_entry list \<Rightarrow> string list \<Rightarrow> fs_tree \<Rightarrow> bool" where
  "tree_matches xs pre node \<longleftrightarrow> (\<forall>qs. qs \<noteq> [] \<longrightarrow> (pre @ qs \<in> dir_names xs \<longleftrightarrow> in_tree node qs))"

definition parents_in :: "package_entry list \<Rightarrow> string list \<Rightarrow> bool" where
  "parents_in xs pre \<longleftrightarrow> (\<forall>qs. prefix qs pre \<longrightarrow> qs \<noteq> [] \<longrightarrow> qs \<in> dir_names xs)"

definition no_link_above :: "package_entry list \<Rightarrow> string list \<Rightarrow> bool" where
  "no_link_above xs ns \<longleftrightarrow> (\<forall>l \<in> set xs. is_link l \<longrightarrow> \<not> prefix (entry_names l) ns)"

lemma no_link_above_prefix: "no_link_above xs ns \<Longrightarrow> prefix ms ns \<Longrightarrow> no_link_above xs ms"
  by (meson no_link_above_def prefix_order.trans)

lemma parents_in_snoc: "parents_in xs (pre @ [n]) \<longleftrightarrow> parents_in xs pre \<and> pre @ [n] \<in> dir_names xs"
  by (auto simp: parents_in_def)

lemma parents_in_more: "parents_in xs pre \<Longrightarrow> parents_in (xs @ es) pre"
  by (simp add: parents_in_def)

lemma new_dir_may_follow:
  assumes "parents_in xs pre" "clean (pre @ [n])" "no_link_above xs (pre @ [n])" "pre @ [n] \<notin> dir_names xs"
  shows "may_follow xs (dir_entry_for t (pre @ [n]))"
  using assms
  by (auto simp: may_follow_def inner_path_def parents_in_def no_link_above_def strict_prefix_def)

lemma tree_matches_child:
  "tree_matches xs pre node \<Longrightarrow> map_of (children node) n = Some child \<Longrightarrow> tree_matches xs (pre @ [n]) child"
  by (auto simp: tree_matches_def)

lemma tree_matches_none:
  assumes "tree_matches xs pre node" "map_of (children node) n = None"
  shows "pre @ n # qs \<notin> dir_names xs"
  using assms by (auto simp: tree_matches_def)

lemma tree_matches_update:
  assumes "tree_matches xs pre node" "tree_matches (xs @ es) (pre @ [n]) child" "pre @ [n] \<in> dir_names (xs @ es)"
    and "\<forall>ps \<in> dir_names es. prefix (pre @ [n]) ps"
  shows "tree_matches (xs @ es) pre (FSTreeNode (AList.update n child (children node)))"
  unfolding tree_matches_def
proof (intro allI impI)
  fix qs :: "string list" assume "qs \<noteq> []"
  then obtain q qs' where qs: "qs = q # qs'" by (cases qs) auto
  show "pre @ qs \<in> dir_names (xs @ es) \<longleftrightarrow> in_tree (FSTreeNode (AList.update n child (children node))) qs"
  proof (cases "q = n")
    case True
    then show ?thesis
      using assms(2,3) qs by (cases "qs' = []") (auto simp: tree_matches_def update_conv' simp del: dir_names_append)
  next
    case False
    then have "pre @ qs \<notin> dir_names es" using assms(4) qs by (auto simp: prefix_def)
    then show ?thesis using assms(1) qs False by (simp add: tree_matches_def update_conv')
  qed
qed

text \<open>
  The directories that are queued for a path continue the order; the tree then holds them, and their
  number is bounded.
\<close>

definition parents_added ::
  "nat \<Rightarrow> package_entry list \<Rightarrow> string list \<Rightarrow> string list \<Rightarrow> nat \<Rightarrow> fs_tree \<Rightarrow> nat \<Rightarrow> package_entry list \<Rightarrow> error_code option \<Rightarrow> bool" where
  "parents_added mx xs pre ns sz node' sz' es err \<longleftrightarrow>
     in_order (xs @ es) \<and> list_all is_dir es \<and>
     (\<forall>ps \<in> dir_names es. \<exists>qs. qs \<noteq> [] \<and> prefix qs ns \<and> ps = pre @ qs) \<and>
     (err = None \<longrightarrow> tree_matches (xs @ es) pre node' \<and> parents_in (xs @ es) (pre @ ns) \<and> sz' = sz + length es) \<and>
     (sz \<le> mx + 1 \<longrightarrow> sz + length es \<le> mx + 1)"

lemma parents_added_prefix:
  "parents_added mx xs (pre @ [n]) ns sz node' sz' es err \<Longrightarrow> \<forall>ps \<in> dir_names es. prefix (pre @ [n]) ps"
  by (fastforce simp: parents_added_def)

lemma add_parents_ok:
  assumes "in_order xs" "tree_matches xs pre node" "parents_in xs pre" "clean (pre @ ns)" "no_link_above xs (pre @ ns)" "tr = [] \<or> tr = [[]]"
    and "add_parents mx t pre (ns @ tr) node sz = (node', sz', es, err)"
  shows "parents_added mx xs pre ns sz node' sz' es err"
  using assms
proof (induction ns arbitrary: xs pre node sz node' sz' es err)
  case Nil
  then have "node' = node" "sz' = sz" "es = []" "err = None" by auto
  then show ?case using Nil by (simp add: parents_added_def)
next
  case (Cons n ns)
  have n: "n \<noteq> []" "n \<noteq> ''.''" "n \<noteq> ''..''" and cl: "clean ((pre @ [n]) @ ns)" using Cons.prems(4) by simp_all
  have links: "no_link_above xs ((pre @ [n]) @ ns)" using Cons.prems(5) by simp
  show ?case
  proof (cases "map_of (children node) n")
    case (Some child)
    obtain child' sz1 es1 err1 where rec: "add_parents mx t (pre @ [n]) (ns @ tr) child sz = (child', sz1, es1, err1)"
      using prod_cases4 by blast
    then have res: "node' = FSTreeNode (AList.update n child' (children node))" "sz' = sz1" "es = es1" "err = err1"
      using Cons.prems(7) n Some by auto
    have here: "pre @ [n] \<in> dir_names xs" using Cons.prems(2) Some by (simp add: tree_matches_def)
    then have "parents_in xs (pre @ [n])" using Cons.prems(3) by (simp add: parents_in_snoc)
    note IH = Cons.IH [OF Cons.prems(1) tree_matches_child [OF Cons.prems(2) Some] this cl links Cons.prems(6) rec]
    have "\<forall>ps \<in> dir_names es. \<exists>qs. qs \<noteq> [] \<and> prefix qs (n # ns) \<and> ps = pre @ qs"
      using IH by (fastforce simp: parents_added_def res)
    moreover have "err = None \<longrightarrow> tree_matches (xs @ es) pre node'"
      using IH tree_matches_update [OF Cons.prems(2) _ _ parents_added_prefix [OF IH]] here by (auto simp: parents_added_def res)
    ultimately show ?thesis using IH by (simp add: parents_added_def res)
  next
    case None
    note fresh = tree_matches_none [OF Cons.prems(2) None]
    show ?thesis
    proof (cases "sz > mx")
      case True
      then show ?thesis using Cons.prems(1,7) n None by (auto simp: parents_added_def)
    next
      case False
      let ?d = "dir_entry_for t (pre @ [n])"
      obtain child' sz1 es1 err1 where rec: "add_parents mx t (pre @ [n]) (ns @ tr) (FSTreeNode []) (sz + 1) = (child', sz1, es1, err1)"
        using prod_cases4 by blast
      then have res: "node' = FSTreeNode (AList.update n child' (children node))" "sz' = sz1" "es = ?d # es1" "err = err1"
        using Cons.prems(7) n None False by auto
      have "may_follow xs ?d"
        using new_dir_may_follow [OF Cons.prems(3)] cl no_link_above_prefix [OF links] fresh [of "[]"] by simp
      then have ord: "in_order (xs @ [?d])" using Cons.prems(1) by simp
      have tree: "tree_matches (xs @ [?d]) (pre @ [n]) (FSTreeNode [])"
        using fresh by (auto simp: tree_matches_def)
      have par: "parents_in (xs @ [?d]) (pre @ [n])"
        using parents_in_more [OF Cons.prems(3)] by (simp add: parents_in_snoc)
      have links': "no_link_above (xs @ [?d]) ((pre @ [n]) @ ns)" using links by (auto simp: no_link_above_def)
      note IH = Cons.IH [OF ord tree par cl links' Cons.prems(6) rec]
      have sub: "\<forall>ps \<in> dir_names es. \<exists>qs. qs \<noteq> [] \<and> prefix qs (n # ns) \<and> ps = pre @ qs"
        using IH by (fastforce simp: parents_added_def res)
      moreover have "err = None \<longrightarrow> tree_matches (xs @ es) pre node'"
      proof
        assume "err = None"
        then have "tree_matches (xs @ es) (pre @ [n]) child'" using IH by (simp add: parents_added_def res)
        moreover have "\<forall>ps \<in> dir_names es. prefix (pre @ [n]) ps"
          using parents_added_prefix [OF IH] by (simp add: res)
        ultimately show "tree_matches (xs @ es) pre node'"
          using tree_matches_update [OF Cons.prems(2)] by (simp add: res)
      qed
      ultimately show ?thesis using IH False by (auto simp: parents_added_def res)
    qed
  qed
qed

subsection \<open>The invariant of the reader\<close>

text \<open>
  The entries handed out so far, followed by the queued ones, are in order, and the reader knows their
  symlinks.  While it has no error its tree holds exactly their directories.
\<close>

definition order_ok :: "package_entry list \<Rightarrow> 'a archive_reader \<Rightarrow> bool" where
  "order_ok es r \<longleftrightarrow>
     in_order (es @ ar_entryStack r) \<and>
     (\<forall>l \<in> set (es @ ar_entryStack r). is_link l \<longrightarrow> entry_path l \<in> set (ar_symlinks r)) \<and>
     (\<forall>p \<in> set (ar_symlinks r). \<not> p_absolute p \<and> \<not> p_trailing p) \<and>
     ar_maxArchiveDirectories r = MAX_DIRECTORY_COUNT \<and>
     length (filter is_dir (es @ ar_entryStack r)) \<le> MAX_DIRECTORY_COUNT + 1 \<and>
     length (filter is_link (es @ ar_entryStack r)) \<le> length (ar_symlinks r) \<and>
     length (ar_symlinks r) \<le> MAX_SYMLINK_COUNT \<and>
     (ar_error r = None \<longrightarrow>
        tree_matches (es @ ar_entryStack r) [] (ar_fstreeRoot r) \<and>
        ar_fstreeSize r = length (filter is_dir (es @ ar_entryStack r)))"

lemma setError_sel [simp]:
  "ar_entryStack (setError e r) = ar_entryStack r" "ar_symlinks (setError e r) = ar_symlinks r"
  "ar_maxArchiveDirectories (setError e r) = ar_maxArchiveDirectories r" "ar_digests (setError e r) = ar_digests r"
  "ar_error (setError e r) = Some e" "ar_verifiedEntries (setError e r) = ar_verifiedEntries r"
  "rs_endOfArchive (ar_readState (setError e r)) = rs_endOfArchive (ar_readState r)"
  "rs_entryIndex (ar_readState (setError e r)) = rs_entryIndex (ar_readState r)"
  "rs_archive (ar_readState (setError e r)) = rs_archive (ar_readState r)"
  by (simp_all add: setError_def)

lemma order_ok_error: "order_ok es r \<Longrightarrow> order_ok es (setError e r)"
  by (simp add: order_ok_def)

lemma mismatch_prefix: "snd (mismatch xs ys) = [] \<longleftrightarrow> prefix ys xs"
  by (induction xs ys rule: mismatch.induct) auto

lemma not_within_symlink:
  assumes "order_ok es r" "\<not> withinSymLink r p" "\<not> p_absolute p"
  shows "no_link_above (es @ ar_entryStack r) (p_names p)"
  unfolding no_link_above_def
proof (intro ballI impI)
  fix l assume "l \<in> set (es @ ar_entryStack r)" "is_link l"
  then have l: "entry_path l \<in> set (ar_symlinks r)" "\<not> p_absolute (entry_path l)" "\<not> p_trailing (entry_path l)"
    using assms(1) by (auto simp: order_ok_def)
  then have "\<not> prefix (path_parts (entry_path l)) (path_parts p)"
    using assms(2) by (auto simp: withinSymLink_def list_ex_iff mismatch_prefix)
  then show "\<not> prefix (entry_names l) (p_names p)" using l assms(3) by (auto simp: path_parts_def)
qed

text \<open>What queueing the parents of a path changes.\<close>

definition parents_queued :: "'a archive_reader \<Rightarrow> 'a archive_reader \<Rightarrow> bool" where
  "parents_queued r r' \<longleftrightarrow>
     (\<exists>ds. ar_entryStack r' = ar_entryStack r @ ds \<and> list_all is_dir ds) \<and>
     ar_symlinks r' = ar_symlinks r \<and> ar_digests r' = ar_digests r \<and> ar_verifiedEntries r' = ar_verifiedEntries r \<and>
     rs_endOfArchive (ar_readState r') = rs_endOfArchive (ar_readState r) \<and>
     rs_entryIndex (ar_readState r') = rs_entryIndex (ar_readState r) \<and>
     rs_archive (ar_readState r') = rs_archive (ar_readState r)"

lemma parents_queued_refl [simp]: "parents_queued r r"
  by (simp add: parents_queued_def)

lemma filter_dirs: "list_all is_dir ds \<Longrightarrow> filter is_dir ds = ds" "list_all is_dir ds \<Longrightarrow> filter is_link ds = []"
  "list_all is_dir ds \<Longrightarrow> filter (\<lambda>e. \<not> is_dir e) ds = []" "list_all is_dir ds \<Longrightarrow> e \<in> set ds \<Longrightarrow> \<not> is_link e"
  by (auto simp: list_all_iff filter_id_conv filter_empty_conv is_dir_def is_link_def split: package_entry.splits)

lemma update_parents_ok:
  assumes ok: "order_ok es r" "ar_error r = None" and p: "\<not> p_absolute p" "clean (p_names p) \<or> p_names p = [''.'']"
    "no_link_above (es @ ar_entryStack r) (p_names p)"
  shows "order_ok es (updateParentEntryStack p t r) \<and> parents_queued r (updateParentEntryStack p t r) \<and>
    (ar_error (updateParentEntryStack p t r) = None \<longrightarrow> clean (p_names p) \<longrightarrow>
       parents_in (es @ ar_entryStack (updateParentEntryStack p t r)) (p_names p))"
proof (cases "p_names p = [''.'']")
  case True
  then have "add_parents mx t [] (path_parts p) node sz = (node, sz, [], None)" for mx node sz
    using p(1) by (simp add: path_parts_def)
  then have "updateParentEntryStack p t r = r" by (simp add: updateParentEntryStack_def Let_def)
  then show ?thesis using ok True by simp
next
  case False
  then have cl: "clean (p_names p)" using p by simp
  obtain node sz ds err where add: "add_parents MAX_DIRECTORY_COUNT t [] (p_names p @ (if p_trailing p then [[]] else []))
      (ar_fstreeRoot r) (ar_fstreeSize r) = (node, sz, ds, err)" using prod_cases4 by blast
  have "parents_added MAX_DIRECTORY_COUNT (es @ ar_entryStack r) [] (p_names p) (ar_fstreeSize r) node sz ds err"
  proof (rule add_parents_ok [OF _ _ _ _ _ _ add])
    show "parents_in (es @ ar_entryStack r) []" by (simp add: parents_in_def)
  qed (use ok cl p in \<open>auto simp: order_ok_def\<close>)
  moreover have "path_parts p = p_names p @ (if p_trailing p then [[]] else [])" using p(1) by (simp add: path_parts_def)
  moreover have "ar_maxArchiveDirectories r = MAX_DIRECTORY_COUNT" using ok by (simp add: order_ok_def)
  ultimately show ?thesis using add ok
    by (cases err)
      (auto simp: updateParentEntryStack_def parents_queued_def order_ok_def parents_added_def filter_dirs Let_def)
qed

text \<open>The entry carries the signed digest of its path; a symlink has it.\<close>

definition signed_as :: "(bytes \<Rightarrow> bytes) \<Rightarrow> (path \<times> bytes) list \<Rightarrow> package_entry \<Rightarrow> bool" where
  "signed_as H ds e \<longleftrightarrow>
     (case e of
        DirectoryEntry d \<Rightarrow> True
      | SymlinkEntry s \<Rightarrow> map_of ds (be_path s) = Some (H (of_string (se_target s)))
      | FileEntry f \<Rightarrow> map_of ds (be_path f) \<noteq> None \<and> fe_digest f = map_of ds (be_path f))"

text \<open>The entry that is created has the path it was created for.\<close>

lemma make_entry_Inr:
  "make_entry H rs path ae digest = Inr e \<Longrightarrow>
   entry_path e = path \<and> \<not> is_dir e \<and> (is_link e \<longleftrightarrow> ae_filetype ae AND AE_IFMT = AE_IFLNK) \<and>
     (ae_filetype ae AND AE_IFMT = AE_IFREG \<or> ae_filetype ae AND AE_IFMT = AE_IFLNK) \<and>
     (digest \<noteq> None \<longrightarrow> map_of ds path = digest \<longrightarrow> signed_as H ds e)"
  by (auto simp: make_entry_def symlink_create_def file_create_def signed_as_def Let_def split: if_splits option.splits)

lemma createEntry_cases:
  assumes "createEntry H path ae r = (res, r')"
  obtains (failed) n e where "res = None" "r' = r\<lparr>ar_verifiedEntries := n\<rparr> \<and> ar_error r \<noteq> None \<or> r' = setError e (r\<lparr>ar_verifiedEntries := n\<rparr>)"
  | (created) e n where "res = Some e" "ar_error r = None" "entry_path e = path" "\<not> is_dir e"
      "is_link e \<longleftrightarrow> ae_filetype ae AND AE_IFMT = AE_IFLNK" "r' = r\<lparr>ar_verifiedEntries := n\<rparr>"
      "\<forall>ds. ar_digests r = Some ds \<longrightarrow> signed_as H ds e \<and> n = sz_add (ar_verifiedEntries r) 1"
proof -
  have same: "r = r\<lparr>ar_verifiedEntries := ar_verifiedEntries r\<rparr>" by simp
  define signed where "signed \<longleftrightarrow> ar_digests r \<noteq> None \<and> (ae_filetype ae AND AE_IFMT = AE_IFREG \<or> ae_filetype ae AND AE_IFMT = AE_IFLNK)"
  define digest where "digest = (if signed then map_of (the (ar_digests r)) path else None)"
  define n where "n = (if signed then sz_add (ar_verifiedEntries r) 1 else ar_verifiedEntries r)"
  have eq: "createEntry H path ae r =
      (if signed \<and> digest = None then (None, setError PackageSignatureInvalid r)
       else case make_entry H (ar_readState r) path ae digest of
         Inl e \<Rightarrow> (None, setError e (r\<lparr>ar_verifiedEntries := n\<rparr>))
       | Inr e \<Rightarrow> if ar_error r \<noteq> None then (None, r\<lparr>ar_verifiedEntries := n\<rparr>) else (Some e, r\<lparr>ar_verifiedEntries := n\<rparr>))"
    unfolding createEntry_def Let_def
    by (fold signed_def, fold digest_def, cases signed) (simp_all add: n_def split: sum.split)
  show thesis
  proof (cases "signed \<and> digest = None")
    case True
    then have "res = None" "r' = setError PackageSignatureInvalid (r\<lparr>ar_verifiedEntries := ar_verifiedEntries r\<rparr>)"
      using assms eq by simp_all
    then show thesis using failed by blast
  next
    case False
    show thesis
    proof (cases "make_entry H (ar_readState r) path ae digest")
      case (Inl e)
      then show thesis using assms eq False failed [of n e] by simp
    next
      case (Inr e)
      note made = make_entry_Inr [OF Inr]
      show thesis
      proof (cases "ar_error r = None")
        case True
        have "\<forall>ds. ar_digests r = Some ds \<longrightarrow> signed_as H ds e \<and> n = sz_add (ar_verifiedEntries r) 1"
          using made False by (auto simp: signed_def digest_def n_def)
        then show thesis using assms eq False Inr True made created [of e n] by simp
      next
        case err: False
        then show thesis using assms eq False Inr failed [of n] by auto
      qed
    qed
  qed
qed

text \<open>The four ways a round goes: it fails, the archive ends, the header is a directory or something else.\<close>

lemma next_round_cases:
  assumes "next_round lib H r = res" "ar_error r = None"
  obtains (failed) rs e where "rs_error rs = None" "rs_endOfArchive rs = rs_endOfArchive (ar_readState r)"
      "res = Return (None, setError e (r\<lparr>ar_readState := rs\<rparr>))"
  | (ended) rs where "rs_error rs = None" "rs_endOfArchive rs"
      "res = Return (None, if ar_digests r \<noteq> None \<and> length (the (ar_digests r)) \<noteq> ar_verifiedEntries r
         then setError PackageSignatureInvalid (r\<lparr>ar_readState := rs\<rparr>) else r\<lparr>ar_readState := rs\<rparr>)"
  | (directory) rs ae p where "rs_error rs = None" "rs_endOfArchive rs = rs_endOfArchive (ar_readState r)"
      "inner_path p" "\<not> withinSymLink r p"
      "res = (let r = updateParentEntryStack p (ae_mtime (ae :: archive_entry)) (r\<lparr>ar_readState := rs\<rparr>) in
         if ar_entryStack r = [] then Continue r else Return (pop_entry r))"
  | (leaf) rs ae p where "rs_error rs = None" "rs_endOfArchive rs = rs_endOfArchive (ar_readState r)"
      "inner_path p" "\<not> withinSymLink r p" "ae_filetype ae AND AE_IFMT \<noteq> AE_IFDIR"
      "res = Return (next_leaf H p ae (r\<lparr>ar_readState := rs\<rparr>))"
proof -
  obtain answer a where h: "nextHeader lib (rs_archive (ar_readState r)) = (answer, a)" by fastforce
  let ?rs = "(ar_readState r)\<lparr>rs_archive := a\<rparr>"
  show thesis
  proof (cases answer)
    case HeaderEof
    then show thesis
      using assms h ended [of "?rs\<lparr>rs_endOfArchive := True\<rparr>"] by (simp add: next_round_def Let_def)
  next
    case HeaderFailed
    then show thesis using assms h failed [of ?rs PackageContentsInvalid] by (simp add: next_round_def)
  next
    case (HeaderOk ae)
    let ?rs1 = "?rs\<lparr>rs_entryIndex := sz_add (rs_entryIndex ?rs) 1\<rparr>"
    let ?r1 = "r\<lparr>ar_readState := ?rs1\<rparr>"
    let ?bad = "Return (None, setError PackageInvalidEntry ?r1)"
    show thesis
    proof (cases "ae_pathname ae")
      case None
      then have "res = ?bad" using assms h HeaderOk by (simp add: next_round_def Let_def)
      then show thesis using failed [of ?rs1] assms by simp
    next
      case (Some s)
      let ?p = "lexically_normal (path_of_string s)"
      have within: "withinSymLink ?r1 ?p \<longleftrightarrow> withinSymLink r ?p" by (simp add: withinSymLink_def)
      have res: "res =
          (if \<not> verifyPackagePath ?p then ?bad
           else if withinSymLink r ?p then ?bad
           else if ae_filetype ae AND AE_IFMT = AE_IFDIR then
             let r = updateParentEntryStack ?p (ae_mtime ae) ?r1 in
             if ar_entryStack r = [] then Continue r else Return (pop_entry r)
           else Return (next_leaf H ?p ae ?r1))"
        unfolding assms(1) [symmetric] using assms(2) h HeaderOk Some within by (simp add: next_round_def Let_def)
      consider "\<not> verifyPackagePath ?p \<or> withinSymLink r ?p"
        | "verifyPackagePath ?p" "\<not> withinSymLink r ?p" "ae_filetype ae AND AE_IFMT = AE_IFDIR"
        | "verifyPackagePath ?p" "\<not> withinSymLink r ?p" "ae_filetype ae AND AE_IFMT \<noteq> AE_IFDIR"
        by blast
      then show thesis
      proof cases
        case 1
        then have "res = ?bad" using res by (simp split: if_splits)
        then show thesis using failed [of ?rs1] assms by simp
      next
        case 2
        then show thesis
          using directory [of ?rs1 ?p ae] inner_path_normal assms res by simp
      next
        case 3
        then show thesis
          using leaf [of ?rs1 ?p ae] inner_path_normal assms res by simp
      qed
    qed
  qed
qed

lemma order_ok_readState:
  "rs_error rs = None \<Longrightarrow> ar_error r = None \<Longrightarrow> order_ok es (r\<lparr>ar_readState := rs\<rparr>) \<longleftrightarrow> order_ok es r"
  by (simp add: order_ok_def)

lemma order_ok_verified: "order_ok es (r\<lparr>ar_verifiedEntries := n\<rparr>) \<longleftrightarrow> order_ok es r"
  by (simp add: order_ok_def)

lemma pop_all: "ar_entryStack r \<noteq> [] \<Longrightarrow> es @ ar_entryStack r = (es @ [hd (ar_entryStack r)]) @ tl (ar_entryStack r)"
  by (cases "ar_entryStack r") simp_all

lemma order_ok_pop:
  assumes "order_ok es r" "ar_entryStack r \<noteq> []"
  shows "order_ok (es @ [hd (ar_entryStack r)]) (r\<lparr>ar_entryStack := tl (ar_entryStack r)\<rparr>)"
  using assms(1) unfolding order_ok_def pop_all [OF assms(2)]
  by simp

lemma clean_butlast: "clean ns \<Longrightarrow> clean (butlast ns)"
  by (auto simp: clean_def dest: in_set_butlastD)

lemma parent_names:
  assumes "inner_path p" "has_filename p"
  shows "p_names (parent_path p) = butlast (p_names p) \<and> \<not> p_absolute (parent_path p) \<and> clean (butlast (p_names p))"
  using assms clean_butlast [of "p_names p"] by (auto simp: parent_path_def has_filename_def inner_path_def)

definition count_leaves :: "package_entry list \<Rightarrow> nat" where
  "count_leaves es = length (filter (\<lambda>e. \<not> is_dir e) es)"

text \<open>
  With signatures: every file and symlink handed out or queued has its signed digest, and their number
  has been counted.  At the end of the archive nothing is queued, and the number is that of the
  signed files.
\<close>

definition signed_ok :: "(bytes \<Rightarrow> bytes) \<Rightarrow> package_entry list \<Rightarrow> 'a archive_reader \<Rightarrow> bool" where
  "signed_ok H es r \<longleftrightarrow>
     (rs_endOfArchive (ar_readState r) \<longrightarrow> ar_entryStack r = []) \<and>
     (\<forall>ds. ar_digests r = Some ds \<longrightarrow>
        (\<forall>e \<in> set (es @ ar_entryStack r). signed_as H ds e) \<and>
        (ar_error r = None \<longrightarrow>
           ar_verifiedEntries r = count_leaves (es @ ar_entryStack r) mod SIZE_LIMIT \<and>
           (rs_endOfArchive (ar_readState r) \<longrightarrow> ar_verifiedEntries r = length ds)))"

definition archive_ok :: "(bytes \<Rightarrow> bytes) \<Rightarrow> package_entry list \<Rightarrow> 'a archive_reader \<Rightarrow> bool" where
  "archive_ok H es r \<longleftrightarrow> order_ok es r \<and> signed_ok H es r"

lemma signed_dirs: "list_all is_dir ds \<Longrightarrow> e \<in> set ds \<Longrightarrow> signed_as H m e"
  by (auto simp: list_all_iff is_dir_def signed_as_def split: package_entry.splits)

lemma count_leaves_simps [simp]:
  "count_leaves [] = 0" "count_leaves (xs @ ys) = count_leaves xs + count_leaves ys"
  "count_leaves (e # es) = (if is_dir e then 0 else 1) + count_leaves es"
  by (simp_all add: count_leaves_def)

lemma count_dirs [simp]: "list_all is_dir ds \<Longrightarrow> count_leaves ds = 0"
  by (simp add: count_leaves_def filter_dirs)

lemma archive_ok_error: "archive_ok H es r \<Longrightarrow> archive_ok H es (setError e r)"
  by (simp add: archive_ok_def order_ok_error signed_ok_def)

lemma archive_ok_pop:
  assumes "archive_ok H es r" "ar_entryStack r \<noteq> []" "pop_entry r = (res, r')"
  shows "\<exists>e. res = Some e \<and> archive_ok H (es @ [e]) r'"
proof -
  have r': "res = Some (hd (ar_entryStack r))" "r' = r\<lparr>ar_entryStack := tl (ar_entryStack r)\<rparr>"
    using assms(3) by (simp_all add: pop_entry_def)
  have "signed_ok H (es @ [hd (ar_entryStack r)]) r'"
    using assms(1,2) unfolding archive_ok_def signed_ok_def pop_all [OF assms(2)] by (simp add: r')
  then show ?thesis using order_ok_pop [OF _ assms(2)] assms(1) r' by (simp add: archive_ok_def)
qed

lemma archive_ok_parents:
  assumes "archive_ok H es r" "ar_error r = None" "\<not> rs_endOfArchive (ar_readState r)" and p: "\<not> p_absolute p" "clean (p_names p) \<or> p_names p = [''.'']"
    "no_link_above (es @ ar_entryStack r) (p_names p)"
  shows "archive_ok H es (updateParentEntryStack p t r)"
proof -
  let ?r = "updateParentEntryStack p t r"
  have o: "order_ok es ?r" and q: "parents_queued r ?r"
    using update_parents_ok [OF _ assms(2) p] assms(1) by (auto simp: archive_ok_def)
  obtain ds where ds: "ar_entryStack ?r = ar_entryStack r @ ds" "list_all is_dir ds" using q by (auto simp: parents_queued_def)
  have "signed_ok H es ?r"
    using assms(1-3) q ds signed_dirs [OF ds(2)] by (auto simp: archive_ok_def signed_ok_def parents_queued_def)
  then show ?thesis using o by (simp add: archive_ok_def)
qed

lemma parents_queued_links:
  assumes "parents_queued r r'" "no_link_above (es @ ar_entryStack r) ns"
  shows "no_link_above (es @ ar_entryStack r') ns"
proof -
  obtain ds where ds: "ar_entryStack r' = ar_entryStack r @ ds" "list_all is_dir ds" using assms(1) by (auto simp: parents_queued_def)
  then show ?thesis using assms(2) filter_dirs(4) [OF ds(2)] by (auto simp: no_link_above_def)
qed

lemma strict_prefix_butlast: "strict_prefix qs ns \<Longrightarrow> prefix qs (butlast ns)"
  by (cases ns rule: rev_cases) (auto simp: strict_prefix_def)

lemma leaf_may_follow:
  assumes "inner_path (entry_path e)" "\<not> p_trailing (entry_path e)" "\<not> is_dir e" "parents_in xs (butlast (entry_names e))"
    "no_link_above xs (entry_names e)"
  shows "may_follow xs e"
  using assms strict_prefix_butlast by (auto simp: may_follow_def parents_in_def no_link_above_def)

lemma archive_ok_push:
  assumes "archive_ok H es r" "may_follow (es @ ar_entryStack r) e" "\<not> is_dir e" "ar_error r = None" "\<not> rs_endOfArchive (ar_readState r)"
    and links: "links = (if is_link e then ar_symlinks r @ [entry_path e] else ar_symlinks r)" "length links \<le> MAX_SYMLINK_COUNT"
    and signed: "\<forall>ds. ar_digests r = Some ds \<longrightarrow> signed_as H ds e \<and> n = sz_add (ar_verifiedEntries r) 1"
  shows "archive_ok H es (r\<lparr>ar_symlinks := links, ar_verifiedEntries := n, ar_entryStack := ar_entryStack r @ [e]\<rparr>)"
    (is "archive_ok H es ?r")
proof -
  have e: "\<not> p_absolute (entry_path e)" "\<not> p_trailing (entry_path e)" using assms(2) by (auto simp: may_follow_def inner_path_def)
  have app: "es @ ar_entryStack r @ [e] = (es @ ar_entryStack r) @ [e]" by simp
  have "order_ok es ?r"
    using assms(1-4) links e unfolding archive_ok_def order_ok_def
    by (auto simp: tree_matches_def in_order_snoc [of "es @ ar_entryStack r" e, simplified])
  moreover have "signed_ok H es ?r"
    using assms(1,3,4,5) signed by (auto simp: archive_ok_def signed_ok_def sz_add_def mod_simps)
  ultimately show ?thesis by (simp add: archive_ok_def)
qed

lemma archive_ok_failed:
  assumes "archive_ok H es r" "ar_error r' \<noteq> None" "ar_entryStack r' = ar_entryStack r" "ar_digests r' = ar_digests r"
    "ar_maxArchiveDirectories r' = ar_maxArchiveDirectories r" "rs_endOfArchive (ar_readState r') = rs_endOfArchive (ar_readState r)"
    "ar_symlinks r' = ar_symlinks r \<or> ar_symlinks r' = ar_symlinks r @ [p] \<and> \<not> p_absolute p \<and> \<not> p_trailing p \<and> length (ar_symlinks r') \<le> MAX_SYMLINK_COUNT"
  shows "archive_ok H es r'"
  using assms by (auto simp: archive_ok_def order_ok_def signed_ok_def)

lemma next_leaf_ok:
  assumes ok: "archive_ok H es r" "ar_error r = None" "\<not> rs_endOfArchive (ar_readState r)"
    and p: "inner_path p" "no_link_above (es @ ar_entryStack r) (p_names p)" and nxt: "next_leaf H p ae r = (res, r')"
  shows "case res of None \<Rightarrow> archive_ok H es r' \<and> ar_error r' \<noteq> None | Some e \<Rightarrow> archive_ok H (es @ [e]) r'"
proof (cases "has_filename p")
  case False
  then show ?thesis using nxt ok archive_ok_error by (auto simp: next_leaf_def)
next
  case True
  have abs: "\<not> p_absolute p" "\<not> p_trailing p" using p(1) True by (auto simp: inner_path_def has_filename_def)
  define r1 where "r1 = (if has_parent_path p then updateParentEntryStack (parent_path p) (ae_mtime ae) r else r)"
  define link where "link \<longleftrightarrow> ae_filetype ae AND AE_IFMT = AE_IFLNK"
  note pn = parent_names [OF p(1) True]
  have above: "no_link_above (es @ ar_entryStack r) (p_names (parent_path p))"
    using no_link_above_prefix [OF p(2) prefixeq_butlast] pn by simp
  have r1: "archive_ok H es r1" "parents_queued r r1"
    "ar_error r1 = None \<longrightarrow> parents_in (es @ ar_entryStack r1) (butlast (p_names p))"
  proof -
    have o: "order_ok es r" using ok by (simp add: archive_ok_def)
    have "has_parent_path p \<or> butlast (p_names p) = []"
      using pn by (auto simp: has_parent_path_def path_empty_def)
    then show "archive_ok H es r1" "parents_queued r r1"
      "ar_error r1 = None \<longrightarrow> parents_in (es @ ar_entryStack r1) (butlast (p_names p))"
      using archive_ok_parents [OF ok, of "parent_path p"] update_parents_ok [OF o ok(2), of "parent_path p"] pn above ok
      by (auto simp: r1_def parents_in_def)
  qed
  have above1: "no_link_above (es @ ar_entryStack r1) (p_names p)" using parents_queued_links [OF r1(2) p(2)] .
  have same: "ar_symlinks r1 = ar_symlinks r" "\<not> rs_endOfArchive (ar_readState r1)" using r1(2) ok(3) by (simp_all add: parents_queued_def)
  show ?thesis
  proof (cases "link \<and> length (ar_symlinks r1) \<ge> MAX_SYMLINK_COUNT")
    case True
    then have "res = None" "r' = setError PackageContentsInvalid r1"
      using nxt \<open>has_filename p\<close> by (auto simp: next_leaf_def r1_def [symmetric] link_def Let_def)
    then show ?thesis using archive_ok_error [OF r1(1)] by simp
  next
    case False
    define links where "links = (if link then ar_symlinks r1 @ [p] else ar_symlinks r1)"
    have len: "length links \<le> MAX_SYMLINK_COUNT" using False r1(1) by (auto simp: links_def archive_ok_def order_ok_def)
    have r2: "(if link then r1\<lparr>ar_symlinks := ar_symlinks r1 @ [p]\<rparr> else r1) = r1\<lparr>ar_symlinks := links\<rparr>" by (simp add: links_def)
    obtain c r3 where create: "createEntry H p ae (r1\<lparr>ar_symlinks := links\<rparr>) = (c, r3)" by fastforce
    have nxt': "(res, r') = (case c of None \<Rightarrow> (None, r3)
        | Some e \<Rightarrow> if ar_entryStack r3 \<noteq> [] then pop_entry (r3\<lparr>ar_entryStack := ar_entryStack r3 @ [e]\<rparr>) else (Some e, r3))"
      using nxt \<open>has_filename p\<close> False create
      by (cases c) (auto simp: next_leaf_def Let_def r1_def [symmetric] link_def [symmetric] r2)
    from create show ?thesis
    proof (cases rule: createEntry_cases)
      case (failed n e)
      then have "res = None" "r' = r3" "ar_error r3 \<noteq> None" using nxt' by auto
      moreover have "archive_ok H es r3"
      proof (rule archive_ok_failed [OF r1(1)])
        show "ar_symlinks r3 = ar_symlinks r1 \<or> ar_symlinks r3 = ar_symlinks r1 @ [p] \<and> \<not> p_absolute p \<and> \<not> p_trailing p \<and>
            length (ar_symlinks r3) \<le> MAX_SYMLINK_COUNT"
          using failed(2) abs len by (cases link) (auto simp: links_def)
      qed (use failed(2) in auto)
      ultimately show ?thesis by simp
    next
      case (created e n)
      have err: "ar_error r1 = None" using created by simp
      have "may_follow (es @ ar_entryStack r1) e"
        using leaf_may_follow [of e] created(3,4) p(1) abs r1(3) err above1 by simp
      moreover have "links = (if is_link e then ar_symlinks r1 @ [entry_path e] else ar_symlinks r1)"
        using created(3,5) by (simp add: links_def link_def)
      ultimately have push: "archive_ok H es (r1\<lparr>ar_symlinks := links, ar_verifiedEntries := n, ar_entryStack := ar_entryStack r1 @ [e]\<rparr>)"
        by (rule archive_ok_push [OF r1(1) _ created(4) err same(2) _ len]) (use created(7) in simp)
      have "(res, r') = pop_entry (r1\<lparr>ar_symlinks := links, ar_verifiedEntries := n, ar_entryStack := ar_entryStack r1 @ [e]\<rparr>)"
        using nxt' created(1,6) by (auto simp: pop_entry_def split: if_splits)
      from archive_ok_pop [OF push _ this [symmetric]] show ?thesis by auto
    qed
  qed
qed

lemma archive_ok_readState:
  "archive_ok H es r \<Longrightarrow> rs_error rs = None \<Longrightarrow> ar_error r = None \<Longrightarrow> rs_endOfArchive rs = rs_endOfArchive (ar_readState r) \<Longrightarrow>
   archive_ok H es (r\<lparr>ar_readState := rs\<rparr>)"
  by (auto simp: archive_ok_def order_ok_def signed_ok_def)

text \<open>While the loop runs nothing is queued and the archive has not ended.\<close>

definition looping :: "(bytes \<Rightarrow> bytes) \<Rightarrow> package_entry list \<Rightarrow> 'a archive_reader \<Rightarrow> bool" where
  "looping H es r \<longleftrightarrow> archive_ok H es r \<and> ar_entryStack r = [] \<and> \<not> rs_endOfArchive (ar_readState r)"

lemma next_round_ok:
  assumes loop: "looping H es r"
  shows "next_round lib H r = Continue r' \<Longrightarrow> looping H es r'"
    and "next_round lib H r = Return (res, r') \<Longrightarrow>
      (case res of None \<Rightarrow> archive_ok H es r' \<and> (ar_error r' \<noteq> None \<or> rs_endOfArchive (ar_readState r')) | Some e \<Rightarrow> archive_ok H (es @ [e]) r')"
proof -
  have ok: "archive_ok H es r" "ar_entryStack r = []" "\<not> rs_endOfArchive (ar_readState r)" using loop by (simp_all add: looping_def)
  have "case next_round lib H r of
      Continue r' \<Rightarrow> looping H es r'
    | Return (res, r') \<Rightarrow> (case res of None \<Rightarrow> archive_ok H es r' \<and> (ar_error r' \<noteq> None \<or> rs_endOfArchive (ar_readState r'))
        | Some e \<Rightarrow> archive_ok H (es @ [e]) r')"
  proof (cases "ar_error r = None")
    case False
    then show ?thesis using ok by (simp add: next_round_def)
  next
    case True
    have links: "no_link_above (es @ ar_entryStack r) (p_names p)" if "inner_path p" "\<not> withinSymLink r p" for p
      using not_within_symlink [of es r p] that ok by (simp add: archive_ok_def inner_path_def)
    from refl True show ?thesis
    proof (cases rule: next_round_cases [where lib = lib and H = H])
      case (failed rs e)
      then show ?thesis using archive_ok_error [OF archive_ok_readState [OF ok(1) _ True, of rs]] by simp
    next
      case (ended rs)
      let ?r = "r\<lparr>ar_readState := rs\<rparr>"
      have "order_ok es ?r" using ok(1) True ended(1) by (simp add: archive_ok_def order_ok_readState)
      moreover have "signed_ok H es (setError PackageSignatureInvalid ?r)" using ok ended(1,2) by (simp add: archive_ok_def signed_ok_def)
      moreover have "signed_ok H es ?r" if "ar_digests r = None \<or> length (the (ar_digests r)) = ar_verifiedEntries r"
        using that ok True by (auto simp: archive_ok_def signed_ok_def)
      ultimately show ?thesis using ended order_ok_error by (auto simp: archive_ok_def)
    next
      case (directory rs ae p)
      let ?r = "r\<lparr>ar_readState := rs\<rparr>" and ?u = "updateParentEntryStack p (ae_mtime ae) (r\<lparr>ar_readState := rs\<rparr>)"
      have r: "archive_ok H es ?r" using archive_ok_readState [OF ok(1) directory(1) True directory(2)] .
      have p: "\<not> p_absolute p" "clean (p_names p) \<or> p_names p = [''.'']" "no_link_above (es @ ar_entryStack ?r) (p_names p)"
        using directory(3) links [OF directory(3,4)] by (auto simp: inner_path_def)
      have u: "archive_ok H es ?u" using archive_ok_parents [OF r _ _ p] directory(1,2) ok by simp
      have "parents_queued ?r ?u" using update_parents_ok [OF _ _ p] r directory(1) by (simp add: archive_ok_def)
      then have "\<not> rs_endOfArchive (ar_readState ?u)" using directory(2) ok by (simp add: parents_queued_def)
      then show ?thesis
        using directory(5) u archive_ok_pop [OF u] by (cases "pop_entry ?u") (auto simp: Let_def looping_def)
    next
      case (leaf rs ae p)
      let ?r = "r\<lparr>ar_readState := rs\<rparr>"
      have r: "archive_ok H es ?r" using archive_ok_readState [OF ok(1) leaf(1) True leaf(2)] .
      obtain res r' where n: "next_leaf H p ae ?r = (res, r')" by fastforce
      have "no_link_above (es @ ar_entryStack ?r) (p_names p)" using links [OF leaf(3,4)] by simp
      from next_leaf_ok [OF r _ _ leaf(3) this n] show ?thesis using n leaf ok by (auto split: option.splits)
    qed
  qed
  then show "next_round lib H r = Continue r' \<Longrightarrow> looping H es r'"
    and "next_round lib H r = Return (res, r') \<Longrightarrow>
      (case res of None \<Rightarrow> archive_ok H es r' \<and> (ar_error r' \<noteq> None \<or> rs_endOfArchive (ar_readState r')) | Some e \<Rightarrow> archive_ok H (es @ [e]) r')"
    by auto
qed

lemma archive_next_ok:
  assumes "archive_ok H es r" "archive_next lib H r = Some (res, r')"
  shows "case res of None \<Rightarrow> archive_ok H es r' \<and> (ar_error r' \<noteq> None \<or> rs_endOfArchive (ar_readState r')) | Some e \<Rightarrow> archive_ok H (es @ [e]) r'"
proof -
  consider "ar_error r \<noteq> None \<or> rs_endOfArchive (ar_readState r)"
    | "ar_error r = None" "\<not> rs_endOfArchive (ar_readState r)" "ar_entryStack r \<noteq> []"
    | "ar_error r = None" "looping H es r" using assms(1) by (auto simp: looping_def)
  then show ?thesis
  proof cases
    case 1
    then show ?thesis using assms by (auto simp: archive_next_def)
  next
    case 2
    then show ?thesis using assms archive_ok_pop [of H es r res r'] by (auto simp: archive_next_def)
  next
    case 3
    then have "loop (next_round lib H) r = Some (res, r')" using assms(2) by (simp add: archive_next_def looping_def)
    from loop_invariant [OF this, of "looping H es"] 3 next_round_ok
    show ?thesis by blast
  qed
qed

subsection \<open>Runs of the reader\<close>

text \<open>
  A client calls \<open>next\<close>, and in between reads and extracts file entries, which share the state of the
  archive with the reader.  The list holds the entries \<open>next\<close> has handed out.
\<close>

inductive reader_run ::
  "'a libarchive \<Rightarrow> (bytes \<Rightarrow> bytes) \<Rightarrow> 'a archive_reader \<Rightarrow> package_entry list \<Rightarrow> 'a archive_reader \<Rightarrow> bool"
  for lib H r0 where
  run_start: "reader_run lib H r0 [] r0"
| run_entry: "reader_run lib H r0 es r \<Longrightarrow> archive_next lib H r = Some (Some e, r') \<Longrightarrow> reader_run lib H r0 (es @ [e]) r'"
| run_none: "reader_run lib H r0 es r \<Longrightarrow> archive_next lib H r = Some (None, r') \<Longrightarrow> reader_run lib H r0 es r'"
| run_read: "reader_run lib H r0 es r \<Longrightarrow> file_entry_read lib H buf n (Some (ar_readState r)) f = (res, Some rs, f') \<Longrightarrow>
    reader_run lib H r0 es (r\<lparr>ar_readState := rs\<rparr>)"
| run_write: "reader_run lib H r0 es r \<Longrightarrow>
    file_writeTo lib H sys maxSize options (Some (ar_readState r)) f = Some (written, effects, Some rs) \<Longrightarrow>
    reader_run lib H r0 es (r\<lparr>ar_readState := rs\<rparr>)"

text \<open>Reading and writing entries leave the position alone and never take an error back.\<close>

lemma file_read_state:
  "file_entry_read lib H buf n (Some rs) f = (res, Some rs', f') \<Longrightarrow>
   rs_endOfArchive rs' = rs_endOfArchive rs \<and> (rs_error rs' = None \<longrightarrow> rs_error rs = None)"
  by (cases "checkReadState (Some rs) f"; cases "readData lib n (rs_archive rs)")
    (auto simp: file_entry_read_def checkReadState_def Let_def split: if_splits option.splits)

lemma file_writeTo_state:
  "file_writeTo lib H sys maxSize options (Some rs) f = Some (written, effects, Some rs') \<Longrightarrow>
   rs_endOfArchive rs' = rs_endOfArchive rs \<and> rs_error rs' = rs_error rs"
  by (cases "checkReadState (Some rs) f"; cases "checkExtraction (wc_check sys) (wc_stat sys) TypeRegular (be_perms f) options")
    (auto simp: file_writeTo_def checkReadState_def Let_def split: if_splits option.splits sum.splits extract_operation.splits prod.splits)

lemma archive_ok_state:
  "archive_ok H es r \<Longrightarrow> rs_endOfArchive rs = rs_endOfArchive (ar_readState r) \<Longrightarrow> (rs_error rs = None \<longrightarrow> ar_error r = None) \<Longrightarrow>
   archive_ok H es (r\<lparr>ar_readState := rs\<rparr>)"
  by (auto simp: archive_ok_def order_ok_def signed_ok_def)

lemma new_archive_reader_ok: "archive_ok H [] (new_archive_reader a digests)"
  by (simp add: archive_ok_def order_ok_def signed_ok_def new_archive_reader_def tree_matches_def)

lemma archive_run_ok: "reader_run lib H r0 es r \<Longrightarrow> archive_ok H [] r0 \<Longrightarrow> archive_ok H es r"
proof (induction rule: reader_run.induct)
  case (run_entry es r e r')
  then show ?case using archive_next_ok [of H es r lib] by fastforce
next
  case (run_none es r r')
  then show ?case using archive_next_ok [of H es r lib] by fastforce
next
  case (run_read es r buf n f res rs f')
  then show ?case using archive_ok_state file_read_state by blast
next
  case (run_write es r sys maxSize options f written effects rs)
  then show ?case using archive_ok_state file_writeTo_state by metis
qed

lemma updateParentEntryStack_sel [simp]:
  "ar_digests (updateParentEntryStack p t r) = ar_digests r"
  "rs_archive (ar_readState (updateParentEntryStack p t r)) = rs_archive (ar_readState r)"
  by (simp_all add: updateParentEntryStack_def Let_def split: prod.split option.split)

lemma createEntry_digests: "createEntry H p ae r = (res, r') \<Longrightarrow> ar_digests r' = ar_digests r"
  by (erule createEntry_cases) auto

lemma next_leaf_digests:
  assumes "next_leaf H p ae r = (res, r')"
  shows "ar_digests r' = ar_digests r"
proof -
  define r1 where "r1 = (if has_parent_path p then updateParentEntryStack (parent_path p) (ae_mtime ae) r else r)"
  define r2 where "r2 = (if ae_filetype ae AND AE_IFMT = AE_IFLNK then r1\<lparr>ar_symlinks := ar_symlinks r1 @ [p]\<rparr> else r1)"
  have d: "ar_digests r1 = ar_digests r" "ar_digests r2 = ar_digests r" by (simp_all add: r1_def r2_def)
  obtain c r3 where create: "createEntry H p ae r2 = (c, r3)" by fastforce
  have "next_leaf H p ae r =
      (if \<not> has_filename p then (None, setError PackageInvalidEntry r)
       else if (ae_filetype ae AND AE_IFMT = AE_IFLNK) \<and> length (ar_symlinks r1) \<ge> MAX_SYMLINK_COUNT
       then (None, setError PackageContentsInvalid r1)
       else case createEntry H p ae r2 of
         (None, r) \<Rightarrow> (None, r)
       | (Some e, r) \<Rightarrow>
           if ar_entryStack r \<noteq> [] then pop_entry (r\<lparr>ar_entryStack := ar_entryStack r @ [e]\<rparr>) else (Some e, r))"
    by (simp only: next_leaf_def Let_def r1_def r2_def)
  then show ?thesis
    using assms d createEntry_digests [OF create] create
    by (cases c) (auto simp: pop_entry_def split: if_splits)
qed

lemma next_round_digests:
  "case next_round lib H r of Continue r' \<Rightarrow> ar_digests r' = ar_digests r | Return (res, r') \<Rightarrow> ar_digests r' = ar_digests r"
proof (cases "ar_error r = None")
  case True
  from refl this show ?thesis
  proof (cases rule: next_round_cases [where lib = lib and H = H])
    case (leaf rs ae p)
    obtain res r' where n: "next_leaf H p ae (r\<lparr>ar_readState := rs\<rparr>) = (res, r')" by fastforce
    show ?thesis using next_leaf_digests [OF n] leaf(6) n by simp
  qed (auto simp: pop_entry_def Let_def)
qed (simp add: next_round_def)

lemma archive_next_digests:
  assumes "archive_next lib H r = Some (res, r')"
  shows "ar_digests r' = ar_digests r"
proof (cases "ar_error r \<noteq> None \<or> rs_endOfArchive (ar_readState r) \<or> ar_entryStack r \<noteq> []")
  case True
  then show ?thesis using assms by (auto simp: archive_next_def pop_entry_def split: if_splits)
next
  case False
  then have "loop (next_round lib H) r = Some (res, r')" using assms by (simp add: archive_next_def)
  from loop_invariant [OF this, of "\<lambda>s. ar_digests s = ar_digests r"] next_round_digests [where lib = lib and H = H]
  show ?thesis by (fastforce split: step.splits)
qed

lemma reader_run_digests: "reader_run lib H r0 es r \<Longrightarrow> ar_digests r = ar_digests r0"
  by (induction rule: reader_run.induct) (auto dest: archive_next_digests)

text \<open>
  C12. Whatever libarchive returns and however its client mixes reading, extracting and moving on, the
  reader hands out entries inside the package directory only, every directory before what lies in
  it and none of them twice, and nothing at or below a symlink it handed out; there are never more
  than 8193 directories and 8192 symlinks.
\<close>

theorem archive_entries_in_order:
  assumes "reader_run lib H (new_archive_reader a digests) es r"
  shows "in_order es \<and> length (filter is_dir es) \<le> MAX_DIRECTORY_COUNT + 1 \<and> length (filter is_link es) \<le> MAX_SYMLINK_COUNT"
proof -
  have "order_ok es r" using archive_run_ok [OF assms new_archive_reader_ok] by (simp add: archive_ok_def)
  moreover have "in_order es" if "in_order (es @ q)" for q
    using that by (induction q rule: rev_induct) (simp_all flip: append_assoc)
  ultimately show ?thesis by (auto simp: order_ok_def)
qed

subsection \<open>Signed archives\<close>

abbreviation leaves :: "package_entry list \<Rightarrow> package_entry list" where
  "leaves es \<equiv> filter (\<lambda>e. \<not> is_dir e) es"

lemma signed_as_key: "signed_as H ds e \<Longrightarrow> \<not> is_dir e \<Longrightarrow> entry_path e \<in> fst ` set ds"
  using map_of_eq_None_iff [of ds "entry_path e"] by (cases e) (auto simp: signed_as_def)

text \<open>
  C13. When the reader of a signed archive comes to its end without an error, and no file occurs twice,
  then the files and symlinks it handed out are exactly the signed ones, each with its signed digest.
\<close>

theorem signed_archive_complete:
  assumes run: "reader_run lib H (new_archive_reader a (Some ds)) es r"
    and ended: "rs_endOfArchive (ar_readState r)" "\<not> archive_hasError r"
    and map: "distinct (map fst ds)" "length ds < SIZE_LIMIT"
    and once: "distinct (map entry_path (leaves es))" "length es < SIZE_LIMIT"
  shows "entry_path ` set (leaves es) = fst ` set ds \<and> (\<forall>e \<in> set es. signed_as H ds e)"
proof -
  have ok: "signed_ok H es r" using archive_run_ok [OF run new_archive_reader_ok] by (simp add: archive_ok_def)
  have "ar_digests r = Some ds" using reader_run_digests [OF run] by (simp add: new_archive_reader_def)
  then have signed: "\<forall>e \<in> set es. signed_as H ds e" and count: "count_leaves es mod SIZE_LIMIT = length ds"
    using ok ended by (auto simp: signed_ok_def archive_hasError_def)
  have "count_leaves es < SIZE_LIMIT" using once(2) le_less_trans [OF length_filter_le] unfolding count_leaves_def by blast
  then have "length (leaves es) = length ds" using count by (simp add: count_leaves_def)
  then have card: "card (entry_path ` set (leaves es)) = card (fst ` set ds)"
    using map(1) once(1) by (metis distinct_card length_map list.set_map)
  have "entry_path ` set (leaves es) \<subseteq> fst ` set ds" using signed signed_as_key by auto
  then have "entry_path ` set (leaves es) = fst ` set ds" using card by (intro card_subset_eq) auto
  then show ?thesis using signed by blast
qed

text \<open>The headers of an archive end after at most a number of answers.\<close>

fun headers_end :: "'a libarchive \<Rightarrow> nat \<Rightarrow> 'a \<Rightarrow> bool" where
  "headers_end lib 0 a = False"
| "headers_end lib (Suc n) a = (case nextHeader lib a of (HeaderOk _, a) \<Rightarrow> headers_end lib n a | _ \<Rightarrow> True)"

lemma next_round_advances:
  assumes "next_round lib H r = Continue r'"
  shows "\<exists>ae. nextHeader lib (rs_archive (ar_readState r)) = (HeaderOk ae, rs_archive (ar_readState r'))"
proof -
  obtain answer a where h: "nextHeader lib (rs_archive (ar_readState r)) = (answer, a)" by fastforce
  with assms obtain ae where ae: "answer = HeaderOk ae"
    by (cases answer) (auto simp: next_round_def Let_def split: if_splits)
  then show ?thesis
    using assms h by (auto simp: next_round_def Let_def split: if_splits option.splits)
qed

text \<open>
  \<open>next\<close> returns as soon as libarchive's headers end, and when it returns no entry the reader has
  an error or is at the end of the archive.
\<close>

theorem archive_next_returns:
  assumes "headers_end lib n (rs_archive (ar_readState r))" "reader_run lib H (new_archive_reader a digests) es r"
  shows "\<exists>res r'. archive_next lib H r = Some (res, r') \<and>
    (res = None \<longrightarrow> archive_hasError r' \<or> rs_endOfArchive (ar_readState r'))"
proof -
  let ?I = "\<lambda>(s :: 'a archive_reader). \<exists>n. headers_end lib n (rs_archive (ar_readState s))"
  let ?m = "\<lambda>(s :: 'a archive_reader). LEAST n. headers_end lib n (rs_archive (ar_readState s))"
  have "\<exists>x. loop (next_round lib H) r = Some x"
  proof (rule loop_terminates [where I = ?I and m = ?m])
    fix s s' :: "'a archive_reader" assume I: "?I s" and step: "next_round lib H s = Continue s'"
    obtain k where k: "?m s = k" "headers_end lib k (rs_archive (ar_readState s))" using LeastI_ex [OF I] by blast
    obtain ae where h: "nextHeader lib (rs_archive (ar_readState s)) = (HeaderOk ae, rs_archive (ar_readState s'))"
      using next_round_advances [OF step] by blast
    obtain j where j: "k = Suc j" using k(2) by (cases k) auto
    then have e: "headers_end lib j (rs_archive (ar_readState s'))" using k(2) h by simp
    then have "?m s' \<le> j" by (rule Least_le)
    then show "?I s' \<and> ?m s' < ?m s" using e j k(1) by auto
  qed (use assms in auto)
  then have "\<exists>x. archive_next lib H r = Some x" by (auto simp: archive_next_def)
  then obtain res r' where nxt: "archive_next lib H r = Some (res, r')" by fastforce
  then show ?thesis
    using archive_next_ok [OF archive_run_ok [OF assms(2) new_archive_reader_ok] nxt] by (auto simp: archive_hasError_def)
qed

subsection \<open>Sample archives\<close>

text \<open>An archive held as the list of its headers.\<close>

definition headers_lib :: "archive_entry list libarchive" where
  "headers_lib =
     \<lparr>nextHeader = (\<lambda>a. (case a of [] \<Rightarrow> (HeaderEof, []) | h # hs \<Rightarrow> (HeaderOk h, hs))),
      readData = (\<lambda>n a. (None, a)), readDataBlock = (\<lambda>a. (BlockFailed, a))\<rparr>"

definition file_header :: "string \<Rightarrow> archive_entry" where
  "file_header s =
     \<lparr>ae_pathname = Some s, ae_filetype = AE_IFREG, ae_perm = 0x1A4, ae_mtime = 0, ae_size = 1, ae_symlink = None\<rparr>"

abbreviation single :: "string \<Rightarrow> path" where "single s \<equiv> \<lparr>p_absolute = False, p_names = [s], p_trailing = False\<rparr>"

lemma single_normal:
  "lexically_normal (path_of_string ''f'') = single ''f''"
  by (simp add: path_of_string_def lexically_normal_def path_empty_def Let_def)

lemma single_checks:
  "verifyPackagePath (single ''f'')" "has_filename (single ''f'')" "\<not> has_parent_path (single ''f'')"
  by (simp_all add: verifyPackagePath_def path_empty_def path_parts_def has_filename_def has_parent_path_def parent_path_def)

definition file_entry_for :: "path \<Rightarrow> bytes option \<Rightarrow> nat \<Rightarrow> file_entry" where
  "file_entry_for p digest index =
     \<lparr>be_path = p, be_type = TypeRegular, be_size = 1, be_perms = kDefaultFilePerms, be_modTime = 0, be_uid = 0, be_gid = 0,
      fe_digest = digest, fe_index = index, fe_builder = None, fe_eof = False\<rparr>"

text \<open>One file at the top of a signed archive: it is handed out and counted.\<close>

lemma next_single_file:
  assumes "ar_error r = None" "\<not> rs_endOfArchive (ar_readState r)" "ar_entryStack r = []" "ar_symlinks r = []"
    "rs_archive (ar_readState r) = file_header ''f'' # hs" "ar_digests r = Some ds" "map_of ds (single ''f'') = Some d"
  shows "\<exists>i. archive_next headers_lib H r =
    Some (Some (FileEntry (file_entry_for (single ''f'') (Some d) i)),
      r\<lparr>ar_verifiedEntries := sz_add (ar_verifiedEntries r) 1,
        ar_readState := (ar_readState r)\<lparr>rs_archive := hs, rs_entryIndex := i\<rparr>\<rparr>)"
proof -
  let ?i = "sz_add (rs_entryIndex (ar_readState r)) 1"
  let ?rs = "(ar_readState r)\<lparr>rs_archive := hs, rs_entryIndex := ?i\<rparr>"
  have type: "ae_filetype (file_header ''f'') AND AE_IFMT = AE_IFREG" "ae_pathname (file_header ''f'') = Some ''f''"
    by (simp_all add: file_header_def)
  have "make_entry H ?rs (single ''f'') (file_header ''f'') (Some d) = Inr (FileEntry (file_entry_for (single ''f'') (Some d) ?i))"
    by (simp add: make_entry_def type file_create_def) (simp add: file_header_def file_entry_for_def)
  then have "createEntry H (single ''f'') (file_header ''f'') (r\<lparr>ar_readState := ?rs\<rparr>) =
      (Some (FileEntry (file_entry_for (single ''f'') (Some d) ?i)), r\<lparr>ar_readState := ?rs, ar_verifiedEntries := sz_add (ar_verifiedEntries r) 1\<rparr>)"
    using assms by (simp add: createEntry_def type)
  then have "next_leaf H (single ''f'') (file_header ''f'') (r\<lparr>ar_readState := ?rs\<rparr>) =
      (Some (FileEntry (file_entry_for (single ''f'') (Some d) ?i)), r\<lparr>ar_readState := ?rs, ar_verifiedEntries := sz_add (ar_verifiedEntries r) 1\<rparr>)"
    using assms by (simp add: next_leaf_def type single_checks)
  moreover have "withinSymLink (r\<lparr>ar_readState := x\<rparr>) p = False" for x p using assms by (simp add: withinSymLink_def)
  ultimately have "next_round headers_lib H r =
      Return (Some (FileEntry (file_entry_for (single ''f'') (Some d) ?i)), r\<lparr>ar_readState := ?rs, ar_verifiedEntries := sz_add (ar_verifiedEntries r) 1\<rparr>)"
    using assms by (simp add: next_round_def headers_lib_def Let_def type single_normal single_checks)
  then show ?thesis using assms by (auto simp: archive_next_def loop_Return)
qed

lemma next_at_end:
  assumes "ar_error r = None" "\<not> rs_endOfArchive (ar_readState r)" "ar_entryStack r = []"
    "rs_archive (ar_readState r) = []" "ar_digests r = Some ds" "length ds = ar_verifiedEntries r"
  shows "archive_next headers_lib H r = Some (None, r\<lparr>ar_readState := (ar_readState r)\<lparr>rs_endOfArchive := True\<rparr>\<rparr>)"
  using assms by (simp add: archive_next_def loop_Return next_round_def headers_lib_def Let_def)

text \<open>
  C29. Entries are only counted: an archive that holds one signed file twice is accepted although
  another signed file is missing.
\<close>

theorem duplicate_hides_missing_file:
  "\<exists>es r. reader_run headers_lib H (new_archive_reader [file_header ''f'', file_header ''f''] (Some [(single ''f'', d), (single ''g'', d')])) es r \<and>
     rs_endOfArchive (ar_readState r) \<and> \<not> archive_hasError r \<and> single ''g'' \<notin> entry_path ` set es"
proof -
  let ?r0 = "new_archive_reader [file_header ''f'', file_header ''f''] (Some [(single ''f'', d), (single ''g'', d')])"
  obtain i where 1: "archive_next headers_lib H ?r0 = Some (Some (FileEntry (file_entry_for (single ''f'') (Some d) i)),
      ?r0\<lparr>ar_verifiedEntries := 1, ar_readState := (ar_readState ?r0)\<lparr>rs_archive := [file_header ''f''], rs_entryIndex := i\<rparr>\<rparr>)"
    using next_single_file [of ?r0 "[file_header ''f'']" _ d H] by (auto simp: new_archive_reader_def sz_add_def)
  let ?r1 = "?r0\<lparr>ar_verifiedEntries := 1, ar_readState := (ar_readState ?r0)\<lparr>rs_archive := [file_header ''f''], rs_entryIndex := i\<rparr>\<rparr>"
  obtain j where 2: "archive_next headers_lib H ?r1 = Some (Some (FileEntry (file_entry_for (single ''f'') (Some d) j)),
      ?r1\<lparr>ar_verifiedEntries := 2, ar_readState := (ar_readState ?r1)\<lparr>rs_archive := [], rs_entryIndex := j\<rparr>\<rparr>)"
    using next_single_file [of ?r1 "[]" _ d H] by (auto simp: new_archive_reader_def sz_add_def)
  let ?r2 = "?r1\<lparr>ar_verifiedEntries := 2, ar_readState := (ar_readState ?r1)\<lparr>rs_archive := [], rs_entryIndex := j\<rparr>\<rparr>"
  have 3: "archive_next headers_lib H ?r2 = Some (None, ?r2\<lparr>ar_readState := (ar_readState ?r2)\<lparr>rs_endOfArchive := True\<rparr>\<rparr>)"
    by (rule next_at_end [where ds = "[(single ''f'', d), (single ''g'', d')]"]) (simp_all add: new_archive_reader_def)
  from run_none [OF run_entry [OF run_entry [OF run_start 1] 2] 3]
  show ?thesis by (intro exI conjI, assumption) (simp_all add: new_archive_reader_def archive_hasError_def file_entry_for_def)
qed

text \<open>The run over an archive with its one signed file.\<close>

lemma single_run:
  "\<exists>e r. reader_run headers_lib rev (new_archive_reader [file_header ''f''] (Some [(single ''f'', [7])])) [e] r \<and>
     rs_endOfArchive (ar_readState r) \<and> \<not> archive_hasError r \<and> entry_path e = single ''f'' \<and> \<not> is_dir e"
proof -
  let ?r0 = "new_archive_reader [file_header ''f''] (Some [(single ''f'', [7])])"
  obtain i where 1: "archive_next headers_lib rev ?r0 = Some (Some (FileEntry (file_entry_for (single ''f'') (Some [7]) i)),
      ?r0\<lparr>ar_verifiedEntries := 1, ar_readState := (ar_readState ?r0)\<lparr>rs_archive := [], rs_entryIndex := i\<rparr>\<rparr>)"
    using next_single_file [of ?r0 "[]" _ "[7]" rev] by (auto simp: new_archive_reader_def sz_add_def)
  let ?r1 = "?r0\<lparr>ar_verifiedEntries := 1, ar_readState := (ar_readState ?r0)\<lparr>rs_archive := [], rs_entryIndex := i\<rparr>\<rparr>"
  have 2: "archive_next headers_lib rev ?r1 = Some (None, ?r1\<lparr>ar_readState := (ar_readState ?r1)\<lparr>rs_endOfArchive := True\<rparr>\<rparr>)"
    by (rule next_at_end [where ds = "[(single ''f'', [7])]"]) (simp_all add: new_archive_reader_def)
  from run_none [OF run_entry [OF run_start 1] 2]
  show ?thesis by (intro exI conjI, simp) (simp_all add: new_archive_reader_def archive_hasError_def file_entry_for_def)
qed

lemma archive_entries_in_order_witness:
  "\<exists>e r. reader_run headers_lib rev (new_archive_reader [file_header ''f''] (Some [(single ''f'', [7])])) [e] r \<and> in_order [e]"
proof -
  obtain e r where run: "reader_run headers_lib rev (new_archive_reader [file_header ''f''] (Some [(single ''f'', [7])])) [e] r"
    using single_run by blast
  then show ?thesis using archive_entries_in_order [OF run] by blast
qed

lemma signed_archive_complete_witness:
  "\<exists>e r. reader_run headers_lib rev (new_archive_reader [file_header ''f''] (Some [(single ''f'', [7])])) [e] r \<and>
     entry_path ` set (leaves [e]) = {single ''f''} \<and> signed_as rev [(single ''f'', [7])] e"
proof -
  obtain e r where run: "reader_run headers_lib rev (new_archive_reader [file_header ''f''] (Some [(single ''f'', [7])])) [e] r"
    "rs_endOfArchive (ar_readState r)" "\<not> archive_hasError r" "\<not> is_dir e" using single_run by blast
  then show ?thesis using signed_archive_complete [OF run(1-3)] by auto
qed

lemma archive_next_returns_witness:
  "\<exists>res r'. archive_next headers_lib rev (new_archive_reader [file_header ''f''] None) = Some (res, r')"
proof -
  have "headers_end headers_lib 2 (rs_archive (ar_readState (new_archive_reader [file_header ''f''] None)))"
    by (simp add: numeral_2_eq_2 headers_lib_def new_archive_reader_def)
  from archive_next_returns [OF this run_start, of rev] show ?thesis by blast
qed

end
