(* ===== verification/OCIDescriptor.thy ===== *)
theory OCIDescriptor
  imports Digests PackageChecks "HOL-Library.AList"
begin

section \<open>OCI descriptors\<close>

text \<open>
  \<open>lib/oci/OCIDescriptor.cpp\<close>: the descriptors of an OCI package, read from JSON.  The JSON library is
  a parameter where it parses text; its values are the datatype of this theory, with the members of
  an object in the order the library iterates over them, integers of either signedness as \<open>int\<close>, and
  floating-point numbers, which are finite, as a mantissa and an exponent of two.
\<close>

subsection \<open>JSON values\<close>

datatype json =
  JNull | JBool bool | JInt int | JFloat int int | JString string | JArray "json list" | JObject "(string \<times> json) list" | JDiscarded

text \<open>
  \<open>json_parse\<close> is \<open>nlohmann::json::parse\<close> without exceptions, with the flag that lets comments pass;
  \<open>json_flatten\<close> is \<open>json::flatten\<close>, \<open>None\<close> where it throws.
\<close>

record json_library =
  json_parse :: "bool \<Rightarrow> bytes \<Rightarrow> json"
  json_flatten :: "json \<Rightarrow> (string \<times> json) list option"

fun is_object :: "json \<Rightarrow> bool" where
  "is_object (JObject _) = True"
| "is_object _ = False"

fun members :: "json \<Rightarrow> (string \<times> json) list" where
  "members (JObject kvs) = kvs"
| "members _ = []"

text \<open>\<open>get<int64_t>()\<close> and \<open>get<int>()\<close> are conversions of the C++ language.\<close>

definition get_int64 :: "int \<Rightarrow> int" where
  "get_int64 n = sint (word_of_int n :: 64 word)"

definition get_int :: "int \<Rightarrow> int" where
  "get_int n = sint (word_of_int n :: 32 word)"

subsection \<open>Parsing a descriptor\<close>

record oci_descriptor =
  od_digest :: string
  od_mediaType :: string
  od_size :: nat
  od_data :: bytes
  od_urls :: "string list"
  od_annotations :: "(string \<times> string) list"

text \<open>What the loop over the members has found so far; a size of -1 is no size.\<close>

record descriptor_fields =
  df_mediaType :: string
  df_digest :: string
  df_size :: int
  df_data :: bytes
  df_urls :: "string list"
  df_annotations :: "(string \<times> string) list"

definition no_fields :: descriptor_fields where
  "no_fields = \<lparr>df_mediaType = [], df_digest = [], df_size = -1, df_data = [], df_urls = [], df_annotations = []\<rparr>"

fun parse_urls :: "json list \<Rightarrow> string list \<Rightarrow> error_code + string list" where
  "parse_urls [] urls = Inr urls"
| "parse_urls (JString s # js) urls = parse_urls js (urls @ [s])"
| "parse_urls (_ # js) urls = Inl PackageContentsInvalid"

fun parse_annotations :: "(string \<times> json) list \<Rightarrow> (string \<times> string) list \<Rightarrow> error_code + (string \<times> string) list" where
  "parse_annotations [] m = Inr m"
| "parse_annotations ((k, JString s) # js) m = parse_annotations js (AList.update k s m)"
| "parse_annotations (_ # js) m = Inl PackageContentsInvalid"

definition parse_member ::
  "(string \<Rightarrow> bytes option) \<Rightarrow> string \<Rightarrow> json \<Rightarrow> descriptor_fields \<Rightarrow> error_code + descriptor_fields" where
  "parse_member base64_decode key value f =
     (if key = ''mediaType'' then
        (case value of JString s \<Rightarrow> Inr (f\<lparr>df_mediaType := s\<rparr>) | _ \<Rightarrow> Inl PackageContentsInvalid)
      else if key = ''digest'' then
        (case value of JString s \<Rightarrow> Inr (f\<lparr>df_digest := s\<rparr>) | _ \<Rightarrow> Inl PackageContentsInvalid)
      else if key = ''size'' then
        (case value of JInt n \<Rightarrow> Inr (f\<lparr>df_size := get_int64 n\<rparr>) | _ \<Rightarrow> Inl PackageContentsInvalid)
      else if key = ''data'' then
        (case value of
           JString s \<Rightarrow> (case base64_decode s of None \<Rightarrow> Inl PackageContentsInvalid | Some d \<Rightarrow> Inr (f\<lparr>df_data := d\<rparr>))
         | _ \<Rightarrow> Inl PackageContentsInvalid)
      else if key = ''urls'' then
        (case value of
           JArray js \<Rightarrow> bind_result (parse_urls js (df_urls f)) (\<lambda>urls. Inr (f\<lparr>df_urls := urls\<rparr>))
         | _ \<Rightarrow> Inl PackageContentsInvalid)
      else if key = ''annotations'' then
        (case value of
           JObject kvs \<Rightarrow> bind_result (parse_annotations kvs (df_annotations f)) (\<lambda>m. Inr (f\<lparr>df_annotations := m\<rparr>))
         | _ \<Rightarrow> Inl PackageContentsInvalid)
      else Inr f)"

fun parse_members ::
  "(string \<Rightarrow> bytes option) \<Rightarrow> (string \<times> json) list \<Rightarrow> descriptor_fields \<Rightarrow> error_code + descriptor_fields" where
  "parse_members base64_decode [] f = Inr f"
| "parse_members base64_decode ((key, value) # kvs) f =
     bind_result (parse_member base64_decode key value f) (parse_members base64_decode kvs)"

definition descriptor_parse :: "(string \<Rightarrow> bytes option) \<Rightarrow> json \<Rightarrow> error_code + oci_descriptor" where
  "descriptor_parse base64_decode j =
     (if \<not> is_object j then Inl PackageContentsInvalid
      else bind_result (parse_members base64_decode (members j) no_fields) (\<lambda>f.
        case validateDigest (df_digest f) of
          None \<Rightarrow> Inl PackageContentsInvalid
        | Some d \<Rightarrow>
            if df_size f < 0 then Inl PackageContentsInvalid
            else if df_size f > int INT32_MAX then Inl PackageContentsInvalid
            else Inr \<lparr>od_digest = d, od_mediaType = df_mediaType f, od_size = nat (df_size f), od_data = df_data f,
              od_urls = df_urls f, od_annotations = df_annotations f\<rparr>))"

subsection \<open>What an accepted descriptor is\<close>

definition descriptor_wf :: "oci_descriptor \<Rightarrow> bool" where
  "descriptor_wf d \<longleftrightarrow> validateSha256Digest (od_digest d) \<and> od_size d \<le> INT32_MAX \<and> distinct (map fst (od_annotations d))"

lemma parse_annotations_distinct:
  "parse_annotations kvs m = Inr m' \<Longrightarrow> distinct (map fst m) \<Longrightarrow> distinct (map fst m')"
  by (induction kvs m rule: parse_annotations.induct) (auto simp: distinct_update)

lemma parse_member_distinct:
  "parse_member dec key value f = Inr f' \<Longrightarrow> distinct (map fst (df_annotations f)) \<Longrightarrow> distinct (map fst (df_annotations f'))"
  by (auto simp: parse_member_def split: if_splits json.splits option.splits dest: parse_annotations_distinct)

lemma parse_members_distinct:
  "parse_members dec kvs f = Inr f' \<Longrightarrow> distinct (map fst (df_annotations f)) \<Longrightarrow> distinct (map fst (df_annotations f'))"
  by (induction dec kvs f rule: parse_members.induct) (auto dest: parse_member_distinct)

lemma validateDigest_Some: "validateDigest s = Some d \<Longrightarrow> validateSha256Digest d"
  by (auto simp: validateDigest_def split: if_splits)

text \<open>
  C22. Every descriptor that is accepted has a digest of 64 hexadecimal digits, a size that fits a
  signed 32-bit integer, and one value for each of its annotations.
\<close>

theorem descriptor_parse_wf:
  assumes "descriptor_parse dec j = Inr d"
  shows "descriptor_wf d"
proof -
  obtain f where f: "parse_members dec (members j) no_fields = Inr f" and
    d: "(case validateDigest (df_digest f) of
          None \<Rightarrow> Inl PackageContentsInvalid
        | Some h \<Rightarrow>
            if df_size f < 0 then Inl PackageContentsInvalid
            else if df_size f > int INT32_MAX then Inl PackageContentsInvalid
            else Inr \<lparr>od_digest = h, od_mediaType = df_mediaType f, od_size = nat (df_size f), od_data = df_data f,
              od_urls = df_urls f, od_annotations = df_annotations f\<rparr>) = Inr d"
    using assms by (auto simp: descriptor_parse_def split: if_splits)
  have "distinct (map fst (df_annotations f))" using parse_members_distinct [OF f] by (simp add: no_fields_def)
  then show ?thesis using d by (auto simp: descriptor_wf_def validateDigest_Some split: option.splits if_splits)
qed

end
