(* ===== verification/OCIStore.thy ===== *)
theory OCIStore
  imports PackageChecks
begin

section \<open>The interface of backing stores\<close>

text \<open>
  \<open>lib/oci/IOCIBackingStore.h\<close> and \<open>lib/oci/OCIMappableFile.cpp\<close>: what the OCI package uses of the thing
  it is stored in.  The abstract classes are a record of their functions over the state \<open>'s\<close> of a store
  and the state \<open>'r\<close> of a file reader; what a client may rely on is in the locales below, and the two
  stores of the library are shown to keep it in their own theory.
\<close>

record mappable_file =
  mf_fd :: nat
  mf_offset :: nat
  mf_size :: nat

definition isAligned :: "mappable_file \<Rightarrow> bool" where
  "isAligned f \<longleftrightarrow> mf_offset f mod 4096 = 0 \<and> mf_size f mod 4096 = 0"

text \<open>
  A read returns the bytes it got, none at the end of the file, or \<open>None\<close> for a negative result; a call
  of the store returns its result and the store after it.
\<close>

record ('s, 'r) backing_store =
  bs_size :: "'s \<Rightarrow> int"
  bs_supportsMountableFiles :: "'s \<Rightarrow> bool"
  bs_readFile :: "'s \<Rightarrow> path \<Rightarrow> nat \<Rightarrow> (error_code + bytes) \<times> 's"
  bs_getFile :: "'s \<Rightarrow> path \<Rightarrow> (error_code + 'r) \<times> 's"
  bs_getMappableFile :: "'s \<Rightarrow> path \<Rightarrow> (error_code + mappable_file) \<times> 's"
  rd_read :: "'r \<Rightarrow> nat \<Rightarrow> bytes option \<times> 'r"
  rd_size :: "'r \<Rightarrow> int"

subsection \<open>Readers\<close>

text \<open>
  A read gives at most the bytes it was asked for, and the size of a reader is a fixed \<open>off_t\<close> that is
  not negative.  \<open>reader_ok\<close> is the invariant of the reader.
\<close>

locale file_reader =
  fixes read :: "'r \<Rightarrow> nat \<Rightarrow> bytes option \<times> 'r"
    and filesize :: "'r \<Rightarrow> int"
    and reader_ok :: "'r \<Rightarrow> bool"
  assumes read_ok: "reader_ok r \<Longrightarrow> read r n = (b, r') \<Longrightarrow> reader_ok r'"
    and read_length: "reader_ok r \<Longrightarrow> read r n = (Some d, r') \<Longrightarrow> length d \<le> n"
    and size_fixed: "reader_ok r \<Longrightarrow> read r n = (b, r') \<Longrightarrow> filesize r' = filesize r"
    and size_signed: "reader_ok r \<Longrightarrow> 0 \<le> filesize r \<and> filesize r < 9223372036854775808"

subsection \<open>Stores\<close>

locale file_store =
  fixes B :: "('s, 'r) backing_store"
    and store_ok :: "'s \<Rightarrow> bool"
    and reader_ok :: "'r \<Rightarrow> bool"
  assumes readFile_ok: "store_ok s \<Longrightarrow> bs_readFile B s path n = (cr, s') \<Longrightarrow> store_ok s'"
    and readFile_bounded: "store_ok s \<Longrightarrow> bs_readFile B s path n = (Inr c, s') \<Longrightarrow> length c \<le> n"
    and getFile_ok: "store_ok s \<Longrightarrow> bs_getFile B s path = (rr, s') \<Longrightarrow> store_ok s'"
    and getFile_reader: "store_ok s \<Longrightarrow> bs_getFile B s path = (Inr r, s') \<Longrightarrow> reader_ok r"
    and getMappableFile_ok: "store_ok s \<Longrightarrow> bs_getMappableFile B s path = (m, s') \<Longrightarrow> store_ok s'"
    and getMappableFile_range: "store_ok s \<Longrightarrow> bs_getMappableFile B s path = (Inr f, s') \<Longrightarrow>
      mf_offset f + mf_size f < 9223372036854775808"

locale readable_store = file_store B store_ok reader_ok + file_reader "rd_read B" "rd_size B" reader_ok
  for B :: "('s, 'r) backing_store" and store_ok and reader_ok

end
