(* ===== verification/OCIPackage.thy ===== *)
theory OCIPackage
  imports OCIDescriptor OCIStore Version
begin

section \<open>OCI packages\<close>

text \<open>
  \<open>lib/oci/OCIPackage.cpp\<close>: opening a package from its index, manifests and signature, and the
  operations on an opened one.  The backing store is the record of \<open>OCIStore\<close>, so the store may answer
  anything at any call; the JSON parser, SHA-256, base64, certificates and signatures and the parser of
  the configuration are a record of the functions the package calls.
\<close>

subsection \<open>The object\<close>

text \<open>
  \<open>'b\<close> is a verification bundle, \<open>'c\<close> a certificate and \<open>'m\<close> the parsed configuration.
  \<open>verifyCertificate\<close> takes the intermediate certificates and whether expiry is checked, and
  \<open>verifySignature\<close> the signed data, the certificate and the signature.
\<close>

record ('b, 'c, 'm) package_libs = json_library +
  lib_sha256 :: "bytes \<Rightarrow> bytes"
  base64_decode :: "string \<Rightarrow> bytes option"
  loadFromString :: "string \<Rightarrow> 'c option"
  loadFromStringMultiCerts :: "string \<Rightarrow> 'c list option"
  verifyCertificate :: "'b \<Rightarrow> 'c \<Rightarrow> 'c list \<Rightarrow> bool \<Rightarrow> bool"
  verifySignature :: "bytes \<Rightarrow> 'c \<Rightarrow> bytes \<Rightarrow> bool"
  fromConfigJson :: "bytes \<Rightarrow> error_code + 'm"
  config_id :: "'m \<Rightarrow> string"

record ('s, 'c, 'm) oci_package =
  pk_backingStore :: "'s option"
  pk_mounter :: bool
  pk_manifestDigest :: string
  pk_image :: "oci_descriptor option"
  pk_config :: "oci_descriptor option"
  pk_signature :: "oci_descriptor option"
  pk_verifiedManifest :: bool
  pk_others :: "oci_descriptor list"
  pk_metaData :: "'m option"
  pk_signingCerts :: "'c list"
  pk_maxExtractionBytes :: nat
  pk_maxExtractionEntries :: nat

type_synonym ('s, 'c, 'm, 'a) package_action = "(('s, 'c, 'm) oci_package, error_code, 'a) action"

definition new_package :: "'s \<Rightarrow> bool \<Rightarrow> ('s, 'c, 'm) oci_package" where
  "new_package s mounter =
     \<lparr>pk_backingStore = Some s, pk_mounter = mounter, pk_manifestDigest = [], pk_image = None, pk_config = None,
      pk_signature = None, pk_verifiedManifest = False, pk_others = [], pk_metaData = None, pk_signingCerts = [],
      pk_maxExtractionBytes = SIZE_MAX, pk_maxExtractionEntries = SIZE_MAX\<rparr>"

definition package_isValid :: "('s, 'c, 'm) oci_package \<Rightarrow> bool" where
  "package_isValid p \<longleftrightarrow> pk_manifestDigest p \<noteq> [] \<and> pk_config p \<noteq> None \<and> pk_image p \<noteq> None"

text \<open>A call of the backing store, through a pointer that may be null.\<close>

definition with_store :: "('s \<Rightarrow> (error_code + 'a) \<times> 's) \<Rightarrow> ('s, 'c, 'm, 'a) package_action" where
  "with_store f = (\<lambda>p. case pk_backingStore p of
     None \<Rightarrow> (Undefined NullPointer, p)
   | Some s \<Rightarrow> (case f s of (r, s') \<Rightarrow>
       (case r of Inl e \<Rightarrow> Fail e | Inr x \<Rightarrow> Done x, p\<lparr>pk_backingStore := Some s'\<rparr>)))"

subsection \<open>Names and limits\<close>

definition OCI_LAYOUT_FILE_NAME :: string where "OCI_LAYOUT_FILE_NAME = ''oci-layout''"
definition OCI_INDEX_FILE_NAME :: string where "OCI_INDEX_FILE_NAME = ''index.json''"

definition OCI_MANIFEST_MEDIA_TYPE :: string where
  "OCI_MANIFEST_MEDIA_TYPE = ''application/vnd.oci.image.manifest.v1+json''"
definition PACKAGE_CONFIG_MEDIA_TYPE :: string where
  "PACKAGE_CONFIG_MEDIA_TYPE = ''application/vnd.rdk.package.config.v1+json''"
definition PACKAGE_IMAGE_MEDIA_TYPE_PREFIX :: string where
  "PACKAGE_IMAGE_MEDIA_TYPE_PREFIX = ''application/vnd.rdk.package.content.layer.v1.''"
definition PACKAGE_IMAGE_EROFS :: string where
  "PACKAGE_IMAGE_EROFS = PACKAGE_IMAGE_MEDIA_TYPE_PREFIX @ ''erofs+dmverity''"
definition PACKAGE_SIGNATURE_MEDIA_TYPE :: string where
  "PACKAGE_SIGNATURE_MEDIA_TYPE = ''application/vnd.dev.cosign.simplesigning.v1+json''"

definition DMVERITY_ROOTHASH :: string where "DMVERITY_ROOTHASH = ''org.rdk.package.content.dmverity.roothash''"
definition DMVERITY_OFFSET :: string where "DMVERITY_OFFSET = ''org.rdk.package.content.dmverity.offset''"
definition DMVERITY_SALT :: string where "DMVERITY_SALT = ''org.rdk.package.content.dmverity.salt''"
definition COSIGN_SIGNATURE :: string where "COSIGN_SIGNATURE = ''dev.cosignproject.cosign/signature''"
definition COSIGN_CERTIFICATE :: string where "COSIGN_CERTIFICATE = ''dev.sigstore.cosign/certificate''"
definition COSIGN_CHAIN :: string where "COSIGN_CHAIN = ''dev.sigstore.cosign/chain''"

abbreviation OCI_LAYOUT_FILE_MAX_SIZE :: nat where "OCI_LAYOUT_FILE_MAX_SIZE \<equiv> 65536"
abbreviation OCI_INDEX_FILE_MAX_SIZE :: nat where "OCI_INDEX_FILE_MAX_SIZE \<equiv> 1048576"
abbreviation OCI_MANIFEST_FILE_MAX_SIZE :: nat where "OCI_MANIFEST_FILE_MAX_SIZE \<equiv> 4194304"
abbreviation PACKAGE_CONFIG_FILE_MAX_SIZE :: nat where "PACKAGE_CONFIG_FILE_MAX_SIZE \<equiv> 4194304"
abbreviation SIGNED_PAYLOAD_MAX_SIZE :: nat where "SIGNED_PAYLOAD_MAX_SIZE \<equiv> 1048576"
abbreviation MIN_EROFS_IMAGE_SIZE :: nat where "MIN_EROFS_IMAGE_SIZE \<equiv> 4096"
abbreviation MAX_EROFS_IMAGE_SIZE :: nat where "MAX_EROFS_IMAGE_SIZE \<equiv> 2147483648"
abbreviation MIN_DMVERITY_IMAGE_SIZE :: nat where "MIN_DMVERITY_IMAGE_SIZE \<equiv> 4096"
abbreviation MAX_AUX_META_DATA_SIZE :: nat where "MAX_AUX_META_DATA_SIZE \<equiv> 4194304"

lemmas package_names = OCI_LAYOUT_FILE_NAME_def OCI_INDEX_FILE_NAME_def OCI_MANIFEST_MEDIA_TYPE_def
  PACKAGE_CONFIG_MEDIA_TYPE_def PACKAGE_IMAGE_MEDIA_TYPE_PREFIX_def PACKAGE_IMAGE_EROFS_def
  PACKAGE_SIGNATURE_MEDIA_TYPE_def DMVERITY_ROOTHASH_def DMVERITY_OFFSET_def DMVERITY_SALT_def
  COSIGN_SIGNATURE_def COSIGN_CERTIFICATE_def COSIGN_CHAIN_def

text \<open>\<open>s.find(prefix) == 0\<close>.\<close>

definition starts_with :: "string \<Rightarrow> string \<Rightarrow> bool" where
  "starts_with prefix s \<longleftrightarrow> take (length prefix) s = prefix"

subsection \<open>Blobs\<close>

definition blob_path :: "string \<Rightarrow> path" where
  "blob_path sha256 = path_append (path_of_string ''blobs/sha256'') sha256"

definition readBlob ::
  "('s, 'r) backing_store \<Rightarrow> ('b, 'c, 'm) package_libs \<Rightarrow> string \<Rightarrow> nat \<Rightarrow> ('s, 'c, 'm, bytes) package_action" where
  "readBlob B L sha256 n =
     (if \<not> validateSha256Digest sha256 then act_fail PackageContentsInvalid
      else act_bind (with_store (\<lambda>s. bs_readFile B s (blob_path sha256) n)) (\<lambda>content.
        if length content \<noteq> n then act_fail PackageFileTooLarge
        else if lib_sha256 L content \<noteq> hexStringToBytes sha256 then act_fail PackageContentsInvalid
        else act_return content))"

definition getBlobReader :: "('s, 'r) backing_store \<Rightarrow> string \<Rightarrow> ('s, 'c, 'm, 'r) package_action" where
  "getBlobReader B sha256 =
     (if \<not> validateSha256Digest sha256 then act_fail PackageContentsInvalid
      else with_store (\<lambda>s. bs_getFile B s (blob_path sha256)))"

subsection \<open>Layout, index and manifests\<close>

definition checkOciLayoutFile :: "('b, 'c, 'm) package_libs \<Rightarrow> bytes \<Rightarrow> error_code + unit" where
  "checkOciLayoutFile L d =
     (let root = json_parse L False d in
      if \<not> is_object root then Inl PackageContentsInvalid
      else if root \<noteq> JObject [(''imageLayoutVersion'', JString ''1.0.0'')] then Inl PackageContentsInvalid
      else Inr ())"

fun parse_descriptors :: "('b, 'c, 'm) package_libs \<Rightarrow> json list \<Rightarrow> oci_descriptor list \<Rightarrow> error_code + oci_descriptor list" where
  "parse_descriptors L [] ds = Inr ds"
| "parse_descriptors L (j # js) ds =
     bind_result (descriptor_parse (base64_decode L) j) (\<lambda>d. parse_descriptors L js (ds @ [d]))"

definition processIndexFile :: "('b, 'c, 'm) package_libs \<Rightarrow> bytes \<Rightarrow> error_code + oci_descriptor list" where
  "processIndexFile L d =
     (let root = json_parse L False d in
      if \<not> is_object root then Inl PackageContentsInvalid
      else if map_of (members root) ''schemaVersion'' \<noteq> Some (JInt 2) then Inl PackageContentsInvalid
      else case map_of (members root) ''manifests'' of
        Some (JArray manifests) \<Rightarrow> parse_descriptors L manifests []
      | _ \<Rightarrow> Inl PackageContentsInvalid)"

record manifest_fields =
  mn_schemaVersion :: int
  mn_mediaType :: string
  mn_config :: "oci_descriptor option"
  mn_layers :: "oci_descriptor list"

definition no_manifest :: manifest_fields where
  "no_manifest = \<lparr>mn_schemaVersion = -1, mn_mediaType = [], mn_config = None, mn_layers = []\<rparr>"

definition manifest_member ::
  "('b, 'c, 'm) package_libs \<Rightarrow> string \<Rightarrow> json \<Rightarrow> manifest_fields \<Rightarrow> error_code + manifest_fields" where
  "manifest_member L key value f =
     (if key = ''schemaVersion'' then
        (case value of JInt n \<Rightarrow> Inr (f\<lparr>mn_schemaVersion := get_int n\<rparr>) | _ \<Rightarrow> Inl PackageContentsInvalid)
      else if key = ''mediaType'' then
        (case value of JString s \<Rightarrow> Inr (f\<lparr>mn_mediaType := s\<rparr>) | _ \<Rightarrow> Inl PackageContentsInvalid)
      else if key = ''config'' then
        bind_result (descriptor_parse (base64_decode L) value) (\<lambda>d. Inr (f\<lparr>mn_config := Some d\<rparr>))
      else if key = ''layers'' then
        (case value of
           JArray js \<Rightarrow> bind_result (parse_descriptors L js (mn_layers f)) (\<lambda>ds. Inr (f\<lparr>mn_layers := ds\<rparr>))
         | _ \<Rightarrow> Inl PackageContentsInvalid)
      else Inr f)"

fun manifest_members ::
  "('b, 'c, 'm) package_libs \<Rightarrow> (string \<times> json) list \<Rightarrow> manifest_fields \<Rightarrow> error_code + manifest_fields" where
  "manifest_members L [] f = Inr f"
| "manifest_members L ((key, value) # kvs) f = bind_result (manifest_member L key value f) (manifest_members L kvs)"

text \<open>The contents of a manifest blob: its configuration and its layers.\<close>

definition manifest_contents ::
  "('b, 'c, 'm) package_libs \<Rightarrow> bytes \<Rightarrow> error_code + oci_descriptor \<times> oci_descriptor list" where
  "manifest_contents L blob =
     (let root = json_parse L True blob in
      if \<not> is_object root then Inl PackageContentsInvalid
      else bind_result (manifest_members L (members root) no_manifest) (\<lambda>f.
        if mn_schemaVersion f \<noteq> 2 then Inl PackageContentsInvalid
        else if mn_mediaType f \<noteq> [] \<and> mn_mediaType f \<noteq> OCI_MANIFEST_MEDIA_TYPE then Inl PackageContentsInvalid
        else case mn_config f of None \<Rightarrow> Inl PackageContentsInvalid | Some config \<Rightarrow> Inr (config, mn_layers f)))"

definition is_image_layer :: "oci_descriptor \<Rightarrow> bool" where
  "is_image_layer d \<longleftrightarrow> starts_with PACKAGE_IMAGE_MEDIA_TYPE_PREFIX (od_mediaType d)"

definition isPackageDataManifest :: "oci_descriptor \<Rightarrow> oci_descriptor list \<Rightarrow> bool" where
  "isPackageDataManifest config layers \<longleftrightarrow>
     od_mediaType config = PACKAGE_CONFIG_MEDIA_TYPE \<and> list_ex is_image_layer layers"

definition isSignatureManifest :: "oci_descriptor \<Rightarrow> oci_descriptor list \<Rightarrow> bool" where
  "isSignatureManifest config layers \<longleftrightarrow> list_ex (\<lambda>d. od_mediaType d = PACKAGE_SIGNATURE_MEDIA_TYPE) layers"

definition add_data_layer :: "oci_descriptor \<Rightarrow> ('s, 'c, 'm) oci_package \<Rightarrow> ('s, 'c, 'm) oci_package" where
  "add_data_layer d p = (if is_image_layer d then p\<lparr>pk_image := Some d\<rparr> else p\<lparr>pk_others := pk_others p @ [d]\<rparr>)"

definition add_signature_layer :: "oci_descriptor \<Rightarrow> ('s, 'c, 'm) oci_package \<Rightarrow> ('s, 'c, 'm) oci_package" where
  "add_signature_layer d p = (if od_mediaType d = PACKAGE_SIGNATURE_MEDIA_TYPE then p\<lparr>pk_signature := Some d\<rparr> else p)"

definition register_manifest ::
  "string \<Rightarrow> oci_descriptor \<times> oci_descriptor list \<Rightarrow> ('s, 'c, 'm) oci_package \<Rightarrow> ('s, 'c, 'm) oci_package" where
  "register_manifest digest contents p =
     (case contents of (config, layers) \<Rightarrow>
       if isPackageDataManifest config layers then
         fold add_data_layer layers (p\<lparr>pk_manifestDigest := digest, pk_config := Some config\<rparr>)
       else if isSignatureManifest config layers then fold add_signature_layer layers p
       else p)"

definition processManifest ::
  "('s, 'r) backing_store \<Rightarrow> ('b, 'c, 'm) package_libs \<Rightarrow> oci_descriptor \<Rightarrow> ('s, 'c, 'm, unit) package_action" where
  "processManifest B L manifest =
     (if od_mediaType manifest \<noteq> OCI_MANIFEST_MEDIA_TYPE then act_fail PackageContentsInvalid
      else if od_size manifest > OCI_MANIFEST_FILE_MAX_SIZE then act_fail PackageContentsInvalid
      else act_bind (readBlob B L (od_digest manifest) (od_size manifest)) (\<lambda>blob.
        act_bind (act_result (manifest_contents L blob)) (\<lambda>contents.
          act_modify (register_manifest (od_digest manifest) contents))))"

fun processManifests ::
  "('s, 'r) backing_store \<Rightarrow> ('b, 'c, 'm) package_libs \<Rightarrow> oci_descriptor list \<Rightarrow> ('s, 'c, 'm, unit) package_action" where
  "processManifests B L [] = act_return ()"
| "processManifests B L (d # ds) = act_bind (processManifest B L d) (\<lambda>_. processManifests B L ds)"

definition check_contents :: "('s, 'c, 'm, unit) package_action" where
  "check_contents = (\<lambda>p.
     case (pk_manifestDigest p, pk_image p, pk_config p) of
       (_ # _, Some _, Some config) \<Rightarrow>
         if od_size config > PACKAGE_CONFIG_FILE_MAX_SIZE then (Fail PackageContentsInvalid, p) else (Done (), p)
     | _ \<Rightarrow> (Fail PackageContentsInvalid, p))"

definition buildContentsTree ::
  "('s, 'r) backing_store \<Rightarrow> ('b, 'c, 'm) package_libs \<Rightarrow> ('s, 'c, 'm, unit) package_action" where
  "buildContentsTree B L =
     act_bind (with_store (\<lambda>s. bs_readFile B s (path_of_string OCI_LAYOUT_FILE_NAME) OCI_LAYOUT_FILE_MAX_SIZE)) (\<lambda>ociLayout.
     act_bind (act_result (checkOciLayoutFile L ociLayout)) (\<lambda>_.
     act_bind (with_store (\<lambda>s. bs_readFile B s (path_of_string OCI_INDEX_FILE_NAME) OCI_INDEX_FILE_MAX_SIZE)) (\<lambda>indexJson.
     act_bind (act_result (processIndexFile L indexJson)) (\<lambda>manifests.
     act_bind (processManifests B L manifests) (\<lambda>_. check_contents)))))"

subsection \<open>The signature\<close>

text \<open>\<open>std::regex_replace(value, newlineRegex, "\n")\<close>, where the expression matches one newline.\<close>

definition replace_newlines :: "string \<Rightarrow> string" where
  "replace_newlines s = map (\<lambda>c. if c = CHR 0x0A then CHR 0x0A else c) s"

record 'c signature_parts =
  sg_signature :: bytes
  sg_certificate :: "'c option"
  sg_chain :: "'c list"

definition no_signature :: "'c signature_parts" where
  "no_signature = \<lparr>sg_signature = [], sg_certificate = None, sg_chain = []\<rparr>"

fun signature_annotations ::
  "('b, 'c, 'm) package_libs \<Rightarrow> (string \<times> string) list \<Rightarrow> 'c signature_parts \<Rightarrow> error_code + 'c signature_parts" where
  "signature_annotations L [] g = Inr g"
| "signature_annotations L ((key, value) # kvs) g =
     (if key = COSIGN_SIGNATURE then
        (case base64_decode L value of
           None \<Rightarrow> Inl PackageSignatureInvalid
         | Some s \<Rightarrow> signature_annotations L kvs (g\<lparr>sg_signature := s\<rparr>))
      else if key = COSIGN_CERTIFICATE then
        (case loadFromString L (replace_newlines value) of
           None \<Rightarrow> Inl PackageSignatureInvalid
         | Some c \<Rightarrow> signature_annotations L kvs (g\<lparr>sg_certificate := Some c\<rparr>))
      else if key = COSIGN_CHAIN then
        (case loadFromStringMultiCerts L (replace_newlines value) of
           None \<Rightarrow> Inl PackageSignatureInvalid
         | Some cs \<Rightarrow> if cs = [] then Inl PackageSignatureInvalid else signature_annotations L kvs (g\<lparr>sg_chain := cs\<rparr>))
      else signature_annotations L kvs g)"

text \<open>The three parts of the payload that have to be seen, as bits.\<close>

definition VerifiedType :: "32 word" where "VerifiedType = 1"
definition VerifiedIdentity :: "32 word" where "VerifiedIdentity = 2"
definition VerifiedManifestDigest :: "32 word" where "VerifiedManifestDigest = 4"

fun payload_items :: "string \<Rightarrow> (string \<times> json) list \<Rightarrow> 32 word \<Rightarrow> error_code + 32 word" where
  "payload_items digest [] flags = Inr flags"
| "payload_items digest ((key, value) # kvs) flags =
     (if key = ''/type'' then
        (if value \<noteq> JString ''cosign container image signature'' then Inl PackageSignatureInvalid
         else payload_items digest kvs (flags OR VerifiedType))
      else if key = ''/identity/docker-reference'' then
        (case value of
           JString _ \<Rightarrow> payload_items digest kvs (flags OR VerifiedIdentity)
         | _ \<Rightarrow> Inl PackageSignatureInvalid)
      else if key = ''/image/docker-manifest-digest'' then
        (case value of
           JString s \<Rightarrow>
             (case validateDigest s of
                None \<Rightarrow> Inl PackageSignatureInvalid
              | Some d \<Rightarrow>
                  if d \<noteq> digest then Inl PackageSignatureInvalid
                  else payload_items digest kvs (flags OR VerifiedManifestDigest))
         | _ \<Rightarrow> Inl PackageSignatureInvalid)
      else Inl PackageSignatureInvalid)"

definition verifySignaturePayload :: "('b, 'c, 'm) package_libs \<Rightarrow> string \<Rightarrow> bytes \<Rightarrow> error_code + unit" where
  "verifySignaturePayload L digest signedBlob =
     (let root = json_parse L False signedBlob in
      if \<not> is_object root then Inl PackageSignatureInvalid
      else case map_of (members root) ''critical'' of
        None \<Rightarrow> Inl PackageSignatureInvalid
      | Some critical \<Rightarrow>
          if \<not> is_object critical then Inl PackageSignatureInvalid
          else case json_flatten L critical of
            None \<Rightarrow> Inl PackageSignatureInvalid
          | Some items \<Rightarrow> bind_result (payload_items digest items 0) (\<lambda>flags.
              if flags \<noteq> (VerifiedType OR VerifiedIdentity OR VerifiedManifestDigest) then Inl PackageSignatureInvalid
              else Inr ()))"

definition readAndVerifySignature ::
  "('s, 'r) backing_store \<Rightarrow> ('b, 'c, 'm) package_libs \<Rightarrow> 'b \<Rightarrow> bool \<Rightarrow> ('s, 'c, 'm, unit) package_action" where
  "readAndVerifySignature B L bundle checkExpiry = (\<lambda>p.
     case pk_signature p of
       None \<Rightarrow> (Fail PackageSignatureMissing, p)
     | Some sd \<Rightarrow>
         act_bind (act_result (signature_annotations L (od_annotations sd) no_signature)) (\<lambda>g.
           if sg_signature g = [] then act_fail PackageSignatureInvalid
           else case sg_certificate g of
             None \<Rightarrow> act_fail PackageSignatureInvalid
           | Some certificate \<Rightarrow>
               act_bind (act_modify (\<lambda>p. p\<lparr>pk_signingCerts := certificate # sg_chain g\<rparr>)) (\<lambda>_.
               if \<not> verifyCertificate L bundle certificate (sg_chain g) checkExpiry then act_fail PackageSignatureInvalid
               else if od_size sd > SIGNED_PAYLOAD_MAX_SIZE then act_fail PackageSignatureInvalid
               else act_bind (act_error PackageSignatureInvalid (readBlob B L (od_digest sd) (od_size sd))) (\<lambda>signedBlob.
               if \<not> verifySignature L signedBlob certificate (sg_signature g) then act_fail PackageSignatureInvalid
               else act_bind (act_result (verifySignaturePayload L (pk_manifestDigest p) signedBlob)) (\<lambda>_.
                 act_modify (\<lambda>p. p\<lparr>pk_verifiedManifest := True\<rparr>))))) p)"

subsection \<open>Opening\<close>

text \<open>
  The constructor: a failed build of the contents is reported and drops the store, but keeps what has
  been read into the object.
\<close>

definition construct_package ::
  "('s, 'r) backing_store \<Rightarrow> ('b, 'c, 'm) package_libs \<Rightarrow> 's \<Rightarrow> bool \<Rightarrow>
   (error_code, ('s, 'c, 'm) oci_package \<times> error_code option) outcome" where
  "construct_package B L s mounter =
     (case buildContentsTree B L (new_package s mounter) of
        (Done _, p) \<Rightarrow> Done (p, None)
      | (Fail e, p) \<Rightarrow> Done (p\<lparr>pk_backingStore := None\<rparr>, Some e)
      | (Undefined u, p) \<Rightarrow> Undefined u)"

text \<open>\<open>OCIPackage::open\<close>: the pointer it returns and the error it leaves.\<close>

definition oci_open ::
  "('s, 'r) backing_store \<Rightarrow> ('b, 'c, 'm) package_libs \<Rightarrow> 's \<Rightarrow> bool \<Rightarrow> 'b option \<Rightarrow> bool \<Rightarrow>
   (error_code, ('s, 'c, 'm) oci_package option \<times> error_code option) outcome" where
  "oci_open B L s mounter bundle checkExpiry =
     bind_outcome (construct_package B L s mounter) (\<lambda>(p, err).
       if \<not> package_isValid p then Done (None, err)
       else case bundle of
         None \<Rightarrow> Done (Some p, err)
       | Some b \<Rightarrow>
           (case readAndVerifySignature B L b checkExpiry p of
              (Done _, p) \<Rightarrow> Done (Some p, err)
            | (Fail e, p) \<Rightarrow> Done (None, Some e)
            | (Undefined u, p) \<Rightarrow> Undefined u))"

text \<open>The branch of \<open>openPackageImpl\<close> for an OCI package, which takes an error as a failure.\<close>

definition openPackageImpl ::
  "('s, 'r) backing_store \<Rightarrow> ('b, 'c, 'm) package_libs \<Rightarrow> 's \<Rightarrow> bool \<Rightarrow> 'b option \<Rightarrow> bool \<Rightarrow>
   (error_code option, ('s, 'c, 'm) oci_package) outcome" where
  "openPackageImpl B L s mounter bundle checkExpiry =
     (case oci_open B L s mounter bundle checkExpiry of
        Done (Some p, None) \<Rightarrow> Done p
      | Done (_, err) \<Rightarrow> Fail err
      | Fail e \<Rightarrow> Fail (Some e)
      | Undefined u \<Rightarrow> Undefined u)"

subsection \<open>Verifying the blobs\<close>

text \<open>
  One round of \<open>calcAndCheckBlobDigest\<close>: the state is the reader, the data that has gone into the
  digest and \<open>totalRead\<close>.
\<close>

definition digest_round ::
  "('s, 'r) backing_store \<Rightarrow> ('b, 'c, 'm) package_libs \<Rightarrow> string \<Rightarrow> 64 word \<Rightarrow> 'r \<times> bytes \<times> 64 word \<Rightarrow>
   ('r \<times> bytes \<times> 64 word, error_code + unit) step" where
  "digest_round B L digest expectedBlobSize st =
     (case st of (r, fed, totalRead) \<Rightarrow>
       (case rd_read B r 4096 of
          (None, _) \<Rightarrow> Return (Inl PackageContentsInvalid)
        | (Some d, r') \<Rightarrow>
            if d = [] then
              Return (if totalRead \<noteq> expectedBlobSize then Inl PackageContentsInvalid
                else if lib_sha256 L fed \<noteq> hexStringToBytes digest then Inl PackageContentsInvalid
                else Inr ())
            else if totalRead + word_of_nat (length d) > expectedBlobSize then Return (Inl PackageContentsInvalid)
            else Continue (r', fed @ d, totalRead + word_of_nat (length d))))"

definition digest_loop ::
  "('s, 'r) backing_store \<Rightarrow> ('b, 'c, 'm) package_libs \<Rightarrow> string \<Rightarrow> 'r \<Rightarrow> (error_code + unit) option" where
  "digest_loop B L digest r = loop (digest_round B L digest (word_of_int (rd_size B r))) (r, [], 0)"

text \<open>\<open>None\<close> is a call that does not return.\<close>

definition calcAndCheckBlobDigest ::
  "('s, 'r) backing_store \<Rightarrow> ('b, 'c, 'm) package_libs \<Rightarrow> oci_descriptor \<Rightarrow> ('s, 'c, 'm) oci_package \<Rightarrow>
   ((error_code, unit) outcome \<times> ('s, 'c, 'm) oci_package) option" where
  "calcAndCheckBlobDigest B L descriptor p =
     (case getBlobReader B (od_digest descriptor) p of
        (Done r, p') \<Rightarrow>
          map_option (\<lambda>res. (case res of Inl e \<Rightarrow> Fail e | Inr _ \<Rightarrow> Done (), p')) (digest_loop B L (od_digest descriptor) r)
      | (Fail e, p') \<Rightarrow> Some (Fail e, p')
      | (Undefined u, p') \<Rightarrow> Some (Undefined u, p'))"

fun check_blobs ::
  "('s, 'r) backing_store \<Rightarrow> ('b, 'c, 'm) package_libs \<Rightarrow> oci_descriptor list \<Rightarrow> ('s, 'c, 'm) oci_package \<Rightarrow>
   ((error_code, unit) outcome \<times> ('s, 'c, 'm) oci_package) option" where
  "check_blobs B L [] p = Some (Done (), p)"
| "check_blobs B L (d # ds) p =
     (case calcAndCheckBlobDigest B L d p of
        None \<Rightarrow> None
      | Some (Done _, p') \<Rightarrow> check_blobs B L ds p'
      | Some (Fail _, p') \<Rightarrow> Some (Fail PackageSignatureInvalid, p')
      | Some (Undefined u, p') \<Rightarrow> Some (Undefined u, p'))"

definition package_verify ::
  "('s, 'r) backing_store \<Rightarrow> ('b, 'c, 'm) package_libs \<Rightarrow> ('s, 'c, 'm) oci_package \<Rightarrow>
   ((error_code, unit) outcome \<times> ('s, 'c, 'm) oci_package) option" where
  "package_verify B L p =
     (if \<not> pk_verifiedManifest p then Some (Fail NotSupported, p)
      else case (pk_signature p, pk_config p, pk_image p) of
        (Some _, Some config, Some img) \<Rightarrow> check_blobs B L (config # img # pk_others p) p
      | _ \<Rightarrow> Some (Fail PackageSignatureInvalid, p))"

subsection \<open>dm-verity annotations and mounting\<close>

text \<open>
  \<open>strtoull(s, nullptr, 10)\<close>: white space, a sign, digits; saturating, and a minus sign negates the
  value in the unsigned type.
\<close>

definition strtoull :: "string \<Rightarrow> nat" where
  "strtoull s =
     (let t = dropWhile is_space s;
          neg = (t \<noteq> [] \<and> hd t = CHR ''-'');
          digits = takeWhile is_digit (if t \<noteq> [] \<and> (hd t = CHR ''-'' \<or> hd t = CHR ''+'') then tl t else t);
          v = digits_val 0 digits
      in if v > SIZE_MAX then SIZE_MAX else if neg then sz_sub 0 v else v)"

record dmverity_annotations =
  da_rootHash :: bytes
  da_salt :: bytes
  da_hashesOffset :: nat

fun read_annotations :: "(string \<times> string) list \<Rightarrow> dmverity_annotations \<Rightarrow> dmverity_annotations" where
  "read_annotations [] a = a"
| "read_annotations ((key, value) # kvs) a =
     read_annotations kvs
       (if key = DMVERITY_ROOTHASH then a\<lparr>da_rootHash := hexStringToBytes value\<rparr>
        else if key = DMVERITY_SALT then a\<lparr>da_salt := hexStringToBytes value\<rparr>
        else if key = DMVERITY_OFFSET then a\<lparr>da_hashesOffset := strtoull value\<rparr>
        else a)"

definition getDmVerityAnnotations :: "oci_descriptor option \<Rightarrow> error_code + dmverity_annotations" where
  "getDmVerityAnnotations descriptor =
     (case descriptor of
        None \<Rightarrow> Inl PackageMountInvalid
      | Some d \<Rightarrow>
          if od_mediaType d \<noteq> PACKAGE_IMAGE_EROFS then Inl PackageMountInvalid
          else let a = read_annotations (od_annotations d) \<lparr>da_rootHash = [], da_salt = [], da_hashesOffset = SIZE_MAX\<rparr> in
            if length (da_rootHash a) \<noteq> 32 then Inl PackageMountInvalid
            else if da_hashesOffset a < MIN_EROFS_IMAGE_SIZE \<or> da_hashesOffset a > MAX_EROFS_IMAGE_SIZE then Inl PackageMountInvalid
            else if da_hashesOffset a > sz_sub (od_size d) MIN_DMVERITY_IMAGE_SIZE then Inl PackageMountInvalid
            else if length (da_salt a) > 255 then Inl PackageMountInvalid
            else Inr a)"

definition isMountable :: "('s, 'r) backing_store \<Rightarrow> ('s, 'c, 'm, bool) package_action" where
  "isMountable B = (\<lambda>p.
     case pk_image p of
       None \<Rightarrow> (Done False, p)
     | Some img \<Rightarrow>
         (case pk_backingStore p of
            None \<Rightarrow> (Undefined NullPointer, p)
          | Some s \<Rightarrow>
              if \<not> bs_supportsMountableFiles B s then (Done False, p)
              else if od_mediaType img \<noteq> PACKAGE_IMAGE_EROFS then (Done False, p)
              else case bs_getMappableFile B s (blob_path (od_digest img)) of
                (m, s') \<Rightarrow> (Done (case m of Inl _ \<Rightarrow> False | Inr f \<Rightarrow> isAligned f), p\<lparr>pk_backingStore := Some s'\<rparr>)))"

definition package_metaData ::
  "('s, 'r) backing_store \<Rightarrow> ('b, 'c, 'm) package_libs \<Rightarrow> ('s, 'c, 'm, 'm) package_action" where
  "package_metaData B L = (\<lambda>p.
     case pk_metaData p of
       Some m \<Rightarrow> (Done m, p)
     | None \<Rightarrow>
         (case pk_config p of
            None \<Rightarrow> (Fail PackageContentsInvalid, p)
          | Some config \<Rightarrow>
              act_bind (act_error PackageContentsInvalid (readBlob B L (od_digest config) (od_size config))) (\<lambda>contents.
              act_bind (act_result (fromConfigJson L contents)) (\<lambda>m.
              act_bind (act_modify (\<lambda>p. p\<lparr>pk_metaData := Some m\<rparr>)) (\<lambda>_. act_return m))) p))"

text \<open>What is handed to the mounter: the ranges are an offset and a size in the file \<open>mr_fd\<close>.\<close>

record mount_request =
  mr_id :: string
  mr_fd :: nat
  mr_dataRange :: "nat \<times> nat"
  mr_hashesRange :: "nat \<times> nat"
  mr_rootHash :: bytes
  mr_salt :: bytes

definition mount_ranges :: "string \<Rightarrow> oci_descriptor \<Rightarrow> dmverity_annotations \<Rightarrow> mappable_file \<Rightarrow> error_code + mount_request" where
  "mount_ranges pkgid img a f =
     (if \<not> isAligned f then Inl PackageContentsInvalid
      else if mf_size f \<noteq> od_size img then Inl PackageMountInvalid
      else if mf_size f < MIN_EROFS_IMAGE_SIZE + MIN_DMVERITY_IMAGE_SIZE \<or>
              da_hashesOffset a > sz_sub (mf_size f) MIN_DMVERITY_IMAGE_SIZE then Inl PackageMountInvalid
      else Inr \<lparr>mr_id = pkgid, mr_fd = mf_fd f, mr_dataRange = (mf_offset f, da_hashesOffset a),
        mr_hashesRange = (sz_add (mf_offset f) (da_hashesOffset a), sz_sub (mf_size f) (da_hashesOffset a)),
        mr_rootHash = da_rootHash a, mr_salt = da_salt a\<rparr>)"

text \<open>\<open>OCIPackage::mount\<close> up to the call of the mounter; \<open>is_directory\<close> is the answer for the mount point.\<close>

definition package_mount ::
  "('s, 'r) backing_store \<Rightarrow> ('b, 'c, 'm) package_libs \<Rightarrow> bool \<Rightarrow> ('s, 'c, 'm, mount_request) package_action" where
  "package_mount B L is_directory =
     act_bind (isMountable B) (\<lambda>mountable.
     if \<not> mountable then act_fail PackageMountInvalid
     else act_bind (\<lambda>p. (Done (pk_mounter p), p)) (\<lambda>mounter.
     if \<not> mounter then act_fail NotSupported
     else act_bind (act_error PackageMountInvalid (package_metaData B L)) (\<lambda>m.
     if \<not> is_directory then act_fail PackageMountInvalid
     else act_bind (\<lambda>p. act_result (getDmVerityAnnotations (pk_image p)) p) (\<lambda>a.
     act_bind (\<lambda>p. (case pk_image p of Some img \<Rightarrow> Done img | None \<Rightarrow> Undefined NullPointer, p)) (\<lambda>img.
     act_bind (act_error PackageMountInvalid (with_store (\<lambda>s. bs_getMappableFile B s (blob_path (od_digest img))))) (\<lambda>f.
     act_result (mount_ranges (config_id L m) img a f)))))))"

subsection \<open>Readers and auxiliary files\<close>

datatype 'r image_reader =
  ErofsLayer mappable_file nat bytes
| ArchiveLayer oci_descriptor 'r

definition createReader :: "('s, 'r) backing_store \<Rightarrow> ('s, 'c, 'm, 'r image_reader) package_action" where
  "createReader B = (\<lambda>p.
     case pk_image p of
       None \<Rightarrow> (Fail PackageContentsInvalid, p)
     | Some img \<Rightarrow>
         (if od_mediaType img = PACKAGE_IMAGE_EROFS then
            act_bind (act_result (getDmVerityAnnotations (pk_image p))) (\<lambda>a.
            act_bind (act_error PackageMountInvalid (with_store (\<lambda>s. bs_getMappableFile B s (blob_path (od_digest img))))) (\<lambda>f.
              act_return (ErofsLayer f (da_hashesOffset a) (da_rootHash a)))) p
          else if is_image_layer img then
            act_bind (getBlobReader B (od_digest img)) (\<lambda>r.
              if rd_size B r \<noteq> int (od_size img) then act_fail PackageContentsInvalid
              else act_return (ArchiveLayer img r)) p
          else (Fail PackageContentsInvalid, p)))"

record aux_meta_data =
  ax_mediaType :: string
  ax_index :: nat
  ax_data :: bytes
  ax_annotations :: "(string \<times> string) list"

text \<open>The descriptor of a request: the \<open>index\<close>-th layer of the media type.\<close>

fun find_aux :: "oci_descriptor list \<Rightarrow> string \<Rightarrow> nat \<Rightarrow> nat \<Rightarrow> oci_descriptor option" where
  "find_aux [] mediaType index descCount = None"
| "find_aux (d # ds) mediaType index descCount =
     (if od_mediaType d = mediaType then
        (if index \<noteq> descCount then find_aux ds mediaType index (descCount + 1) else Some d)
      else find_aux ds mediaType index descCount)"

definition aux_descriptor :: "('s, 'c, 'm) oci_package \<Rightarrow> string \<Rightarrow> nat \<Rightarrow> oci_descriptor option" where
  "aux_descriptor p mediaType index =
     (if mediaType = PACKAGE_CONFIG_MEDIA_TYPE then (if index \<noteq> 0 then None else pk_config p)
      else find_aux (pk_others p) mediaType index 0)"

definition auxMetaDataFile ::
  "('s, 'r) backing_store \<Rightarrow> ('b, 'c, 'm) package_libs \<Rightarrow> string \<Rightarrow> nat \<Rightarrow> ('s, 'c, 'm, aux_meta_data) package_action" where
  "auxMetaDataFile B L mediaType index = (\<lambda>p.
     case aux_descriptor p mediaType index of
       None \<Rightarrow> (Fail PackageContentsInvalid, p)
     | Some d \<Rightarrow>
         (if od_size d > MAX_AUX_META_DATA_SIZE then (Fail PackageContentsInvalid, p)
          else act_bind (readBlob B L (od_digest d) (od_size d)) (\<lambda>blob.
            act_return \<lparr>ax_mediaType = mediaType, ax_index = index, ax_data = blob, ax_annotations = od_annotations d\<rparr>) p))"

definition auxMetaDataFileCount :: "('s, 'c, 'm) oci_package \<Rightarrow> string \<Rightarrow> nat" where
  "auxMetaDataFileCount p mediaType =
     (if mediaType = PACKAGE_CONFIG_MEDIA_TYPE then (if pk_image p \<noteq> None then 1 else 0)
      else length (filter (\<lambda>d. od_mediaType d = mediaType) (pk_others p)))"

definition auxMetaDataKeys :: "('s, 'c, 'm) oci_package \<Rightarrow> string set" where
  "auxMetaDataKeys p = od_mediaType ` set (pk_others p)"

definition package_size :: "('s, 'r) backing_store \<Rightarrow> ('s, 'c, 'm, int) package_action" where
  "package_size B = (\<lambda>p. case pk_backingStore p of None \<Rightarrow> (Undefined NullPointer, p) | Some s \<Rightarrow> (Done (bs_size B s), p))"

end
