(* ===== verification/OCIMetaData.thy ===== *)
theory OCIMetaData
  imports OCIDescriptor VersionRange
begin

section \<open>The metadata of a package\<close>

text \<open>
  \<open>lib/oci/OCIPackageMetaDataImpl.cpp\<close>: the configuration of a package, a JSON object, is checked field by field
  and turned into the metadata that is handed out.  The conversions of the C and C++ libraries it uses are
  defined first.
\<close>

subsection \<open>The C library\<close>

text \<open>Comparison without regard to case, of the characters before the first NUL.\<close>

definition c_str :: "string \<Rightarrow> string" where
  "c_str s = takeWhile (\<lambda>c. c \<noteq> CHR 0x00) s"

definition to_lower :: "char \<Rightarrow> char" where
  "to_lower c = (if CHR ''A'' \<le> c \<and> c \<le> CHR ''Z'' then char_of (of_char c + (32 :: nat)) else c)"

definition strcaseeq :: "string \<Rightarrow> string \<Rightarrow> bool" where
  "strcaseeq s t \<longleftrightarrow> map to_lower (c_str s) = map to_lower (c_str t)"

text \<open>The value of a digit or letter, and the digits of a base from the start of a text.\<close>

definition digit_of :: "char \<Rightarrow> nat option" where
  "digit_of c =
     (if is_digit c then Some (of_char c - 48)
      else if CHR ''a'' \<le> to_lower c \<and> to_lower c \<le> CHR ''z'' then Some (of_char (to_lower c) - 87) else None)"

definition is_digit_in :: "nat \<Rightarrow> char \<Rightarrow> bool" where
  "is_digit_in base c \<longleftrightarrow> (case digit_of c of None \<Rightarrow> False | Some d \<Rightarrow> d < base)"

fun read_digits :: "nat \<Rightarrow> nat \<Rightarrow> string \<Rightarrow> nat \<times> string" where
  "read_digits base n [] = (n, [])"
| "read_digits base n (c # cs) = (if is_digit_in base c then read_digits base (n * base + the (digit_of c)) cs else (n, c # cs))"

definition read_sign :: "string \<Rightarrow> bool \<times> string" where
  "read_sign s = (if s \<noteq> [] \<and> (hd s = CHR ''-'' \<or> hd s = CHR ''+'') then (hd s = CHR ''-'', tl s) else (False, s))"

text \<open>
  \<open>strtoull\<close> with base 0: the number and what is left of the text, \<open>None\<close> if there is no number.  It saturates,
  and a minus sign negates modulo \<open>2 ^ 64\<close>.
\<close>

definition number_base :: "string \<Rightarrow> nat \<times> string" where
  "number_base s =
     (case s of
        c # x # d # _ \<Rightarrow>
          (if c = CHR ''0'' \<and> to_lower x = CHR ''x'' \<and> is_digit_in 16 d then (16, drop 2 s) else if c = CHR ''0'' then (8, s) else (10, s))
      | c # _ \<Rightarrow> (if c = CHR ''0'' then (8, s) else (10, s))
      | [] \<Rightarrow> (10, s))"

definition strtoull_prefix :: "string \<Rightarrow> (nat \<times> string) option" where
  "strtoull_prefix s =
     (let (neg, t) = read_sign (dropWhile is_space s); (base, t) = number_base t in
      if t = [] \<or> \<not> is_digit_in base (hd t) then None
      else let (n, rest) = read_digits base 0 t in
        Some (if n > SIZE_MAX then SIZE_MAX else if neg then sz_sub 0 n else n, rest))"

text \<open>\<open>std::stoi\<close>; \<open>None\<close> where it throws.\<close>

definition stoi :: "string \<Rightarrow> int option" where
  "stoi s =
     (let (neg, t) = read_sign (dropWhile is_space (c_str s)) in
      if t = [] \<or> \<not> is_digit_in 10 (hd t) then None
      else let n = (if neg then - int (fst (read_digits 10 0 t)) else int (fst (read_digits 10 0 t))) in
        if n < - 2147483648 \<or> n > 2147483647 then None else Some n)"

text \<open>The pieces that \<open>std::getline\<close> gives with a blank as delimiter.\<close>

fun getlines :: "string \<Rightarrow> string \<Rightarrow> string list" where
  "getlines piece [] = (if piece = [] then [] else [piece])"
| "getlines piece (c # cs) = (if c = CHR '' '' then piece # getlines [] cs else getlines (piece @ [c]) cs)"

subsection \<open>Numbers\<close>

fun bit_len :: "nat \<Rightarrow> nat" where
  "bit_len n = (if n = 0 then 0 else Suc (bit_len (n div 2)))"

declare bit_len.simps [simp del]

text \<open>A number \<open>m * 2 ^ e\<close> is truncated to an integer.\<close>

definition truncated :: "int \<Rightarrow> int \<Rightarrow> int" where
  "truncated m e = (if 0 \<le> e then m * 2 ^ nat e else if 0 \<le> m then m div 2 ^ nat (- e) else - ((- m) div 2 ^ nat (- e)))"

text \<open>
  Rounding to a \<open>float\<close>: 24 bits, the nearest one, and the even one of two that are as near.
\<close>

definition float_round :: "int \<times> int \<Rightarrow> int \<times> int" where
  "float_round x =
     (case x of (m, e) \<Rightarrow>
        let u = max (int (bit_len (nat \<bar>m\<bar>)) - 24 + e) (- 149) in
        if u \<le> e then (m, e)
        else
          let p = 2 ^ nat (u - e); q = \<bar>m\<bar> div p; r = \<bar>m\<bar> mod p;
              q = (if 2 * r > p \<or> 2 * r = p \<and> odd q then q + 1 else q) in
          (if m < 0 then - q else q, u))"

subsection \<open>Values that are handed out\<close>

text \<open>
  \<open>JSON\<close> of \<open>include/PackageMetaData.h\<close> and its \<open>from_json\<close> in \<open>lib/core/Utils.cpp\<close>; an unsigned number is cast
  to a signed one.
\<close>

datatype json_value =
  VNull | VBool bool | VInt int | VDouble int int | VString string | VArray "json_value list" | VObject "(string \<times> json_value) list"

fun from_json :: "json \<Rightarrow> json_value" where
  "from_json JNull = VNull"
| "from_json JDiscarded = VNull"
| "from_json (JBool b) = VBool b"
| "from_json (JInt n) = VInt (get_int64 n)"
| "from_json (JFloat m e) = VDouble m e"
| "from_json (JString s) = VString s"
| "from_json (JArray js) = VArray (map from_json js)"
| "from_json (JObject kvs) = VObject (map (\<lambda>(k, j). (k, from_json j)) kvs)"

text \<open>The enumerations and flags.\<close>

datatype package_type = UnknownType | Runtime | Application | Service | Base | Resource

datatype protocol = TCP | UDP

datatype display_size = DefaultSize | Size720x480 | Size720x576 | Size1280x720 | Size1920x1080 | Size3840x2160 | Size7680x4320

datatype refresh_rate = DefaultRate | FiftyHz | SixtyHz

datatype overridden = OverrideApplication | OverrideRuntime | OverrideBase

abbreviation Paused :: "32 word" where "Paused \<equiv> 1"
abbreviation Suspended :: "32 word" where "Suspended \<equiv> 2"
abbreviation Hibernated :: "32 word" where "Hibernated \<equiv> 4"
abbreviation LowPower :: "32 word" where "LowPower \<equiv> 8"

abbreviation LevelDefault :: "32 word" where "LevelDefault \<equiv> 1"
abbreviation LevelDebug :: "32 word" where "LevelDebug \<equiv> 2"
abbreviation LevelInfo :: "32 word" where "LevelInfo \<equiv> 4"
abbreviation LevelMilestone :: "32 word" where "LevelMilestone \<equiv> 8"
abbreviation LevelWarning :: "32 word" where "LevelWarning \<equiv> 16"
abbreviation LevelError :: "32 word" where "LevelError \<equiv> 32"
abbreviation LevelFatal :: "32 word" where "LevelFatal \<equiv> 64"

record icon =
  icon_path :: path
  icon_mimeType :: string
  icon_purpose :: string
  icon_sizes :: "(int \<times> int) list"

record network_service =
  ns_name :: string
  ns_protocol :: protocol
  ns_port :: nat

record dial_info =
  di_dialIds :: "string list"
  di_corsDomains :: "string list"
  di_originHeaderRequired :: bool

record input_handling =
  ih_interceptedKeys :: "string list"
  ih_capturedKeys :: "string list"
  ih_monitoredKeys :: "string list"

record app_type =
  at_type :: string
  at_args :: "json_value option"

record metadata =
  md_id :: string
  md_version :: version
  md_versionName :: string
  md_specifier :: string
  md_mimeType :: string
  md_entryPointPath :: path
  md_entryArgs :: "string list"
  md_dependencies :: "(string \<times> version_constraint) list"
  md_type :: package_type
  md_title :: "string option"
  md_icons :: "icon list"
  md_storageQuota :: "nat option"
  md_storageGroup :: "string option"
  md_memoryQuota :: "nat option"
  md_gpuMemoryQuota :: "nat option"
  md_permissions :: "string set"
  md_supportedLifecycleStates :: "32 word"
  md_publicServices :: "network_service list"
  md_exportedServices :: "network_service list"
  md_importedServices :: "network_service list"
  md_dialInfo :: "dial_info option"
  md_inputHandlingInfo :: "input_handling option"
  md_displaySize :: display_size
  md_refreshRate :: refresh_rate
  md_pictureMode :: "string option"
  md_soundMode :: "string option"
  md_soundScene :: "string option"
  md_loudnessAdjustment :: "int option"
  md_loggingLevels :: "32 word"
  md_startTimeout :: "int option"
  md_watchdogInterval :: "int option"
  md_allConfigs :: "(string \<times> json_value) list"
  md_overrides :: "(overridden \<times> json_value) list"
  md_supportedAppTypes :: "app_type list"

definition new_metadata :: metadata where
  "new_metadata =
     \<lparr>md_id = [], md_version = Version 1 0 0 0 0, md_versionName = [], md_specifier = [], md_mimeType = [],
      md_entryPointPath = empty_path, md_entryArgs = [], md_dependencies = [], md_type = UnknownType, md_title = None,
      md_icons = [], md_storageQuota = None, md_storageGroup = None, md_memoryQuota = None, md_gpuMemoryQuota = None,
      md_permissions = {}, md_supportedLifecycleStates = Paused OR LowPower, md_publicServices = [],
      md_exportedServices = [], md_importedServices = [], md_dialInfo = None, md_inputHandlingInfo = None,
      md_displaySize = DefaultSize, md_refreshRate = DefaultRate, md_pictureMode = None, md_soundMode = None,
      md_soundScene = None, md_loudnessAdjustment = None, md_loggingLevels = LevelDefault, md_startTimeout = None,
      md_watchdogInterval = None, md_allConfigs = [], md_overrides = [], md_supportedAppTypes = []\<rparr>"

subsection \<open>Fields\<close>

text \<open>
  A function for a field returns the metadata with the field, or it returns false or throws.  The exceptions are
  those of the JSON library for a value of another type, and those of \<open>std::stoi\<close>.
\<close>

datatype field_failure = Rejected | Thrown

type_synonym 'x field_result = "(field_failure, 'x) outcome"
type_synonym field_function = "json \<Rightarrow> metadata \<Rightarrow> metadata field_result"

fun fold_outcome :: "('x \<Rightarrow> 's \<Rightarrow> ('e, 's) outcome) \<Rightarrow> 'x list \<Rightarrow> 's \<Rightarrow> ('e, 's) outcome" where
  "fold_outcome f [] s = Done s"
| "fold_outcome f (x # xs) s = bind_outcome (f x s) (fold_outcome f xs)"

text \<open>\<open>emplace\<close> of a map keeps a value that is there.\<close>

definition emplace :: "'k \<Rightarrow> 'v \<Rightarrow> ('k \<times> 'v) list \<Rightarrow> ('k \<times> 'v) list" where
  "emplace k v m = (if map_of m k = None then m @ [(k, v)] else m)"

fun get_string :: "json \<Rightarrow> string field_result" where
  "get_string (JString s) = Done s"
| "get_string _ = Fail Thrown"

fun get_strings :: "json list \<Rightarrow> string list field_result" where
  "get_strings [] = Done []"
| "get_strings (j # js) = bind_outcome (get_string j) (\<lambda>s. bind_outcome (get_strings js) (\<lambda>ss. Done (s # ss)))"

text \<open>The values of the strings in an array, which may hold other values too.\<close>

fun strings_in :: "json list \<Rightarrow> string list" where
  "strings_in [] = []"
| "strings_in (JString s # js) = s # strings_in js"
| "strings_in (_ # js) = strings_in js"

definition processId :: field_function where
  "processId j m =
     (case j of
        JString s \<Rightarrow> if verifyPackageId s then Done (m\<lparr>md_id := s\<rparr>) else Fail Rejected
      | _ \<Rightarrow> Fail Rejected)"

definition processVersion :: field_function where
  "processVersion j m =
     (case j of
        JString s \<Rightarrow> (case version_fromString s of Inl e \<Rightarrow> Fail Rejected | Inr v \<Rightarrow> Done (m\<lparr>md_version := v\<rparr>))
      | _ \<Rightarrow> Fail Rejected)"

definition processVersionName :: field_function where
  "processVersionName j m =
     (case j of JString s \<Rightarrow> if s \<noteq> [] then Done (m\<lparr>md_versionName := s\<rparr>) else Fail Rejected | _ \<Rightarrow> Fail Rejected)"

definition processPackageType :: field_function where
  "processPackageType j m =
     (case j of
        JString s \<Rightarrow>
          if strcaseeq s ''application'' then Done (m\<lparr>md_type := Application\<rparr>)
          else if strcaseeq s ''runtime'' then Done (m\<lparr>md_type := Runtime\<rparr>)
          else if strcaseeq s ''service'' then Done (m\<lparr>md_type := Service\<rparr>)
          else if strcaseeq s ''base'' then Done (m\<lparr>md_type := Base\<rparr>)
          else if strcaseeq s ''resource'' then Done (m\<lparr>md_type := Resource\<rparr>)
          else Fail Rejected
      | _ \<Rightarrow> Fail Rejected)"

definition processPackageSpecifier :: field_function where
  "processPackageSpecifier j m =
     (case j of JString s \<Rightarrow> if s \<noteq> [] then Done (m\<lparr>md_specifier := s\<rparr>) else Fail Rejected | _ \<Rightarrow> Fail Rejected)"

definition processName :: field_function where
  "processName j m =
     (case j of JString s \<Rightarrow> if s \<noteq> [] then Done (m\<lparr>md_title := Some s\<rparr>) else Fail Rejected | _ \<Rightarrow> Fail Rejected)"

definition processEntryPoint :: field_function where
  "processEntryPoint j m =
     (case j of
        JString s \<Rightarrow> if s \<noteq> [] then Done (m\<lparr>md_entryPointPath := path_of_string s\<rparr>) else Fail Rejected
      | _ \<Rightarrow> Fail Rejected)"

definition processEntryArgs :: field_function where
  "processEntryArgs j m =
     (case j of
        JArray js \<Rightarrow>
          fold_outcome (\<lambda>arg m. case arg of JString s \<Rightarrow> Done (m\<lparr>md_entryArgs := md_entryArgs m @ [s]\<rparr>) | _ \<Rightarrow> Fail Rejected)
            js (m\<lparr>md_entryArgs := []\<rparr>)
      | _ \<Rightarrow> Fail Rejected)"

definition process_dependency :: "string \<times> json \<Rightarrow> metadata \<Rightarrow> metadata field_result" where
  "process_dependency = (\<lambda>(pkg, constraint) m.
     (case constraint of
        JString s \<Rightarrow>
          if \<not> verifyPackageId pkg then Fail Rejected
          else (case constraint_fromString s of
            Inl e \<Rightarrow> Fail Rejected
          | Inr c \<Rightarrow> Done (m\<lparr>md_dependencies := emplace pkg c (md_dependencies m)\<rparr>))
      | _ \<Rightarrow> Fail Rejected))"

definition processDependencies :: field_function where
  "processDependencies j m =
     (case j of
        JObject kvs \<Rightarrow> fold_outcome process_dependency kvs (m\<lparr>md_dependencies := []\<rparr>)
      | _ \<Rightarrow> Fail Rejected)"

definition process_permission :: field_function where
  "process_permission j m =
     (case j of
        JString cap \<Rightarrow> if cap = [] then Fail Rejected else Done (m\<lparr>md_permissions := insert cap (md_permissions m)\<rparr>)
      | _ \<Rightarrow> Fail Rejected)"

definition processPermissions :: field_function where
  "processPermissions j m = (case j of JArray js \<Rightarrow> fold_outcome process_permission js m | _ \<Rightarrow> Fail Rejected)"

subsection \<open>Icons\<close>

text \<open>\<open>json.value(key, "")\<close>: the default if the key is missing, an exception if its value is no string.\<close>

definition string_value :: "(string \<times> json) list \<Rightarrow> string \<Rightarrow> string field_result" where
  "string_value kvs key = (case map_of kvs key of None \<Rightarrow> Done [] | Some j \<Rightarrow> get_string j)"

definition icon_size :: "string \<Rightarrow> (int \<times> int) list \<Rightarrow> (int \<times> int) list field_result" where
  "icon_size piece sizes =
     (if CHR ''x'' \<notin> set piece then Done sizes
      else case (stoi (takeWhile (\<lambda>c. c \<noteq> CHR ''x'') piece), stoi (tl (dropWhile (\<lambda>c. c \<noteq> CHR ''x'') piece))) of
        (Some width, Some height) \<Rightarrow> Done (sizes @ [(width, height)])
      | _ \<Rightarrow> Fail Thrown)"

definition process_icon :: field_function where
  "process_icon icon m =
     (case icon of
        JObject kvs \<Rightarrow>
          bind_outcome (string_value kvs ''src'') (\<lambda>src.
            if src = [] then Done m
            else if \<not> verifyPackagePath (path_of_string src) then Done m
            else
              bind_outcome (string_value kvs ''type'') (\<lambda>mimeType.
              bind_outcome (string_value kvs ''purpose'') (\<lambda>purpose.
              bind_outcome (string_value kvs ''sizes'') (\<lambda>sizes.
              bind_outcome (fold_outcome icon_size (getlines [] sizes) []) (\<lambda>sizes.
                Done (m\<lparr>md_icons := md_icons m @ [\<lparr>icon_path = path_of_string src, icon_mimeType = mimeType,
                  icon_purpose = purpose, icon_sizes = sizes\<rparr>]\<rparr>))))))
      | _ \<Rightarrow> Fail Rejected)"

definition processIconsConfig :: field_function where
  "processIconsConfig j m =
     (case j of JArray js \<Rightarrow> fold_outcome process_icon js (m\<lparr>md_icons := []\<rparr>) | _ \<Rightarrow> Fail Rejected)"

subsection \<open>The configuration\<close>

definition parseMemorySize :: "string \<Rightarrow> nat option" where
  "parseMemorySize str =
     (if str = [] then None
      else case strtoull_prefix (c_str str) of
        None \<Rightarrow> None
      | Some (value, rest) \<Rightarrow>
          Some (case rest of
              [] \<Rightarrow> value
            | c # _ \<Rightarrow>
                if to_lower c = CHR ''k'' then sz_mul value 1024
                else if to_lower c = CHR ''m'' then sz_mul (sz_mul value 1024) 1024
                else if to_lower c = CHR ''g'' then sz_mul (sz_mul (sz_mul value 1024) 1024) 1024
                else value))"

definition storage_member :: "string \<times> json \<Rightarrow> metadata \<Rightarrow> metadata field_result" where
  "storage_member = (\<lambda>(key, v) m.
     if key = ''maxLocalStorage'' then
       (case v of JString s \<Rightarrow> Done (m\<lparr>md_storageQuota := parseMemorySize s\<rparr>) | _ \<Rightarrow> Fail Rejected)
     else if key = ''sharedStorageAppId'' then
       (case v of
          JString s \<Rightarrow> if verifyPackageId s then Done (m\<lparr>md_storageGroup := Some s\<rparr>) else Fail Rejected
        | _ \<Rightarrow> Fail Rejected)
     else Done m)"

definition processStorageConfig :: field_function where
  "processStorageConfig j m = (case j of JObject kvs \<Rightarrow> fold_outcome storage_member kvs m | _ \<Rightarrow> Fail Rejected)"

definition memory_member :: "string \<times> json \<Rightarrow> metadata \<Rightarrow> metadata field_result" where
  "memory_member = (\<lambda>(key, v) m.
     case v of
       JString s \<Rightarrow>
         if key = ''system'' then Done (m\<lparr>md_memoryQuota := parseMemorySize s\<rparr>)
         else if key = ''gpu'' then Done (m\<lparr>md_gpuMemoryQuota := parseMemorySize s\<rparr>)
         else Done m
     | _ \<Rightarrow> Done m)"

definition processMemoryConfig :: field_function where
  "processMemoryConfig j m = (case j of JObject kvs \<Rightarrow> fold_outcome memory_member kvs m | _ \<Rightarrow> Fail Rejected)"

definition dial_member :: "string \<times> json \<Rightarrow> dial_info \<Rightarrow> dial_info field_result" where
  "dial_member = (\<lambda>(key, v) d.
     case v of
       JArray js \<Rightarrow>
         if key = ''appNames'' then bind_outcome (get_strings js) (\<lambda>ss. Done (d\<lparr>di_dialIds := ss\<rparr>))
         else if key = ''corsDomains'' then bind_outcome (get_strings js) (\<lambda>ss. Done (d\<lparr>di_corsDomains := ss\<rparr>))
         else Done d
     | JBool b \<Rightarrow> if key = ''originHeaderRequired'' then Done (d\<lparr>di_originHeaderRequired := b\<rparr>) else Done d
     | _ \<Rightarrow> Done d)"

definition processDialConfig :: field_function where
  "processDialConfig j m =
     (case j of
        JObject kvs \<Rightarrow>
          bind_outcome (fold_outcome dial_member kvs \<lparr>di_dialIds = [], di_corsDomains = [], di_originHeaderRequired = False\<rparr>) (\<lambda>d.
            Done (m\<lparr>md_dialInfo := Some d\<rparr>))
      | _ \<Rightarrow> Fail Rejected)"

definition log_level :: "string \<Rightarrow> 32 word" where
  "log_level s =
     (if strcaseeq s ''fatal'' then LevelFatal
      else if strcaseeq s ''error'' then LevelError
      else if strcaseeq s ''warning'' then LevelWarning
      else if strcaseeq s ''milestone'' then LevelMilestone
      else if strcaseeq s ''info'' then LevelInfo
      else if strcaseeq s ''debug'' then LevelDebug
      else if strcaseeq s ''default'' then LevelDefault
      else 0)"

definition processLogLevelsConfig :: field_function where
  "processLogLevelsConfig j m =
     (case j of
        JArray js \<Rightarrow>
          fold_outcome (\<lambda>level m. case level of
              JString s \<Rightarrow> Done (m\<lparr>md_loggingLevels := md_loggingLevels m OR log_level s\<rparr>) | _ \<Rightarrow> Fail Rejected)
            js (m\<lparr>md_loggingLevels := LevelDefault\<rparr>)
      | _ \<Rightarrow> Fail Rejected)"

datatype service_type = UnknownService | PublicService | ExportedService | ImportedService

definition service_member :: "string \<times> json \<Rightarrow> network_service \<times> service_type \<Rightarrow> network_service \<times> service_type" where
  "service_member = (\<lambda>(key, v) (s, t).
     case v of
       JString str \<Rightarrow>
         if key = ''name'' then (s\<lparr>ns_name := str\<rparr>, t)
         else if key = ''protocol'' then
           (if strcaseeq str ''tcp'' then (s\<lparr>ns_protocol := TCP\<rparr>, t)
            else if strcaseeq str ''udp'' then (s\<lparr>ns_protocol := UDP\<rparr>, t) else (s, t))
         else if key = ''type'' then
           (if strcaseeq str ''public'' then (s, PublicService)
            else if strcaseeq str ''exported'' then (s, ExportedService)
            else if strcaseeq str ''imported'' then (s, ImportedService) else (s, t))
         else (s, t)
     | JInt n \<Rightarrow> if key = ''port'' then (s\<lparr>ns_port := nat (n mod 65536)\<rparr>, t) else (s, t)
     | _ \<Rightarrow> (s, t))"

definition process_service :: field_function where
  "process_service entry m =
     (case entry of
        JObject kvs \<Rightarrow>
          (case fold service_member kvs (\<lparr>ns_name = [], ns_protocol = TCP, ns_port = 0\<rparr>, UnknownService) of
             (s, t) \<Rightarrow>
               Done (if ns_port s = 0 then m
                 else case t of
                   UnknownService \<Rightarrow> m
                 | ExportedService \<Rightarrow> m\<lparr>md_exportedServices := md_exportedServices m @ [s]\<rparr>
                 | ImportedService \<Rightarrow> m\<lparr>md_importedServices := md_importedServices m @ [s]\<rparr>
                 | PublicService \<Rightarrow> m\<lparr>md_publicServices := md_publicServices m @ [s]\<rparr>))
      | _ \<Rightarrow> Fail Rejected)"

definition processNetworkConfig :: field_function where
  "processNetworkConfig j m = (case j of JArray js \<Rightarrow> fold_outcome process_service js m | _ \<Rightarrow> Fail Rejected)"

text \<open>
  A number of seconds as milliseconds.  The result of \<open>get<float>()\<close> and its product with 1000 are rounded;
  the conversion to \<open>unsigned long\<close> is undefined for larger numbers, and the duration holds it as a signed one.
\<close>

definition float_milliseconds :: "int \<times> int \<Rightarrow> int option field_result" where
  "float_milliseconds x =
     (let (m, e) = float_round x in
      if m < 0 then Done None
      else let (n, e) = float_round (m * 1000, e) in
        if truncated n e \<ge> int SIZE_LIMIT then Undefined ConversionOverflow
        else Done (Some (get_int64 (truncated n e))))"

fun milliseconds :: "json \<Rightarrow> int option field_result" where
  "milliseconds (JInt n) = float_milliseconds (n, 0)"
| "milliseconds (JFloat m e) = float_milliseconds (m, e)"
| "milliseconds _ = Done None"

definition lifecycle_state :: "json \<Rightarrow> 32 word" where
  "lifecycle_state j =
     (case j of
        JString s \<Rightarrow>
          if strcaseeq s ''paused'' then Paused
          else if strcaseeq s ''suspended'' then Suspended
          else if strcaseeq s ''hibernated'' then Hibernated
          else 0
      | _ \<Rightarrow> 0)"

definition lifecycle_member :: "string \<times> json \<Rightarrow> metadata \<Rightarrow> metadata field_result" where
  "lifecycle_member = (\<lambda>(key, v) m.
     if key = ''supportedNonActiveStates'' then
       (case v of
          JArray js \<Rightarrow> Done (m\<lparr>md_supportedLifecycleStates := fold (\<lambda>j w. w OR lifecycle_state j) js (md_supportedLifecycleStates m)\<rparr>)
        | _ \<Rightarrow> Done m)
     else if key = ''startupTimeout'' then
       bind_outcome (milliseconds v) (\<lambda>t. Done (case t of None \<Rightarrow> m | Some t \<Rightarrow> m\<lparr>md_startTimeout := Some t\<rparr>))
     else if key = ''watchdogInterval'' then
       bind_outcome (milliseconds v) (\<lambda>t. Done (case t of None \<Rightarrow> m | Some t \<Rightarrow> m\<lparr>md_watchdogInterval := Some t\<rparr>))
     else Done m)"

definition processAppLifecycleConfig :: field_function where
  "processAppLifecycleConfig j m = (case j of JObject kvs \<Rightarrow> fold_outcome lifecycle_member kvs m | _ \<Rightarrow> Fail Rejected)"

definition processLowPowerTerminateConfig :: field_function where
  "processLowPowerTerminateConfig j m =
     (case j of
        JBool b \<Rightarrow> Done (m\<lparr>md_supportedLifecycleStates :=
          if b then md_supportedLifecycleStates m AND NOT LowPower else md_supportedLifecycleStates m OR LowPower\<rparr>)
      | _ \<Rightarrow> Fail Rejected)"

definition input_member :: "string \<times> json \<Rightarrow> input_handling \<Rightarrow> input_handling" where
  "input_member = (\<lambda>(key, v) h.
     case v of
       JArray js \<Rightarrow>
         if key = ''keyIntercept'' then h\<lparr>ih_interceptedKeys := ih_interceptedKeys h @ strings_in js\<rparr>
         else if key = ''keyCapture'' then h\<lparr>ih_capturedKeys := ih_capturedKeys h @ strings_in js\<rparr>
         else if key = ''keyMonitor'' then h\<lparr>ih_monitoredKeys := ih_monitoredKeys h @ strings_in js\<rparr>
         else h
     | _ \<Rightarrow> h)"

definition processInputHandlingConfig :: field_function where
  "processInputHandlingConfig j m =
     (case j of
        JObject kvs \<Rightarrow>
          let h = fold input_member kvs \<lparr>ih_interceptedKeys = [], ih_capturedKeys = [], ih_monitoredKeys = []\<rparr> in
          Done (if ih_interceptedKeys h \<noteq> [] \<or> ih_monitoredKeys h \<noteq> [] \<or> ih_capturedKeys h \<noteq> []
            then m\<lparr>md_inputHandlingInfo := Some h\<rparr> else m)
      | _ \<Rightarrow> Fail Rejected)"

text \<open>\<open>get<int>()\<close> of a number; a floating-point number outside the range of \<open>int\<close> is undefined.\<close>

fun int_value :: "json \<Rightarrow> int option field_result" where
  "int_value (JInt n) = Done (Some (get_int n))"
| "int_value (JFloat m e) =
     (if truncated m e < - 2147483648 \<or> truncated m e > 2147483647 then Undefined ConversionOverflow
      else Done (Some (truncated m e)))"
| "int_value _ = Done None"

definition display_size_of :: "int \<Rightarrow> display_size option" where
  "display_size_of n =
     (if n = 480 then Some Size720x480 else if n = 576 then Some Size720x576 else if n = 720 then Some Size1280x720
      else if n = 1080 then Some Size1920x1080 else if n = 2160 then Some Size3840x2160
      else if n = 4320 then Some Size7680x4320 else None)"

definition window_member :: "string \<times> json \<Rightarrow> metadata \<Rightarrow> metadata field_result" where
  "window_member = (\<lambda>(key, v) m.
     if key = ''virtualDisplaySize'' then
       bind_outcome (int_value v) (\<lambda>n.
         Done (case Option.bind n display_size_of of None \<Rightarrow> m | Some d \<Rightarrow> m\<lparr>md_displaySize := d\<rparr>))
     else Done m)"

definition processWindowConfig :: field_function where
  "processWindowConfig j m = (case j of JObject kvs \<Rightarrow> fold_outcome window_member kvs m | _ \<Rightarrow> Fail Rejected)"

definition display_member :: "string \<times> json \<Rightarrow> metadata \<Rightarrow> metadata field_result" where
  "display_member = (\<lambda>(key, v) m.
     if key = ''refreshRateHz'' then
       bind_outcome (int_value v) (\<lambda>n.
         Done (if n = Some 50 then m\<lparr>md_refreshRate := FiftyHz\<rparr>
           else if n = Some 60 then m\<lparr>md_refreshRate := SixtyHz\<rparr> else m))
     else if key = ''pictureMode'' then
       Done (case v of JString s \<Rightarrow> m\<lparr>md_pictureMode := Some s\<rparr> | _ \<Rightarrow> m)
     else Done m)"

definition processDisplayConfig :: field_function where
  "processDisplayConfig j m = (case j of JObject kvs \<Rightarrow> fold_outcome display_member kvs m | _ \<Rightarrow> Fail Rejected)"

definition audio_member :: "string \<times> json \<Rightarrow> metadata \<Rightarrow> metadata field_result" where
  "audio_member = (\<lambda>(key, v) m.
     Done (case v of
       JString s \<Rightarrow>
         if key = ''soundMode'' then m\<lparr>md_soundMode := Some s\<rparr>
         else if key = ''soundScene'' then m\<lparr>md_soundScene := Some s\<rparr> else m
     | JInt n \<Rightarrow> if key = ''loudnessAdjustment'' then m\<lparr>md_loudnessAdjustment := Some (get_int n)\<rparr> else m
     | _ \<Rightarrow> m))"

definition processAudioConfig :: field_function where
  "processAudioConfig j m = (case j of JObject kvs \<Rightarrow> fold_outcome audio_member kvs m | _ \<Rightarrow> Fail Rejected)"

definition override_member :: "string \<times> json \<Rightarrow> metadata \<Rightarrow> metadata field_result" where
  "override_member = (\<lambda>(key, v) m.
     Done (if key = ''application'' then m\<lparr>md_overrides := AList.update OverrideApplication (from_json v) (md_overrides m)\<rparr>
       else if key = ''runtime'' then m\<lparr>md_overrides := AList.update OverrideRuntime (from_json v) (md_overrides m)\<rparr>
       else if key = ''base'' then m\<lparr>md_overrides := AList.update OverrideBase (from_json v) (md_overrides m)\<rparr>
       else m))"

definition processOverridesConfig :: field_function where
  "processOverridesConfig j m = (case j of JObject kvs \<Rightarrow> fold_outcome override_member kvs m | _ \<Rightarrow> Fail Rejected)"

definition type_member :: "string \<times> json \<Rightarrow> app_type \<Rightarrow> app_type" where
  "type_member = (\<lambda>(key, v) t.
     case v of
       JString s \<Rightarrow> if key = ''type'' then t\<lparr>at_type := s\<rparr> else t
     | JObject kvs \<Rightarrow> if key = ''args'' then t\<lparr>at_args := Some (from_json v)\<rparr> else t
     | _ \<Rightarrow> t)"

definition process_app_type :: field_function where
  "process_app_type appType m =
     (case appType of
        JObject kvs \<Rightarrow>
          let t = fold type_member kvs \<lparr>at_type = [], at_args = None\<rparr> in
          Done (if at_type t \<noteq> [] then m\<lparr>md_supportedAppTypes := md_supportedAppTypes m @ [t]\<rparr> else m)
      | _ \<Rightarrow> Fail Rejected)"

definition runtime_member :: "string \<times> json \<Rightarrow> metadata \<Rightarrow> metadata field_result" where
  "runtime_member = (\<lambda>(key, v) m.
     if key = ''supportedApplicationTypes'' then
       (case v of JArray js \<Rightarrow> fold_outcome process_app_type js (m\<lparr>md_supportedAppTypes := []\<rparr>) | _ \<Rightarrow> Fail Rejected)
     else Done m)"

definition processRuntimeConfig :: field_function where
  "processRuntimeConfig j m = (case j of JObject kvs \<Rightarrow> fold_outcome runtime_member kvs m | _ \<Rightarrow> Fail Rejected)"

text \<open>The functions for the keys of the configuration, and the loop over its members.\<close>

definition kSettingsMap :: "(string \<times> field_function) list" where
  "kSettingsMap =
     [(''urn:entos:config:icons'', processIconsConfig), (''urn:rdk:config:memory'', processMemoryConfig),
      (''urn:rdk:config:storage'', processStorageConfig), (''urn:rdk:config:dial'', processDialConfig),
      (''urn:rdk:config:network'', processNetworkConfig), (''urn:rdk:config:log-levels'', processLogLevelsConfig),
      (''urn:rdk:config:application-lifecycle'', processAppLifecycleConfig),
      (''urn:entos:config:low-power:terminate'', processLowPowerTerminateConfig),
      (''urn:rdk:config:input-handling'', processInputHandlingConfig), (''urn:rdk:config:window'', processWindowConfig),
      (''urn:entos:config:display'', processDisplayConfig), (''urn:entos:config:audio'', processAudioConfig),
      (''urn:rdk:config:overrides'', processOverridesConfig), (''urn:rdk:config:runtime'', processRuntimeConfig)]"

definition configuration_member :: "string \<times> json \<Rightarrow> metadata \<Rightarrow> metadata field_result" where
  "configuration_member = (\<lambda>(key, v) m.
     let m = m\<lparr>md_allConfigs := emplace key (from_json v) (md_allConfigs m)\<rparr> in
     case map_of kSettingsMap key of None \<Rightarrow> Done m | Some process \<Rightarrow> process v m)"

definition processConfiguration :: field_function where
  "processConfiguration j m = (case j of JObject kvs \<Rightarrow> fold_outcome configuration_member kvs m | _ \<Rightarrow> Fail Rejected)"

subsection \<open>The whole document\<close>

definition kRequiredFields :: "(string \<times> field_function) list" where
  "kRequiredFields =
     [(''id'', processId), (''version'', processVersion), (''packageType'', processPackageType), (''entryPoint'', processEntryPoint)]"

definition kOptionalFields :: "(string \<times> field_function) list" where
  "kOptionalFields =
     [(''name'', processName), (''versionName'', processVersionName), (''entryArgs'', processEntryArgs),
      (''packageSpecifier'', processPackageSpecifier), (''dependencies'', processDependencies),
      (''permissions'', processPermissions), (''configuration'', processConfiguration)]"

definition required_field :: "(string \<times> json) list \<Rightarrow> string \<times> field_function \<Rightarrow> metadata \<Rightarrow> metadata field_result" where
  "required_field kvs = (\<lambda>(key, process) m. case map_of kvs key of None \<Rightarrow> Fail Rejected | Some j \<Rightarrow> process j m)"

definition optional_field :: "(string \<times> json) list \<Rightarrow> string \<times> field_function \<Rightarrow> metadata \<Rightarrow> metadata field_result" where
  "optional_field kvs = (\<lambda>(key, process) m. case map_of kvs key of None \<Rightarrow> Done m | Some j \<Rightarrow> process j m)"

definition type_prefix :: "package_type \<Rightarrow> string option" where
  "type_prefix t =
     (case t of
        Application \<Rightarrow> Some ''application/'' | Runtime \<Rightarrow> Some ''runtime/'' | Service \<Rightarrow> Some ''service/''
      | Base \<Rightarrow> Some ''base/'' | Resource \<Rightarrow> Some ''resource/'' | UnknownType \<Rightarrow> None)"

definition set_mimeType :: "metadata \<Rightarrow> metadata field_result" where
  "set_mimeType m =
     (case type_prefix (md_type m) of
        None \<Rightarrow> Fail Rejected
      | Some p \<Rightarrow> Done (m\<lparr>md_mimeType := p @ (if md_specifier m \<noteq> [] then md_specifier m else ''unknown'')\<rparr>))"

definition process_config :: "(string \<times> json) list \<Rightarrow> metadata field_result" where
  "process_config kvs =
     bind_outcome (fold_outcome (required_field kvs) kRequiredFields new_metadata) (\<lambda>m.
     bind_outcome (fold_outcome (optional_field kvs) kOptionalFields m) set_mimeType)"

text \<open>Whether a field is rejected or throws, the error is the same.\<close>

definition metadata_fromConfigJson :: "json \<Rightarrow> (error_code, metadata) outcome" where
  "metadata_fromConfigJson j =
     (case j of
        JObject kvs \<Rightarrow>
          (case process_config kvs of
             Done m \<Rightarrow> Done m | Fail e \<Rightarrow> Fail PackageContentsInvalid | Undefined u \<Rightarrow> Undefined u)
      | _ \<Rightarrow> Fail PackageContentsInvalid)"

section \<open>What accepted metadata is\<close>

text \<open>
  \<open>identity\<close> is what the required fields set; nothing else changes it, and only the member \<open>permissions\<close>
  of the document changes the permissions.
\<close>

type_synonym identity = "string \<times> version \<times> package_type \<times> path"

definition identity_of :: "metadata \<Rightarrow> identity" where
  "identity_of m = (md_id m, md_version m, md_type m, md_entryPointPath m)"

definition services :: "metadata \<Rightarrow> network_service set" where
  "services m = set (md_publicServices m) \<union> set (md_exportedServices m) \<union> set (md_importedServices m)"

definition quotas :: "metadata \<Rightarrow> nat set" where
  "quotas m = set_option (md_storageQuota m) \<union> set_option (md_memoryQuota m) \<union> set_option (md_gpuMemoryQuota m)"

definition contents_wf :: "metadata \<Rightarrow> bool" where
  "contents_wf m \<longleftrightarrow>
     distinct (map fst (md_dependencies m)) \<and> (\<forall>(pkg, c) \<in> set (md_dependencies m). verifyPackageId pkg) \<and>
     (\<forall>i \<in> set (md_icons m). verifyPackagePath (icon_path i)) \<and>
     (\<forall>s \<in> services m. 0 < ns_port s \<and> ns_port s < 65536) \<and> (\<forall>q \<in> quotas m. q \<le> SIZE_MAX) \<and>
     (\<forall>g \<in> set_option (md_storageGroup m). verifyPackageId g) \<and> distinct (map fst (md_allConfigs m))"

definition same_rights :: "metadata \<Rightarrow> metadata \<Rightarrow> bool" where
  "same_rights m m' \<longleftrightarrow> identity_of m' = identity_of m \<and> md_permissions m' = md_permissions m \<and> (contents_wf m \<longrightarrow> contents_wf m')"

named_theorems rights_simps

lemmas [rights_simps] = same_rights_def identity_of_def services_def quotas_def contents_wf_def

lemma same_rights_refl [simp]: "same_rights m m"
  by (simp add: same_rights_def)

lemma same_rights_trans: "same_rights a b \<Longrightarrow> same_rights b c \<Longrightarrow> same_rights a c"
  by (simp add: same_rights_def)

text \<open>A function that keeps a relation between the metadata before and after it, where it returns.\<close>

definition keeps :: "(metadata \<Rightarrow> metadata \<Rightarrow> bool) \<Rightarrow> ('x \<Rightarrow> metadata \<Rightarrow> metadata field_result) \<Rightarrow> bool" where
  "keeps R f \<longleftrightarrow> (\<forall>x m m'. f x m = Done m' \<longrightarrow> R m m')"

lemma keepsI: "(\<And>x m m'. f x m = Done m' \<Longrightarrow> R m m') \<Longrightarrow> keeps R f"
  by (simp add: keeps_def)

lemma keepsD: "keeps R f \<Longrightarrow> f x m = Done m' \<Longrightarrow> R m m'"
  by (simp add: keeps_def)

abbreviation keeps_rights :: "('x \<Rightarrow> metadata \<Rightarrow> metadata field_result) \<Rightarrow> bool" where
  "keeps_rights \<equiv> keeps same_rights"

text \<open>
  For a reflexive and transitive relation it is enough that the function for a part keeps it: the loops over the
  members of an object or the elements of an array then do.
\<close>

locale field_relation =
  fixes R :: "metadata \<Rightarrow> metadata \<Rightarrow> bool"
  assumes R_refl: "R m m" and R_trans: "R a b \<Longrightarrow> R b c \<Longrightarrow> R a c"
begin

lemma keep_fold:
  assumes "keeps R f"
  shows "fold_outcome f xs m = Done m' \<Longrightarrow> R m m'"
proof (induction xs arbitrary: m)
  case (Cons x xs)
  then show ?case using keepsD [OF assms] R_trans by (auto; blast)
qed (simp add: R_refl)

lemma keep_object:
  assumes "keeps R f" "\<And>j m. process j m = (case j of JObject kvs \<Rightarrow> fold_outcome f kvs m | _ \<Rightarrow> Fail Rejected)"
  shows "keeps R process"
  by (rule keepsI) (auto simp: assms(2) dest: keep_fold [OF assms(1)] split: json.splits)

lemma keep_array:
  assumes "keeps R f" "\<And>m. R m (start m)"
    "\<And>j m. process j m = (case j of JArray js \<Rightarrow> fold_outcome f js (start m) | _ \<Rightarrow> Fail Rejected)"
  shows "keeps R process"
proof (rule keepsI)
  fix j m m' assume "process j m = Done m'"
  then obtain js where "fold_outcome f js (start m) = Done m'" by (auto simp: assms(3) split: json.splits)
  then show "R m m'" using keep_fold [OF assms(1)] R_trans assms(2) by blast
qed

lemma keep_optional:
  assumes "keeps R process" "optional_field kvs (key, process) m = Done m'"
  shows "R m m'"
  using assms R_refl by (auto simp: optional_field_def dest: keepsD split: option.splits)

end

interpretation rights: field_relation same_rights
  by unfold_locales (auto simp: same_rights_def)

text \<open>Updates of single fields.\<close>

lemma same_rights_other [simp]:
  "same_rights m (m\<lparr>md_versionName := vn\<rparr>)" "same_rights m (m\<lparr>md_specifier := sp\<rparr>)" "same_rights m (m\<lparr>md_mimeType := mt\<rparr>)"
  "same_rights m (m\<lparr>md_entryArgs := ea\<rparr>)" "same_rights m (m\<lparr>md_title := ti\<rparr>)"
  "same_rights m (m\<lparr>md_supportedLifecycleStates := ls\<rparr>)" "same_rights m (m\<lparr>md_dialInfo := di\<rparr>)"
  "same_rights m (m\<lparr>md_inputHandlingInfo := ih\<rparr>)" "same_rights m (m\<lparr>md_displaySize := ds\<rparr>)" "same_rights m (m\<lparr>md_refreshRate := rr\<rparr>)"
  "same_rights m (m\<lparr>md_pictureMode := pm\<rparr>)" "same_rights m (m\<lparr>md_soundMode := sm\<rparr>)" "same_rights m (m\<lparr>md_soundScene := ss\<rparr>)"
  "same_rights m (m\<lparr>md_loudnessAdjustment := la\<rparr>)" "same_rights m (m\<lparr>md_loggingLevels := ll\<rparr>)"
  "same_rights m (m\<lparr>md_startTimeout := st\<rparr>)" "same_rights m (m\<lparr>md_watchdogInterval := wi\<rparr>)"
  "same_rights m (m\<lparr>md_overrides := ov\<rparr>)" "same_rights m (m\<lparr>md_supportedAppTypes := apps\<rparr>)"
  by (simp_all add: rights_simps)

lemma same_rights_quota:
  assumes "\<And>q. x = Some q \<Longrightarrow> q \<le> SIZE_MAX"
  shows "same_rights m (m\<lparr>md_storageQuota := x\<rparr>)" "same_rights m (m\<lparr>md_memoryQuota := x\<rparr>)" "same_rights m (m\<lparr>md_gpuMemoryQuota := x\<rparr>)"
  using assms by (auto simp: rights_simps)

lemma same_rights_group: "verifyPackageId g \<Longrightarrow> same_rights m (m\<lparr>md_storageGroup := Some g\<rparr>)"
  by (simp add: rights_simps)

lemma same_rights_service:
  assumes "0 < ns_port s" "ns_port s < 65536"
  shows "same_rights m (m\<lparr>md_publicServices := md_publicServices m @ [s]\<rparr>)"
    "same_rights m (m\<lparr>md_exportedServices := md_exportedServices m @ [s]\<rparr>)"
    "same_rights m (m\<lparr>md_importedServices := md_importedServices m @ [s]\<rparr>)"
  using assms by (auto simp: rights_simps)

lemma same_rights_icons:
  "same_rights m (m\<lparr>md_icons := []\<rparr>)" "verifyPackagePath (icon_path i) \<Longrightarrow> same_rights m (m\<lparr>md_icons := md_icons m @ [i]\<rparr>)"
  by (auto simp: rights_simps)

lemma emplace_distinct: "distinct (map fst m) \<Longrightarrow> distinct (map fst (emplace k v m))"
  by (auto simp: emplace_def map_of_eq_None_iff)

lemma set_emplace: "set (emplace k v m) \<subseteq> insert (k, v) (set m)"
  by (auto simp: emplace_def)

lemma same_rights_dependencies:
  "same_rights m (m\<lparr>md_dependencies := []\<rparr>)"
  "verifyPackageId pkg \<Longrightarrow> same_rights m (m\<lparr>md_dependencies := emplace pkg c (md_dependencies m)\<rparr>)"
  using set_emplace [of pkg c "md_dependencies m"] by (auto simp: rights_simps emplace_distinct)

lemma same_rights_configs: "same_rights m (m\<lparr>md_allConfigs := emplace k v (md_allConfigs m)\<rparr>)"
  by (simp add: rights_simps emplace_distinct)

subsection \<open>The parts of the configuration\<close>

lemma sz_mul_le: "sz_mul a b \<le> SIZE_MAX"
  using sz_mul_less [of a b] by linarith

lemma parseMemorySize_bound:
  assumes "parseMemorySize s = Some q"
  shows "q \<le> SIZE_MAX"
proof -
  have "n \<le> SIZE_MAX" if "strtoull_prefix t = Some (n, rest)" for t n rest
  proof -
    obtain neg u base v k w where "read_sign (dropWhile is_space t) = (neg, u)" "number_base u = (base, v)" "read_digits base 0 v = (k, w)"
      by (meson surj_pair)
    then show ?thesis using that by (auto simp: strtoull_prefix_def Let_def sz_sub_def split: if_splits)
  qed
  then show ?thesis
    using assms sz_mul_le by (auto simp: parseMemorySize_def split: if_splits option.splits list.splits)
qed

lemma storage_keeps: "keeps_rights processStorageConfig"
proof (rule rights.keep_object [OF _ processStorageConfig_def], rule keepsI)
  fix x m m' assume "storage_member x m = Done m'"
  then show "same_rights m m'"
    by (cases x) (auto simp: storage_member_def intro!: same_rights_quota same_rights_group dest: parseMemorySize_bound
        split: if_splits json.splits)
qed

lemma memory_keeps: "keeps_rights processMemoryConfig"
proof (rule rights.keep_object [OF _ processMemoryConfig_def], rule keepsI)
  fix x m m' assume "memory_member x m = Done m'"
  then show "same_rights m m'"
    by (cases x) (auto simp: memory_member_def intro!: same_rights_quota dest: parseMemorySize_bound split: if_splits json.splits)
qed

lemma dial_keeps: "keeps_rights processDialConfig"
  by (rule keepsI) (auto simp: processDialConfig_def split: json.splits)

lemma log_levels_keep: "keeps_rights processLogLevelsConfig"
  by (rule rights.keep_array [OF _ _ processLogLevelsConfig_def]) (auto intro!: keepsI split: json.splits)

lemma service_port:
  "ns_port (fst x) < 65536 \<Longrightarrow> ns_port (fst (fold service_member kvs x)) < 65536"
proof (induction kvs arbitrary: x)
  case (Cons kv kvs)
  have port: "nat (n mod 65536) < 65536" for n :: int by (simp add: nat_less_iff)
  have "ns_port (fst (service_member kv x)) < 65536"
    using Cons.prems port by (cases kv; cases x) (auto simp: service_member_def split: json.splits)
  then show ?case using Cons.IH by simp
qed simp

lemma network_keeps: "keeps_rights processNetworkConfig"
proof (rule rights.keep_array [OF _ _ processNetworkConfig_def], rule keepsI)
  fix x m m' assume run: "process_service x m = Done m'"
  then obtain kvs where x: "x = JObject kvs" by (auto simp: process_service_def split: json.splits)
  let ?start = "(\<lparr>ns_name = [], ns_protocol = TCP, ns_port = 0\<rparr>, UnknownService)"
  obtain s t where st: "fold service_member kvs ?start = (s, t)" by fastforce
  have "ns_port s < 65536" using service_port [of ?start kvs] st by simp
  then show "same_rights m m'"
    using run x st by (cases t) (auto simp: process_service_def intro!: same_rights_service split: if_splits)
qed simp

lemma lifecycle_keeps: "keeps_rights processAppLifecycleConfig"
proof (rule rights.keep_object [OF _ processAppLifecycleConfig_def], rule keepsI)
  fix x m m' assume "lifecycle_member x m = Done m'"
  then show "same_rights m m'"
    by (cases x) (auto simp: lifecycle_member_def split: if_splits json.splits option.splits)
qed

lemma low_power_keeps: "keeps_rights processLowPowerTerminateConfig"
  by (rule keepsI) (auto simp: processLowPowerTerminateConfig_def split: json.splits)

lemma input_keeps: "keeps_rights processInputHandlingConfig"
  by (rule keepsI) (auto simp: processInputHandlingConfig_def Let_def split: json.splits)

lemma window_keeps: "keeps_rights processWindowConfig"
proof (rule rights.keep_object [OF _ processWindowConfig_def], rule keepsI)
  fix x m m' assume "window_member x m = Done m'"
  then show "same_rights m m'" by (cases x) (auto simp: window_member_def split: if_splits option.splits)
qed

lemma display_keeps: "keeps_rights processDisplayConfig"
proof (rule rights.keep_object [OF _ processDisplayConfig_def], rule keepsI)
  fix x m m' assume "display_member x m = Done m'"
  then show "same_rights m m'" by (cases x) (auto simp: display_member_def split: if_splits json.splits)
qed

lemma audio_keeps: "keeps_rights processAudioConfig"
proof (rule rights.keep_object [OF _ processAudioConfig_def], rule keepsI)
  fix x m m' assume "audio_member x m = Done m'"
  then show "same_rights m m'" by (cases x) (auto simp: audio_member_def split: if_splits json.splits)
qed

lemma overrides_keep: "keeps_rights processOverridesConfig"
proof (rule rights.keep_object [OF _ processOverridesConfig_def], rule keepsI)
  fix x m m' assume "override_member x m = Done m'"
  then show "same_rights m m'" by (cases x) (auto simp: override_member_def split: if_splits)
qed

lemma runtime_keeps: "keeps_rights processRuntimeConfig"
proof (rule rights.keep_object [OF _ processRuntimeConfig_def], rule keepsI)
  have types: "keeps_rights process_app_type"
    by (rule keepsI) (auto simp: process_app_type_def Let_def split: json.splits if_splits)
  fix x m m' assume "runtime_member x m = Done m'"
  then obtain js where "m' = m \<or> fold_outcome process_app_type js (m\<lparr>md_supportedAppTypes := []\<rparr>) = Done m'"
    by (cases x) (auto simp: runtime_member_def split: if_splits json.splits)
  moreover have "same_rights m (m\<lparr>md_supportedAppTypes := []\<rparr>)" by simp
  ultimately show "same_rights m m'" using rights.keep_fold [OF types] same_rights_trans by (metis same_rights_refl)
qed

lemma icons_keep: "keeps_rights processIconsConfig"
proof (rule rights.keep_array [OF _ _ processIconsConfig_def], rule keepsI)
  fix x m m' assume "process_icon x m = Done m'"
  then show "same_rights m m'"
    by (auto simp: process_icon_def intro!: same_rights_icons split: json.splits if_splits)
qed (rule same_rights_icons(1))

lemmas settings_keep = icons_keep memory_keeps storage_keeps dial_keeps network_keeps log_levels_keep lifecycle_keeps
  low_power_keeps input_keeps window_keeps display_keeps audio_keeps overrides_keep runtime_keeps

lemma configuration_keeps: "keeps_rights processConfiguration"
proof (rule rights.keep_object [OF _ processConfiguration_def], rule keepsI)
  fix x m m' assume run: "configuration_member x m = Done m'"
  obtain key v where x: "x = (key, v)" by fastforce
  let ?m = "m\<lparr>md_allConfigs := emplace key (from_json v) (md_allConfigs m)\<rparr>"
  have "same_rights ?m m'"
  proof (cases "map_of kSettingsMap key")
    case (Some process)
    then have "process \<in> snd ` set kSettingsMap" by (force dest: map_of_SomeD)
    then have "keeps_rights process" using settings_keep by (auto simp: kSettingsMap_def)
    then show ?thesis using run x Some by (auto simp: configuration_member_def Let_def dest: keepsD)
  qed (use run x in \<open>simp add: configuration_member_def Let_def\<close>)
  then show "same_rights m m'" using same_rights_configs same_rights_trans by blast
qed

lemma dependencies_keep: "keeps_rights processDependencies"
proof (rule keepsI)
  have deps: "keeps_rights process_dependency"
    by (rule keepsI) (auto simp: process_dependency_def intro!: same_rights_dependencies split: json.splits if_splits sum.splits)
  fix j m m' assume "processDependencies j m = Done m'"
  then obtain kvs where "fold_outcome process_dependency kvs (m\<lparr>md_dependencies := []\<rparr>) = Done m'"
    by (auto simp: processDependencies_def split: json.splits)
  then show "same_rights m m'" using rights.keep_fold [OF deps] same_rights_dependencies(1) same_rights_trans by blast
qed

lemma entry_args_keep: "keeps_rights processEntryArgs"
  by (rule rights.keep_array [OF _ _ processEntryArgs_def]) (auto intro!: keepsI split: json.splits)

lemma texts_keep: "keeps_rights processName" "keeps_rights processVersionName" "keeps_rights processPackageSpecifier"
  by (auto intro!: keepsI simp: processName_def processVersionName_def processPackageSpecifier_def split: json.splits if_splits)

subsection \<open>The whole document\<close>

lemma permissions_exact:
  "fold_outcome process_permission js m = Done m' \<Longrightarrow>
     m' = m\<lparr>md_permissions := md_permissions m \<union> set (strings_in js)\<rparr> \<and> js = map JString (strings_in js) \<and> [] \<notin> set (strings_in js)"
proof (induction js arbitrary: m)
  case (Cons j js)
  obtain cap where cap: "j = JString cap" "cap \<noteq> []" using Cons.prems by (auto simp: process_permission_def split: json.splits if_splits)
  have "process_permission j m = Done (m\<lparr>md_permissions := insert cap (md_permissions m)\<rparr>)"
    using cap by (simp add: process_permission_def)
  then have "fold_outcome process_permission js (m\<lparr>md_permissions := insert cap (md_permissions m)\<rparr>) = Done m'"
    using Cons.prems by simp
  then show ?case using Cons.IH cap by fastforce
qed simp

text \<open>The permissions a document lists: none without the member, and otherwise the texts in its array.\<close>

definition listed_permissions :: "(string \<times> json) list \<Rightarrow> string set" where
  "listed_permissions kvs = (case map_of kvs ''permissions'' of Some (JArray js) \<Rightarrow> set (strings_in js) | _ \<Rightarrow> {})"

text \<open>What the required members say.\<close>

definition type_name :: "package_type \<Rightarrow> string" where
  "type_name t =
     (case t of
        Application \<Rightarrow> ''application'' | Runtime \<Rightarrow> ''runtime'' | Service \<Rightarrow> ''service'' | Base \<Rightarrow> ''base''
      | Resource \<Rightarrow> ''resource'' | UnknownType \<Rightarrow> [])"

lemma type_prefix_name: "t \<noteq> UnknownType \<Longrightarrow> type_prefix t = Some (type_name t @ ''/'')"
  by (cases t) (simp_all add: type_prefix_def type_name_def)

definition stated_identity :: "(string \<times> json) list \<Rightarrow> metadata \<Rightarrow> bool" where
  "stated_identity kvs m \<longleftrightarrow>
     map_of kvs ''id'' = Some (JString (md_id m)) \<and> verifyPackageId (md_id m) \<and> md_type m \<noteq> UnknownType \<and>
     (\<exists>v t e. map_of kvs ''version'' = Some (JString v) \<and> version_fromString v = Inr (md_version m) \<and>
        map_of kvs ''packageType'' = Some (JString t) \<and> strcaseeq t (type_name (md_type m)) \<and>
        map_of kvs ''entryPoint'' = Some (JString e) \<and> e \<noteq> [] \<and> md_entryPointPath m = path_of_string e)"

lemma required_fields_identity:
  assumes "fold_outcome (required_field kvs) kRequiredFields new_metadata = Done m"
  shows "stated_identity kvs m \<and> md_permissions m = {} \<and> contents_wf m"
proof -
  obtain a b c where s: "required_field kvs (''id'', processId) new_metadata = Done a"
    "required_field kvs (''version'', processVersion) a = Done b"
    "required_field kvs (''packageType'', processPackageType) b = Done c"
    "required_field kvs (''entryPoint'', processEntryPoint) c = Done m"
    using assms by (auto simp: kRequiredFields_def)
  obtain i where i: "map_of kvs ''id'' = Some (JString i)" "verifyPackageId i" "a = new_metadata\<lparr>md_id := i\<rparr>"
    using s(1) by (auto simp: required_field_def processId_def split: option.splits json.splits if_splits)
  obtain v w where v: "map_of kvs ''version'' = Some (JString v)" "version_fromString v = Inr w" "b = a\<lparr>md_version := w\<rparr>"
    using s(2) by (auto simp: required_field_def processVersion_def split: option.splits json.splits sum.splits)
  obtain t p where t: "map_of kvs ''packageType'' = Some (JString t)" "p \<noteq> UnknownType" "strcaseeq t (type_name p)" "c = b\<lparr>md_type := p\<rparr>"
  proof -
    obtain t where j: "map_of kvs ''packageType'' = Some (JString t)"
      using s(3) by (auto simp: required_field_def processPackageType_def split: option.splits json.splits)
    then have "\<exists>p. p \<noteq> UnknownType \<and> strcaseeq t (type_name p) \<and> c = b\<lparr>md_type := p\<rparr>"
      using s(3) by (force simp: required_field_def processPackageType_def type_name_def split: if_splits)
    then show thesis using that j by blast
  qed
  obtain e where e: "map_of kvs ''entryPoint'' = Some (JString e)" "e \<noteq> []" "m = c\<lparr>md_entryPointPath := path_of_string e\<rparr>"
    using s(4) by (auto simp: required_field_def processEntryPoint_def split: option.splits json.splits if_splits)
  show ?thesis using i v t e
    by (auto simp: stated_identity_def rights_simps new_metadata_def)
qed

lemma optional_fields_keep:
  assumes "fold_outcome (optional_field kvs) kOptionalFields m = Done m'" "md_permissions m = {}"
  shows "identity_of m' = identity_of m \<and> (contents_wf m \<longrightarrow> contents_wf m') \<and> md_permissions m' = listed_permissions kvs \<and>
    (\<forall>js. map_of kvs ''permissions'' = Some js \<longrightarrow> (\<exists>ps. js = JArray (map JString ps) \<and> [] \<notin> set ps))"
proof -
  obtain a b c d e f where s: "optional_field kvs (''name'', processName) m = Done a"
    "optional_field kvs (''versionName'', processVersionName) a = Done b"
    "optional_field kvs (''entryArgs'', processEntryArgs) b = Done c"
    "optional_field kvs (''packageSpecifier'', processPackageSpecifier) c = Done d"
    "optional_field kvs (''dependencies'', processDependencies) d = Done e"
    "optional_field kvs (''permissions'', processPermissions) e = Done f"
    "optional_field kvs (''configuration'', processConfiguration) f = Done m'"
    using assms(1) by (auto simp: kOptionalFields_def)
  have e: "same_rights m e"
    using rights.keep_optional [OF texts_keep(1) s(1)] rights.keep_optional [OF texts_keep(2) s(2)] rights.keep_optional [OF entry_args_keep s(3)]
      rights.keep_optional [OF texts_keep(3) s(4)] rights.keep_optional [OF dependencies_keep s(5)] same_rights_trans by metis
  have f: "f = e\<lparr>md_permissions := listed_permissions kvs\<rparr> \<and>
    (\<forall>js. map_of kvs ''permissions'' = Some js \<longrightarrow> (\<exists>ps. js = JArray (map JString ps) \<and> [] \<notin> set ps))"
  proof (cases "map_of kvs ''permissions''")
    case None
    then show ?thesis using s(6) e assms(2) by (simp add: optional_field_def listed_permissions_def same_rights_def)
  next
    case (Some j)
    then obtain js where js: "j = JArray js" "fold_outcome process_permission js e = Done f"
      using s(6) by (auto simp: optional_field_def processPermissions_def split: json.splits)
    have "md_permissions e = {}" using e assms(2) by (simp add: same_rights_def)
    then show ?thesis using permissions_exact [OF js(2)] Some js(1) by (auto simp: listed_permissions_def)
  qed
  have g: "same_rights f m'" by (rule rights.keep_optional [OF configuration_keeps s(7)])
  have "identity_of f = identity_of e" "contents_wf e \<longrightarrow> contents_wf f" "md_permissions f = listed_permissions kvs"
    using f by (simp_all add: rights_simps)
  then show ?thesis using e f g by (simp add: same_rights_def)
qed

text \<open>All of it together, for the object of an accepted document.\<close>

lemma accepted_metadata:
  assumes "metadata_fromConfigJson (JObject kvs) = Done m"
  shows "stated_identity kvs m \<and> contents_wf m \<and> md_permissions m = listed_permissions kvs \<and>
    (\<forall>js. map_of kvs ''permissions'' = Some js \<longrightarrow> (\<exists>ps. js = JArray (map JString ps) \<and> [] \<notin> set ps)) \<and>
    md_mimeType m = type_name (md_type m) @ ''/'' @ (if md_specifier m \<noteq> [] then md_specifier m else ''unknown'')"
proof -
  obtain a b where s: "fold_outcome (required_field kvs) kRequiredFields new_metadata = Done a"
    "fold_outcome (optional_field kvs) kOptionalFields a = Done b" "set_mimeType b = Done m"
    using assms by (auto simp: metadata_fromConfigJson_def process_config_def split: outcome.splits)
  note a = required_fields_identity [OF s(1)]
  note b = optional_fields_keep [OF s(2) conjunct1 [OF conjunct2 [OF a]]]
  obtain p where p: "type_prefix (md_type b) = Some p"
    "m = b\<lparr>md_mimeType := p @ (if md_specifier b \<noteq> [] then md_specifier b else ''unknown'')\<rparr>"
    using s(3) by (auto simp: set_mimeType_def split: option.splits)
  have m: "same_rights b m" "md_specifier m = md_specifier b" using p(2) by simp_all
  have id: "identity_of m = identity_of a" using b m(1) by (simp add: same_rights_def)
  then have "stated_identity kvs m" using a by (simp add: stated_identity_def identity_of_def)
  moreover have "md_type b \<noteq> UnknownType" using p(1) by (auto simp: type_prefix_def)
  ultimately show ?thesis
    using a b m p type_prefix_name [of "md_type b"] by (simp add: same_rights_def)
qed

text \<open>
  C23. Metadata is only accepted from an object with valid required members and holds what they say; dependencies
  and the storage group are valid package identifiers, each dependency and setting is kept once, icons have safe
  relative paths, services a port, and the quotas fit 64 bits.  Its permissions are those the document lists.
\<close>

theorem config_metadata_wf:
  assumes "metadata_fromConfigJson j = Done m"
  shows "\<exists>kvs. j = JObject kvs \<and> stated_identity kvs m \<and> contents_wf m \<and> md_permissions m = listed_permissions kvs \<and>
    md_mimeType m = type_name (md_type m) @ ''/'' @ (if md_specifier m \<noteq> [] then md_specifier m else ''unknown'')"
proof -
  obtain kvs where "j = JObject kvs" using assms by (auto simp: metadata_fromConfigJson_def split: json.splits)
  then show ?thesis using accepted_metadata assms by blast
qed


subsection \<open>Settings of vendors\<close>

text \<open>\<open>vendorConfig\<close>, \<open>vendorConfigKeys\<close>, \<open>overrides\<close> and \<open>specifier\<close>; the other accessors return their member.\<close>

definition vendorConfig :: "metadata \<Rightarrow> string \<Rightarrow> json_value" where
  "vendorConfig m key = (case map_of (md_allConfigs m) key of None \<Rightarrow> VNull | Some v \<Rightarrow> v)"

definition vendorConfigKeys :: "metadata \<Rightarrow> string set" where
  "vendorConfigKeys m = set (map fst (md_allConfigs m))"

definition overrides_of :: "metadata \<Rightarrow> overridden \<Rightarrow> json_value" where
  "overrides_of m t = (case map_of (md_overrides m) t of None \<Rightarrow> VNull | Some v \<Rightarrow> v)"

definition specifier :: "metadata \<Rightarrow> string option" where
  "specifier m = (if md_specifier m = [] then None else Some (md_specifier m))"

definition same_configs :: "metadata \<Rightarrow> metadata \<Rightarrow> bool" where
  "same_configs m m' \<longleftrightarrow> md_allConfigs m' = md_allConfigs m"

interpretation configs: field_relation same_configs
  by unfold_locales (auto simp: same_configs_def)

lemma parts_keep_configs:
  "keeps same_configs process_icon" "keeps same_configs storage_member" "keeps same_configs memory_member"
  "keeps same_configs process_service" "keeps same_configs lifecycle_member" "keeps same_configs window_member"
  "keeps same_configs display_member" "keeps same_configs audio_member" "keeps same_configs override_member"
  "keeps same_configs process_app_type" "keeps same_configs process_dependency" "keeps same_configs process_permission"
  by (rule keepsI, force simp: same_configs_def process_icon_def storage_member_def memory_member_def process_service_def
      lifecycle_member_def window_member_def display_member_def audio_member_def override_member_def process_app_type_def
      process_dependency_def process_permission_def Let_def split: if_splits json.splits option.splits prod.splits sum.splits service_type.splits)+

lemma runtime_member_keeps_configs: "keeps same_configs runtime_member"
proof (rule keepsI)
  fix x m m' assume "runtime_member x m = Done m'"
  then obtain js where "m' = m \<or> fold_outcome process_app_type js (m\<lparr>md_supportedAppTypes := []\<rparr>) = Done m'"
    by (cases x) (auto simp: runtime_member_def split: if_splits json.splits)
  then show "same_configs m m'"
    using configs.keep_fold [OF parts_keep_configs(10)] by (fastforce simp: same_configs_def)
qed

lemma settings_keep_configs: "process \<in> snd ` set kSettingsMap \<Longrightarrow> keeps same_configs process"
proof -
  have whole: "keeps same_configs processLowPowerTerminateConfig" "keeps same_configs processInputHandlingConfig"
    "keeps same_configs processDialConfig"
    by (rule keepsI, auto simp: same_configs_def processLowPowerTerminateConfig_def processInputHandlingConfig_def
        processDialConfig_def Let_def split: json.splits)+
  have arrays: "keeps same_configs processIconsConfig" "keeps same_configs processNetworkConfig" "keeps same_configs processLogLevelsConfig"
    subgoal by (rule configs.keep_array [OF parts_keep_configs(1) _ processIconsConfig_def]) (simp add: same_configs_def)
    subgoal by (rule configs.keep_array [OF parts_keep_configs(4) _ processNetworkConfig_def]) (simp add: same_configs_def)
    by (rule configs.keep_array [OF _ _ processLogLevelsConfig_def]) (auto intro!: keepsI simp: same_configs_def split: json.splits)
  note objects = configs.keep_object [OF parts_keep_configs(2) processStorageConfig_def]
    configs.keep_object [OF parts_keep_configs(3) processMemoryConfig_def]
    configs.keep_object [OF parts_keep_configs(5) processAppLifecycleConfig_def]
    configs.keep_object [OF parts_keep_configs(6) processWindowConfig_def]
    configs.keep_object [OF parts_keep_configs(7) processDisplayConfig_def]
    configs.keep_object [OF parts_keep_configs(8) processAudioConfig_def]
    configs.keep_object [OF parts_keep_configs(9) processOverridesConfig_def]
    configs.keep_object [OF runtime_member_keeps_configs processRuntimeConfig_def]
  show "keeps same_configs process" if "process \<in> snd ` set kSettingsMap"
    using that whole arrays objects by (auto simp: kSettingsMap_def)
qed

text \<open>The first of the values with a key is the one that is kept.\<close>

lemma emplace_keys: "fst ` set (emplace key x cs) = insert key (fst ` set cs)"
  by (force simp: emplace_def map_of_eq_None_iff dest: map_of_SomeD)

lemma map_of_emplace:
  "map_of (emplace key x cs) k = (case map_of cs k of Some y \<Rightarrow> Some y | None \<Rightarrow> if k = key then Some x else None)"
  by (auto simp: emplace_def map_add_def split: option.splits)

lemma emplaced_keys: "fst ` set (fold (\<lambda>(k, v). emplace k (f v)) kvs cs) = fst ` set cs \<union> fst ` set kvs"
proof (induction kvs arbitrary: cs)
  case (Cons kv kvs)
  then show ?case by (cases kv) (simp add: emplace_keys)
qed simp

lemma emplaced:
  "map_of (fold (\<lambda>(k, v). emplace k (f v)) kvs cs) k =
     (case map_of cs k of Some v \<Rightarrow> Some v | None \<Rightarrow> map_option f (map_of kvs k))"
  by (induction kvs arbitrary: cs) (auto simp: map_of_emplace split: option.split)

lemma configuration_settings:
  "fold_outcome configuration_member kvs m = Done m' \<Longrightarrow>
     md_allConfigs m' = fold (\<lambda>(k, v). emplace k (from_json v)) kvs (md_allConfigs m)"
proof (induction kvs arbitrary: m)
  case (Cons kv kvs)
  obtain key v where kv: "kv = (key, v)" by fastforce
  obtain n where n: "configuration_member kv m = Done n" "fold_outcome configuration_member kvs n = Done m'"
    using Cons.prems by auto
  let ?m = "m\<lparr>md_allConfigs := emplace key (from_json v) (md_allConfigs m)\<rparr>"
  have "same_configs ?m n"
  proof (cases "map_of kSettingsMap key")
    case (Some process)
    then have "keeps same_configs process" using settings_keep_configs by (force dest: map_of_SomeD)
    then show ?thesis using n(1) kv Some by (auto simp: configuration_member_def Let_def dest: keepsD)
  qed (use n(1) kv in \<open>simp add: configuration_member_def Let_def same_configs_def\<close>)
  then show ?case using Cons.IH [OF n(2)] kv by (simp add: same_configs_def)
qed simp

definition stated_configuration :: "(string \<times> json) list \<Rightarrow> (string \<times> json) list" where
  "stated_configuration kvs = (case map_of kvs ''configuration'' of Some (JObject cs) \<Rightarrow> cs | _ \<Rightarrow> [])"

lemma accepted_settings:
  assumes "metadata_fromConfigJson (JObject kvs) = Done m"
  shows "md_allConfigs m = fold (\<lambda>(k, v). emplace k (from_json v)) (stated_configuration kvs) []"
proof -
  obtain a b where s: "fold_outcome (required_field kvs) kRequiredFields new_metadata = Done a"
    "fold_outcome (optional_field kvs) kOptionalFields a = Done b" "set_mimeType b = Done m"
    using assms by (auto simp: metadata_fromConfigJson_def process_config_def split: outcome.splits)
  have a: "md_allConfigs a = []"
    using s(1) by (auto simp: kRequiredFields_def required_field_def processId_def processVersion_def processPackageType_def
        processEntryPoint_def new_metadata_def split: option.splits json.splits if_splits sum.splits)
  have keep: "keeps same_configs processName" "keeps same_configs processVersionName" "keeps same_configs processPackageSpecifier"
    by (auto intro!: keepsI simp: same_configs_def processName_def processVersionName_def processPackageSpecifier_def
        split: json.splits if_splits)
  have deps: "keeps same_configs processDependencies"
  proof (rule keepsI)
    fix j m m' assume "processDependencies j m = Done m'"
    then obtain kvs where "fold_outcome process_dependency kvs (m\<lparr>md_dependencies := []\<rparr>) = Done m'"
      by (auto simp: processDependencies_def split: json.splits)
    then show "same_configs m m'" using configs.keep_fold [OF parts_keep_configs(11)] by (fastforce simp: same_configs_def)
  qed
  have perms: "keeps same_configs processPermissions"
    by (rule configs.keep_array [OF parts_keep_configs(12) configs.R_refl processPermissions_def])
  have args: "keeps same_configs processEntryArgs"
    by (rule configs.keep_array [OF _ _ processEntryArgs_def]) (auto intro!: keepsI simp: same_configs_def split: json.splits)
  obtain a1 a2 a3 a4 a5 a6 where o: "optional_field kvs (''name'', processName) a = Done a1"
    "optional_field kvs (''versionName'', processVersionName) a1 = Done a2"
    "optional_field kvs (''entryArgs'', processEntryArgs) a2 = Done a3"
    "optional_field kvs (''packageSpecifier'', processPackageSpecifier) a3 = Done a4"
    "optional_field kvs (''dependencies'', processDependencies) a4 = Done a5"
    "optional_field kvs (''permissions'', processPermissions) a5 = Done a6"
    "optional_field kvs (''configuration'', processConfiguration) a6 = Done b"
    using s(2) by (auto simp: kOptionalFields_def)
  have "md_allConfigs a6 = []"
    using a configs.keep_optional [OF keep(1) o(1)] configs.keep_optional [OF keep(2) o(2)] configs.keep_optional [OF args o(3)]
      configs.keep_optional [OF keep(3) o(4)] configs.keep_optional [OF deps o(5)] configs.keep_optional [OF perms o(6)]
    by (simp add: same_configs_def)
  then have "md_allConfigs b = fold (\<lambda>(k, v). emplace k (from_json v)) (stated_configuration kvs) []"
    using o(7) configuration_settings
    by (fastforce simp: optional_field_def stated_configuration_def processConfiguration_def split: option.splits json.splits)
  then show ?thesis using s(3) by (auto simp: set_mimeType_def split: option.splits)
qed

text \<open>
  C24. Every member of the configuration can be read back by its key, with the value it has in the document and none
  is added, whether or not the code knows the key.
\<close>

theorem vendor_settings_kept:
  assumes "metadata_fromConfigJson (JObject kvs) = Done m"
  shows "vendorConfigKeys m = fst ` set (stated_configuration kvs) \<and>
    vendorConfig m key = (case map_of (stated_configuration kvs) key of None \<Rightarrow> VNull | Some j \<Rightarrow> from_json j)"
  using emplaced [of from_json "stated_configuration kvs" "[]"] emplaced_keys [of from_json "stated_configuration kvs" "[]"]
  by (simp add: vendorConfigKeys_def vendorConfig_def accepted_settings [OF assms] split: option.split)

subsection \<open>Sizes of memory\<close>

definition memory_unit :: "char \<Rightarrow> nat" where
  "memory_unit c =
     (if c \<in> {CHR ''K'', CHR ''k''} then 1024 else if c \<in> {CHR ''M'', CHR ''m''} then 1024 ^ 2
      else if c \<in> {CHR ''G'', CHR ''g''} then 1024 ^ 3 else 1)"

lemma is_digit_in_10: "is_digit_in 10 c \<longleftrightarrow> is_digit c"
proof (cases "is_digit c")
  case True
  then have "(of_char c :: nat) \<le> of_char (CHR ''9'')" by (simp add: is_digit_def less_eq_char_def)
  then show ?thesis using True by (simp add: is_digit_in_def digit_of_def)
next
  case False
  have "10 \<le> (of_char (to_lower c) :: nat) - 87" if "CHR ''a'' \<le> to_lower c"
    using that by (simp add: less_eq_char_def)
  then show ?thesis using False by (auto simp: is_digit_in_def digit_of_def not_less split: if_splits)
qed

lemma digit_facts:
  assumes "is_digit c"
  shows "digit_of c = Some (digit_val c)" "c \<noteq> CHR 0x00" "\<not> is_space c" "c \<noteq> CHR ''-''" "c \<noteq> CHR ''+''"
  using assms by (auto simp: digit_of_def digit_val_def is_digit_def is_space_def less_eq_char_def)

lemma read_decimal:
  assumes "\<forall>c \<in> set ds. is_digit c" "rest \<noteq> [] \<Longrightarrow> \<not> is_digit (hd rest)"
  shows "read_digits 10 n (ds @ rest) = (digits_val n ds, rest)"
  using assms
proof (induction ds arbitrary: n)
  case Nil
  then show ?case by (cases rest) (simp_all add: is_digit_in_10)
next
  case (Cons c cs)
  then show ?case by (simp add: is_digit_in_10 digit_facts mult.commute)
qed

lemma strtoull_decimal:
  assumes "ds \<noteq> []" "\<forall>c \<in> set ds. is_digit c" "hd ds \<noteq> CHR ''0''" "rest \<noteq> [] \<Longrightarrow> \<not> is_digit (hd rest)"
  shows "strtoull_prefix (ds @ rest) = Some (min (digits_val 0 ds) SIZE_MAX, rest)"
proof -
  obtain c cs where ds: "ds @ rest = c # cs" "hd ds = c" using assms(1) by (cases ds) auto
  have c: "is_digit c" "c \<noteq> CHR ''0''" using ds(2) assms(1-3) by (cases ds; auto)+
  have "number_base (ds @ rest) = (10, ds @ rest)" using c ds by (auto simp: number_base_def split: list.splits)
  moreover have "read_sign (dropWhile is_space (ds @ rest)) = (False, ds @ rest)"
    using c ds digit_facts [OF c(1)] by (simp add: read_sign_def)
  ultimately show ?thesis
    using read_decimal [OF assms(2,4), of 0] c ds(1) by (simp add: strtoull_prefix_def is_digit_in_10 min_def)
qed

lemma c_str_digits: "\<forall>c \<in> set ds. is_digit c \<Longrightarrow> c_str (ds @ rest) = ds @ c_str rest"
  using digit_facts(2) by (auto simp: c_str_def takeWhile_append2)

lemma of_char_to_lower:
  "(of_char (to_lower c) :: nat) = (if CHR ''A'' \<le> c \<and> c \<le> CHR ''Z'' then of_char c + 32 else of_char c)"
  by (auto simp: to_lower_def less_eq_char_def)

lemma to_lower_letter:
  assumes "of_char l = (of_char u + 32 :: nat)" "CHR ''A'' \<le> u" "u \<le> CHR ''Z''"
  shows "to_lower c = l \<longleftrightarrow> c \<in> {u, l}"
proof -
  have "to_lower c = l \<longleftrightarrow> (of_char (to_lower c) :: nat) = of_char l" by simp
  also have "\<dots> \<longleftrightarrow> (of_char c :: nat) \<in> {of_char u, of_char l}"
    using assms by (auto simp: of_char_to_lower less_eq_char_def)
  finally show ?thesis by simp
qed

lemma memory_unit_letters:
  "to_lower c = CHR ''k'' \<longleftrightarrow> c \<in> {CHR ''K'', CHR ''k''}" "to_lower c = CHR ''m'' \<longleftrightarrow> c \<in> {CHR ''M'', CHR ''m''}"
  "to_lower c = CHR ''g'' \<longleftrightarrow> c \<in> {CHR ''G'', CHR ''g''}"
  by (rule to_lower_letter; simp)+

text \<open>
  C37. A size is a decimal number and a letter for its unit, in either case: the number, or the largest one of 64
  bits if it is larger, is multiplied with the unit, modulo \<open>2 ^ 64\<close>.  Anything after the unit, or another
  character in its place, is ignored.
\<close>

theorem memory_size_value:
  assumes "ds \<noteq> []" "\<forall>c \<in> set ds. is_digit c" "hd ds \<noteq> CHR ''0''" "\<not> is_digit u"
  shows "parseMemorySize (ds @ u # rest) = Some (min (digits_val 0 ds) SIZE_MAX * memory_unit u mod SIZE_LIMIT)"
proof -
  have "min (digits_val 0 ds) SIZE_MAX mod SIZE_LIMIT = min (digits_val 0 ds) SIZE_MAX"
    by simp
  moreover have "strtoull_prefix (c_str (ds @ u # rest)) = Some (min (digits_val 0 ds) SIZE_MAX, c_str (u # rest))"
    using assms unfolding c_str_digits [OF assms(2)] by (intro strtoull_decimal) (auto simp: c_str_def)
  ultimately show ?thesis
    using assms(1) by (auto simp: parseMemorySize_def memory_unit_letters memory_unit_def c_str_def sz_mul_def mod_mult_left_eq mult.assoc)
qed

theorem memory_size_value_witness: "parseMemorySize ''17179869184Gi'' = Some 0"
  using memory_size_value [of "''17179869184''" "CHR ''G''" "''i''"]
  by (simp add: is_digit_def digit_val_def memory_unit_def)

subsection \<open>A sample document\<close>

definition sample_configuration :: "(string \<times> json) list" where
  "sample_configuration =
     [(''urn:rdk:config:memory'', JObject [(''system'', JString ''64k'')]),
      (''urn:rdk:config:network'', JArray [JObject [(''port'', JInt 80), (''type'', JString ''public'')], JObject [(''port'', JInt 65536)]]),
      (''urn:rdk:config:storage'', JObject [(''maxLocalStorage'', JString ''08'')]),
      (''urn:vendor:colour'', JString ''green'')]"

definition sample_document :: json where
  "sample_document = JObject
     [(''configuration'', JObject sample_configuration), (''dependencies'', JObject [(''base'', JString ''*'')]),
      (''entryPoint'', JString ''run''), (''id'', JString ''app''), (''packageType'', JString ''application''),
      (''permissions'', JArray [JString ''net'', JString ''home'']), (''version'', JString ''10.12'')]"

definition sample_metadata :: metadata where
  "sample_metadata =
     new_metadata\<lparr>md_id := ''app'', md_version := version2 10 12, md_type := Application, md_entryPointPath := path_of_string ''run'',
       md_dependencies := [(''base'', [])], md_permissions := {''home'', ''net''}, md_memoryQuota := Some 65536,
       md_storageQuota := Some 0, md_publicServices := [\<lparr>ns_name = [], ns_protocol = TCP, ns_port = 80\<rparr>],
       md_allConfigs := map (\<lambda>(k, v). (k, from_json v)) sample_configuration, md_mimeType := ''application/unknown''\<rparr>"

lemma sample_sizes: "parseMemorySize ''64k'' = Some 65536" "parseMemorySize ''08'' = Some 0"
  by (simp_all add: parseMemorySize_def strtoull_prefix_def Let_def c_str_def is_space_def read_sign_def number_base_def is_digit_in_def
      digit_of_def is_digit_def to_lower_def sz_mul_def)

lemma sample_services:
  "process_service (JObject [(''port'', JInt 80), (''type'', JString ''public'')]) m =
     Done (m\<lparr>md_publicServices := md_publicServices m @ [\<lparr>ns_name = [], ns_protocol = TCP, ns_port = 80\<rparr>]\<rparr>)"
  "process_service (JObject [(''port'', JInt 65536)]) m = Done m"
  by (simp_all add: process_service_def service_member_def strcaseeq_def c_str_def)

lemma sample_settings:
  "processConfiguration (JObject sample_configuration) m = Done (m\<lparr>md_memoryQuota := Some 65536, md_storageQuota := Some 0,
     md_publicServices := md_publicServices m @ [\<lparr>ns_name = [], ns_protocol = TCP, ns_port = 80\<rparr>],
     md_allConfigs := fold (\<lambda>(k, v). emplace k (from_json v)) sample_configuration (md_allConfigs m)\<rparr>)"
  by (simp add: sample_configuration_def processConfiguration_def configuration_member_def kSettingsMap_def Let_def processMemoryConfig_def
      processNetworkConfig_def processStorageConfig_def memory_member_def storage_member_def sample_sizes sample_services)

lemma sample_texts:
  "version_fromString ''10.12'' = Inr (version2 10 12)" "constraint_fromString ''*'' = Inr []"
  "verifyPackageId ''app''" "verifyPackageId ''base''" "strcaseeq ''application'' ''application''"
  subgoal by (simp add: version_fromString_def is_digit_def strtoul_def digit_val_def last_segment_def version_of_fields_def)
  subgoal by (simp add: constraint_fromString_def trim_def is_space_def)
  by (simp_all add: verifyPackageId_def is_alnum_def is_alpha_def strcaseeq_def c_str_def)

lemma sample_accepted: "metadata_fromConfigJson sample_document = Done sample_metadata"
proof -
  have "fold (\<lambda>(k, v). emplace k (from_json v)) sample_configuration [] = map (\<lambda>(k, v). (k, from_json v)) sample_configuration"
    by (simp add: sample_configuration_def emplace_def)
  then show ?thesis
    by (simp add: metadata_fromConfigJson_def process_config_def sample_document_def kRequiredFields_def required_field_def
        processId_def processVersion_def processPackageType_def processEntryPoint_def sample_texts kOptionalFields_def
        optional_field_def processDependencies_def process_dependency_def processPermissions_def process_permission_def
        sample_settings set_mimeType_def type_prefix_def emplace_def new_metadata_def sample_metadata_def)
qed

theorem config_metadata_wf_witness:
  "contents_wf sample_metadata \<and> md_permissions sample_metadata = {''home'', ''net''} \<and> md_storageQuota sample_metadata = Some 0"
  using config_metadata_wf [OF sample_accepted] by (auto simp: sample_metadata_def)

theorem vendor_settings_kept_witness: "vendorConfig sample_metadata ''urn:vendor:colour'' = VString ''green''"
  using vendor_settings_kept [OF sample_accepted [unfolded sample_document_def], of "''urn:vendor:colour''"]
  by (simp add: stated_configuration_def sample_configuration_def)

end
