(* ===== verification/OCITrust.thy ===== *)
theory OCITrust
  imports OCIPackage OCIMetaData
begin

section \<open>What a signature on an OCI package covers\<close>

text \<open>
  Properties of \<open>OCIPackage\<close>: the chain from the verification bundle to the configuration and the image
  of an opened package, whatever its store answers, and what the chain leaves out.
\<close>

subsection \<open>Chains of digests\<close>

text \<open>A signed payload names a manifest.\<close>

definition names_manifest :: "('b, 'c, 'm) package_libs \<Rightarrow> bytes \<Rightarrow> string \<Rightarrow> bool" where
  "names_manifest L payload digest \<longleftrightarrow>
     (\<exists>kvs critical items. json_parse L False payload = JObject kvs \<and> map_of kvs ''critical'' = Some (JObject critical) \<and>
       json_flatten L (JObject critical) = Some items \<and>
       (''/type'', JString ''cosign container image signature'') \<in> set items \<and>
       (''/image/docker-manifest-digest'', JString (''sha256:'' @ digest)) \<in> set items)"

text \<open>A blob with the digest and the size of a descriptor.\<close>

definition blob_of :: "('b, 'c, 'm) package_libs \<Rightarrow> oci_descriptor \<Rightarrow> bytes \<Rightarrow> bool" where
  "blob_of L d content \<longleftrightarrow> lib_sha256 L content = hexStringToBytes (od_digest d) \<and> length content = od_size d"

text \<open>The configuration and the image are those of a manifest with the digest the package keeps.\<close>

definition from_manifest :: "('b, 'c, 'm) package_libs \<Rightarrow> ('s, 'c, 'm) oci_package \<Rightarrow> bool" where
  "from_manifest L p \<longleftrightarrow>
     (\<exists>manifest config layers. lib_sha256 L manifest = hexStringToBytes (pk_manifestDigest p) \<and>
       manifest_contents L manifest = Inr (config, layers) \<and> isPackageDataManifest config layers \<and>
       pk_config p = Some config \<and> pk_image p = Some (last (filter is_image_layer layers)))"

definition signed_by ::
  "('b, 'c, 'm) package_libs \<Rightarrow> 'b \<Rightarrow> bool \<Rightarrow> ('s, 'c, 'm) oci_package \<Rightarrow> bool" where
  "signed_by L bundle checkExpiry p \<longleftrightarrow>
     (\<exists>certificate chain signature payload. pk_signingCerts p = certificate # chain \<and>
       verifyCertificate L bundle certificate chain checkExpiry \<and>
       verifySignature L payload certificate signature \<and> names_manifest L payload (pk_manifestDigest p))"

subsection \<open>Calls of the store\<close>

text \<open>A check with an early return, as part of a call that succeeds.\<close>

lemma act_check_Done [simp]:
  "(if c then act_fail e else m) p = (Done x, p') \<longleftrightarrow> \<not> c \<and> m p = (Done x, p')"
  "(case v of None \<Rightarrow> act_fail e | Some y \<Rightarrow> f y) p = (Done x, p') \<longleftrightarrow> (\<exists>y. v = Some y \<and> f y p = (Done x, p'))"
  by (auto split: option.splits)

definition store_stable :: "(('s, 'c, 'm) oci_package \<Rightarrow> bool) \<Rightarrow> bool" where
  "store_stable P \<longleftrightarrow> (\<forall>p s. P p \<longrightarrow> P (p\<lparr>pk_backingStore := Some s\<rparr>)) \<and> (\<forall>p. P p \<longrightarrow> pk_backingStore p \<noteq> None)"

lemma with_store_Done [simp]:
  "with_store f p = (Done x, p') \<longleftrightarrow>
     (\<exists>s s'. pk_backingStore p = Some s \<and> f s = (Inr x, s') \<and> p' = p\<lparr>pk_backingStore := Some s'\<rparr>)"
  by (auto simp: with_store_def split: option.splits prod.splits sum.splits)

lemma keeps_with_store [act_keeps_intros]: "store_stable P \<Longrightarrow> act_keeps P (with_store f)"
  by (force simp: act_keeps_def store_stable_def with_store_def split: option.splits prod.splits sum.splits)

lemma keeps_readBlob [act_keeps_intros]: "store_stable P \<Longrightarrow> act_keeps P (readBlob B L sha256 n)"
  unfolding readBlob_def by (auto intro!: act_keeps_intros)

lemma keeps_getBlobReader [act_keeps_intros]: "store_stable P \<Longrightarrow> act_keeps P (getBlobReader B sha256)"
  unfolding getBlobReader_def by (auto intro!: act_keeps_intros)

lemma readBlob_Done:
  assumes "readBlob B L sha256 n p = (Done content, p')"
  shows "lib_sha256 L content = hexStringToBytes sha256" "length content = n"
    "\<exists>s. p' = p\<lparr>pk_backingStore := Some s\<rparr>"
  using assms by (auto simp: readBlob_def split: if_splits)

subsection \<open>Building the contents\<close>

lemma fold_add_data_layer:
  "fold add_data_layer layers p =
     p\<lparr>pk_image := (if list_ex is_image_layer layers then Some (last (filter is_image_layer layers)) else pk_image p),
       pk_others := pk_others p @ filter (\<lambda>d. \<not> is_image_layer d) layers\<rparr>"
  by (induction layers arbitrary: p) (auto simp: add_data_layer_def list_ex_iff filter_empty_conv)

lemma fold_add_signature_layer:
  "\<exists>sd. fold add_signature_layer layers p = p\<lparr>pk_signature := sd\<rparr>"
proof (induction layers arbitrary: p)
  case Nil
  have "fold add_signature_layer [] p = p\<lparr>pk_signature := pk_signature p\<rparr>" by simp
  then show ?case by blast
next
  case (Cons d layers)
  obtain sd where "fold add_signature_layer layers (add_signature_layer d p) = (add_signature_layer d p)\<lparr>pk_signature := sd\<rparr>"
    using Cons.IH by blast
  moreover have "(add_signature_layer d p)\<lparr>pk_signature := sd\<rparr> = p\<lparr>pk_signature := sd\<rparr>"
    by (simp add: add_signature_layer_def)
  ultimately show ?case by auto
qed

text \<open>While the contents are built, nothing but the digests of manifests ties the parts together.\<close>

definition building :: "('b, 'c, 'm) package_libs \<Rightarrow> ('s, 'c, 'm) oci_package \<Rightarrow> bool" where
  "building L p \<longleftrightarrow> (pk_manifestDigest p = [] \<or> from_manifest L p) \<and> pk_metaData p = None \<and>
     \<not> pk_verifiedManifest p \<and> pk_backingStore p \<noteq> None"

lemma building_store: "store_stable (building L)"
  by (simp add: store_stable_def building_def from_manifest_def)

lemma register_manifest_building:
  assumes "building L p" "lib_sha256 L blob = hexStringToBytes digest" "manifest_contents L blob = Inr contents"
  shows "building L (register_manifest digest contents p)"
proof (cases contents)
  case (Pair config layers)
  obtain sd where "fold add_signature_layer layers p = p\<lparr>pk_signature := sd\<rparr>"
    using fold_add_signature_layer by blast
  with assms Pair show ?thesis
    by (auto simp: register_manifest_def fold_add_data_layer building_def from_manifest_def isPackageDataManifest_def)
qed

lemma processManifest_building: "act_keeps (building L) (processManifest B L d)"
proof -
  have "building L (snd (processManifest B L d p)) \<and> defined (fst (processManifest B L d p))" if p: "building L p" for p
  proof (cases "readBlob B L (od_digest d) (od_size d) p")
    case (Pair r p1)
    have p1: "building L p1" "defined r"
      using act_keepsD [OF keeps_readBlob [OF building_store] Pair p] by simp_all
    show ?thesis
    proof (cases r)
      case (Done blob)
      then have "lib_sha256 L blob = hexStringToBytes (od_digest d)" using readBlob_Done Pair by blast
      then show ?thesis using Pair Done p p1 register_manifest_building
        by (auto simp: processManifest_def act_bind_def act_result_def act_modify_def act_fail_def split: sum.splits)
    qed (use p p1 Pair in \<open>auto simp: processManifest_def act_bind_def act_fail_def\<close>)
  qed
  then show ?thesis by (simp add: act_keeps_def)
qed

lemma processManifests_building: "act_keeps (building L) (processManifests B L ds)"
  by (induction ds) (auto intro!: act_keeps_intros processManifest_building)

lemma buildContentsTree_building: "act_keeps (building L) (buildContentsTree B L)"
proof -
  have "act_keeps (building L) check_contents"
    by (auto simp: act_keeps_def check_contents_def split: list.splits option.splits)
  then show ?thesis unfolding buildContentsTree_def
    by (intro act_keeps_bind act_keeps_result keeps_with_store processManifests_building building_store)
qed

lemma construct_package_ok:
  assumes "construct_package B L s mounter = Done (p, None)"
  shows "building L p"
proof -
  have "building L (new_package s mounter)" by (simp add: building_def new_package_def)
  from act_keepsD [OF buildContentsTree_building _ this, of B] assms show ?thesis
    by (auto simp: construct_package_def split: prod.splits outcome.splits)
qed

subsection \<open>Verifying the signature\<close>

lemma validateDigest_prefix: "validateDigest s = Some d \<Longrightarrow> s = ''sha256:'' @ d"
  by (metis append_take_drop_id option.inject option.distinct(1) validateDigest_def)

lemma flag_bits:
  "bit VerifiedType n \<longleftrightarrow> n = 0" "bit VerifiedIdentity n \<longleftrightarrow> n = 1" "bit VerifiedManifestDigest n \<longleftrightarrow> n = 2"
proof -
  have pows: "VerifiedIdentity = 2 ^ 1" "VerifiedManifestDigest = 2 ^ 2"
    by (simp_all add: VerifiedIdentity_def VerifiedManifestDigest_def)
  show "bit VerifiedType n \<longleftrightarrow> n = 0" "bit VerifiedIdentity n \<longleftrightarrow> n = 1" "bit VerifiedManifestDigest n \<longleftrightarrow> n = 2"
    unfolding pows by (auto simp only: VerifiedType_def bit_exp_iff bit_1_iff) (simp_all add: possible_bit_def)
qed

text \<open>Each bit that is set stands for an item that has been seen.\<close>

lemma payload_items_sound:
  "payload_items digest items flags = Inr flags' \<Longrightarrow>
     (bit flags' 0 \<longrightarrow> bit flags 0 \<or> (''/type'', JString ''cosign container image signature'') \<in> set items) \<and>
     (bit flags' 2 \<longrightarrow> bit flags 2 \<or> (''/image/docker-manifest-digest'', JString (''sha256:'' @ digest)) \<in> set items)"
  by (induction digest items flags rule: payload_items.induct)
    (auto simp: flag_bits bit_or_iff dest: validateDigest_prefix split: if_splits json.splits option.splits)

lemma verifySignaturePayload_names:
  assumes "verifySignaturePayload L digest payload = Inr ()"
  shows "names_manifest L payload digest"
proof -
  obtain kvs critical items where *: "json_parse L False payload = JObject kvs" "map_of kvs ''critical'' = Some (JObject critical)"
    "json_flatten L (JObject critical) = Some items"
    "payload_items digest items 0 = Inr (VerifiedType OR VerifiedIdentity OR VerifiedManifestDigest)"
    using assms
    by (auto simp: verifySignaturePayload_def Let_def split: if_splits option.splits elim!: is_object.elims)
  show ?thesis
    using payload_items_sound [OF *(4)] *(1-3) by (simp add: names_manifest_def flag_bits bit_or_iff)
qed

lemma readAndVerifySignature_ok:
  fixes L :: "('b, 'c, 'm) package_libs"
  assumes "readAndVerifySignature B L bundle checkExpiry p = (Done (), p')"
  shows "signed_by L bundle checkExpiry p'"
    "\<exists>s certs. p' = p\<lparr>pk_signingCerts := certs, pk_backingStore := Some s, pk_verifiedManifest := True\<rparr>"
proof -
  obtain sd where sd: "pk_signature p = Some sd"
    using assms by (cases "pk_signature p") (auto simp: readAndVerifySignature_def)
  obtain g :: "'c signature_parts" and certificate payload p1 where
    "sg_certificate g = Some certificate" "verifyCertificate L bundle certificate (sg_chain g) checkExpiry"
    "readBlob B L (od_digest sd) (od_size sd) (p\<lparr>pk_signingCerts := certificate # sg_chain g\<rparr>) = (Done payload, p1)"
    "verifySignature L payload certificate (sg_signature g)"
    "verifySignaturePayload L (pk_manifestDigest p) payload = Inr ()"
    "p' = p1\<lparr>pk_verifiedManifest := True\<rparr>"
    using assms sd by (auto simp: readAndVerifySignature_def)
  moreover obtain s where "p1 = p\<lparr>pk_signingCerts := certificate # sg_chain g, pk_backingStore := Some s\<rparr>"
    using readBlob_Done(3) calculation(3) by fastforce
  ultimately show "\<exists>s certs. p' = p\<lparr>pk_signingCerts := certs, pk_backingStore := Some s, pk_verifiedManifest := True\<rparr>"
    "signed_by L bundle checkExpiry p'"
    using verifySignaturePayload_names by (blast, fastforce simp: signed_by_def)
qed

lemma openPackageImpl_cases:
  assumes "openPackageImpl B L s mounter bundle checkExpiry = Done p"
  obtains p0 where "construct_package B L s mounter = Done (p0, None)" "package_isValid p0"
    "case bundle of None \<Rightarrow> p = p0 | Some b \<Rightarrow> readAndVerifySignature B L b checkExpiry p0 = (Done (), p)"
  using assms
  by (auto simp: openPackageImpl_def oci_open_def split: outcome.splits prod.splits option.splits if_splits)

lemma openPackageImpl_ok:
  assumes "openPackageImpl B L s mounter (Some bundle) checkExpiry = Done p"
  shows "signed_by L bundle checkExpiry p" "from_manifest L p" "pk_verifiedManifest p" "pk_metaData p = None"
    "pk_backingStore p \<noteq> None"
proof -
  obtain p0 where p0: "construct_package B L s mounter = Done (p0, None)" "package_isValid p0"
    "readAndVerifySignature B L bundle checkExpiry p0 = (Done (), p)"
    using openPackageImpl_cases [OF assms] by auto
  have "building L p0" by (rule construct_package_ok [OF p0(1)])
  with p0(2) have "from_manifest L p0" "pk_metaData p0 = None" by (auto simp: building_def package_isValid_def)
  moreover note readAndVerifySignature_ok [OF p0(3)]
  ultimately show "signed_by L bundle checkExpiry p" "from_manifest L p" "pk_verifiedManifest p" "pk_metaData p = None"
    "pk_backingStore p \<noteq> None"
    by (auto simp: from_manifest_def)
qed

subsection \<open>The calls of a client\<close>

datatype package_op =
  OpMetaData | OpAux string nat | OpReader | OpMountable | OpMount bool | OpVerify | OpSize
| OpSetMaxBytes nat | OpSetMaxEntries nat

datatype ('r, 'm) reply =
  GotMetaData 'm | GotAux aux_meta_data | GotReader "'r image_reader" | GotMountable bool | GotMount mount_request
| GotSize int | GotNothing

definition act_reply :: "('a \<Rightarrow> 'b) \<Rightarrow> ('p, 'e, 'a) action \<Rightarrow> ('p, 'e, 'b) action" where
  "act_reply f m = act_bind m (\<lambda>x. act_return (f x))"

lemma keeps_reply [act_keeps_intros]: "act_keeps P m \<Longrightarrow> act_keeps P (act_reply f m)"
  unfolding act_reply_def by (intro act_keeps_intros)

lemma act_reply_Done [simp]: "act_reply f m p = (Done y, p') \<longleftrightarrow> (\<exists>x. m p = (Done x, p') \<and> y = f x)"
  by (auto simp: act_reply_def)

text \<open>\<open>None\<close> is a call that does not return; the object stays usable after a call that fails.\<close>

fun package_call ::
  "('s, 'r) backing_store \<Rightarrow> ('b, 'c, 'm) package_libs \<Rightarrow> package_op \<Rightarrow> ('s, 'c, 'm) oci_package \<Rightarrow>
   ((error_code, ('r, 'm) reply) outcome \<times> ('s, 'c, 'm) oci_package) option" where
  "package_call B L OpMetaData p = Some (act_reply GotMetaData (package_metaData B L) p)"
| "package_call B L (OpAux mediaType index) p = Some (act_reply GotAux (auxMetaDataFile B L mediaType index) p)"
| "package_call B L OpReader p = Some (act_reply GotReader (createReader B) p)"
| "package_call B L OpMountable p = Some (act_reply GotMountable (isMountable B) p)"
| "package_call B L (OpMount is_directory) p = Some (act_reply GotMount (package_mount B L is_directory) p)"
| "package_call B L OpVerify p = map_option (\<lambda>r. act_reply (\<lambda>_. GotNothing) (\<lambda>_. r) p) (package_verify B L p)"
| "package_call B L OpSize p = Some (act_reply GotSize (package_size B) p)"
| "package_call B L (OpSetMaxBytes n) p = Some (Done GotNothing, p\<lparr>pk_maxExtractionBytes := n\<rparr>)"
| "package_call B L (OpSetMaxEntries n) p = Some (Done GotNothing, p\<lparr>pk_maxExtractionEntries := n\<rparr>)"

fun package_run ::
  "('s, 'r) backing_store \<Rightarrow> ('b, 'c, 'm) package_libs \<Rightarrow> package_op list \<Rightarrow> ('s, 'c, 'm) oci_package \<Rightarrow>
   ((error_code, ('r, 'm) reply) outcome list \<times> ('s, 'c, 'm) oci_package) option" where
  "package_run B L [] p = Some ([], p)"
| "package_run B L (c # cs) p =
     (case package_call B L c p of
        None \<Rightarrow> None
      | Some (r, p') \<Rightarrow> (case package_run B L cs p' of None \<Rightarrow> None | Some (rs, p'') \<Rightarrow> Some (r # rs, p'')))"

text \<open>What a package keeps from its opening on, and what a reply then is.\<close>

definition parsed_config :: "('b, 'c, 'm) package_libs \<Rightarrow> ('s, 'c, 'm) oci_package \<Rightarrow> 'm \<Rightarrow> bool" where
  "parsed_config L p m \<longleftrightarrow>
     (\<exists>config content. pk_config p = Some config \<and> blob_of L config content \<and> fromConfigJson L content = Inr m)"

definition still :: "('b, 'c, 'm) package_libs \<Rightarrow> ('s, 'c, 'm) oci_package \<Rightarrow> ('s, 'c, 'm) oci_package \<Rightarrow> bool" where
  "still L p0 p \<longleftrightarrow>
     pk_manifestDigest p = pk_manifestDigest p0 \<and> pk_image p = pk_image p0 \<and> pk_config p = pk_config p0 \<and>
     pk_signature p = pk_signature p0 \<and> pk_verifiedManifest p = pk_verifiedManifest p0 \<and> pk_others p = pk_others p0 \<and>
     pk_signingCerts p = pk_signingCerts p0 \<and> pk_backingStore p \<noteq> None \<and>
     (\<forall>m. pk_metaData p = Some m \<longrightarrow> parsed_config L p m)"

fun reply_authentic :: "('b, 'c, 'm) package_libs \<Rightarrow> ('s, 'c, 'm) oci_package \<Rightarrow> ('r, 'm) reply \<Rightarrow> bool" where
  "reply_authentic L p (GotMetaData m) \<longleftrightarrow> parsed_config L p m"
| "reply_authentic L p (GotAux x) \<longleftrightarrow>
     (\<exists>d. (pk_config p = Some d \<or> d \<in> set (pk_others p)) \<and> blob_of L d (ax_data x) \<and> ax_annotations x = od_annotations d)"
| "reply_authentic L p (GotReader (ErofsLayer f offset root)) \<longleftrightarrow>
     (\<exists>a. getDmVerityAnnotations (pk_image p) = Inr a \<and> da_hashesOffset a = offset \<and> da_rootHash a = root)"
| "reply_authentic L p (GotReader (ArchiveLayer d r)) \<longleftrightarrow> pk_image p = Some d"
| "reply_authentic L p (GotMount q) \<longleftrightarrow>
     (\<exists>a. getDmVerityAnnotations (pk_image p) = Inr a \<and> mr_rootHash q = da_rootHash a \<and> mr_salt q = da_salt a)"
| "reply_authentic L p _ \<longleftrightarrow> True"

lemma still_store: "store_stable (still L p0)"
  by (auto simp: store_stable_def still_def parsed_config_def)

lemma still_refl: "pk_backingStore p \<noteq> None \<Longrightarrow> pk_metaData p = None \<Longrightarrow> still L p p"
  by (simp add: still_def)

lemma reply_authentic_still: "still L p0 p \<Longrightarrow> reply_authentic L p r \<longleftrightarrow> reply_authentic L p0 r"
  by (induction L p0 r rule: reply_authentic.induct) (auto simp: still_def parsed_config_def)

lemma package_metaData_ok:
  assumes "still L p0 p" "package_metaData B L p = (r, p')"
  shows "still L p0 p' \<and> defined r \<and> (\<forall>m. r = Done m \<longrightarrow> parsed_config L p' m)"
proof (cases "pk_metaData p")
  case None
  show ?thesis
  proof (cases "pk_config p")
    case (Some config)
    obtain rb p1 where rb: "readBlob B L (od_digest config) (od_size config) p = (rb, p1)" by fastforce
    have p1: "still L p0 p1" "defined rb" using act_keepsD [OF keeps_readBlob [OF still_store] rb assms(1)] by simp_all
    have config: "pk_config p1 = Some config" using assms(1) p1(1) Some by (simp add: still_def)
    show ?thesis
    proof (cases rb)
      case (Done content)
      then have blob: "blob_of L config content" using readBlob_Done [of B L] rb by (auto simp: blob_of_def)
      show ?thesis
      proof (cases "fromConfigJson L content")
        case (Inr m)
        then have "r = Done m" "p' = p1\<lparr>pk_metaData := Some m\<rparr>"
          using assms(2) None Some rb Done
          by (simp_all add: package_metaData_def act_bind_def act_error_def act_result_def act_modify_def act_return_def)
        moreover have "parsed_config L p' m" using calculation(2) config blob Inr by (auto simp: parsed_config_def)
        ultimately show ?thesis using p1(1) by (simp add: still_def)
      qed (use assms(2) None Some rb Done p1 in
          \<open>auto simp: package_metaData_def act_bind_def act_error_def act_result_def\<close>)
    qed (use assms(2) None Some rb p1 in \<open>auto simp: package_metaData_def act_bind_def act_error_def\<close>)
  qed (use assms None in \<open>auto simp: package_metaData_def\<close>)
qed (use assms in \<open>auto simp: package_metaData_def still_def\<close>)

lemma package_metaData_still: "act_keeps (still L p0) (package_metaData B L)"
  unfolding act_keeps_def using package_metaData_ok by (metis prod.collapse)

lemma isMountable_still: "act_keeps (still L p0) (isMountable B)"
  using still_store [of L p0]
  by (auto simp: act_keeps_def isMountable_def store_stable_def split: option.splits prod.splits)

lemma package_mount_still: "act_keeps (still L p0) (package_mount B L is_directory)"
proof (cases "pk_image p0")
  case None
  have "package_mount B L is_directory p = (Fail PackageMountInvalid, p)" if "pk_image p = None" for p :: "('a, 'b, 'c) oci_package"
    using that by (simp add: package_mount_def isMountable_def act_bind_def act_fail_def)
  then show ?thesis using None by (simp add: act_keeps_def still_def)
next
  case (Some img)
  have "act_keeps (still L p0) (\<lambda>p. (case pk_image p of Some img \<Rightarrow> Done img | None \<Rightarrow> Undefined NullPointer, p))"
    using Some by (simp add: act_keeps_def still_def)
  moreover have "act_keeps (still L p0) (\<lambda>p. act_result (getDmVerityAnnotations (pk_image p)) p)"
    by (auto simp: act_keeps_def act_result_def split: sum.splits)
  moreover have "act_keeps (still L p0) (\<lambda>p. (Done (pk_mounter p), p))" by (simp add: act_keeps_def)
  ultimately show ?thesis unfolding package_mount_def
    by (auto intro!: act_keeps_intros isMountable_still package_metaData_still still_store)
qed

text \<open>An operation that looks at the state first.\<close>

lemma act_keeps_looks: "(\<And>p. P p \<Longrightarrow> \<exists>m'. m p = m' p \<and> act_keeps P m') \<Longrightarrow> act_keeps P m"
  unfolding act_keeps_def by metis

lemma createReader_still:
  fixes p0 :: "('s, 'c, 'm) oci_package" and B :: "('s, 'r) backing_store"
  shows "act_keeps (still L p0) (createReader B)"
proof (rule act_keeps_looks)
  fix p :: "('s, 'c, 'm) oci_package"
  define m :: "('s, 'c, 'm, 'r image_reader) package_action" where "m = (case pk_image p of
       None \<Rightarrow> act_fail PackageContentsInvalid
     | Some img \<Rightarrow>
         (if od_mediaType img = PACKAGE_IMAGE_EROFS then
            act_bind (act_result (getDmVerityAnnotations (pk_image p))) (\<lambda>a.
            act_bind (act_error PackageMountInvalid (with_store (\<lambda>s. bs_getMappableFile B s (blob_path (od_digest img))))) (\<lambda>f.
              act_return (ErofsLayer f (da_hashesOffset a) (da_rootHash a))))
          else if is_image_layer img then
            act_bind (getBlobReader B (od_digest img)) (\<lambda>r.
              if rd_size B r \<noteq> int (od_size img) then act_fail PackageContentsInvalid
              else act_return (ArchiveLayer img r))
          else act_fail PackageContentsInvalid))"
  have "createReader B p = m p" by (simp add: m_def createReader_def act_fail_def split: option.splits)
  moreover have "act_keeps (still L p0) m"
    unfolding m_def by (auto intro!: act_keeps_intros still_store split: option.splits)
  ultimately show "\<exists>m'. createReader B p = m' p \<and> act_keeps (still L p0) m'" by blast
qed

lemma auxMetaDataFile_still:
  fixes p0 :: "('s, 'c, 'm) oci_package"
  shows "act_keeps (still L p0) (auxMetaDataFile B L mediaType index)"
proof (rule act_keeps_looks)
  fix p :: "('s, 'c, 'm) oci_package"
  define m :: "('s, 'c, 'm, aux_meta_data) package_action" where "m = (case aux_descriptor p mediaType index of
       None \<Rightarrow> act_fail PackageContentsInvalid
     | Some d \<Rightarrow>
         (if od_size d > MAX_AUX_META_DATA_SIZE then act_fail PackageContentsInvalid
          else act_bind (readBlob B L (od_digest d) (od_size d)) (\<lambda>blob.
            act_return \<lparr>ax_mediaType = mediaType, ax_index = index, ax_data = blob, ax_annotations = od_annotations d\<rparr>)))"
  have "auxMetaDataFile B L mediaType index p = m p"
    by (simp add: m_def auxMetaDataFile_def act_fail_def split: option.splits)
  moreover have "act_keeps (still L p0) m"
    unfolding m_def by (auto intro!: act_keeps_intros still_store split: option.splits)
  ultimately show "\<exists>m'. auxMetaDataFile B L mediaType index p = m' p \<and> act_keeps (still L p0) m'" by blast
qed

lemma calcAndCheckBlobDigest_still:
  assumes "still L p0 p" "calcAndCheckBlobDigest B L d p = Some (r, p')"
  shows "still L p0 p' \<and> defined r"
proof -
  obtain rb p1 where rb: "getBlobReader B (od_digest d) p = (rb, p1)" by fastforce
  have "still L p0 p1 \<and> defined rb" using act_keepsD [OF keeps_getBlobReader [OF still_store] rb assms(1)] .
  moreover have "defined (case res of Inl e \<Rightarrow> Fail e | Inr _ \<Rightarrow> Done ())" for res :: "error_code + unit"
    by (cases res) simp_all
  ultimately show ?thesis using assms(2) rb
    by (cases rb) (auto simp: calcAndCheckBlobDigest_def)
qed

lemma check_blobs_still:
  "check_blobs B L ds p = Some (r, p') \<Longrightarrow> still L p0 p \<Longrightarrow> still L p0 p' \<and> defined r"
proof (induction ds arbitrary: p)
  case (Cons d ds)
  then obtain rd p1 where rd: "calcAndCheckBlobDigest B L d p = Some (rd, p1)" by (auto split: option.splits)
  have "still L p0 p1 \<and> defined rd" using calcAndCheckBlobDigest_still [OF Cons.prems(2) rd] .
  then show ?case using Cons rd by (cases rd) auto
qed auto

lemma package_verify_still:
  assumes "still L p0 p" "package_verify B L p = Some (r, p')"
  shows "still L p0 p' \<and> defined r"
  using assms check_blobs_still [of B L _ p r p' p0]
  by (auto simp: package_verify_def simp del: check_blobs.simps split: if_splits option.splits)

lemma package_call_still:
  fixes p0 :: "('s, 'c, 'm) oci_package" and B :: "('s, 'r) backing_store"
  assumes "still L p0 p" "package_call B L c p = Some (r, p')"
  shows "still L p0 p' \<and> defined r"
proof -
  have by_keeps: "act_keeps (still L p0) m \<Longrightarrow> Some (act_reply g m p) = Some (r, p') \<Longrightarrow> still L p0 p' \<and> defined r"
    for m :: "('s, 'c, 'm, 'x) package_action" and g :: "'x \<Rightarrow> ('r, 'm) reply"
    using act_keepsD [of "still L p0" "act_reply g m" p r p'] keeps_reply [of "still L p0" m g] assms(1) by simp
  show ?thesis
  proof (cases c)
    case OpVerify
    then obtain rv where "package_verify B L p = Some rv" "act_reply (\<lambda>_. GotNothing) (\<lambda>_. rv) p = (r, p')"
      using assms(2) by auto
    moreover obtain rr q where "rv = (rr, q)" by fastforce
    ultimately show ?thesis using package_verify_still [OF assms(1), of B rr q]
      by (cases rr) (auto simp: act_reply_def act_bind_def act_return_def)
  next
    case OpSize
    then show ?thesis using assms
      by (auto simp: act_reply_def act_bind_def act_return_def package_size_def still_def split: option.splits)
  next
    case OpMetaData
    then show ?thesis using by_keeps [OF package_metaData_still] assms(2) by simp
  next
    case (OpAux mediaType index)
    then show ?thesis using by_keeps [OF auxMetaDataFile_still] assms(2) by simp
  next
    case OpReader
    then show ?thesis using by_keeps [OF createReader_still] assms(2) by simp
  next
    case OpMountable
    then show ?thesis using by_keeps [OF isMountable_still] assms(2) by simp
  next
    case (OpMount is_directory)
    then show ?thesis using by_keeps [OF package_mount_still] assms(2) by simp
  qed (use assms in \<open>auto simp: still_def parsed_config_def\<close>)
qed

lemma find_aux_member: "find_aux ds mediaType index n = Some d \<Longrightarrow> d \<in> set ds"
  by (induction ds mediaType index n rule: find_aux.induct) (auto split: if_splits)

lemma aux_descriptor_member:
  "aux_descriptor p mediaType index = Some d \<Longrightarrow> pk_config p = Some d \<or> d \<in> set (pk_others p)"
  by (auto simp: aux_descriptor_def dest: find_aux_member split: if_splits)

lemma auxMetaDataFile_blob:
  assumes "auxMetaDataFile B L mediaType index p = (Done x, p')"
  shows "\<exists>d. aux_descriptor p mediaType index = Some d \<and> blob_of L d (ax_data x) \<and> ax_annotations x = od_annotations d"
proof (cases "aux_descriptor p mediaType index")
  case (Some d)
  then obtain blob where "readBlob B L (od_digest d) (od_size d) p = (Done blob, p')" "ax_data x = blob" "ax_annotations x = od_annotations d"
    using assms by (auto simp: auxMetaDataFile_def split: if_splits)
  then show ?thesis using Some readBlob_Done [of B L] by (auto simp: blob_of_def)
qed (use assms in \<open>simp add: auxMetaDataFile_def\<close>)

lemma createReader_authentic:
  assumes "createReader B p = (Done x, p')"
  shows "reply_authentic L p (GotReader x)"
  using assms by (cases "pk_image p") (auto simp: createReader_def split: if_splits)

lemma package_mount_authentic:
  assumes "still L p0 p" "package_mount B L is_directory p = (Done q, p')"
  shows "reply_authentic L p0 (GotMount q)"
proof -
  obtain p1 p2 m a img where "isMountable B p = (Done True, p1)" "package_metaData B L p1 = (Done m, p2)"
    "getDmVerityAnnotations (pk_image p2) = Inr a"
    and q: "mr_rootHash q = da_rootHash a" "mr_salt q = da_salt a"
    using assms(2) by (auto simp: package_mount_def mount_ranges_def split: if_splits)
  moreover have "still L p0 p1" using act_keepsD [OF isMountable_still calculation(1) assms(1)] ..
  ultimately have "still L p0 p2" using act_keepsD [OF package_metaData_still] by blast
  then have "pk_image p2 = pk_image p0" by (simp add: still_def)
  then show ?thesis using \<open>getDmVerityAnnotations (pk_image p2) = Inr a\<close> q by auto
qed

lemma package_call_authentic:
  assumes "still L p0 p" "package_call B L c p = Some (Done r, p')"
  shows "reply_authentic L p0 r"
proof (cases c)
  case OpMetaData
  then obtain m where "package_metaData B L p = (Done m, p')" "r = GotMetaData m" using assms(2) by auto
  then show ?thesis using package_metaData_ok [OF assms(1)] reply_authentic_still by fastforce
next
  case (OpAux mediaType index)
  then obtain x where "auxMetaDataFile B L mediaType index p = (Done x, p')" "r = GotAux x" using assms(2) by auto
  then have "reply_authentic L p r" using auxMetaDataFile_blob aux_descriptor_member by fastforce
  then show ?thesis using reply_authentic_still assms(1) by blast
next
  case OpReader
  then obtain x where "createReader B p = (Done x, p')" "r = GotReader x" using assms(2) by auto
  then show ?thesis using createReader_authentic reply_authentic_still assms(1) by blast
next
  case (OpMount is_directory)
  then show ?thesis using assms package_mount_authentic by auto
qed (use assms in auto)

lemma package_run_still:
  assumes "package_run B L cs p = Some (rs, p')" "still L p0 p"
  shows "still L p0 p' \<and> (\<forall>r \<in> set rs. defined r \<and> (\<forall>x. r = Done x \<longrightarrow> reply_authentic L p0 x))"
  using assms
proof (induction cs arbitrary: p rs)
  case (Cons c cs)
  then obtain r p1 rs1 where *: "package_call B L c p = Some (r, p1)" "package_run B L cs p1 = Some (rs1, p')" "rs = r # rs1"
    by (auto split: option.splits prod.splits)
  have "still L p0 p1 \<and> defined r" using package_call_still Cons.prems(2) *(1) .
  then show ?case using Cons.IH [OF *(2)] package_call_authentic [OF Cons.prems(2)] * by auto
qed auto

lemma opened_package_run:
  assumes "openPackageImpl B L s mounter (Some bundle) checkExpiry = Done p"
    and "package_run B L cs p = Some (rs, p')"
  shows "signed_by L bundle checkExpiry p' \<and> from_manifest L p' \<and>
    (\<forall>r \<in> set rs. defined r \<and> (\<forall>x. r = Done x \<longrightarrow> reply_authentic L p' x))"
proof -
  note p = openPackageImpl_ok [OF assms(1)]
  have run: "still L p p' \<and> (\<forall>r \<in> set rs. defined r \<and> (\<forall>x. r = Done x \<longrightarrow> reply_authentic L p x))"
    using package_run_still [OF assms(2) still_refl [OF p(5,4)]] .
  then have "signed_by L bundle checkExpiry p'" "from_manifest L p'"
    using p(1,2) by (simp_all add: signed_by_def from_manifest_def still_def)
  then show ?thesis using run reply_authentic_still by blast
qed

text \<open>
  C4. A package opened with a verification bundle is signed by a certificate that verifies against the
  bundle, over a payload that names a manifest, and its configuration and image are those of a manifest
  with that digest; whatever the store answers then, in any sequence of calls, the metadata is parsed from
  data with the digest of that configuration, readers and mounts get the root hash of that image, and no
  call dereferences a null pointer.  The signature covers no more than this: an auxiliary file has the digest of the
  configuration or of a descriptor that was collected from any manifest of the index, signed or not
  (\<open>unsigned_aux_layer\<close>).
\<close>

theorem opened_package_trusted:
  assumes "openPackageImpl B L s mounter (Some bundle) checkExpiry = Done p"
    and "package_run B L cs p = Some (rs, p')"
  shows "signed_by L bundle checkExpiry p' \<and> from_manifest L p' \<and>
    (\<forall>r \<in> set rs. defined r \<and> (\<forall>x. r = Done x \<longrightarrow> reply_authentic L p' x))"
  by (rule opened_package_run [OF assms])

text \<open>
  C6. If the parser of the configuration is the modelled one, the metadata that a package opened with a verification
  bundle hands out comes from a configuration with the digest that the signed manifest gives for it: the
  identity and the permissions are exactly those that the signed configuration states.
\<close>

theorem signed_package_permissions:
  assumes "openPackageImpl B L s mounter (Some bundle) checkExpiry = Done p"
    and "package_run B L cs p = Some (rs, p')" "Done (GotMetaData m) \<in> set rs"
    and "\<And>content m. fromConfigJson L content = Inr m \<Longrightarrow> metadata_fromConfigJson (json_parse L False content) = Done m"
  shows "signed_by L bundle checkExpiry p' \<and>
    (\<exists>manifest config layers content kvs. lib_sha256 L manifest = hexStringToBytes (pk_manifestDigest p') \<and>
       manifest_contents L manifest = Inr (config, layers) \<and> blob_of L config content \<and>
       json_parse L False content = JObject kvs \<and> stated_identity kvs m \<and> contents_wf m \<and>
       md_permissions m = listed_permissions kvs)"
proof -
  have run: "signed_by L bundle checkExpiry p'" "from_manifest L p'" "reply_authentic L p' (GotMetaData m)"
    using opened_package_run [OF assms(1,2)] bspec [OF conjunct2 [OF conjunct2 [OF opened_package_run [OF assms(1,2)]]] assms(3)]
    by simp_all
  obtain config content where c: "pk_config p' = Some config" "blob_of L config content" "fromConfigJson L content = Inr m"
    using run(3) by (auto simp: parsed_config_def)
  obtain manifest layers where mf: "lib_sha256 L manifest = hexStringToBytes (pk_manifestDigest p')"
    "manifest_contents L manifest = Inr (config, layers)"
    using run(2) c(1) by (auto simp: from_manifest_def)
  have parsed: "metadata_fromConfigJson (json_parse L False content) = Done m" using assms(4) [OF c(3)] .
  then obtain kvs where kvs: "json_parse L False content = JObject kvs"
    by (auto simp: metadata_fromConfigJson_def split: json.splits)
  then have "stated_identity kvs m \<and> contents_wf m \<and> md_permissions m = listed_permissions kvs"
    using accepted_metadata parsed by simp
  then show ?thesis using run(1) mf c(2) kvs by blast
qed

subsection \<open>Verifying the blobs\<close>

text \<open>What a reader delivers up to its end, in reads of 4096 bytes.\<close>

inductive delivers :: "('s, 'r) backing_store \<Rightarrow> 'r \<Rightarrow> bytes \<Rightarrow> bool" for B where
  delivers_end: "rd_read B r 4096 = (Some [], r') \<Longrightarrow> delivers B r []"
| delivers_more: "rd_read B r 4096 = (Some d, r') \<Longrightarrow> d \<noteq> [] \<Longrightarrow> delivers B r' rest \<Longrightarrow> delivers B r (d @ rest)"

text \<open>The states of a store after files were looked up in it.\<close>

inductive looked_up :: "('s, 'r) backing_store \<Rightarrow> 's \<Rightarrow> 's \<Rightarrow> bool" for B where
  looked_up_none: "looked_up B s s"
| looked_up_more: "bs_getFile B s path = (res, s1) \<Longrightarrow> looked_up B s1 s2 \<Longrightarrow> looked_up B s s2"

text \<open>
  A blob of the store \<open>s\<close>: the store, after nothing but look-ups, hands out a reader for the path of the
  blob, and what this reader delivers up to its end has the digest.
\<close>

definition stored_blob ::
  "('s, 'r) backing_store \<Rightarrow> ('b, 'c, 'm) package_libs \<Rightarrow> 's \<Rightarrow> oci_descriptor \<Rightarrow> bool" where
  "stored_blob B L s d \<longleftrightarrow>
     (\<exists>s1 r s2 content. looked_up B s s1 \<and> bs_getFile B s1 (blob_path (od_digest d)) = (Inr r, s2) \<and> delivers B r content \<and>
       lib_sha256 L content = hexStringToBytes (od_digest d))"

text \<open>The state of the loop, seen from its start.\<close>

inductive reads_to :: "('s, 'r) backing_store \<Rightarrow> 'r \<Rightarrow> bytes \<Rightarrow> 'r \<Rightarrow> bool" for B where
  reads_none: "reads_to B r [] r"
| reads_more: "reads_to B r fed r1 \<Longrightarrow> rd_read B r1 4096 = (Some d, r2) \<Longrightarrow> d \<noteq> [] \<Longrightarrow> reads_to B r (fed @ d) r2"

lemma reads_to_delivers: "reads_to B r fed r1 \<Longrightarrow> delivers B r1 rest \<Longrightarrow> delivers B r (fed @ rest)"
proof (induction arbitrary: rest rule: reads_to.induct)
  case (reads_more r fed r1 d r2)
  then show ?case using delivers_more [of B r1 d r2 rest] by simp
qed simp

lemma digest_loop_ok:
  assumes "digest_loop B L digest r = Some (Inr ())"
  shows "\<exists>content. delivers B r content \<and> lib_sha256 L content = hexStringToBytes digest"
proof -
  let ?I = "\<lambda>(r1, fed, total). reads_to B r fed r1"
  have "\<exists>st. ?I st \<and> digest_round B L digest (word_of_int (rd_size B r)) st = Return (Inr ())"
    by (rule loop_invariant [OF assms [unfolded digest_loop_def]])
      (auto simp: digest_round_def reads_none split: prod.splits option.splits if_splits intro: reads_more)
  then obtain r1 fed total where "reads_to B r fed r1"
    "digest_round B L digest (word_of_int (rd_size B r)) (r1, fed, total) = Return (Inr ())" by auto
  moreover from this(2) obtain r' where "rd_read B r1 4096 = (Some [], r')" "lib_sha256 L fed = hexStringToBytes digest"
    by (auto simp: digest_round_def split: prod.splits option.splits if_splits)
  ultimately show ?thesis using reads_to_delivers [OF _ delivers_end] by fastforce
qed

lemma case_unit_Done [simp]: "(case res of Inl e \<Rightarrow> Fail e | Inr _ \<Rightarrow> Done ()) = Done () \<longleftrightarrow> res = Inr ()"
  by (cases res) auto

lemma calcAndCheckBlobDigest_ok:
  assumes "calcAndCheckBlobDigest B L d p = Some (Done (), p')"
  obtains s r s1 where "pk_backingStore p = Some s" "bs_getFile B s (blob_path (od_digest d)) = (Inr r, s1)"
    "pk_backingStore p' = Some s1" "stored_blob B L s d"
proof -
  obtain r where r: "getBlobReader B (od_digest d) p = (Done r, p')" "digest_loop B L (od_digest d) r = Some (Inr ())"
    using assms by (auto simp: calcAndCheckBlobDigest_def split: prod.splits outcome.splits)
  then obtain s s1 where s: "pk_backingStore p = Some s" "bs_getFile B s (blob_path (od_digest d)) = (Inr r, s1)" "pk_backingStore p' = Some s1"
    by (auto simp: getBlobReader_def with_store_def act_fail_def split: if_splits option.splits prod.splits sum.splits)
  then have "stored_blob B L s d"
    using digest_loop_ok [OF r(2)] looked_up_none [of B s] by (auto simp: stored_blob_def)
  then show thesis using that s by blast
qed

lemma stored_blob_later: "bs_getFile B s path = (res, s1) \<Longrightarrow> stored_blob B L s1 d \<Longrightarrow> stored_blob B L s d"
  using looked_up_more unfolding stored_blob_def by metis

lemma check_blobs_ok:
  "check_blobs B L ds p = Some (Done (), p') \<Longrightarrow> pk_backingStore p = Some s \<Longrightarrow> \<forall>d \<in> set ds. stored_blob B L s d"
proof (induction ds arbitrary: p s)
  case (Cons d ds)
  obtain p1 where p1: "calcAndCheckBlobDigest B L d p = Some (Done (), p1)" "check_blobs B L ds p1 = Some (Done (), p')"
    using Cons.prems(1) by (auto split: option.splits outcome.splits)
  obtain r s1 where s1: "bs_getFile B s (blob_path (od_digest d)) = (Inr r, s1)" "pk_backingStore p1 = Some s1" "stored_blob B L s d"
    using calcAndCheckBlobDigest_ok [OF p1(1)] Cons.prems(2) by (metis option.inject)
  from Cons.IH [OF p1(2) s1(2)] stored_blob_later [OF s1(1)] s1(3) show ?case by auto
qed simp

lemma check_blobs_store: "check_blobs B L (d # ds) p = Some (Done (), p') \<Longrightarrow> \<exists>s. pk_backingStore p = Some s"
proof -
  assume "check_blobs B L (d # ds) p = Some (Done (), p')"
  then obtain p1 where "calcAndCheckBlobDigest B L d p = Some (Done (), p1)"
    by (auto split: option.splits outcome.splits)
  then show ?thesis by (rule calcAndCheckBlobDigest_ok) blast
qed

text \<open>
  C5. A package that verifies was opened with a bundle, and for its configuration, its image and every
  auxiliary layer its own backing store, after nothing but the look-ups of the check itself, has handed out a
  reader for the path of the blob whose bytes, read to the end, have the digest of the descriptor.
\<close>

theorem verified_package_blobs:
  assumes "package_verify B L p = Some (Done (), p')"
  shows "pk_verifiedManifest p \<and>
    (\<exists>s config img. pk_backingStore p = Some s \<and> pk_config p = Some config \<and> pk_image p = Some img \<and>
       (\<forall>d \<in> set (config # img # pk_others p). stored_blob B L s d))"
proof -
  obtain config img where c: "pk_verifiedManifest p" "pk_config p = Some config" "pk_image p = Some img"
    "check_blobs B L (config # img # pk_others p) p = Some (Done (), p')"
    using assms by (auto simp: package_verify_def simp del: check_blobs.simps split: if_splits option.splits)
  obtain s where s: "pk_backingStore p = Some s" using check_blobs_store [OF c(4)] by blast
  show ?thesis using c(1-3) s check_blobs_ok [OF c(4) s] by blast
qed

text \<open>Over a store and readers that keep the contract, the check of the blobs returns.\<close>

context readable_store
begin

lemma digest_loop_returns:
  assumes "reader_ok r"
  shows "\<exists>res. digest_loop B L digest r = Some res"
proof -
  let ?size = "rd_size B r"
  let ?I = "\<lambda>(r1, fed, total :: 64 word). reader_ok r1 \<and> total \<le> word_of_int ?size"
  let ?m = "\<lambda>(r1 :: 'r, fed :: bytes, total :: 64 word). nat ?size - unat total"
  have signed: "0 \<le> ?size" "?size < 9223372036854775808" using size_signed [OF assms] by simp_all
  have size: "unat (word_of_int ?size :: 64 word) = nat ?size"
    using signed by (simp add: unsigned_of_int take_bit_int_eq_self)
  have step: "?I st' \<and> ?m st' < ?m st" if I: "?I st" and body: "digest_round B L digest (word_of_int ?size) st = Continue st'" for st st'
  proof -
    obtain r1 fed total where st: "st = (r1, fed, total)" by (cases st)
    from body st obtain d r2 where d: "rd_read B r1 4096 = (Some d, r2)" "d \<noteq> []"
      "total + word_of_nat (length d) \<le> word_of_int ?size" "st' = (r2, fed @ d, total + word_of_nat (length d))"
      by (auto simp: digest_round_def not_less split: prod.splits option.splits if_splits)
    have r1: "reader_ok r1" "total \<le> word_of_int ?size" using I st by simp_all
    have len: "length d \<le> 4096" using read_length [OF r1(1) d(1)] .
    have "unat total \<le> nat ?size" using r1(2) size by (simp add: word_le_nat_alt)
    then have "unat (total + word_of_nat (length d)) = unat total + length d"
      using len signed by (simp add: unat_word_ariths unsigned_of_nat take_bit_eq_mod)
    moreover have "unat (total + word_of_nat (length d)) \<le> nat ?size" using d(3) size by (simp add: word_le_nat_alt)
    moreover have "0 < length d" using d(2) by simp
    ultimately have "nat ?size - unat (total + word_of_nat (length d)) < nat ?size - unat total" by linarith
    then show ?thesis using read_ok [OF r1(1) d(1)] d(3) unfolding st d(4) by simp
  qed
  have "?I (r, [], 0)" using assms by simp
  from loop_terminates [of ?I, OF this step] show ?thesis unfolding digest_loop_def by blast
qed

lemma calcAndCheckBlobDigest_returns:
  assumes "pk_backingStore p = Some s" "store_ok s"
  shows "\<exists>res p' s'. calcAndCheckBlobDigest B L d p = Some (res, p') \<and> pk_backingStore p' = Some s' \<and> store_ok s'"
proof (cases "validateSha256Digest (od_digest d)")
  case True
  obtain rr s' where get: "bs_getFile B s (blob_path (od_digest d)) = (rr, s')" by fastforce
  have s': "store_ok s'" using getFile_ok [OF assms(2) get] .
  show ?thesis
  proof (cases rr)
    case (Inr r)
    then obtain res where "digest_loop B L (od_digest d) r = Some res"
      using getFile_reader [OF assms(2)] get digest_loop_returns by blast
    then show ?thesis using get assms(1) s' Inr True
      by (simp add: calcAndCheckBlobDigest_def getBlobReader_def with_store_def)
  qed (use get assms(1) s' True in \<open>simp add: calcAndCheckBlobDigest_def getBlobReader_def with_store_def\<close>)
qed (use assms in \<open>simp add: calcAndCheckBlobDigest_def getBlobReader_def act_fail_def\<close>)

lemma check_blobs_returns:
  "pk_backingStore p = Some s \<Longrightarrow> store_ok s \<Longrightarrow> \<exists>r. check_blobs B L ds p = Some r"
proof (induction ds arbitrary: p s)
  case (Cons d ds)
  then obtain res p' s' where "calcAndCheckBlobDigest B L d p = Some (res, p')" "pk_backingStore p' = Some s'" "store_ok s'"
    using calcAndCheckBlobDigest_returns by blast
  then show ?case using Cons.IH by (cases res) auto
qed simp

lemma package_verify_returns:
  assumes "pk_backingStore p = Some s" "store_ok s"
  shows "\<exists>r. package_verify B L p = Some r"
  using check_blobs_returns [OF assms]
  by (auto simp: package_verify_def simp del: check_blobs.simps split: option.splits)

end

subsection \<open>Mounting\<close>

text \<open>
  The data and the hashes of a mount are two adjacent ranges that fill the blob of the image, which starts
  and ends at a page; they meet at the offset the annotations of the image give, each has room for its
  superblock, and the root hash and the salt are those of the annotations.
\<close>

definition mount_fills :: "mount_request \<Rightarrow> mappable_file \<Rightarrow> oci_descriptor \<Rightarrow> dmverity_annotations \<Rightarrow> bool" where
  "mount_fills q f img a \<longleftrightarrow> mr_fd q = mf_fd f \<and> isAligned f \<and> mf_size f = od_size img \<and>
     fst (mr_dataRange q) = mf_offset f \<and> fst (mr_hashesRange q) = mf_offset f + snd (mr_dataRange q) \<and>
     fst (mr_hashesRange q) + snd (mr_hashesRange q) = mf_offset f + mf_size f \<and>
     4096 \<le> snd (mr_dataRange q) \<and> 4096 \<le> snd (mr_hashesRange q) \<and>
     snd (mr_dataRange q) = da_hashesOffset a \<and> mr_rootHash q = da_rootHash a \<and> mr_salt q = da_salt a \<and>
     length (mr_rootHash q) = 32 \<and> length (mr_salt q) \<le> 255"

lemma getDmVerityAnnotations_bounds:
  "getDmVerityAnnotations d = Inr a \<Longrightarrow>
     length (da_rootHash a) = 32 \<and> length (da_salt a) \<le> 255 \<and> 4096 \<le> da_hashesOffset a \<and> da_hashesOffset a \<le> MAX_EROFS_IMAGE_SIZE"
  by (auto simp: getDmVerityAnnotations_def Let_def split: option.splits if_splits)

lemma mount_ranges_fill:
  assumes "getDmVerityAnnotations d = Inr a" "mount_ranges pkgid img a f = Inr q"
    and "mf_offset f + mf_size f < 9223372036854775808"
  shows "mount_fills q f img a"
proof -
  have a: "length (da_rootHash a) = 32" "length (da_salt a) \<le> 255" "4096 \<le> da_hashesOffset a"
    using getDmVerityAnnotations_bounds [OF assms(1)] by auto
  have c: "isAligned f" "mf_size f = od_size img" "MIN_EROFS_IMAGE_SIZE + MIN_DMVERITY_IMAGE_SIZE \<le> mf_size f"
    "da_hashesOffset a \<le> sz_sub (mf_size f) MIN_DMVERITY_IMAGE_SIZE"
    and q: "q = \<lparr>mr_id = pkgid, mr_fd = mf_fd f, mr_dataRange = (mf_offset f, da_hashesOffset a),
        mr_hashesRange = (sz_add (mf_offset f) (da_hashesOffset a), sz_sub (mf_size f) (da_hashesOffset a)),
        mr_rootHash = da_rootHash a, mr_salt = da_salt a\<rparr>"
    using assms(2) by (auto simp: mount_ranges_def not_less split: if_splits)
  have off: "da_hashesOffset a + 4096 \<le> mf_size f" using c(3,4) by (simp add: sz_sub_def)
  have "sz_add (mf_offset f) (da_hashesOffset a) = mf_offset f + da_hashesOffset a"
    "sz_sub (mf_size f) (da_hashesOffset a) = mf_size f - da_hashesOffset a"
    using off assms(3) by (simp_all add: wrap_simps)
  then show ?thesis using a c(1,2) off by (simp add: q mount_fills_def)
qed

context file_store
begin

definition has_store :: "('s, 'c, 'm) oci_package \<Rightarrow> bool" where
  "has_store p \<longleftrightarrow> (\<exists>s. pk_backingStore p = Some s \<and> store_ok s)"

lemma has_store_with_store:
  assumes "\<And>s r s'. store_ok s \<Longrightarrow> f s = (r, s') \<Longrightarrow> store_ok s'"
  shows "act_keeps has_store (with_store f)"
  using assms by (force simp: act_keeps_def has_store_def with_store_def split: prod.splits sum.splits)

lemma has_store_readBlob: "act_keeps has_store (readBlob B L sha256 n)"
  unfolding readBlob_def
  by (auto intro!: act_keeps_intros has_store_with_store simp: readFile_ok)

lemma has_store_isMountable: "act_keeps has_store (isMountable B)"
  by (auto simp: act_keeps_def isMountable_def has_store_def getMappableFile_ok split: option.splits prod.splits)

lemma has_store_metaData:
  fixes L :: "('b, 'c, 'm) package_libs"
  shows "act_keeps has_store (package_metaData B L)"
proof (rule act_keeps_looks)
  fix p :: "('s, 'c, 'm) oci_package"
  define m :: "('s, 'c, 'm, 'm) package_action" where
    "m = (case pk_metaData p of
       Some m \<Rightarrow> act_return m
     | None \<Rightarrow>
         (case pk_config p of
            None \<Rightarrow> act_fail PackageContentsInvalid
          | Some config \<Rightarrow>
              act_bind (act_error PackageContentsInvalid (readBlob B L (od_digest config) (od_size config))) (\<lambda>contents.
              act_bind (act_result (fromConfigJson L contents)) (\<lambda>m.
              act_bind (act_modify (\<lambda>p. p\<lparr>pk_metaData := Some m\<rparr>)) (\<lambda>_. act_return m)))))"
  have "package_metaData B L p = m p"
    by (simp add: m_def package_metaData_def act_fail_def act_return_def split: option.splits)
  moreover have "act_keeps has_store m"
    unfolding m_def by (auto intro!: act_keeps_intros has_store_readBlob simp: has_store_def split: option.splits)
  ultimately show "\<exists>m'. package_metaData B L p = m' p \<and> act_keeps has_store m'" by blast
qed

lemma package_mount_fills:
  assumes "has_store p" "package_mount B L is_directory p = (Done q, p')"
  shows "\<exists>f img a s s'. store_ok s \<and> pk_image p' = Some img \<and> getDmVerityAnnotations (Some img) = Inr a \<and>
    bs_getMappableFile B s (blob_path (od_digest img)) = (Inr f, s') \<and> pk_backingStore p' = Some s' \<and> mount_fills q f img a"
proof -
  obtain p1 p2 m a img f s s' where p1: "isMountable B p = (Done True, p1)" and p2: "package_metaData B L p1 = (Done m, p2)"
    and a: "getDmVerityAnnotations (pk_image p2) = Inr a" "pk_image p2 = Some img"
    and f: "pk_backingStore p2 = Some s" "bs_getMappableFile B s (blob_path (od_digest img)) = (Inr f, s')"
    and q: "mount_ranges (config_id L m) img a f = Inr q" "p' = p2\<lparr>pk_backingStore := Some s'\<rparr>"
    using assms(2) by (auto simp: package_mount_def split: if_splits option.splits)
  have "has_store p1" using act_keepsD [OF has_store_isMountable p1 assms(1)] ..
  then have "has_store p2" using act_keepsD [OF has_store_metaData p2] by blast
  then have "store_ok s" using f(1) by (simp add: has_store_def)
  from mount_ranges_fill [OF a(1) q(1) getMappableFile_range [OF this f(2)]] show ?thesis
    using a q(2) f(2) \<open>store_ok s\<close> by auto
qed

end

subsection \<open>A sample package\<close>

text \<open>
  A store with a signed manifest, its signature, and in front of both a second data manifest that nobody
  signed; the libraries are small functions that tell the blobs apart by their first byte.
\<close>

definition sample_digest :: "char \<Rightarrow> string" where
  "sample_digest c = replicate 64 c"

definition sample_descriptor :: "string \<Rightarrow> char \<Rightarrow> json" where
  "sample_descriptor mediaType c =
     JObject [(''digest'', JString (''sha256:'' @ sample_digest c)), (''mediaType'', JString mediaType), (''size'', JInt 1)]"

definition sample_manifest :: "json list \<Rightarrow> json" where
  "sample_manifest layers =
     JObject [(''config'', sample_descriptor PACKAGE_CONFIG_MEDIA_TYPE (CHR ''3'')), (''layers'', JArray layers),
       (''schemaVersion'', JInt 2)]"

definition sample_image :: json where
  "sample_image = sample_descriptor (PACKAGE_IMAGE_MEDIA_TYPE_PREFIX @ ''zip'') (CHR ''4'')"

definition sample_signature_layer :: json where
  "sample_signature_layer =
     JObject [(''annotations'', JObject [(COSIGN_SIGNATURE, JString ''s''), (COSIGN_CERTIFICATE, JString ''c'')]),
       (''digest'', JString (''sha256:'' @ sample_digest (CHR ''5''))), (''mediaType'', JString PACKAGE_SIGNATURE_MEDIA_TYPE),
       (''size'', JInt 1)]"

definition sample_index :: "bool \<Rightarrow> json" where
  "sample_index broken =
     JObject [(''manifests'', JArray
         ([sample_descriptor OCI_MANIFEST_MEDIA_TYPE (CHR ''6''), sample_descriptor OCI_MANIFEST_MEDIA_TYPE (CHR ''1''),
           sample_descriptor OCI_MANIFEST_MEDIA_TYPE (CHR ''2'')] @ (if broken then [sample_descriptor ''other'' (CHR ''7'')] else []))),
       (''schemaVersion'', JInt 2)]"

definition sample_critical :: json where
  "sample_critical = JObject []"

definition sample_parse :: "bool \<Rightarrow> bytes \<Rightarrow> json" where
  "sample_parse broken d =
     (if d = [1] then JObject [(''imageLayoutVersion'', JString ''1.0.0'')]
      else if d = [2] then sample_index broken
      else if d = [17] then sample_manifest [sample_image]
      else if d = [102] then sample_manifest [sample_image, sample_descriptor ''secrets'' (CHR ''8'')]
      else if d = [34] then sample_manifest [sample_signature_layer]
      else if d = [51] then sample_document
      else if d = [85] then JObject [(''critical'', sample_critical)]
      else JDiscarded)"

definition sample_libs :: "bool \<Rightarrow> (unit, unit, metadata) package_libs" where
  "sample_libs broken =
     \<lparr>json_parse = (\<lambda>_. sample_parse broken),
      json_flatten = (\<lambda>_. Some [(''/type'', JString ''cosign container image signature''), (''/identity/docker-reference'', JString []),
        (''/image/docker-manifest-digest'', JString (''sha256:'' @ sample_digest (CHR ''1'')))]),
      lib_sha256 = (\<lambda>d. replicate 32 (if d = [] then 0 else hd d)),
      base64_decode = (\<lambda>s. Some (of_string s)), loadFromString = (\<lambda>_. Some ()), loadFromStringMultiCerts = (\<lambda>_. None),
      verifyCertificate = (\<lambda>_ _ _ _. True), verifySignature = (\<lambda>d _ _. d = [85]), 
      fromConfigJson = (\<lambda>d. case metadata_fromConfigJson (sample_parse broken d) of Done m \<Rightarrow> Inr m | _ \<Rightarrow> Inl PackageContentsInvalid),
      config_id = md_id\<rparr>"

definition sample_files :: "(path \<times> bytes) list" where
  "sample_files =
     [(path_of_string OCI_LAYOUT_FILE_NAME, [1]), (path_of_string OCI_INDEX_FILE_NAME, [2]),
      (blob_path (sample_digest (CHR ''1'')), [17]), (blob_path (sample_digest (CHR ''2'')), [34]),
      (blob_path (sample_digest (CHR ''3'')), [51]), (blob_path (sample_digest (CHR ''4'')), [68]),
      (blob_path (sample_digest (CHR ''5'')), [85]), (blob_path (sample_digest (CHR ''6'')), [102]),
      (blob_path (sample_digest (CHR ''8'')), [136])]"

definition sample_store :: "((path \<times> bytes) list, bytes) backing_store" where
  "sample_store =
     \<lparr>bs_size = (\<lambda>_. 0), bs_supportsMountableFiles = (\<lambda>_. False),
      bs_readFile = (\<lambda>s path n. (case map_of s path of None \<Rightarrow> Inl PackageContentsInvalid
        | Some d \<Rightarrow> if length d > n then Inl PackageFileTooLarge else Inr d, s)),
      bs_getFile = (\<lambda>s path. (case map_of s path of None \<Rightarrow> Inl PackageContentsInvalid | Some d \<Rightarrow> Inr d, s)),
      bs_getMappableFile = (\<lambda>s path. (Inl PackageContentsInvalid, s)),
      rd_read = (\<lambda>r n. (Some (take n r), drop n r)), rd_size = (\<lambda>r. int (length r))\<rparr>"

definition sample_opened :: "bool \<Rightarrow> (error_code option, ((path \<times> bytes) list, unit, metadata) oci_package) outcome" where
  "sample_opened broken = openPackageImpl sample_store (sample_libs broken) sample_files False (Some ()) True"

lemma sample_digest_eq [simp]: "sample_digest c = sample_digest d \<longleftrightarrow> c = d"
  by (simp add: sample_digest_def)

lemma sample_digest_Cons: "sample_digest c = c # replicate 63 c"
  by (simp add: sample_digest_def numeral_eq_Suc)

lemma sample_digest_valid: "is_xdigit c \<Longrightarrow> validateSha256Digest (sample_digest c)"
  by (simp add: sample_digest_def validateSha256Digest_def list_all_iff)

lemma sample_digest_checked:
  "is_xdigit c \<Longrightarrow> validateDigest (''sha256:'' @ sample_digest c) = Some (sample_digest c)"
  using sample_digest_valid by (simp add: validateDigest_def) (simp add: sample_digest_def)

lemma hexStringToBytes_replicate:
  "is_xdigit c \<Longrightarrow>
     hexStringToBytes (replicate (2 * n) c) = replicate n (push_bit 4 (hexDigitToByte c) OR hexDigitToByte c)"
  by (induction n) auto

lemma sample_digest_bytes:
  "is_xdigit c \<Longrightarrow> hexStringToBytes (sample_digest c) = replicate 32 (push_bit 4 (hexDigitToByte c) OR hexDigitToByte c)"
  using hexStringToBytes_replicate [of c 32] by (simp add: sample_digest_def)

lemma sample_xdigits:
  "is_xdigit (CHR ''1'')" "is_xdigit (CHR ''2'')" "is_xdigit (CHR ''3'')" "is_xdigit (CHR ''4'')"
  "is_xdigit (CHR ''5'')" "is_xdigit (CHR ''6'')" "is_xdigit (CHR ''7'')" "is_xdigit (CHR ''8'')"
  by code_simp+

definition parsed_sample :: "string \<Rightarrow> char \<Rightarrow> oci_descriptor" where
  "parsed_sample mediaType c =
     \<lparr>od_digest = sample_digest c, od_mediaType = mediaType, od_size = 1, od_data = [], od_urls = [], od_annotations = []\<rparr>"

lemma parsed_sample_sel [simp]:
  "od_digest (parsed_sample mediaType c) = sample_digest c" "od_mediaType (parsed_sample mediaType c) = mediaType"
  "od_size (parsed_sample mediaType c) = Suc 0" "od_annotations (parsed_sample mediaType c) = []"
  by (simp_all add: parsed_sample_def)

lemma get_int_small: "get_int 2 = 2" "get_int64 1 = 1"
  by code_simp+

lemma sample_descriptor_parse:
  assumes "is_xdigit c"
  shows "descriptor_parse dec (sample_descriptor mediaType c) = Inr (parsed_sample mediaType c)"
  using sample_digest_checked [OF assms]
  by (simp add: descriptor_parse_def sample_descriptor_def parse_member_def no_fields_def get_int_small parsed_sample_def)

theorem descriptor_parse_wf_witness: "descriptor_wf (parsed_sample PACKAGE_CONFIG_MEDIA_TYPE (CHR ''3''))"
  by (rule descriptor_parse_wf [OF sample_descriptor_parse]) (simp add: is_xdigit_def is_digit_def)

lemma sample_signature_layer_parse:
  "descriptor_parse dec sample_signature_layer =
     Inr (parsed_sample PACKAGE_SIGNATURE_MEDIA_TYPE (CHR ''5'') \<lparr>od_annotations := [(COSIGN_SIGNATURE, ''s''), (COSIGN_CERTIFICATE, ''c'')]\<rparr>)"
  using sample_digest_checked [OF sample_xdigits(5)]
  by (simp add: descriptor_parse_def sample_signature_layer_def parse_member_def no_fields_def get_int_small parsed_sample_def
      COSIGN_SIGNATURE_def COSIGN_CERTIFICATE_def)

lemma sample_paths: "blob_path (sample_digest c) = blob_path (sample_digest d) \<longleftrightarrow> c = d"
  by (auto simp: blob_path_def path_append_def dest!: arg_cong [where f = p_names])

lemma sample_top_paths:
  "path_of_string OCI_LAYOUT_FILE_NAME \<noteq> path_of_string OCI_INDEX_FILE_NAME"
  "path_of_string OCI_LAYOUT_FILE_NAME \<noteq> blob_path d" "path_of_string OCI_INDEX_FILE_NAME \<noteq> blob_path d"
proof -
  have "p_names (path_of_string OCI_LAYOUT_FILE_NAME) = [OCI_LAYOUT_FILE_NAME]"
    "p_names (path_of_string OCI_INDEX_FILE_NAME) = [OCI_INDEX_FILE_NAME]"
    "p_names (path_of_string ''blobs/sha256'') = [''blobs'', ''sha256'']"
    by code_simp+
  then show "path_of_string OCI_LAYOUT_FILE_NAME \<noteq> path_of_string OCI_INDEX_FILE_NAME"
    "path_of_string OCI_LAYOUT_FILE_NAME \<noteq> blob_path d" "path_of_string OCI_INDEX_FILE_NAME \<noteq> blob_path d"
    by (auto simp: blob_path_def path_append_def OCI_LAYOUT_FILE_NAME_def OCI_INDEX_FILE_NAME_def)
qed

lemma sample_blob_bytes:
  "c \<in> {CHR ''1'', CHR ''2'', CHR ''3'', CHR ''4'', CHR ''5'', CHR ''6'', CHR ''8''} \<Longrightarrow>
    map_of sample_files (blob_path (sample_digest c)) = Some [push_bit 4 (hexDigitToByte c) OR hexDigitToByte c]"
  using sample_top_paths(2,3) [THEN not_sym]
  by (auto simp: sample_files_def sample_paths hexDigitToByte_def)

lemma sample_readBlob:
  assumes "c \<in> {CHR ''1'', CHR ''2'', CHR ''3'', CHR ''4'', CHR ''5'', CHR ''6'', CHR ''8''}"
    "pk_backingStore p = Some sample_files"
  shows "readBlob sample_store (sample_libs broken) (sample_digest c) (Suc 0) p =
    (Done [push_bit 4 (hexDigitToByte c) OR hexDigitToByte c], p)"
proof -
  have "is_xdigit c" using assms(1) sample_xdigits by auto
  then show ?thesis using assms sample_blob_bytes [OF assms(1)]
    by (simp add: readBlob_def sample_digest_valid act_bind_def with_store_def sample_store_def sample_libs_def
        sample_digest_bytes act_return_def)
qed


lemma sample_manifest_contents:
  "manifest_contents (sample_libs broken) [17] =
     Inr (parsed_sample PACKAGE_CONFIG_MEDIA_TYPE (CHR ''3''), [parsed_sample (PACKAGE_IMAGE_MEDIA_TYPE_PREFIX @ ''zip'') (CHR ''4'')])"
  "manifest_contents (sample_libs broken) [102] =
     Inr (parsed_sample PACKAGE_CONFIG_MEDIA_TYPE (CHR ''3''),
       [parsed_sample (PACKAGE_IMAGE_MEDIA_TYPE_PREFIX @ ''zip'') (CHR ''4''), parsed_sample ''secrets'' (CHR ''8'')])"
  "manifest_contents (sample_libs broken) [34] =
     Inr (parsed_sample PACKAGE_CONFIG_MEDIA_TYPE (CHR ''3''),
       [parsed_sample PACKAGE_SIGNATURE_MEDIA_TYPE (CHR ''5'')
          \<lparr>od_annotations := [(COSIGN_SIGNATURE, ''s''), (COSIGN_CERTIFICATE, ''c'')]\<rparr>])"
  by (simp_all add: manifest_contents_def sample_libs_def sample_parse_def sample_manifest_def sample_image_def
      manifest_member_def no_manifest_def sample_descriptor_parse sample_xdigits sample_signature_layer_parse get_int_small)

lemma sample_layers:
  "is_image_layer (parsed_sample (PACKAGE_IMAGE_MEDIA_TYPE_PREFIX @ ''zip'') c)"
  "\<not> is_image_layer (parsed_sample ''secrets'' c)"
  "\<not> is_image_layer (parsed_sample PACKAGE_SIGNATURE_MEDIA_TYPE c \<lparr>od_annotations := a\<rparr>)"
  by (simp_all add: is_image_layer_def starts_with_def package_names)

lemma sample_processManifest:
  assumes "pk_backingStore p = Some sample_files" "c \<in> {CHR ''1'', CHR ''2'', CHR ''6''}"
    "manifest_contents (sample_libs broken) [push_bit 4 (hexDigitToByte c) OR hexDigitToByte c] = Inr contents"
  shows "processManifest sample_store (sample_libs broken) (parsed_sample OCI_MANIFEST_MEDIA_TYPE c) p =
    (Done (), register_manifest (sample_digest c) contents p)"
  using assms sample_readBlob [of c p broken]
  by (auto simp: processManifest_def act_bind_def act_result_def act_modify_def)

definition sample_built :: "((path \<times> bytes) list, unit, metadata) oci_package" where
  "sample_built = (new_package sample_files False)
     \<lparr>pk_manifestDigest := sample_digest (CHR ''1''),
      pk_config := Some (parsed_sample PACKAGE_CONFIG_MEDIA_TYPE (CHR ''3'')),
      pk_image := Some (parsed_sample (PACKAGE_IMAGE_MEDIA_TYPE_PREFIX @ ''zip'') (CHR ''4'')),
      pk_others := [parsed_sample ''secrets'' (CHR ''8'')],
      pk_signature := Some (parsed_sample PACKAGE_SIGNATURE_MEDIA_TYPE (CHR ''5'')
          \<lparr>od_annotations := [(COSIGN_SIGNATURE, ''s''), (COSIGN_CERTIFICATE, ''c'')]\<rparr>)\<rparr>"

definition sample_descriptors :: "bool \<Rightarrow> oci_descriptor list" where
  "sample_descriptors broken =
     [parsed_sample OCI_MANIFEST_MEDIA_TYPE (CHR ''6''), parsed_sample OCI_MANIFEST_MEDIA_TYPE (CHR ''1''),
       parsed_sample OCI_MANIFEST_MEDIA_TYPE (CHR ''2'')] @ (if broken then [parsed_sample ''other'' (CHR ''7'')] else [])"

lemma sample_index_parse: "processIndexFile (sample_libs broken) [2] = Inr (sample_descriptors broken)"
  by (simp add: processIndexFile_def sample_libs_def sample_parse_def sample_index_def sample_descriptor_parse sample_xdigits
      sample_descriptors_def)

lemma sample_manifests:
  "processManifests sample_store (sample_libs broken) (sample_descriptors broken) (new_package sample_files False) =
     (if broken then Fail PackageContentsInvalid else Done (), sample_built)"
proof -
  have built: "processManifests sample_store (sample_libs broken)
     ([parsed_sample OCI_MANIFEST_MEDIA_TYPE (CHR ''6''), parsed_sample OCI_MANIFEST_MEDIA_TYPE (CHR ''1''),
       parsed_sample OCI_MANIFEST_MEDIA_TYPE (CHR ''2'')] @ ds) (new_package sample_files False) =
     processManifests sample_store (sample_libs broken) ds sample_built" for ds
    by (simp add: act_bind_def sample_processManifest sample_manifest_contents hexDigitToByte_def register_manifest_def
        isPackageDataManifest_def isSignatureManifest_def sample_layers add_data_layer_def add_signature_layer_def
        new_package_def sample_built_def)
  have "''other'' \<noteq> OCI_MANIFEST_MEDIA_TYPE" by (simp add: OCI_MANIFEST_MEDIA_TYPE_def)
  then show ?thesis unfolding sample_descriptors_def built
    by (simp add: processManifest_def act_bind_def act_fail_def act_return_def)
qed

lemma sample_store_files:
  "pk_backingStore p = Some sample_files \<Longrightarrow>
     with_store (\<lambda>s. bs_readFile sample_store s (path_of_string OCI_LAYOUT_FILE_NAME) OCI_LAYOUT_FILE_MAX_SIZE) p = (Done [1], p)"
  "pk_backingStore p = Some sample_files \<Longrightarrow>
     with_store (\<lambda>s. bs_readFile sample_store s (path_of_string OCI_INDEX_FILE_NAME) OCI_INDEX_FILE_MAX_SIZE) p = (Done [2], p)"
  using sample_top_paths(1) [THEN not_sym]
  by (simp_all add: with_store_def sample_store_def sample_files_def)

lemma new_package_store [simp]: "pk_backingStore (new_package s mounter) = Some s"
  by (simp add: new_package_def)

lemma sample_build:
  "buildContentsTree sample_store (sample_libs broken) (new_package sample_files False) =
     (if broken then Fail PackageContentsInvalid else Done (), sample_built)"
proof -
  have "checkOciLayoutFile (sample_libs broken) [1] = Inr ()"
    by (simp add: checkOciLayoutFile_def sample_libs_def sample_parse_def)
  moreover have "check_contents sample_built = (Done (), sample_built)"
    by (simp add: check_contents_def sample_built_def sample_digest_Cons)
  ultimately show ?thesis
    by (simp add: buildContentsTree_def act_bind_def sample_store_files act_result_def sample_index_parse sample_manifests)
qed

definition sample_signed :: "((path \<times> bytes) list, unit, metadata) oci_package" where
  "sample_signed = sample_built\<lparr>pk_signingCerts := [()], pk_verifiedManifest := True\<rparr>"

lemma sample_built_sel [simp]:
  "pk_backingStore sample_built = Some sample_files" "pk_manifestDigest sample_built = sample_digest (CHR ''1'')"
  "pk_config sample_built = Some (parsed_sample PACKAGE_CONFIG_MEDIA_TYPE (CHR ''3''))"
  "pk_image sample_built = Some (parsed_sample (PACKAGE_IMAGE_MEDIA_TYPE_PREFIX @ ''zip'') (CHR ''4''))"
  "pk_others sample_built = [parsed_sample ''secrets'' (CHR ''8'')]" "pk_metaData sample_built = None"
  "pk_signature sample_built = Some (parsed_sample PACKAGE_SIGNATURE_MEDIA_TYPE (CHR ''5'')
     \<lparr>od_annotations := [(COSIGN_SIGNATURE, ''s''), (COSIGN_CERTIFICATE, ''c'')]\<rparr>)"
  by (simp_all add: sample_built_def new_package_def)

lemma sample_annotations:
  "signature_annotations (sample_libs broken) [(COSIGN_SIGNATURE, ''s''), (COSIGN_CERTIFICATE, ''c'')] no_signature =
     Inr \<lparr>sg_signature = of_string ''s'', sg_certificate = Some (), sg_chain = []\<rparr>"
  by (simp add: sample_libs_def no_signature_def COSIGN_SIGNATURE_def COSIGN_CERTIFICATE_def)

lemma sample_payload: "verifySignaturePayload (sample_libs broken) (sample_digest (CHR ''1'')) [85] = Inr ()"
  using sample_digest_checked [OF sample_xdigits(1)]
  by (simp add: verifySignaturePayload_def sample_libs_def sample_parse_def sample_critical_def
      VerifiedType_def VerifiedIdentity_def VerifiedManifestDigest_def)

lemma sample_libs_sel:
  "verifyCertificate (sample_libs broken) = (\<lambda>_ _ _ _. True)" "verifySignature (sample_libs broken) = (\<lambda>d _ _. d = [85])"
  "fromConfigJson (sample_libs broken) [51] = Inr sample_metadata"
  by (simp_all add: sample_libs_def sample_parse_def sample_accepted)

lemma sample_verifies:
  "readAndVerifySignature sample_store (sample_libs broken) () True sample_built = (Done (), sample_signed)"
proof -
  have "readBlob sample_store (sample_libs broken) (sample_digest (CHR ''5'')) (Suc 0) p = (Done [85], p)"
    if "pk_backingStore p = Some sample_files" for p :: "((path \<times> bytes) list, unit, metadata) oci_package"
    using sample_readBlob [of "CHR ''5''" p broken] that by (simp add: hexDigitToByte_def)
  then show ?thesis
    by (simp add: readAndVerifySignature_def act_bind_def act_result_def act_modify_def act_error_def
        sample_annotations sample_libs_sel of_string_def sample_payload sample_signed_def del: signature_annotations.simps)
qed

lemma sample_opened_signed: "sample_opened False = Done sample_signed"
  by (simp add: sample_opened_def openPackageImpl_def oci_open_def construct_package_def sample_build sample_verifies
      package_isValid_def sample_digest_Cons)

text \<open>
  C31. If the contents cannot be built but the data manifest has been read, a package that is opened with a
  bundle and has a signing certificate the bundle accepts reads its signed payload through a null pointer:
  the check after the construction looks at the descriptors alone.
\<close>

theorem failed_build_null_pointer:
  assumes "construct_package B L s mounter = Done (p, Some e)" "package_isValid p"
    and "pk_signature p = Some sd" "signature_annotations L (od_annotations sd) no_signature = Inr g"
    and "sg_signature g \<noteq> []" "sg_certificate g = Some certificate"
    and "verifyCertificate L bundle certificate (sg_chain g) checkExpiry"
    and "od_size sd \<le> SIGNED_PAYLOAD_MAX_SIZE" "validateSha256Digest (od_digest sd)"
  shows "openPackageImpl B L s mounter (Some bundle) checkExpiry = Undefined NullPointer"
proof -
  have "pk_backingStore p = None"
    using assms(1) by (auto simp: construct_package_def split: prod.splits outcome.splits)
  then have "fst (readAndVerifySignature B L bundle checkExpiry p) = Undefined NullPointer"
    using assms(3-9)
    by (simp add: readAndVerifySignature_def act_bind_def act_result_def act_modify_def act_error_def readBlob_def
        with_store_def)
  then show ?thesis using assms(1,2)
    by (auto simp: openPackageImpl_def oci_open_def split: prod.splits)
qed

theorem failed_build_null_pointer_witness: "sample_opened True = Undefined NullPointer"
proof -
  have "construct_package sample_store (sample_libs True) sample_files False =
      Done (sample_built\<lparr>pk_backingStore := None\<rparr>, Some PackageContentsInvalid)"
    by (simp add: construct_package_def sample_build)
  from failed_build_null_pointer [OF this, of _ _ "()" "()" True] show ?thesis
    using sample_annotations sample_digest_valid [OF sample_xdigits(5)]
    by (simp add: sample_opened_def package_isValid_def sample_libs_sel of_string_def sample_digest_Cons del: signature_annotations.simps)
qed

text \<open>A layer of the manifest that is signed.\<close>

definition signed_layer :: "('b, 'c, 'm) package_libs \<Rightarrow> ('s, 'c, 'm) oci_package \<Rightarrow> oci_descriptor \<Rightarrow> bool" where
  "signed_layer L p d \<longleftrightarrow>
     (\<exists>blob config layers. lib_sha256 L blob = hexStringToBytes (pk_manifestDigest p) \<and>
       manifest_contents L blob = Inr (config, layers) \<and> d \<in> set layers)"

lemma sample_signed_blob:
  assumes "lib_sha256 (sample_libs broken) blob = hexStringToBytes (sample_digest (CHR ''1''))"
    "manifest_contents (sample_libs broken) blob = Inr contents"
  shows "blob = [17]"
proof (rule ccontr)
  assume not: "blob \<noteq> [17]"
  have "blob \<noteq> []" "hd blob = 17"
    using assms(1) by (auto simp: sample_digest_bytes sample_xdigits hexDigitToByte_def sample_libs_def split: if_splits)
  then have "sample_parse broken blob = JDiscarded" using not by (auto simp: sample_parse_def)
  then have "manifest_contents (sample_libs broken) blob = Inl PackageContentsInvalid"
    by (simp add: manifest_contents_def sample_libs_def)
  with assms(2) show False by simp
qed

text \<open>
  C30. The auxiliary layers of a package are collected from every data manifest of the index, of which the
  signature names only the last: the sample package opens, its signature verifies, and it hands out a
  file that no signed manifest lists.
\<close>

theorem unsigned_aux_layer:
  "\<exists>p x p' d. sample_opened False = Done p \<and> signed_by (sample_libs False) () True p \<and>
     auxMetaDataFile sample_store (sample_libs False) ''secrets'' 0 p = (Done x, p') \<and> ax_data x = [136] \<and>
     aux_descriptor p ''secrets'' 0 = Some d \<and> \<not> signed_layer (sample_libs False) p d"
proof -
  let ?d = "parsed_sample ''secrets'' (CHR ''8'')"
  have d: "aux_descriptor sample_signed ''secrets'' 0 = Some ?d"
    by (simp add: aux_descriptor_def sample_signed_def PACKAGE_CONFIG_MEDIA_TYPE_def)
  have "readBlob sample_store (sample_libs False) (sample_digest (CHR ''8'')) (Suc 0) sample_signed = (Done [136], sample_signed)"
    using sample_readBlob [of "CHR ''8''" sample_signed False] by (simp add: sample_signed_def hexDigitToByte_def)
  then have "auxMetaDataFile sample_store (sample_libs False) ''secrets'' 0 sample_signed =
      (Done \<lparr>ax_mediaType = ''secrets'', ax_index = 0, ax_data = [136], ax_annotations = []\<rparr>, sample_signed)"
    using d by (simp add: auxMetaDataFile_def act_bind_def act_return_def)
  moreover have "signed_by (sample_libs False) () True sample_signed"
    using readAndVerifySignature_ok(1) [OF sample_verifies] .
  moreover have "\<not> signed_layer (sample_libs False) sample_signed ?d"
  proof
    assume "signed_layer (sample_libs False) sample_signed ?d"
    then obtain blob config layers where "lib_sha256 (sample_libs False) blob = hexStringToBytes (sample_digest (CHR ''1''))"
      "manifest_contents (sample_libs False) blob = Inr (config, layers)" "?d \<in> set layers"
      by (auto simp: signed_layer_def sample_signed_def)
    then show False
      using sample_signed_blob [of False blob] sample_manifest_contents(1) [of False] by (auto simp: parsed_sample_def)
  qed
  ultimately show ?thesis using sample_opened_signed d by fastforce
qed

lemma sample_checks:
  assumes c: "c \<in> {CHR ''1'', CHR ''2'', CHR ''3'', CHR ''4'', CHR ''5'', CHR ''6'', CHR ''8''}"
    and p: "pk_backingStore p = Some sample_files"
  shows "calcAndCheckBlobDigest sample_store (sample_libs broken) (parsed_sample mediaType c) p = Some (Done (), p)"
proof -
  let ?b = "[push_bit 4 (hexDigitToByte c) OR hexDigitToByte c]"
  have x: "is_xdigit c" using c sample_xdigits by auto
  have "getBlobReader sample_store (sample_digest c) p = (Done ?b, p)"
    using p x sample_blob_bytes [OF c]
    by (simp add: getBlobReader_def sample_digest_valid with_store_def sample_store_def)
  moreover have "digest_loop sample_store (sample_libs broken) (sample_digest c) ?b = Some (Inr ())"
    using x unfolding digest_loop_def
    by (subst loop_Continue, simp add: digest_round_def sample_store_def)
      (rule loop_Return, simp add: digest_round_def sample_store_def sample_libs_def sample_digest_bytes)
  ultimately show ?thesis using p by (simp add: calcAndCheckBlobDigest_def)
qed

lemma sample_package_verifies:
  "package_verify sample_store (sample_libs False) sample_signed = Some (Done (), sample_signed)"
  by (simp add: package_verify_def sample_signed_def sample_checks)

theorem verified_package_blobs_witness:
  "pk_verifiedManifest sample_signed \<and> pk_backingStore sample_signed = Some sample_files \<and>
   stored_blob sample_store (sample_libs False) sample_files (parsed_sample ''secrets'' (CHR ''8''))"
proof -
  have "pk_backingStore sample_signed = Some sample_files" "parsed_sample ''secrets'' (CHR ''8'') \<in> set (pk_others sample_signed)"
    by (simp_all add: sample_signed_def)
  then show ?thesis using verified_package_blobs [OF sample_package_verifies] by auto
qed

lemma sample_metaData:
  "package_run sample_store (sample_libs False) [OpMetaData, OpVerify] sample_signed =
     Some ([Done (GotMetaData sample_metadata), Done GotNothing], sample_signed\<lparr>pk_metaData := Some sample_metadata\<rparr>)"
proof -
  have "readBlob sample_store (sample_libs False) (sample_digest (CHR ''3'')) (Suc 0) sample_signed = (Done [51], sample_signed)"
    using sample_readBlob [of "CHR ''3''" sample_signed False] by (simp add: sample_signed_def hexDigitToByte_def)
  then have "package_metaData sample_store (sample_libs False) sample_signed = (Done sample_metadata, sample_signed\<lparr>pk_metaData := Some sample_metadata\<rparr>)"
    by (simp add: package_metaData_def sample_signed_def act_bind_def act_error_def act_result_def act_modify_def act_return_def
        sample_libs_sel)
  then show ?thesis
    by (simp add: act_reply_def act_bind_def act_return_def package_verify_def sample_signed_def sample_checks)
qed

theorem opened_package_trusted_witness:
  "\<exists>p rs p'. sample_opened False = Done p \<and>
     package_run sample_store (sample_libs False) [OpMetaData, OpVerify] p = Some (rs, p') \<and>
     signed_by (sample_libs False) () True p' \<and> from_manifest (sample_libs False) p' \<and> parsed_config (sample_libs False) p' sample_metadata"
  using opened_package_trusted [OF sample_opened_signed [unfolded sample_opened_def] sample_metaData] sample_metaData
    sample_opened_signed by auto

theorem signed_package_permissions_witness:
  "\<exists>kvs. sample_document = JObject kvs \<and> listed_permissions kvs = {''home'', ''net''} \<and> signed_by (sample_libs False) () True sample_signed"
proof -
  have parser: "metadata_fromConfigJson (json_parse (sample_libs False) False content) = Done m"
    if "fromConfigJson (sample_libs False) content = Inr m" for content m
    using that by (auto simp: sample_libs_def split: outcome.splits)
  have "signed_by (sample_libs False) () True (sample_signed\<lparr>pk_metaData := Some sample_metadata\<rparr>)"
    using signed_package_permissions [OF sample_opened_signed [unfolded sample_opened_def] sample_metaData _ parser, of sample_metadata] by simp
  then show ?thesis
    by (auto simp: sample_document_def listed_permissions_def signed_by_def)
qed

end
