(* ===== verification/OCIBackingStore.thy ===== *)
theory OCIBackingStore
  imports OCITrust ArchiveEntries
begin

section \<open>Archives and directories as backing stores\<close>

text \<open>
  \<open>lib/oci/OCIArchiveBackingStore.cpp\<close> and \<open>lib/oci/OCIDirBackingStore.cpp\<close>, with the format of an
  archive from \<open>lib/archive/LibarchiveCommon.cpp\<close> and \<open>LibarchiveFileReader.cpp\<close>.  libarchive is the record of
  functions of \<open>ArchiveEntries\<close>, extended by what a reader of a file has in addition.  Both stores are shown
  to keep the contract of \<open>OCIStore\<close>.
\<close>

subsection \<open>Readers of archive files\<close>

datatype archive_format = UnknownFormat | Tarball | TarballGzip | TarballZstd | Zip | ZipStream

datatype format_base = BaseTar | BaseZip | BaseOther

datatype archive_filter = FilterNone | FilterGzip | FilterZstd | FilterOther

text \<open>The filters of a tar archive in their order; one that is not known ends the search.\<close>

fun tar_format :: "archive_filter list \<Rightarrow> archive_format" where
  "tar_format [] = Tarball"
| "tar_format (FilterGzip # fs) = TarballGzip"
| "tar_format (FilterZstd # fs) = TarballZstd"
| "tar_format (FilterNone # fs) = tar_format fs"
| "tar_format (FilterOther # fs) = UnknownFormat"

fun archiveFormat :: "format_base \<Rightarrow> archive_filter list \<Rightarrow> archive_format" where
  "archiveFormat BaseTar fs = tar_format fs"
| "archiveFormat BaseZip fs = Zip"
| "archiveFormat BaseOther fs = UnknownFormat"

text \<open>
  A reader of a file: \<open>clone\<close> starts again at the first entry and may fail; \<open>archive_file\<close> is the file
  behind the descriptor and \<open>dup_fd\<close> a duplicate of the descriptor.
\<close>

record 'a file_archive = "'a libarchive" +
  clone :: "'a \<Rightarrow> 'a option"
  formatBase :: "'a \<Rightarrow> format_base"
  filters :: "'a \<Rightarrow> archive_filter list"
  headerOffset :: "'a \<Rightarrow> int"
  archive_fd :: "'a \<Rightarrow> int"
  archive_file :: "'a \<Rightarrow> bytes"
  dup_fd :: "'a \<Rightarrow> nat option"

definition reader_format :: "archive_format set \<Rightarrow> 'a file_archive \<Rightarrow> 'a \<Rightarrow> archive_format" where
  "reader_format required la a =
     (let f = archiveFormat (formatBase la a) (filters la a) in
      if f = Zip \<and> required \<inter> {Zip, ZipStream} = {ZipStream} then ZipStream else f)"

text \<open>The formats the store asks for.\<close>

definition store_formats :: "archive_format set" where
  "store_formats = {Tarball, TarballZstd, TarballGzip, ZipStream}"

subsection \<open>The archive store\<close>

record 'a store_state =
  ss_lib :: "'a file_archive"
  ss_archive :: 'a
  ss_size :: int
  ss_cache :: "(path \<times> bytes) list"

text \<open>The size of an entry and the buffer are compared as signed numbers; a failing read ends the loop.\<close>

function read_entry_loop :: "('a, 'z) libarchive_scheme \<Rightarrow> int \<Rightarrow> 'a \<Rightarrow> bytes \<Rightarrow> (error_code + bytes) \<times> 'a" where
  "read_entry_loop la sz a buffer =
     (case readData la 4096 a of
        (None, a') \<Rightarrow> (Inr buffer, a')
      | (Some d, a') \<Rightarrow>
          if d = [] then (Inr buffer, a')
          else if int (length buffer + length d) > sz then (Inl PackageFileTooLarge, a')
          else read_entry_loop la sz a' (buffer @ d))"
  by pat_completeness auto

termination
proof (relation "measure (\<lambda>(la, sz, a, buffer). nat sz - length buffer)")
  fix la :: "('a, 'z) libarchive_scheme" and sz :: int and a a' :: 'a and buffer d :: bytes
  assume "d \<noteq> []" "\<not> int (length buffer + length d) > sz"
  then have "length buffer + length d \<le> nat sz" "0 < length d" by auto
  then have "nat sz - (length buffer + length d) < nat sz - length buffer" by linarith
  then show "((la, sz, a', buffer @ d), la, sz, a, buffer) \<in> measure (\<lambda>(la, sz, a, buffer). nat sz - length buffer)"
    by simp
qed simp

declare read_entry_loop.simps [simp del]

definition readArchiveFileEntry ::
  "('a, 'z) libarchive_scheme \<Rightarrow> archive_entry \<Rightarrow> int \<Rightarrow> 'a \<Rightarrow> (error_code + bytes) \<times> 'a" where
  "readArchiveFileEntry la e maxSize a =
     (if ae_size e < 0 \<or> ae_size e > maxSize then (Inl PackageFileTooLarge, a)
      else read_entry_loop la (ae_size e) a [])"

definition is_regular_entry :: "archive_entry \<Rightarrow> bool" where
  "is_regular_entry e \<longleftrightarrow> ae_filetype e AND AE_IFMT = AE_IFREG \<and> ae_pathname e \<noteq> None"

text \<open>
  The size that is taken off the space is that of the contents after they have been moved into the cache,
  which leaves an empty vector behind.
\<close>

definition cacheThreshold :: int where "cacheThreshold = 16 * 1024"
definition cacheLimit :: int where "cacheLimit = 64 * 1024"

definition moved_from :: "bytes \<Rightarrow> bytes" where "moved_from contents = []"

definition cache_round ::
  "'a file_archive \<Rightarrow> 'a \<times> (path \<times> bytes) list \<times> int \<Rightarrow> ('a \<times> (path \<times> bytes) list \<times> int, 'a \<times> (path \<times> bytes) list) step" where
  "cache_round la st =
     (case st of (a, cache, cacheSpace) \<Rightarrow>
       (case nextHeader la a of
          (HeaderOk e, a') \<Rightarrow>
            if \<not> is_regular_entry e \<or> ae_size e \<le> 0 then Continue (a', cache, cacheSpace)
            else let p = path_of_string (the (ae_pathname e)) in
              if ae_size e \<le> cacheThreshold \<and> ae_size e \<le> cacheSpace \<and> map_of cache p = None then
                (case readArchiveFileEntry la e (ae_size e) a' of
                   (Inr contents, a'') \<Rightarrow> Continue (a'', cache @ [(p, contents)], cacheSpace - int (length (moved_from contents)))
                 | (Inl _, a'') \<Rightarrow> Continue (a'', cache, cacheSpace))
              else Continue (a', cache, cacheSpace)
        | (_, a') \<Rightarrow> Return (a', cache)))"

definition cacheSmallFiles :: "'a file_archive \<Rightarrow> 'a \<Rightarrow> ('a \<times> (path \<times> bytes) list) option" where
  "cacheSmallFiles la a = loop (cache_round la) (a, [], cacheLimit)"

definition new_archive_store :: "'a file_archive \<Rightarrow> 'a \<Rightarrow> int \<Rightarrow> bool \<Rightarrow> 'a store_state option" where
  "new_archive_store la a sz enableCache =
     (if enableCache then
        map_option (\<lambda>(a', cache). \<lparr>ss_lib = la, ss_archive = a', ss_size = sz, ss_cache = cache\<rparr>) (cacheSmallFiles la a)
      else Some \<lparr>ss_lib = la, ss_archive = a, ss_size = sz, ss_cache = []\<rparr>)"

definition supportsMountableFiles :: "'a store_state \<Rightarrow> bool" where
  "supportsMountableFiles st \<longleftrightarrow>
     (let f = reader_format store_formats (ss_lib st) (ss_archive st) in f = Tarball \<or> f = ZipStream)"

text \<open>
  The search for an entry: \<open>sized\<close> is the check of the size that \<open>readFile\<close> has.  \<open>None\<close> is a search
  that never ends, \<open>Some None\<close> one that reaches the end or an error of the archive.
\<close>

definition find_round :: "'a file_archive \<Rightarrow> bool \<Rightarrow> path \<Rightarrow> 'a \<Rightarrow> ('a, (archive_entry \<times> 'a) option) step" where
  "find_round la sized p a =
     (case nextHeader la a of
        (HeaderOk e, a') \<Rightarrow>
          if \<not> is_regular_entry e \<or> (sized \<and> ae_size e < 0) then Continue a'
          else if p = path_of_string (the (ae_pathname e)) then Return (Some (e, a'))
          else Continue a'
      | (_, a') \<Rightarrow> Return None)"

definition find_entry :: "'a file_archive \<Rightarrow> bool \<Rightarrow> path \<Rightarrow> 'a \<Rightarrow> (archive_entry \<times> 'a) option option" where
  "find_entry la sized p a = loop (find_round la sized p) a"

definition archive_readFile :: "'a store_state \<Rightarrow> path \<Rightarrow> nat \<Rightarrow> (error_code + bytes) option" where
  "archive_readFile st p maxSize =
     (case map_of (ss_cache st) p of
        Some c \<Rightarrow> Some (if length c > maxSize then Inl PackageFileTooLarge else Inr c)
      | None \<Rightarrow>
          (case clone (ss_lib st) (ss_archive st) of
             None \<Rightarrow> Some (Inl InternalError)
           | Some a \<Rightarrow>
               map_option (\<lambda>found. case found of
                   None \<Rightarrow> Inl PackageContentsInvalid
                 | Some (e, a') \<Rightarrow>
                     if ae_size e > get_int64 (int maxSize) then Inl PackageFileTooLarge
                     else fst (readArchiveFileEntry (ss_lib st) e (ae_size e) a'))
                 (find_entry (ss_lib st) True p a)))"

subsection \<open>Readers of files in the store\<close>

datatype 'a entry_reader = BufferReader bytes int | ArchiveEntryReader "'a file_archive" 'a int

datatype whence = SEEK_SET | SEEK_CUR | SEEK_END

fun entry_reader_read :: "'a entry_reader \<Rightarrow> nat \<Rightarrow> bytes option \<times> 'a entry_reader" where
  "entry_reader_read (BufferReader buffer off) n =
     (if off \<ge> int (length buffer) then (Some [], BufferReader buffer off)
      else let d = take (min n (nat (int (length buffer) - off))) (drop (nat off) buffer) in
        (Some d, BufferReader buffer (off + int (length d))))"
| "entry_reader_read (ArchiveEntryReader la a sz) n =
     (case readData la n a of (d, a') \<Rightarrow> (d, ArchiveEntryReader la a' sz))"

fun entry_reader_size :: "'a entry_reader \<Rightarrow> int" where
  "entry_reader_size (BufferReader buffer off) = int (length buffer)"
| "entry_reader_size (ArchiveEntryReader la a sz) = sz"

definition buffer_seek :: "bytes \<Rightarrow> int \<Rightarrow> int \<Rightarrow> whence \<Rightarrow> int" where
  "buffer_seek buffer off n whence =
     (let to = (case whence of SEEK_SET \<Rightarrow> n | SEEK_CUR \<Rightarrow> off + n | SEEK_END \<Rightarrow> int (length buffer) + n)
      in if to < 0 then 0 else if to > int (length buffer) then int (length buffer) else to)"

definition archive_getFile :: "'a store_state \<Rightarrow> path \<Rightarrow> (error_code + 'a entry_reader) option" where
  "archive_getFile st p =
     (case map_of (ss_cache st) p of
        Some c \<Rightarrow> Some (Inr (BufferReader c 0))
      | None \<Rightarrow>
          (case clone (ss_lib st) (ss_archive st) of
             None \<Rightarrow> Some (Inl InternalError)
           | Some a \<Rightarrow>
               map_option (\<lambda>found. case found of
                   None \<Rightarrow> Inl PackageContentsInvalid
                 | Some (e, a') \<Rightarrow> Inr (ArchiveEntryReader (ss_lib st) a' (ae_size e)))
                 (find_entry (ss_lib st) False p a)))"

subsection \<open>Mapping a file of an archive\<close>

abbreviation MAX_MMAP_FILE_SIZE :: int where "MAX_MMAP_FILE_SIZE \<equiv> 2147483648"
abbreviation OFF_MAX :: int where "OFF_MAX \<equiv> 9223372036854775807"

definition tar_round_up :: "nat \<Rightarrow> nat \<Rightarrow> nat" where
  "tar_round_up n s = (n + s - 1) div s * s"

text \<open>\<open>strtoul(s, nullptr, 8)\<close> on the bytes up to the first null.\<close>

definition is_octal :: "char \<Rightarrow> bool" where
  "is_octal c \<longleftrightarrow> CHR ''0'' \<le> c \<and> c \<le> CHR ''7''"

fun octal_val :: "nat \<Rightarrow> string \<Rightarrow> nat" where
  "octal_val v [] = v"
| "octal_val v (c # cs) = octal_val (8 * v + digit_val c) cs"

definition strtoul_octal :: "bytes \<Rightarrow> nat" where
  "strtoul_octal bs =
     (let t = dropWhile is_space (to_string (takeWhile (\<lambda>b. b \<noteq> 0) bs));
          neg = (t \<noteq> [] \<and> hd t = CHR ''-'');
          digits = takeWhile is_octal (if t \<noteq> [] \<and> (hd t = CHR ''-'' \<or> hd t = CHR ''+'') then tl t else t);
          v = octal_val 0 digits
      in if v > SIZE_MAX then SIZE_MAX else if neg then sz_sub 0 v else v)"

text \<open>
  The checks both formats start with: the descriptor, the size of the entry and the offset of its header,
  against the largest offset of a file.
\<close>

definition check_mapping :: "'a file_archive \<Rightarrow> 'a \<Rightarrow> archive_entry \<Rightarrow> error_code + nat \<times> nat" where
  "check_mapping la a e =
     (if archive_fd la a < 0 then Inl InternalError
      else if ae_size e \<le> 0 \<or> ae_size e > MAX_MMAP_FILE_SIZE then Inl PackageFileTooLarge
      else if headerOffset la a < 0 \<or> headerOffset la a \<ge> OFF_MAX - ae_size e then Inl InternalError
      else Inr (nat (headerOffset la a), nat (ae_size e)))"

definition image_range :: "'a file_archive \<Rightarrow> 'a \<Rightarrow> nat \<Rightarrow> nat \<Rightarrow> error_code + mappable_file" where
  "image_range la a imageOffset imageSize =
     (if sz_add imageOffset imageSize < imageOffset then Inl PackageContentsInvalid
      else if sz_add imageOffset imageSize > nat OFF_MAX then Inl PackageContentsInvalid
      else case dup_fd la a of
        None \<Rightarrow> Inl SystemCallFailed
      | Some fd \<Rightarrow> Inr \<lparr>mf_fd = fd, mf_offset = imageOffset, mf_size = imageSize\<rparr>)"

text \<open>The type of a tar header is its byte 156, and its size field starts at byte 124.\<close>

definition regular_type :: "byte \<Rightarrow> bool" where
  "regular_type t \<longleftrightarrow> t = 0x30 \<or> t = 0"

definition extension_type :: "byte \<Rightarrow> bool" where
  "extension_type t \<longleftrightarrow> t = 0x78 \<or> t = 0x67 \<or> t = 0x4B \<or> t = 0x4C"

function walk_tar_headers :: "'a file_archive \<Rightarrow> 'a \<Rightarrow> nat \<Rightarrow> nat \<Rightarrow> error_code + mappable_file" where
  "walk_tar_headers la a entrySize offset =
     (case pread_full (archive_file la a) 512 offset of
        None \<Rightarrow> Inl SystemCallFailed
      | Some header \<Rightarrow>
          let dataSize = strtoul_octal (slice 124 12 header) in
          if dataSize = 0 \<or> dataSize > nat MAX_MMAP_FILE_SIZE then Inl PackageContentsInvalid
          else if regular_type (header ! 156) then image_range la a (sz_add offset 512) entrySize
          else if extension_type (header ! 156) then
            walk_tar_headers la a entrySize (offset + (512 + tar_round_up dataSize 512))
          else Inl PackageContentsInvalid)"
  by pat_completeness auto

termination
proof (relation "measure (\<lambda>(la, a, entrySize, offset). length (archive_file la a) - offset)")
  fix la :: "'a file_archive" and a entrySize offset header dataSize
  assume "pread_full (archive_file la a) 512 offset = Some header"
  then have "length (slice offset 512 (archive_file la a)) = 512" by (auto simp: pread_full_Some)
  then have "offset < length (archive_file la a)" by (auto simp: slice_def)
  then show "((la, a, entrySize, offset + (512 + tar_round_up dataSize 512)), la, a, entrySize, offset)
      \<in> measure (\<lambda>(la, a, entrySize, offset). length (archive_file la a) - offset)"
    by simp
qed simp

declare walk_tar_headers.simps [simp del]

definition getTarArchiveEntryMappableFile :: "'a file_archive \<Rightarrow> 'a \<Rightarrow> archive_entry \<Rightarrow> error_code + mappable_file" where
  "getTarArchiveEntryMappableFile la a e =
     bind_result (check_mapping la a e) (\<lambda>(offset, entrySize).
       if offset mod 512 \<noteq> 0 then Inl InternalError else walk_tar_headers la a entrySize offset)"

text \<open>The local file header of a zip archive: 30 bytes, all fields little-endian.\<close>

record zip_file_header =
  zh_magic :: nat
  zh_compression :: nat
  zh_compressedSize :: nat
  zh_uncompressedSize :: nat
  zh_fileNameLength :: nat
  zh_extraFieldLength :: nat

definition read_zip_header :: "bytes \<Rightarrow> zip_file_header" where
  "read_zip_header b =
     \<lparr>zh_magic = le32_at b 0, zh_compression = le16_at b 8, zh_compressedSize = le32_at b 18,
      zh_uncompressedSize = le32_at b 22, zh_fileNameLength = le16_at b 26, zh_extraFieldLength = le16_at b 28\<rparr>"

definition getZipArchiveEntryMappableFile :: "'a file_archive \<Rightarrow> 'a \<Rightarrow> archive_entry \<Rightarrow> error_code + mappable_file" where
  "getZipArchiveEntryMappableFile la a e =
     bind_result (check_mapping la a e) (\<lambda>(offset, entrySize).
       case pread_full (archive_file la a) 30 offset of
         None \<Rightarrow> Inl SystemCallFailed
       | Some b \<Rightarrow>
           let h = read_zip_header b; imageSize = zh_uncompressedSize h;
               imageOffset = sz_add offset (30 + zh_fileNameLength h + zh_extraFieldLength h)
           in if zh_magic h \<noteq> 0x04034b50 then Inl PackageContentsInvalid
              else if zh_compression h \<noteq> 0 then Inl PackageContentsInvalid
              else if zh_compressedSize h \<noteq> zh_uncompressedSize h then Inl PackageContentsInvalid
              else if zh_uncompressedSize h > nat MAX_MMAP_FILE_SIZE then Inl PackageFileTooLarge
              else if zh_uncompressedSize h = 0 then Inl PackageContentsInvalid
              else if imageSize \<noteq> entrySize then Inl PackageContentsInvalid
              else if imageOffset = 0 \<or> imageOffset \<ge> nat OFF_MAX - imageSize then Inl PackageContentsInvalid
              else image_range la a imageOffset imageSize)"

definition archive_getMappableFile :: "'a store_state \<Rightarrow> path \<Rightarrow> (error_code + mappable_file) option" where
  "archive_getMappableFile st p =
     (let la = ss_lib st in
      case clone la (ss_archive st) of
        None \<Rightarrow> Some (Inl InternalError)
      | Some a \<Rightarrow>
          map_option (\<lambda>found. case found of
              None \<Rightarrow> Inl PackageContentsInvalid
            | Some (e, a') \<Rightarrow>
                (case reader_format store_formats la a' of
                   Tarball \<Rightarrow> getTarArchiveEntryMappableFile la a' e
                 | ZipStream \<Rightarrow> getZipArchiveEntryMappableFile la a' e
                 | _ \<Rightarrow> Inl PackageContentsInvalid))
            (find_entry la False p a))"

text \<open>
  The store as the package sees it.  The interface has no value for a call that does not return; such a call
  has the error of an internal failure here.
\<close>

definition returned :: "(error_code + 'a) option \<Rightarrow> error_code + 'a" where
  "returned r = (case r of None \<Rightarrow> Inl InternalError | Some r \<Rightarrow> r)"

definition archive_store :: "('a store_state, 'a entry_reader) backing_store" where
  "archive_store =
     \<lparr>bs_size = ss_size, bs_supportsMountableFiles = supportsMountableFiles,
      bs_readFile = (\<lambda>st p n. (returned (archive_readFile st p n), st)),
      bs_getFile = (\<lambda>st p. (returned (archive_getFile st p), st)),
      bs_getMappableFile = (\<lambda>st p. (returned (archive_getMappableFile st p), st)),
      rd_read = entry_reader_read, rd_size = entry_reader_size\<rparr>"

subsection \<open>The directory store\<close>

text \<open>
  A directory is a record of the answers of the file system for the paths below it and of the system calls on
  an open file \<open>'f\<close>; a read gives \<open>None\<close> for a negative result.
\<close>

record 'f directory =
  dir_exists :: "path \<Rightarrow> bool"
  dir_is_regular :: "path \<Rightarrow> bool"
  dir_open :: "path \<Rightarrow> 'f option"
  dir_fstat :: "'f \<Rightarrow> int option"
  dir_read :: "'f \<Rightarrow> nat \<Rightarrow> bytes option \<times> 'f"
  dir_fd :: "'f \<Rightarrow> nat"

record 'f dir_state =
  ds_lib :: "'f directory"
  ds_base :: path

definition path_join :: "path \<Rightarrow> path \<Rightarrow> path" where
  "path_join base p = (if p_absolute p then p else p\<lparr>p_absolute := p_absolute base, p_names := p_names base @ p_names p\<rparr>)"

definition dir_lookup :: "'f dir_state \<Rightarrow> path \<Rightarrow> error_code + 'f" where
  "dir_lookup st p =
     (let full = path_join (ds_base st) p in
      if \<not> dir_exists (ds_lib st) full then Inl PackageInvalidEntry
      else if \<not> dir_is_regular (ds_lib st) full then Inl PackageContentsInvalid
      else case dir_open (ds_lib st) full of None \<Rightarrow> Inl SystemCallFailed | Some f \<Rightarrow> Inr f)"

text \<open>The loop over \<open>read\<close>: what has been read so far is the front of the buffer.\<close>

function dir_read_loop :: "'f directory \<Rightarrow> nat \<Rightarrow> 'f \<Rightarrow> bytes \<Rightarrow> error_code + bytes" where
  "dir_read_loop D fileSize f buffer =
     (if length buffer < fileSize then
        (case dir_read D f (fileSize - length buffer) of
           (None, f') \<Rightarrow> Inl SystemCallFailed
         | (Some d, f') \<Rightarrow> if d = [] then Inl SystemCallFailed else dir_read_loop D fileSize f' (buffer @ d))
      else Inr buffer)"
  by pat_completeness auto

termination
proof (relation "measure (\<lambda>(D, fileSize, f, buffer). fileSize - length buffer)")
  fix D :: "'f directory" and fileSize :: nat and f f' :: 'f and buffer d :: bytes
  assume "length buffer < fileSize" "d \<noteq> []"
  then have "fileSize - (length buffer + length d) < fileSize - length buffer"
    using length_greater_0_conv [of d] by linarith
  then show "((D, fileSize, f', buffer @ d), D, fileSize, f, buffer)
      \<in> measure (\<lambda>(D, fileSize, f, buffer). fileSize - length buffer)" by simp
qed simp

declare dir_read_loop.simps [simp del]

definition dir_readFile :: "'f dir_state \<Rightarrow> path \<Rightarrow> nat \<Rightarrow> error_code + bytes" where
  "dir_readFile st p maxSize =
     bind_result (dir_lookup st p) (\<lambda>f.
       case dir_fstat (ds_lib st) f of
         None \<Rightarrow> Inl SystemCallFailed
       | Some n \<Rightarrow>
           if n < 0 then Inl SystemCallFailed
           else if nat n > maxSize then Inl PackageFileTooLarge
           else dir_read_loop (ds_lib st) (nat n) f [])"

text \<open>\<open>SimpleFileReader\<close>: the open file with the size it had.\<close>

type_synonym 'f simple_reader = "'f directory \<times> 'f \<times> int"

definition simple_read :: "'f simple_reader \<Rightarrow> nat \<Rightarrow> bytes option \<times> 'f simple_reader" where
  "simple_read r n = (case r of (D, f, sz) \<Rightarrow> (case dir_read D f n of (d, f') \<Rightarrow> (d, (D, f', sz))))"

definition simple_size :: "'f simple_reader \<Rightarrow> int" where
  "simple_size r = (case r of (D, f, sz) \<Rightarrow> sz)"

definition dir_getFile :: "'f dir_state \<Rightarrow> path \<Rightarrow> error_code + 'f simple_reader" where
  "dir_getFile st p =
     bind_result (dir_lookup st p) (\<lambda>f.
       case dir_fstat (ds_lib st) f of None \<Rightarrow> Inl SystemCallFailed | Some n \<Rightarrow> Inr (ds_lib st, f, n))"

definition dir_getMappableFile :: "'f dir_state \<Rightarrow> path \<Rightarrow> error_code + mappable_file" where
  "dir_getMappableFile st p =
     bind_result (dir_lookup st p) (\<lambda>f.
       case dir_fstat (ds_lib st) f of
         None \<Rightarrow> Inl SystemCallFailed
       | Some n \<Rightarrow> Inr \<lparr>mf_fd = dir_fd (ds_lib st) f, mf_offset = 0, mf_size = unat (word_of_int n :: 64 word)\<rparr>)"

definition dir_store :: "('f dir_state, 'f simple_reader) backing_store" where
  "dir_store =
     \<lparr>bs_size = (\<lambda>_. 0), bs_supportsMountableFiles = (\<lambda>_. True),
      bs_readFile = (\<lambda>st p n. (dir_readFile st p n, st)), bs_getFile = (\<lambda>st p. (dir_getFile st p, st)),
      bs_getMappableFile = (\<lambda>st p. (dir_getMappableFile st p, st)),
      rd_read = simple_read, rd_size = simple_size\<rparr>"

subsection \<open>The stores keep the contract\<close>

text \<open>What is documented of libarchive and of the file system: sizes are not negative and fit an offset.\<close>

definition sound_archive :: "'a file_archive \<Rightarrow> bool" where
  "sound_archive la \<longleftrightarrow>
     (\<forall>n a d a'. readData la n a = (Some d, a') \<longrightarrow> length d \<le> n) \<and>
     (\<forall>a e a'. nextHeader la a = (HeaderOk e, a') \<longrightarrow> 0 \<le> ae_size e \<and> ae_size e < 9223372036854775808)"

definition archive_store_ok :: "'a store_state \<Rightarrow> bool" where
  "archive_store_ok st \<longleftrightarrow> sound_archive (ss_lib st) \<and> (\<forall>(p, c) \<in> set (ss_cache st). int (length c) \<le> cacheThreshold)"

fun entry_reader_ok :: "'a entry_reader \<Rightarrow> bool" where
  "entry_reader_ok (BufferReader buffer off) \<longleftrightarrow> 0 \<le> off \<and> int (length buffer) \<le> cacheThreshold"
| "entry_reader_ok (ArchiveEntryReader la a sz) \<longleftrightarrow> sound_archive la \<and> 0 \<le> sz \<and> sz < 9223372036854775808"

definition sound_directory :: "'f directory \<Rightarrow> bool" where
  "sound_directory D \<longleftrightarrow>
     (\<forall>f n d f'. dir_read D f n = (Some d, f') \<longrightarrow> length d \<le> n) \<and>
     (\<forall>f n. dir_fstat D f = Some n \<longrightarrow> 0 \<le> n \<and> n < 9223372036854775808)"

definition simple_reader_ok :: "'f simple_reader \<Rightarrow> bool" where
  "simple_reader_ok r \<longleftrightarrow> (case r of (D, f, sz) \<Rightarrow> sound_directory D \<and> 0 \<le> sz \<and> sz < 9223372036854775808)"

lemma sound_archive_size:
  "sound_archive la \<Longrightarrow> nextHeader la a = (HeaderOk e, a') \<Longrightarrow> 0 \<le> ae_size e \<and> ae_size e < 9223372036854775808"
  unfolding sound_archive_def by blast

lemma sound_directory_size:
  "sound_directory D \<Longrightarrow> dir_fstat D f = Some n \<Longrightarrow> 0 \<le> n \<and> n < 9223372036854775808"
  unfolding sound_directory_def by blast

lemma find_entry_header:
  assumes "find_entry la sized p a = Some (Some (e, a'))"
  shows "\<exists>a0. nextHeader la a0 = (HeaderOk e, a') \<and> is_regular_entry e"
proof -
  have "\<exists>a0. True \<and> find_round la sized p a0 = Return (Some (e, a'))"
    by (rule loop_invariant [OF assms [unfolded find_entry_def]]) auto
  then obtain a0 where "find_round la sized p a0 = Return (Some (e, a'))" by blast
  then show ?thesis by (auto simp: find_round_def split: prod.splits header_answer.splits if_splits)
qed

lemma read_entry_loop_length:
  "read_entry_loop la sz a buffer = (Inr c, a') \<Longrightarrow> int (length buffer) \<le> sz \<Longrightarrow> int (length c) \<le> sz"
proof (induction la sz a buffer rule: read_entry_loop.induct)
  case (1 la sz a buffer)
  obtain d a1 where d: "readData la 4096 a = (d, a1)" by fastforce
  show ?case
  proof (cases d)
    case None
    then show ?thesis using 1 d by (simp add: read_entry_loop.simps [of la sz a buffer])
  next
    case (Some bs)
    then show ?thesis using 1 d
      by (auto simp: read_entry_loop.simps [of la sz a buffer] split: if_splits)
  qed
qed

lemma readArchiveFileEntry_length:
  "readArchiveFileEntry la e maxSize a = (Inr c, a') \<Longrightarrow> int (length c) \<le> ae_size e"
  by (auto simp: readArchiveFileEntry_def dest: read_entry_loop_length split: if_splits)

lemma get_int64_le: "get_int64 (int n) \<le> int n"
proof -
  have "sint (word_of_int (int n) :: 64 word) \<le> uint (word_of_int (int n) :: 64 word)"
    unfolding sint_uint signed_take_bit_int_less_eq_self_iff by (rule order_trans [of _ 0]) simp_all
  also have "\<dots> \<le> int n" by (simp add: unsigned_of_nat)
  finally show ?thesis by (simp add: get_int64_def)
qed

lemma archive_readFile_bounded:
  assumes "archive_readFile st p n = Some (Inr c)"
  shows "length c \<le> n"
proof (cases "map_of (ss_cache st) p")
  case None
  then obtain a where a: "clone (ss_lib st) (ss_archive st) = Some a"
    using assms by (auto simp: archive_readFile_def split: option.splits)
  then obtain found where found: "find_entry (ss_lib st) True p a = Some found"
    using assms None by (cases "find_entry (ss_lib st) True p a") (auto simp: archive_readFile_def)
  then obtain e a' where "found = Some (e, a')" using assms None a by (cases found) (auto simp: archive_readFile_def)
  then have "ae_size e \<le> get_int64 (int n)" "fst (readArchiveFileEntry (ss_lib st) e (ae_size e) a') = Inr c"
    using assms None a found by (auto simp: archive_readFile_def split: if_splits)
  then show ?thesis
    using readArchiveFileEntry_length [of "ss_lib st" e "ae_size e" a' c "snd (readArchiveFileEntry (ss_lib st) e (ae_size e) a')"]
      get_int64_le [of n] by (metis of_nat_le_iff order_trans prod.collapse)
qed (use assms in \<open>auto simp: archive_readFile_def split: if_splits\<close>)

lemma image_range_small:
  assumes "image_range la a off n = Inr f" "off < SIZE_LIMIT" "n \<le> 2147483648"
  shows "mf_offset f = off \<and> mf_size f = n \<and> off + n < 9223372036854775808"
proof -
  have "off \<le> sz_add off n" "sz_add off n \<le> 9223372036854775807" "mf_offset f = off" "mf_size f = n"
    using assms(1) by (auto simp: image_range_def not_less split: if_splits option.splits)
  then show ?thesis using assms(2,3)
    by (cases "off + n < SIZE_LIMIT") (auto simp: sz_add_def mod_if)
qed

lemma walk_tar_headers_range:
  "walk_tar_headers la a n off = Inr f \<Longrightarrow> n \<le> 2147483648 \<Longrightarrow> mf_offset f + mf_size f < 9223372036854775808"
proof (induction la a n off rule: walk_tar_headers.induct)
  case (1 la a n off)
  obtain header where header: "pread_full (archive_file la a) 512 off = Some header"
    using 1(2) by (cases "pread_full (archive_file la a) 512 off") (auto simp: walk_tar_headers.simps [of la a n off])
  show ?case
    using 1 header image_range_small [of la a "sz_add off 512" n f]
    by (auto simp: walk_tar_headers.simps [of la a n off] Let_def split: if_splits)
qed

lemma check_mapping_size: "check_mapping la a e = Inr (off, n) \<Longrightarrow> n \<le> 2147483648"
  by (auto simp: check_mapping_def split: if_splits)

lemma tar_mappable_range:
  "getTarArchiveEntryMappableFile la a e = Inr f \<Longrightarrow> mf_offset f + mf_size f < 9223372036854775808"
  by (auto simp: getTarArchiveEntryMappableFile_def dest: check_mapping_size walk_tar_headers_range split: if_splits)

lemma zip_mappable_range:
  assumes "getZipArchiveEntryMappableFile la a e = Inr f"
  shows "mf_offset f + mf_size f < 9223372036854775808"
proof -
  obtain off n where c: "check_mapping la a e = Inr (off, n)"
    using assms by (auto simp: getZipArchiveEntryMappableFile_def)
  then obtain b where b: "pread_full (archive_file la a) 30 off = Some b"
    using assms by (cases "pread_full (archive_file la a) 30 off") (simp_all add: getZipArchiveEntryMappableFile_def)
  have "image_range la a (sz_add off (30 + zh_fileNameLength (read_zip_header b) + zh_extraFieldLength (read_zip_header b))) n = Inr f"
    using assms c b by (simp add: getZipArchiveEntryMappableFile_def Let_def split: if_splits)
  from image_range_small [OF this sz_add_less check_mapping_size [OF c]] show ?thesis by simp
qed

lemma archive_mappable_range:
  assumes "archive_getMappableFile st p = Some (Inr f)"
  shows "mf_offset f + mf_size f < 9223372036854775808"
proof -
  obtain a0 where a0: "clone (ss_lib st) (ss_archive st) = Some a0"
    using assms by (cases "clone (ss_lib st) (ss_archive st)") (auto simp: archive_getMappableFile_def)
  then obtain found where found: "find_entry (ss_lib st) False p a0 = Some found"
    using assms by (cases "find_entry (ss_lib st) False p a0") (auto simp: archive_getMappableFile_def)
  then obtain e a where "found = Some (e, a)" using assms a0 by (cases found) (auto simp: archive_getMappableFile_def)
  then have "getTarArchiveEntryMappableFile (ss_lib st) a e = Inr f \<or> getZipArchiveEntryMappableFile (ss_lib st) a e = Inr f"
    using assms a0 found by (auto simp: archive_getMappableFile_def Let_def split: archive_format.splits)
  then show ?thesis by (elim disjE) (erule tar_mappable_range, erule zip_mappable_range)
qed

lemma dir_read_loop_length:
  "dir_read_loop D n f buffer = Inr c \<Longrightarrow> sound_directory D \<Longrightarrow> length buffer \<le> n \<Longrightarrow> length c = n"
proof (induction D n f buffer rule: dir_read_loop.induct)
  case (1 D n f buffer)
  obtain d f' where d: "dir_read D f (n - length buffer) = (d, f')" by fastforce
  show ?case
  proof (cases d)
    case (Some bs)
    have "length bs \<le> n - length buffer" using 1(3) d Some unfolding sound_directory_def by blast
    then show ?thesis using 1 d Some
      by (auto simp: dir_read_loop.simps [of D n f buffer] split: if_splits)
  qed (use 1 d in \<open>auto simp: dir_read_loop.simps [of D n f buffer] split: if_splits\<close>)
qed

lemma unat_signed_size:
  "0 \<le> n \<Longrightarrow> n < 9223372036854775808 \<Longrightarrow> unat (word_of_int n :: 64 word) < 9223372036854775808"
  by (simp add: unsigned_of_int take_bit_int_eq_self)

lemma dir_readFile_length:
  assumes "dir_readFile st p n = Inr c" "sound_directory (ds_lib st)"
  shows "length c \<le> n"
proof -
  obtain f where f: "dir_lookup st p = Inr f" using assms(1) by (auto simp: dir_readFile_def)
  then obtain k where k: "dir_fstat (ds_lib st) f = Some k"
    using assms(1) by (cases "dir_fstat (ds_lib st) f") (auto simp: dir_readFile_def)
  then have "nat k \<le> n" "dir_read_loop (ds_lib st) (nat k) f [] = Inr c"
    using assms(1) f by (auto simp: dir_readFile_def not_less split: if_splits)
  then show ?thesis using dir_read_loop_length [of "ds_lib st" "nat k" f "[]" c] assms(2) by simp
qed

text \<open>Both stores, with their readers, are instances of the interface.\<close>

interpretation archive: readable_store archive_store archive_store_ok entry_reader_ok
proof unfold_locales
  fix st st' :: "'a store_state" and p n c cr
  show "archive_store_ok st \<Longrightarrow> bs_readFile archive_store st p n = (cr, st') \<Longrightarrow> archive_store_ok st'"
    by (simp add: archive_store_def)
  show "archive_store_ok st \<Longrightarrow> bs_readFile archive_store st p n = (Inr c, st') \<Longrightarrow> length c \<le> n"
    using archive_readFile_bounded by (auto simp: archive_store_def returned_def split: option.splits)
next
  fix st st' :: "'a store_state" and p r rr
  show "archive_store_ok st \<Longrightarrow> bs_getFile archive_store st p = (rr, st') \<Longrightarrow> archive_store_ok st'"
    by (simp add: archive_store_def)
  assume ok: "archive_store_ok st" and "bs_getFile archive_store st p = (Inr r, st')"
  then have get: "archive_getFile st p = Some (Inr r)"
    by (auto simp: archive_store_def returned_def split: option.splits)
  show "entry_reader_ok r"
  proof (cases "map_of (ss_cache st) p")
    case None
    then obtain a where a: "clone (ss_lib st) (ss_archive st) = Some a"
      using get by (cases "clone (ss_lib st) (ss_archive st)") (auto simp: archive_getFile_def)
    then obtain found where found: "find_entry (ss_lib st) False p a = Some found"
      using get None by (cases "find_entry (ss_lib st) False p a") (auto simp: archive_getFile_def)
    then obtain e a' where "found = Some (e, a')" "r = ArchiveEntryReader (ss_lib st) a' (ae_size e)"
      using get None a by (cases found) (auto simp: archive_getFile_def)
    moreover obtain a0 where "nextHeader (ss_lib st) a0 = (HeaderOk e, a')"
      using find_entry_header [of "ss_lib st" False p a e a'] found calculation(1) by auto
    ultimately show ?thesis using ok sound_archive_size [of "ss_lib st" a0 e a'] by (simp add: archive_store_ok_def)
  next
    case (Some c)
    then have "r = BufferReader c 0" using get by (simp add: archive_getFile_def)
    then show ?thesis using ok Some by (auto simp: archive_store_ok_def dest: map_of_SomeD)
  qed
next
  fix st st' :: "'a store_state" and p m f
  show "archive_store_ok st \<Longrightarrow> bs_getMappableFile archive_store st p = (m, st') \<Longrightarrow> archive_store_ok st'"
    by (simp add: archive_store_def)
  show "archive_store_ok st \<Longrightarrow> bs_getMappableFile archive_store st p = (Inr f, st') \<Longrightarrow> mf_offset f + mf_size f < 9223372036854775808"
    using archive_mappable_range by (auto simp: archive_store_def returned_def split: option.splits)
next
  fix r r' :: "'a entry_reader" and n b d
  show "entry_reader_ok r \<Longrightarrow> rd_read archive_store r n = (b, r') \<Longrightarrow> entry_reader_ok r'"
    "entry_reader_ok r \<Longrightarrow> rd_read archive_store r n = (b, r') \<Longrightarrow> rd_size archive_store r' = rd_size archive_store r"
    "entry_reader_ok r \<Longrightarrow> 0 \<le> rd_size archive_store r \<and> rd_size archive_store r < 9223372036854775808"
    by (cases r; auto simp: archive_store_def Let_def cacheThreshold_def split: if_splits prod.splits)+
  show "entry_reader_ok r \<Longrightarrow> rd_read archive_store r n = (Some d, r') \<Longrightarrow> length d \<le> n"
    by (cases r) (auto simp: archive_store_def Let_def sound_archive_def split: if_splits prod.splits)
qed

interpretation directory: readable_store dir_store "\<lambda>st. sound_directory (ds_lib st)" simple_reader_ok
proof unfold_locales
  fix st st' :: "'f dir_state" and p n c cr
  show "sound_directory (ds_lib st) \<Longrightarrow> bs_readFile dir_store st p n = (cr, st') \<Longrightarrow> sound_directory (ds_lib st')"
    by (simp add: dir_store_def)
  show "sound_directory (ds_lib st) \<Longrightarrow> bs_readFile dir_store st p n = (Inr c, st') \<Longrightarrow> length c \<le> n"
    by (auto simp: dir_store_def dest: dir_readFile_length)
next
  fix st st' :: "'f dir_state" and p r rr
  show "sound_directory (ds_lib st) \<Longrightarrow> bs_getFile dir_store st p = (rr, st') \<Longrightarrow> sound_directory (ds_lib st')"
    by (simp add: dir_store_def)
  show "sound_directory (ds_lib st) \<Longrightarrow> bs_getFile dir_store st p = (Inr r, st') \<Longrightarrow> simple_reader_ok r"
    by (auto simp: dir_store_def dir_getFile_def simple_reader_ok_def dest: sound_directory_size split: option.splits)
next
  fix st st' :: "'f dir_state" and p m f
  show "sound_directory (ds_lib st) \<Longrightarrow> bs_getMappableFile dir_store st p = (m, st') \<Longrightarrow> sound_directory (ds_lib st')"
    by (simp add: dir_store_def)
  show "sound_directory (ds_lib st) \<Longrightarrow> bs_getMappableFile dir_store st p = (Inr f, st') \<Longrightarrow> mf_offset f + mf_size f < 9223372036854775808"
    using unat_signed_size
    by (auto simp: dir_store_def dir_getMappableFile_def dest!: sound_directory_size split: option.splits)
next
  fix r r' :: "'f simple_reader" and n b d
  show "simple_reader_ok r \<Longrightarrow> rd_read dir_store r n = (b, r') \<Longrightarrow> simple_reader_ok r'"
    "simple_reader_ok r \<Longrightarrow> rd_read dir_store r n = (b, r') \<Longrightarrow> rd_size dir_store r' = rd_size dir_store r"
    "simple_reader_ok r \<Longrightarrow> 0 \<le> rd_size dir_store r \<and> rd_size dir_store r < 9223372036854775808"
    by (auto simp: dir_store_def simple_read_def simple_size_def simple_reader_ok_def split: prod.splits)
  show "simple_reader_ok r \<Longrightarrow> rd_read dir_store r n = (Some d, r') \<Longrightarrow> length d \<le> n"
    by (auto simp: dir_store_def simple_read_def simple_reader_ok_def sound_directory_def split: prod.splits)
qed

subsection \<open>Properties of the archive store\<close>

text \<open>The space of the cache is never used up: what is taken off is the size of a vector that is empty.\<close>

lemma cache_space_constant:
  "cache_round la (a, cache, cacheSpace) = Continue (a', cache', cacheSpace') \<Longrightarrow> cacheSpace' = cacheSpace"
  by (auto simp: cache_round_def moved_from_def Let_def split: prod.splits header_answer.splits if_splits sum.splits)

text \<open>A read error in the middle of an entry counts as its end.\<close>

lemma read_error_truncates:
  "0 \<le> ae_size e \<Longrightarrow> ae_size e \<le> maxSize \<Longrightarrow> readData la 4096 a = (None, a') \<Longrightarrow>
     readArchiveFileEntry la e maxSize a = (Inr [], a')"
  by (simp add: readArchiveFileEntry_def read_entry_loop.simps)

text \<open>The headers a walk skips: extended headers with their data, each rounded up to blocks.\<close>

inductive tar_chain :: "bytes \<Rightarrow> nat \<Rightarrow> nat \<Rightarrow> bool" for data where
  chain_here: "tar_chain data off off"
| chain_extension: "pread_full data 512 off = Some header \<Longrightarrow> extension_type (header ! 156) \<Longrightarrow>
    tar_chain data (off + (512 + tar_round_up (strtoul_octal (slice 124 12 header)) 512)) off' \<Longrightarrow> tar_chain data off off'"

lemma tar_round_up_mod: "tar_round_up n 512 mod 512 = 0"
  by (simp add: tar_round_up_def)

lemma walk_tar_headers_chain:
  "walk_tar_headers la a n off = Inr f \<Longrightarrow> off mod 512 = 0 \<Longrightarrow> length (archive_file la a) < 9223372036854775808 \<Longrightarrow>
     \<exists>off' header. tar_chain (archive_file la a) off off' \<and> pread_full (archive_file la a) 512 off' = Some header \<and>
       regular_type (header ! 156) \<and> mf_offset f = off' + 512 \<and> mf_offset f mod 512 = 0 \<and> mf_size f = n"
proof (induction la a n off rule: walk_tar_headers.induct)
  case (1 la a n off)
  let ?file = "archive_file la a"
  obtain header where header: "pread_full ?file 512 off = Some header"
    using 1(2) by (cases "pread_full ?file 512 off") (auto simp: walk_tar_headers.simps [of la a n off])
  let ?size = "strtoul_octal (slice 124 12 header)"
  have checked: "\<not> (?size = 0 \<or> ?size > nat MAX_MMAP_FILE_SIZE)" "regular_type (header ! 156) \<or> extension_type (header ! 156)"
    using 1(2) header by (auto simp: walk_tar_headers.simps [of la a n off] Let_def split: if_splits)
  show ?case
  proof (cases "regular_type (header ! 156)")
    case True
    have "off + 512 \<le> length ?file" using header by (auto simp: pread_full_Some slice_def)
    then have add: "sz_add off 512 = off + 512" using 1(4) by (simp add: wrap_simps)
    have "image_range la a (off + 512) n = Inr f"
      using 1(2) header checked True add by (simp add: walk_tar_headers.simps [of la a n off] Let_def)
    then have "mf_offset f = off + 512" "mf_size f = n"
      by (auto simp: image_range_def split: if_splits option.splits)
    then show ?thesis using chain_here header True 1(3) by fastforce
  next
    case False
    have rest: "walk_tar_headers la a n (off + (512 + tar_round_up ?size 512)) = Inr f"
      using 1(2) header checked False by (simp add: walk_tar_headers.simps [of la a n off] Let_def)
    have blocks: "(off + (512 + tar_round_up ?size 512)) mod 512 = 0"
      using 1(3) tar_round_up_mod [of ?size] by (simp add: mod_add_eq [symmetric])
    have ext: "extension_type (header ! 156)" using checked(2) False by simp
    note IH = 1(1) [OF header refl checked(1) False ext rest blocks 1(4)]
    from IH obtain off' header' where *: "tar_chain ?file (off + (512 + tar_round_up ?size 512)) off'"
      "pread_full ?file 512 off' = Some header'" "regular_type (header' ! 156)" "mf_offset f = off' + 512"
      "mf_offset f mod 512 = 0" "mf_size f = n"
      by (elim exE conjE) (rule that)
    show ?thesis by (intro exI conjI) (rule chain_extension [OF header ext *(1)], fact+)
  qed
qed

text \<open>
  C16. The range of a file in a plain tar archive is the data behind a header of a regular file: between
  the header libarchive reports and that one lie only extended headers, the range starts at a block of 512
  bytes right behind the header, has the size of the entry, and its end is a file offset (below 2^63).
\<close>

theorem tar_mapping_is_entry_data:
  assumes "getTarArchiveEntryMappableFile la a e = Inr f" "length (archive_file la a) < 9223372036854775808"
  shows "\<exists>off header. tar_chain (archive_file la a) (nat (headerOffset la a)) off \<and>
    pread_full (archive_file la a) 512 off = Some header \<and> regular_type (header ! 156) \<and>
    mf_offset f = off + 512 \<and> mf_offset f mod 512 = 0 \<and> int (mf_size f) = ae_size e \<and>
    mf_offset f + mf_size f < 2 ^ 63"
proof -
  obtain off n where "check_mapping la a e = Inr (off, n)" "off mod 512 = 0" "walk_tar_headers la a n off = Inr f"
    using assms(1) by (auto simp: getTarArchiveEntryMappableFile_def split: if_splits)
  moreover from this(1) have "off = nat (headerOffset la a)" "int n = ae_size e"
    by (auto simp: check_mapping_def split: if_splits)
  ultimately show ?thesis using walk_tar_headers_chain [of la a n off f] assms(2) tar_mappable_range [OF assms(1)] by auto
qed

text \<open>
  Verifying a package that is stored in an archive returns, if the archive keeps what is documented of
  libarchive.
\<close>

theorem archive_verify_returns:
  assumes "pk_backingStore p = Some st" "archive_store_ok st"
  shows "\<exists>r. package_verify archive_store L p = Some r"
  using assms by (rule archive.package_verify_returns)

text \<open>
  C18. What a package in an archive hands to the mounter is cut out of the range its store maps the blob of the
  image to: two adjacent ranges that fill this range, which is page-aligned and has the size of the descriptor.
  They meet at the offset that the annotations of the image give, each has room for its superblock, and the
  root hash, of 32 bytes, and the salt are those of the annotations.
\<close>

theorem archive_mount_fills_image:
  assumes "pk_backingStore p = Some st" "archive_store_ok st" "package_mount archive_store L is_directory p = (Done q, p')"
  shows "\<exists>f img a. pk_image p' = Some img \<and> getDmVerityAnnotations (Some img) = Inr a \<and>
    archive_getMappableFile st (blob_path (od_digest img)) = Some (Inr f) \<and> mount_fills q f img a"
proof -
  have store: "file_store archive_store (\<lambda>s. s = st \<and> archive_store_ok s) entry_reader_ok"
    by unfold_locales
      (use archive.getMappableFile_range archive.getFile_reader archive.readFile_bounded in \<open>auto simp: archive_store_def\<close>)
  obtain f img a s' where m: "pk_image p' = Some img" "getDmVerityAnnotations (Some img) = Inr a"
    "bs_getMappableFile archive_store st (blob_path (od_digest img)) = (Inr f, s')" "mount_fills q f img a"
    using file_store.package_mount_fills [OF store _ assms(3)] assms(1,2) by (auto simp: file_store.has_store_def [OF store])
  then have "archive_getMappableFile st (blob_path (od_digest img)) = Some (Inr f)"
    by (auto simp: archive_store_def returned_def split: option.splits)
  then show ?thesis using m by blast
qed

subsection \<open>Sample archives\<close>

text \<open>A tar archive given by its entries: the name, the data and the offset of the header of each.\<close>

definition list_entry :: "string \<times> bytes \<times> int \<Rightarrow> archive_entry" where
  "list_entry x = (case x of (name, d, off) \<Rightarrow>
     \<lparr>ae_pathname = Some name, ae_filetype = AE_IFREG, ae_perm = 0, ae_mtime = 0, ae_size = int (length d), ae_symlink = None\<rparr>)"

definition list_archive :: "(string \<times> bytes \<times> int) list \<Rightarrow> bytes \<Rightarrow> (nat \<times> bytes) file_archive" where
  "list_archive es data =
     \<lparr>nextHeader = (\<lambda>(i, d). if i < length es then (HeaderOk (list_entry (es ! i)), (i + 1, fst (snd (es ! i)))) else (HeaderEof, (i, []))),
      readData = (\<lambda>n (i, d). (Some (take n d), (i, drop n d))), readDataBlock = (\<lambda>st. (BlockEof, st)),
      clone = (\<lambda>_. Some (0, [])), formatBase = (\<lambda>_. BaseTar), filters = (\<lambda>_. []),
      headerOffset = (\<lambda>(i, d). snd (snd (es ! (i - 1)))), archive_fd = (\<lambda>_. 3), archive_file = (\<lambda>_. data),
      dup_fd = (\<lambda>_. Some 4)\<rparr>"

lemma list_archive_sound:
  "\<forall>x \<in> set es. int (length (fst (snd x))) < 9223372036854775808 \<Longrightarrow> sound_archive (list_archive es data)"
  by (auto simp: sound_archive_def list_archive_def list_entry_def split: if_splits prod.splits)
    (metis fst_conv nth_mem snd_conv)

text \<open>A tar header at 3584 with its size in octal digits, so that the data starts at 4096.\<close>

definition tar_data :: "bytes \<Rightarrow> bytes" where
  "tar_data digits = replicate 3584 0 @ (replicate 124 0 @ digits @ replicate 377 0)"

definition image_name :: string where "image_name = ''blobs/sha256/'' @ sample_digest (CHR ''4'')"

definition sample_archive :: "(string \<times> bytes \<times> int) list \<Rightarrow> bytes \<Rightarrow> (nat \<times> bytes) store_state" where
  "sample_archive es digits =
     \<lparr>ss_lib = list_archive es (tar_data digits), ss_archive = (0, []), ss_size = 0, ss_cache = []\<rparr>"

lemma tar_data_header:
  assumes "length digits = 11"
  shows "pread_full (tar_data digits) 512 3584 = Some (replicate 124 0 @ digits @ replicate 377 0)"
    "slice 124 12 (replicate 124 0 @ digits @ replicate 377 (0 :: byte)) = digits @ [0]"
    "(replicate 124 0 @ digits @ replicate 377 (0 :: byte)) ! 156 = 0"
proof -
  show "pread_full (tar_data digits) 512 3584 = Some (replicate 124 0 @ digits @ replicate 377 0)"
    using assms by (simp add: tar_data_def pread_full_def pread_def Let_def)
  have "slice 0 12 (digits @ replicate 377 (0 :: byte)) = digits @ [0]"
    using assms by (simp add: slice_def numeral_eq_Suc)
  then show "slice 124 12 (replicate 124 0 @ digits @ replicate 377 (0 :: byte)) = digits @ [0]" by simp
  show "(replicate 124 0 @ digits @ replicate 377 (0 :: byte)) ! 156 = 0"
    using assms by (simp add: nth_append)
qed

lemma tar_data_maps:
  assumes "length digits = 11" "strtoul_octal (digits @ [0]) = n" "0 < n" "n \<le> 2147483648"
    and "es \<noteq> []" "length (fst (snd (es ! 0))) = n" "snd (snd (es ! 0)) = 3584"
  shows "getTarArchiveEntryMappableFile (list_archive es (tar_data digits)) (1, d) (list_entry (es ! 0)) =
    Inr \<lparr>mf_fd = 4, mf_offset = 4096, mf_size = n\<rparr>"
proof -
  have "check_mapping (list_archive es (tar_data digits)) (1, d) (list_entry (es ! 0)) = Inr (3584, n)"
    using assms by (auto simp: check_mapping_def list_archive_def list_entry_def split: prod.splits)
  moreover have "archive_file (list_archive es (tar_data digits)) (1, d) = tar_data digits" by (simp add: list_archive_def)
  ultimately show ?thesis using assms tar_data_header [OF assms(1)]
    by (simp add: getTarArchiveEntryMappableFile_def walk_tar_headers.simps [of _ _ _ 3584] regular_type_def image_range_def
        sz_add_def list_archive_def)
qed

lemma split_path_name: "CHR ''/'' \<notin> set s \<Longrightarrow> acc \<noteq> [] \<or> s \<noteq> [] \<Longrightarrow> split_path acc s = [acc @ s]"
  by (induction s arbitrary: acc) auto

lemma image_name_path: "path_of_string image_name = blob_path (sample_digest (CHR ''4''))"
proof -
  have "split_path [] (sample_digest (CHR ''4'')) = [sample_digest (CHR ''4'')]"
    using split_path_name [of "sample_digest (CHR ''4'')" "[]"] by (simp add: sample_digest_def)
  moreover have "last (sample_digest (CHR ''4'')) = CHR ''4''" "sample_digest (CHR ''4'') \<noteq> []"
    by (simp_all add: sample_digest_def)
  ultimately show ?thesis
    by (simp add: image_name_def path_of_string_def blob_path_def path_append_def Let_def)
qed

lemma find_first_entry:
  assumes "es \<noteq> []" "p = path_of_string (fst (es ! 0))"
  shows "find_entry (list_archive es data) False p (0, []) = Some (Some (list_entry (es ! 0), (1, fst (snd (es ! 0)))))"
  unfolding find_entry_def
  by (rule loop_Return)
    (use assms in \<open>auto simp: find_round_def list_archive_def is_regular_entry_def list_entry_def split: prod.splits\<close>)

lemma sample_archive_maps:
  assumes "length digits = 11" "strtoul_octal (digits @ [0]) = n" "0 < n" "n \<le> 2147483648"
    and "es \<noteq> []" "length (fst (snd (es ! 0))) = n" "snd (snd (es ! 0)) = 3584" "p = path_of_string (fst (es ! 0))"
  shows "archive_getMappableFile (sample_archive es digits \<lparr>ss_archive := a, ss_cache := c\<rparr>) p =
    Some (Inr \<lparr>mf_fd = 4, mf_offset = 4096, mf_size = n\<rparr>)"
proof -
  have "reader_format store_formats (list_archive es (tar_data digits)) x = Tarball" for x
    by (simp add: reader_format_def list_archive_def)
  moreover have "clone (list_archive es (tar_data digits)) a = Some (0, [])" by (simp add: list_archive_def)
  ultimately show ?thesis
    using find_first_entry [OF assms(5,8), of "tar_data digits"] tar_data_maps [OF assms(1-7)]
    by (simp add: archive_getMappableFile_def sample_archive_def)
qed

text \<open>8192 and 20480 in octal digits.\<close>

definition digits_8192 :: bytes where "digits_8192 = of_string ''00000020000''"
definition digits_20480 :: bytes where "digits_20480 = of_string ''00000050000''"

lemma sample_digits:
  "length digits_8192 = 11" "strtoul_octal (digits_8192 @ [0]) = 8192"
  "length digits_20480 = 11" "strtoul_octal (digits_20480 @ [0]) = 20480"
proof -
  have plain: "to_string (takeWhile (\<lambda>b. b \<noteq> 0) (of_string s @ [0])) = s" if "list_all (\<lambda>c. word_of_nat (of_char c) \<noteq> (0 :: byte)) s" for s
  proof -
    have "takeWhile (\<lambda>b. b \<noteq> 0) (of_string s @ [0 :: byte]) = of_string s"
      using that by (auto simp: of_string_def list_all_iff takeWhile_append)
    then show ?thesis by simp
  qed
  show "length digits_8192 = 11" "length digits_20480 = 11" by (simp_all add: digits_8192_def digits_20480_def)
  show "strtoul_octal (digits_8192 @ [0]) = 8192" "strtoul_octal (digits_20480 @ [0]) = 20480"
    unfolding digits_8192_def digits_20480_def strtoul_octal_def
    by (simp_all add: plain Let_def is_space_def is_octal_def digit_val_def)
qed

definition image_entries :: "(string \<times> bytes \<times> int) list" where
  "image_entries = [(image_name, replicate 8192 0, 3584)]"

theorem tar_mapping_is_entry_data_witness:
  "\<exists>f off. getTarArchiveEntryMappableFile (list_archive image_entries (tar_data digits_8192)) (1, []) (list_entry (image_entries ! 0)) = Inr f \<and>
     tar_chain (tar_data digits_8192) 3584 off \<and> mf_offset f = off + 512 \<and> mf_size f = 8192"
proof -
  have maps: "getTarArchiveEntryMappableFile (list_archive image_entries (tar_data digits_8192)) (1, []) (list_entry (image_entries ! 0)) =
      Inr \<lparr>mf_fd = 4, mf_offset = 4096, mf_size = 8192\<rparr>"
    by (rule tar_data_maps) (simp_all add: sample_digits image_entries_def)
  have "length (tar_data digits_8192) < 9223372036854775808" by (simp add: tar_data_def sample_digits)
  then show ?thesis using tar_mapping_is_entry_data [OF maps] maps
    by (auto simp: list_archive_def image_entries_def)
qed

definition mount_descriptor :: oci_descriptor where
  "mount_descriptor =
     \<lparr>od_digest = sample_digest (CHR ''4''), od_mediaType = PACKAGE_IMAGE_EROFS, od_size = 8192, od_data = [], od_urls = [],
      od_annotations = [(DMVERITY_ROOTHASH, sample_digest (CHR ''1'')), (DMVERITY_OFFSET, ''4096'')]\<rparr>"

definition mount_package :: "((nat \<times> bytes) store_state, unit, metadata) oci_package" where
  "mount_package = (new_package (sample_archive image_entries digits_8192) True)
     \<lparr>pk_image := Some mount_descriptor, pk_metaData := Some sample_metadata\<rparr>"

lemma mount_annotations:
  "getDmVerityAnnotations (Some mount_descriptor) = Inr \<lparr>da_rootHash = replicate 32 17, da_salt = [], da_hashesOffset = 4096\<rparr>"
proof -
  have "strtoull ''4096'' = 4096" by (simp add: strtoull_def Let_def is_space_def is_digit_def digit_val_def)
  then show ?thesis
    by (simp add: getDmVerityAnnotations_def mount_descriptor_def package_names sample_digest_bytes sample_xdigits
        hexDigitToByte_def sz_sub_def Let_def)
qed

lemma sample_archive_ok: "archive_store_ok (sample_archive image_entries digits_8192)"
  by (simp add: archive_store_ok_def sample_archive_def list_archive_sound image_entries_def)

lemma image_maps:
  "archive_getMappableFile (sample_archive image_entries digits_8192) (blob_path (sample_digest (CHR ''4''))) =
     Some (Inr \<lparr>mf_fd = 4, mf_offset = 4096, mf_size = 8192\<rparr>)"
proof -
  have "sample_archive image_entries digits_8192 =
      sample_archive image_entries digits_8192\<lparr>ss_archive := (0, []), ss_cache := []\<rparr>"
    by (simp add: sample_archive_def)
  moreover have "archive_getMappableFile (sample_archive image_entries digits_8192\<lparr>ss_archive := (0, []), ss_cache := []\<rparr>)
      (blob_path (sample_digest (CHR ''4''))) = Some (Inr \<lparr>mf_fd = 4, mf_offset = 4096, mf_size = 8192\<rparr>)"
    by (rule sample_archive_maps) (simp_all add: sample_digits image_entries_def image_name_path)
  ultimately show ?thesis by simp
qed

lemma mount_package_mounts:
  "package_mount archive_store (sample_libs False) True mount_package =
     (Done \<lparr>mr_id = ''app'', mr_fd = 4, mr_dataRange = (4096, 4096), mr_hashesRange = (8192, 4096),
        mr_rootHash = replicate 32 17, mr_salt = []\<rparr>, mount_package)"
proof -
  have store: "bs_getMappableFile archive_store (sample_archive image_entries digits_8192) (blob_path (sample_digest (CHR ''4''))) =
      (Inr \<lparr>mf_fd = 4, mf_offset = 4096, mf_size = 8192\<rparr>, sample_archive image_entries digits_8192)"
    by (simp add: archive_store_def image_maps returned_def)
  have sel: "pk_backingStore mount_package = Some (sample_archive image_entries digits_8192)"
    "pk_image mount_package = Some mount_descriptor" "pk_mounter mount_package" "pk_metaData mount_package = Some sample_metadata"
    "mount_package\<lparr>pk_backingStore := Some (sample_archive image_entries digits_8192)\<rparr> = mount_package"
    by (simp_all add: mount_package_def new_package_def)
  have desc: "od_mediaType mount_descriptor = PACKAGE_IMAGE_EROFS" "od_digest mount_descriptor = sample_digest (CHR ''4'')"
    "od_size mount_descriptor = 8192"
    by (simp_all add: mount_descriptor_def)
  have "bs_supportsMountableFiles archive_store (sample_archive image_entries digits_8192)"
    by (simp add: archive_store_def supportsMountableFiles_def reader_format_def sample_archive_def list_archive_def)
  then have "isMountable archive_store mount_package = (Done True, mount_package)"
    using sel desc store by (simp add: isMountable_def isAligned_def)
  then show ?thesis using sel desc store mount_annotations
    by (simp add: package_mount_def act_bind_def act_error_def act_result_def with_store_def package_metaData_def
        mount_ranges_def isAligned_def sz_sub_def sz_add_def sample_libs_def sample_metadata_def)
qed

theorem archive_mount_fills_image_witness:
  "\<exists>f img a. pk_image mount_package = Some img \<and> getDmVerityAnnotations (Some img) = Inr a \<and>
     archive_getMappableFile (sample_archive image_entries digits_8192) (blob_path (od_digest img)) = Some (Inr f) \<and>
     mount_fills \<lparr>mr_id = ''app'', mr_fd = 4, mr_dataRange = (4096, 4096), mr_hashesRange = (8192, 4096),
        mr_rootHash = replicate 32 17, mr_salt = []\<rparr> f img a"
  by (rule archive_mount_fills_image [OF _ sample_archive_ok mount_package_mounts]) (simp add: mount_package_def)

theorem archive_verify_returns_witness:
  "\<exists>r. package_verify archive_store (sample_libs False) mount_package = Some r"
  by (rule archive_verify_returns [OF _ sample_archive_ok]) (simp add: mount_package_def)

text \<open>Two entries with one name: the first is large, the second small.\<close>

definition twin_entries :: "(string \<times> bytes \<times> int) list" where
  "twin_entries = [(image_name, replicate 20480 1, 3584), (image_name, [2], 24576)]"

lemma twin_cache:
  "cacheSmallFiles (list_archive twin_entries data) (0, []) = Some ((2, []), [(blob_path (sample_digest (CHR ''4'')), [2])])"
proof -
  let ?la = "list_archive twin_entries data" and ?p = "blob_path (sample_digest (CHR ''4''))"
  have header: "nextHeader ?la (0, d) = (HeaderOk (list_entry (twin_entries ! 0)), (Suc 0, replicate 20480 1))"
    "nextHeader ?la (Suc 0, d) = (HeaderOk (list_entry (twin_entries ! Suc 0)), (2, [2]))" "nextHeader ?la (2, d) = (HeaderEof, (2, []))" for d
    by (simp_all add: list_archive_def twin_entries_def)
  have sizes: "ae_size (list_entry (twin_entries ! 0)) = 20480" "ae_size (list_entry (twin_entries ! Suc 0)) = 1"
    by (simp_all add: list_entry_def twin_entries_def)
  have names: "ae_pathname (list_entry (twin_entries ! i)) = Some image_name" "is_regular_entry (list_entry (twin_entries ! i))"
    if "i = 0 \<or> i = Suc 0" for i
    using that by (auto simp: list_entry_def twin_entries_def is_regular_entry_def)
  have "read_entry_loop ?la 1 (2, []) [2] = (Inr [2], (2, []))" "read_entry_loop ?la 1 (2, [2]) [] = read_entry_loop ?la 1 (2, []) [2]"
    by (subst read_entry_loop.simps, simp add: list_archive_def)+
  then have "readArchiveFileEntry ?la (list_entry (twin_entries ! Suc 0)) 1 (2, [2]) = (Inr [2], (2, []))"
    by (simp add: readArchiveFileEntry_def sizes)
  then have rounds: "cache_round ?la ((0, []), [], cacheLimit) = Continue ((Suc 0, replicate 20480 1), [], cacheLimit)"
    "cache_round ?la ((Suc 0, replicate 20480 1), [], cacheLimit) = Continue ((2, []), [(?p, [2])], cacheLimit)"
    "cache_round ?la ((2, []), [(?p, [2])], cacheLimit) = Return ((2, []), [(?p, [2])])"
    by (simp_all add: cache_round_def header sizes names image_name_path cacheThreshold_def cacheLimit_def moved_from_def)
  show ?thesis unfolding cacheSmallFiles_def
    using loop_Continue [where body = "cache_round ?la", OF rounds(1)] loop_Continue [where body = "cache_round ?la", OF rounds(2)]
      loop_Return [where body = "cache_round ?la", OF rounds(3)] by simp
qed

text \<open>
  If an archive has two entries with the name of a blob, the checks and the mount may use different
  ones: the cache holds the first that is small enough, from which the digest of the blob is computed, and the
  mapping is that of the first.
\<close>

theorem duplicate_entries_differ:
  "\<exists>st f. new_archive_store (list_archive twin_entries (tar_data digits_20480)) (0, []) 0 True = Some st \<and>
     archive_getFile st (blob_path (sample_digest (CHR ''4''))) = Some (Inr (BufferReader [2] 0)) \<and>
     archive_getMappableFile st (blob_path (sample_digest (CHR ''4''))) = Some (Inr f) \<and> mf_size f = 20480"
proof -
  let ?st = "sample_archive twin_entries digits_20480
    \<lparr>ss_archive := (2, []), ss_cache := [(blob_path (sample_digest (CHR ''4'')), [2])]\<rparr>"
  have "new_archive_store (list_archive twin_entries (tar_data digits_20480)) (0, []) 0 True = Some ?st"
    by (simp add: new_archive_store_def twin_cache sample_archive_def)
  moreover have "archive_getFile ?st (blob_path (sample_digest (CHR ''4''))) = Some (Inr (BufferReader [2] 0))"
    by (simp add: archive_getFile_def)
  moreover have "archive_getMappableFile ?st (blob_path (sample_digest (CHR ''4''))) =
      Some (Inr \<lparr>mf_fd = 4, mf_offset = 4096, mf_size = 20480\<rparr>)"
    by (rule sample_archive_maps) (simp_all add: sample_digits twin_entries_def image_name_path)
  ultimately show ?thesis by fastforce
qed

end
