(* ===== verification/ErofsTampered.thy ===== *)
theory ErofsTampered
  imports ErofsWalk
begin

section \<open>Images that refuse reads\<close>

text \<open>
  A protected image refuses the reads that touch a block which was tampered with, and answers the others.
  What the inodes of such an image deliver is what those of the untouched image deliver: a read that
  succeeds has the same result, and an inode that can be loaded is the same inode.
\<close>

definition refuses_more :: "image_read \<Rightarrow> image_read \<Rightarrow> bool" where
  "refuses_more rd rd' \<longleftrightarrow> (\<forall>n off d. img_read rd n off = Some d \<longrightarrow> img_read rd' n off = Some d)"

lemma refuses_moreD: "refuses_more rd rd' \<Longrightarrow> img_read rd n off = Some d \<Longrightarrow> img_read rd' n off = Some d"
  by (simp add: refuses_more_def)

lemma image_sound_refuses: "image_sound rd c \<Longrightarrow> refuses_more rd (image_rd c)"
  by (auto simp: refuses_more_def image_sound_def image_rd_read)

named_theorems refuse

lemma guard_refuse:
  "(if b then Fail e else x) = Done m \<Longrightarrow> (x = Done m \<Longrightarrow> y = Done m) \<Longrightarrow> (if b then Fail e else y) = Done m"
  by (simp split: if_splits)

lemma case_refuse:
  assumes "(case img_read rd n off of None \<Rightarrow> Fail e | Some d \<Rightarrow> f d) = Done m" "refuses_more rd rd'" "\<And>d. f d = Done m \<Longrightarrow> g d = Done m"
  shows "(case img_read rd' n off of None \<Rightarrow> Fail e | Some d \<Rightarrow> g d) = Done m"
  using assms refuses_moreD [OF assms(2), of n off] by (cases "img_read rd n off") auto

lemma fromCompactIndexes_refuse [refuse]:
  "refuses_more rd rd' \<Longrightarrow> fromCompactIndexes (img_read rd) fs eo cb bs us = Done m \<Longrightarrow> fromCompactIndexes (img_read rd') fs eo cb bs us = Done m"
  unfolding fromCompactIndexes_def Let_def by (erule guard_refuse | erule (1) case_refuse | assumption)+

lemma fromLegacyIndexes_refuse [refuse]:
  "refuses_more rd rd' \<Longrightarrow> fromLegacyIndexes (img_read rd) fs eo cb bs us = Done m \<Longrightarrow> fromLegacyIndexes (img_read rd') fs eo cb bs us = Done m"
  unfolding fromLegacyIndexes_def Let_def by (erule guard_refuse | erule (1) case_refuse | assumption)+

lemma make_reader_refuse:
  "refuses_more rd rd' \<Longrightarrow> make_reader rd fs sb i = Done r \<Longrightarrow> make_reader rd' fs sb i = Done r"
  by (auto simp: make_reader_def createFull_def createCompact_def Let_def dest: refuse split: data_format.splits outcome.splits)

lemma file_read_refuse: "refuses_more rd rd' \<Longrightarrow> file_read rd out off = (True, d) \<Longrightarrow> file_read rd' out off = (True, d)"
  by (auto simp: file_read_def dest: refuses_moreD split: option.splits)

lemma plain_read_refuse: "refuses_more rd rd' \<Longrightarrow> plain_read rd r out off = (True, d) \<Longrightarrow> plain_read rd' r out off = (True, d)"
  by (auto simp: plain_read_def dest: file_read_refuse split: if_splits)

lemma inline_read_refuse: "refuses_more rd rd' \<Longrightarrow> inline_read rd r out off = (True, d) \<Longrightarrow> inline_read rd' r out off = (True, d)"
  by (auto simp: inline_read_def Let_def file_read_refuse split: if_splits prod.splits bool.splits)

lemma read_extent_refuse:
  "refuses_more rd rd' \<Longrightarrow> read_extent lib rd r e out off = Done (True, d, r') \<Longrightarrow> read_extent lib rd' r e out off = Done (True, d, r')"
  by (auto simp: read_extent_def readUncompressed_def readLz4Compressed_def Let_def dest: file_read_refuse refuses_moreD
      split: compression.splits prod.splits option.splits if_splits)

lemma read_extents_refuse:
  "refuses_more rd rd' \<Longrightarrow> read_extents lib rd es co out r = Done (True, d, r') \<Longrightarrow> read_extents lib rd' es co out r = Done (True, d, r')"
proof (induction es arbitrary: co out r d r')
  case (Cons e es)
  show ?case
  proof (cases "out = []")
    case False
    let ?a = "min (sz_sub (x_uncomprSize e) co) (length out)"
    obtain d1 r1 d2 where "read_extent lib rd r e (take ?a out) co = Done (True, d1, r1)"
      "read_extents lib rd es 0 (drop ?a out) r1 = Done (True, d2, r')" "d = d1 @ d2"
      using Cons.prems(2) False by (auto simp: Let_def split: if_splits prod.splits)
    with Cons.IH Cons.prems(1) read_extent_refuse [OF Cons.prems(1)] False show ?thesis by (simp add: Let_def)
  qed (use Cons.prems in simp)
qed simp

lemma reader_read_refuse:
  "refuses_more rd rd' \<Longrightarrow> reader_read lib rd r out off = Done (True, d, r') \<Longrightarrow> reader_read lib rd' r out off = Done (True, d, r')"
  by (cases r) (auto simp: compressed_read_def Let_def dest: plain_read_refuse inline_read_refuse read_extents_refuse
      split: prod.splits if_splits outcome.splits)

lemma inode_read_refuse:
  assumes "refuses_more rd rd'" "inode_read lib rd fs sb i out off = Done (n, d, i')" "n \<noteq> -1"
  shows "inode_read lib rd' fs sb i out off = Done (n, d, i')"
proof (cases "off \<ge> i_size i \<or> out = []")
  case False
  let ?k = "min (length out) (i_size i - off)"
  obtain r where r: "(case i_inodeReader i of Some r \<Rightarrow> Done r | None \<Rightarrow> make_reader rd fs sb i) = Done r"
    using assms(2,3) False by (auto simp: inode_read_def Let_def split: option.splits outcome.splits)
  then have r': "(case i_inodeReader i of Some r \<Rightarrow> Done r | None \<Rightarrow> make_reader rd' fs sb i) = Done r"
    using make_reader_refuse [OF assms(1)] by (auto split: option.splits)
  from r assms(2,3) False obtain e q where q: "reader_read lib rd r (take ?k out) off = Done (True, e, q)"
    by (auto simp: inode_read_def Let_def split: outcome.splits if_splits)
  from q reader_read_refuse [OF assms(1) q] r r' assms(2) False show ?thesis by (simp add: inode_read_def Let_def)
qed (use assms(2) in \<open>auto simp: inode_read_def\<close>)

lemma load_inode_refuse:
  assumes "refuses_more rd rd'" "inode_valid (load_inode rd sb n h)"
  shows "load_inode rd' sb n h = load_inode rd sb n h"
  using assms(2)
  by (auto simp: load_inode_def Let_def blank_inode_def inode_valid_def refuses_moreD [OF assms(1)] split: option.splits if_splits)

end
