(* ===== verification/ProtectedImage.thy ===== *)
theory ProtectedImage
  imports ProtectedFile ErofsImageFile
begin

section \<open>A protected file as an image\<close>

text \<open>
  While the files behind it do not change, a protected file answers every read as if it kept no state:
  neither the blocks the verifier has cached nor the block in the buffer change what a read gives.  So it
  is an image file in the sense of \<open>IErofsImageFile\<close>, a partial function of the size and the offset,
  which is how \<open>DmVerityErofsImageFile\<close> hands it to the EROFS reader.
\<close>

subsection \<open>Reads without a state\<close>

text \<open>
  A checker whose answers are decided by the number and the bytes of a block.
\<close>

locale deciding =
  fixes check :: "'s checker" and hashes :: bytes and accepts :: "nat \<Rightarrow> bytes \<Rightarrow> bool" and ready :: "'s \<Rightarrow> bool"
  assumes decides: "ready s \<Longrightarrow> length d = 4096 \<Longrightarrow> \<exists>s'. check s hashes n d = (Done (accepts n d), s') \<and> ready s'"

text \<open>A block of the data file, if it is there and accepted.\<close>

definition fetch :: "(nat \<Rightarrow> bytes \<Rightarrow> bool) \<Rightarrow> bytes \<Rightarrow> nat \<Rightarrow> nat \<Rightarrow> bytes option" where
  "fetch accepts data base n =
     (case pread_full data 4096 (sz_add base (sz_mul n 4096)) of
        None \<Rightarrow> None
      | Some d \<Rightarrow> if accepts n d then Some d else None)"

text \<open>The bytes from an offset in a block on, over as many blocks as they take.\<close>

function gather :: "(nat \<Rightarrow> bytes option) \<Rightarrow> nat \<Rightarrow> nat \<Rightarrow> nat \<Rightarrow> bytes option" where
  "gather blocks n off k =
     (if k = 0 then Some []
      else if off \<ge> 4096 then None
      else (case blocks n of
        None \<Rightarrow> None
      | Some d \<Rightarrow> map_option ((@) (slice off (min k (4096 - off)) d)) (gather blocks (n + 1) 0 (k - min k (4096 - off)))))"
  by auto
termination
  by (relation "measure (\<lambda>(blocks, n, off, k). k)") auto

declare gather.simps [simp del]

lemma gather_0 [simp]: "gather blocks n off 0 = Some []"
  by (simp add: gather.simps)

lemma map_append_Nil [simp]: "map_option ((@) []) x = x"
  by (cases x) simp_all

text \<open>
  A read of a file of a size.  The reader for buffered files looks at the block of an offset inside it
  even when no byte is asked for.
\<close>

definition stateless_read :: "(nat \<Rightarrow> bytes option) \<Rightarrow> bool \<Rightarrow> nat \<Rightarrow> nat \<Rightarrow> nat \<Rightarrow> bytes option" where
  "stateless_read blocks direct fileSize k off =
     (if off \<ge> fileSize \<or> k > fileSize - off then None
      else if k = 0 \<and> \<not> direct \<and> off mod 4096 \<noteq> 0 \<and> blocks (off div 4096) = None then None
      else gather blocks (off div 4096) (off mod 4096) k)"

context deciding
begin

text \<open>The block buffer holds nothing or an accepted block of the file.\<close>

definition buffer_ok :: "bytes \<Rightarrow> 's protected_file \<Rightarrow> bool" where
  "buffer_ok data pf \<longleftrightarrow>
     ready (p_verifier pf) \<and> p_blockSize pf = 4096 \<and> length (p_blockBuffer pf) = 4096 \<and> p_fileSize pf < SIZE_MAX \<and>
     (p_blockBufferNumber pf \<noteq> SIZE_MAX \<longrightarrow>
        fetch accepts data (p_fileOffset pf) (p_blockBufferNumber pf) = Some (p_blockBuffer pf))"

abbreviation (input) "blocks_of data pf \<equiv> fetch accepts data (p_fileOffset pf)"

lemma fill_block_buffer_eq:
  assumes "buffer_ok data pf"
  shows "\<exists>pf'. fill_block_buffer check (\<lambda>_. hashes) (\<lambda>_. data) pf n = (Done (blocks_of data pf n \<noteq> None), pf') \<and>
    buffer_ok data pf' \<and> same_file pf pf' \<and> (\<forall>d. blocks_of data pf n = Some d \<longrightarrow> p_blockBuffer pf' = d)"
proof -
  let ?off = "sz_add (p_fileOffset pf) (sz_mul n 4096)"
  have bs: "p_blockSize pf = 4096" "length (p_blockBuffer pf) = 4096" "ready (p_verifier pf)"
    using assms by (auto simp: buffer_ok_def)
  have len: "length (pread data 4096 ?off @ drop (length (pread data 4096 ?off)) (p_blockBuffer pf)) = 4096"
    using bs(2) by (simp add: pread_def slice_def)
  show ?thesis
  proof (cases "pread_full data 4096 ?off")
    case None
    then show ?thesis using assms bs len
      by (auto simp: fill_block_buffer_def read_block_buffer_def Let_def fetch_def buffer_ok_def same_file_def)
  next
    case (Some d)
    then have d: "pread data 4096 ?off = d" "length d = 4096" by (auto simp: pread_full_Some pread_def)
    from decides [OF bs(3) d(2), of n] obtain s' where s': "check (p_verifier pf) hashes n d = (Done (accepts n d), s')" "ready s'"
      by blast
    then show ?thesis using assms bs len Some d
      by (auto simp: fill_block_buffer_def read_block_buffer_def Let_def fetch_def buffer_ok_def same_file_def)
  qed
qed

lemma readPartialBlock_eq:
  assumes "buffer_ok data pf" "off < 4096" "off + k \<le> 4096" "n \<noteq> SIZE_MAX"
  shows "\<exists>pf'. readPartialBlock check (\<lambda>_. hashes) (\<lambda>_. data) pf n off k = (Done (map_option (slice off k) (blocks_of data pf n)), pf') \<and>
    buffer_ok data pf' \<and> same_file pf pf'"
proof (cases "n = p_blockBufferNumber pf")
  case True
  then show ?thesis using assms by (auto simp: readPartialBlock_def buffer_ok_def)
next
  case False
  obtain pf' where "fill_block_buffer check (\<lambda>_. hashes) (\<lambda>_. data) pf n = (Done (blocks_of data pf n \<noteq> None), pf')"
    "buffer_ok data pf'" "same_file pf pf'" "\<forall>d. blocks_of data pf n = Some d \<longrightarrow> p_blockBuffer pf' = d"
    using fill_block_buffer_eq [OF assms(1), of n] by blast
  then show ?thesis using assms False
    by (cases "blocks_of data pf n") (auto simp: readPartialBlock_def buffer_ok_def)
qed

lemma gather_step:
  "k \<noteq> 0 \<Longrightarrow> off < 4096 \<Longrightarrow>
   gather blocks n off k =
     (case blocks n of
        None \<Rightarrow> None
      | Some d \<Rightarrow> map_option ((@) (slice off (min k (4096 - off)) d)) (gather blocks (n + 1) 0 (k - min k (4096 - off))))"
  by (subst gather.simps) simp

lemma blocks_of_same: "same_file pf pf' \<Longrightarrow> blocks_of data pf' = blocks_of data pf"
  by (simp add: same_file_def)

lemma fetch_length: "fetch accepts data base n = Some d \<Longrightarrow> length d = 4096"
  by (auto simp: fetch_def pread_full_Some split: option.splits if_splits)

lemma read_blocks_eq:
  "buffer_ok data pf \<Longrightarrow>
   \<exists>r pf'. read_blocks check (\<lambda>_. hashes) (\<lambda>_. data) pf n k out = Some (Done r, pf') \<and> buffer_ok data pf' \<and> same_file pf pf' \<and>
     (case r of
        None \<Rightarrow> gather (blocks_of data pf) n 0 k = None
      | Some (out', n', k') \<Rightarrow> \<exists>d. out' = out @ d \<and> k' < 4096 \<and> n' * 4096 + k' = n * 4096 + k \<and>
          gather (blocks_of data pf) n 0 k = map_option ((@) d) (gather (blocks_of data pf) n' 0 k'))"
proof (induction "k div 4096" arbitrary: pf n k out)
  case 0
  then have "k < 4096" by auto
  moreover have "p_blockSize pf = 4096" using 0 by (simp add: buffer_ok_def)
  ultimately show ?case using 0 by (subst read_blocks.simps) (auto simp: map_append_Nil)
next
  case (Suc j)
  have k: "4096 \<le> k" using Suc.hyps(2) by (metis div_less nat.distinct(1) not_less)
  then have j: "j = (k - 4096) div 4096" using Suc.hyps(2) le_div_geq [of 4096 k] by simp
  have bs: "p_blockSize pf = 4096" "ready (p_verifier pf)" using Suc.prems by (auto simp: buffer_ok_def)
  let ?off = "sz_add (p_fileOffset pf) (sz_mul n 4096)"
  have g: "gather (blocks_of data pf) n 0 k =
      (case blocks_of data pf n of None \<Rightarrow> None | Some d \<Rightarrow> map_option ((@) d) (gather (blocks_of data pf) (n + 1) 0 (k - 4096)))"
    using k fetch_length by (subst gather_step) (auto simp: min_def slice_def split: option.splits)
  show ?case
  proof (cases "pread_full data 4096 ?off")
    case None
    then show ?thesis using Suc.prems k bs g by (subst read_blocks.simps) (auto simp: fetch_def)
  next
    case (Some d)
    then have d: "length d = 4096" using pread_full_Some by metis
    from decides [OF bs(2) d, of n] obtain s' where s': "check (p_verifier pf) hashes n d = (Done (accepts n d), s')" "ready s'"
      by blast
    let ?pf = "pf\<lparr>p_verifier := s'\<rparr>"
    have ok: "buffer_ok data ?pf" and same: "same_file pf ?pf" using Suc.prems s'(2) by (auto simp: buffer_ok_def same_file_def)
    show ?thesis
    proof (cases "accepts n d")
      case False
      then show ?thesis using Some s' k bs g ok same
        by (subst read_blocks.simps) (auto simp: fetch_def)
    next
      case True
      then have f: "blocks_of data pf n = Some d" using Some by (simp add: fetch_def)
      have step: "read_blocks check (\<lambda>_. hashes) (\<lambda>_. data) pf n k out = read_blocks check (\<lambda>_. hashes) (\<lambda>_. data) ?pf (n + 1) (k - 4096) (out @ d)"
        using True Some s' k bs by (subst read_blocks.simps) simp
      from Suc.hyps(1) [OF j ok, of "n + 1" "out @ d"] obtain r pf' where IH:
        "read_blocks check (\<lambda>_. hashes) (\<lambda>_. data) ?pf (n + 1) (k - 4096) (out @ d) = Some (Done r, pf')" "buffer_ok data pf'" "same_file ?pf pf'"
        "case r of
          None \<Rightarrow> gather (blocks_of data ?pf) (n + 1) 0 (k - 4096) = None
        | Some (out', n', k') \<Rightarrow> \<exists>e. out' = (out @ d) @ e \<and> k' < 4096 \<and> n' * 4096 + k' = (n + 1) * 4096 + (k - 4096) \<and>
            gather (blocks_of data ?pf) (n + 1) 0 (k - 4096) = map_option ((@) e) (gather (blocks_of data ?pf) n' 0 k')"
        by blast
      have "same_file pf pf'" using same_file_trans [OF same IH(3)] .
      moreover have "case r of
          None \<Rightarrow> gather (blocks_of data pf) n 0 k = None
        | Some (out', n', k') \<Rightarrow> \<exists>e. out' = out @ e \<and> k' < 4096 \<and> n' * 4096 + k' = n * 4096 + k \<and>
            gather (blocks_of data pf) n 0 k = map_option ((@) e) (gather (blocks_of data pf) n' 0 k')"
      proof (cases r)
        case None
        then show ?thesis using IH(4) g f by simp
      next
        case (Some x)
        obtain out' n' k' where x: "x = (out', n', k')" by (cases x)
        from IH(4) Some x obtain e where e: "out' = (out @ d) @ e" "k' < 4096" "n' * 4096 + k' = (n + 1) * 4096 + (k - 4096)"
          "gather (blocks_of data pf) (n + 1) 0 (k - 4096) = map_option ((@) e) (gather (blocks_of data pf) n' 0 k')" by auto
        have "out' = out @ (d @ e)" "n' * 4096 + k' = n * 4096 + k" using e k by auto
        moreover have "gather (blocks_of data pf) n 0 k = map_option ((@) (d @ e)) (gather (blocks_of data pf) n' 0 k')"
          using e(4) g f by (cases "gather (blocks_of data pf) n' 0 k'") simp_all
        ultimately show ?thesis using Some x e(2) by auto
      qed
      ultimately show ?thesis using IH(1,2) step by auto
    qed
  qed
qed

lemma read_tail_eq:
  assumes "buffer_ok data pf" "n * 4096 + k < SIZE_MAX"
  shows "\<exists>pf'. read_tail check (\<lambda>_. hashes) (\<lambda>_. data) pf n k out =
      Some (Done (map_option ((@) out) (gather (blocks_of data pf) n 0 k)), pf') \<and> buffer_ok data pf' \<and> same_file pf pf'"
proof -
  from read_blocks_eq [OF assms(1), of n k out] obtain r pf1 where r:
    "read_blocks check (\<lambda>_. hashes) (\<lambda>_. data) pf n k out = Some (Done r, pf1)" "buffer_ok data pf1" "same_file pf pf1"
    "case r of
        None \<Rightarrow> gather (blocks_of data pf) n 0 k = None
      | Some (out', n', k') \<Rightarrow> \<exists>d. out' = out @ d \<and> k' < 4096 \<and> n' * 4096 + k' = n * 4096 + k \<and>
          gather (blocks_of data pf) n 0 k = map_option ((@) d) (gather (blocks_of data pf) n' 0 k')" by blast
  show ?thesis
  proof (cases r)
    case None
    then show ?thesis using r by (simp add: read_tail_def)
  next
    case (Some x)
    obtain out' n' k' where x: "x = (out', n', k')" by (cases x)
    from r(4) Some x obtain d where d: "out' = out @ d" "k' < 4096" "n' * 4096 + k' = n * 4096 + k"
      "gather (blocks_of data pf) n 0 k = map_option ((@) d) (gather (blocks_of data pf) n' 0 k')" by auto
    have n': "n' \<noteq> SIZE_MAX" using d(3) assms(2) by auto
    show ?thesis
    proof (cases "k' = 0")
      case True
      then show ?thesis using r Some x d by (simp add: read_tail_def)
    next
      case False
      from readPartialBlock_eq [OF r(2), of 0 k' n'] d(2) n' obtain pf2 where p:
        "readPartialBlock check (\<lambda>_. hashes) (\<lambda>_. data) pf1 n' 0 k' = (Done (map_option (slice 0 k') (blocks_of data pf n')), pf2)"
        "buffer_ok data pf2" "same_file pf1 pf2" by (auto simp: blocks_of_same [OF r(3)])
      have "gather (blocks_of data pf) n' 0 k' = map_option (slice 0 k') (blocks_of data pf n')"
        using False d(2) by (subst gather_step) (auto split: option.splits)
      then show ?thesis using r Some x d False p same_file_trans [OF r(3) p(3)]
        by (cases "blocks_of data pf n'") (auto simp: read_tail_def)
    qed
  qed
qed

lemma readDirectIo_eq:
  "buffer_ok data pf \<Longrightarrow> n * 4096 + off mod 4096 + k < SIZE_MAX \<Longrightarrow>
   \<exists>pf'. readDirectIo check (\<lambda>_. hashes) (\<lambda>_. data) pf n k off out =
      Some (Done (map_option ((@) out) (gather (blocks_of data pf) n (off mod 4096) k)), pf') \<and> buffer_ok data pf' \<and> same_file pf pf'"
proof (induction k arbitrary: pf n off out rule: less_induct)
  case (less k)
  show ?case
  proof (cases "k = 0")
    case True
    then show ?thesis using less.prems by (subst readDirectIo.simps) simp
  next
    case False
    let ?o = "off mod 4096" and ?m = "min k (4096 - off mod 4096)"
    have bs: "p_blockSize pf = 4096" and n: "n \<noteq> SIZE_MAX" using less.prems by (auto simp: buffer_ok_def)
    obtain pf1 where f: "(if p_blockBufferNumber pf \<noteq> n then fill_block_buffer check (\<lambda>_. hashes) (\<lambda>_. data) pf n else (Done True, pf)) =
        (Done (blocks_of data pf n \<noteq> None), pf1)" "buffer_ok data pf1" "same_file pf pf1"
        "\<forall>d. blocks_of data pf n = Some d \<longrightarrow> p_blockBuffer pf1 = d"
    proof (cases "p_blockBufferNumber pf = n")
      case True
      then have "blocks_of data pf n = Some (p_blockBuffer pf)" using less.prems(1) n by (auto simp: buffer_ok_def)
      with True less.prems(1) show ?thesis by (intro that [of pf]) simp_all
    next
      case False
      obtain pf1 where "fill_block_buffer check (\<lambda>_. hashes) (\<lambda>_. data) pf n = (Done (blocks_of data pf n \<noteq> None), pf1)"
        "buffer_ok data pf1" "same_file pf pf1" "\<forall>d. blocks_of data pf n = Some d \<longrightarrow> p_blockBuffer pf1 = d"
        using fill_block_buffer_eq [OF less.prems(1), of n] by blast
      with False show ?thesis by (intro that [of pf1]) simp_all
    qed
    have bs1: "p_blockSize pf1 = 4096" using f(2) by (simp add: buffer_ok_def)
    have g: "gather (blocks_of data pf) n ?o k =
      (case blocks_of data pf n of
         None \<Rightarrow> None
       | Some d \<Rightarrow> map_option ((@) (slice ?o ?m d)) (gather (blocks_of data pf) (n + 1) 0 (k - ?m)))"
      using gather_step [OF False, of ?o "blocks_of data pf" n] by simp
    show ?thesis
    proof (cases "blocks_of data pf n")
      case None
      then have "readDirectIo check (\<lambda>_. hashes) (\<lambda>_. data) pf n k off out = Some (Done None, pf1)"
        using f(1) False by (subst readDirectIo.simps) simp
      then show ?thesis using f(2,3) None g by simp
    next
      case (Some d)
      have "k - ?m < k" using False by simp
      have bound: "k - ?m \<noteq> 0 \<Longrightarrow> (n + 1) * 4096 + 0 mod 4096 + (k - ?m) < SIZE_MAX" using less.prems(2) by auto
      obtain pf2 where rest: "readDirectIo check (\<lambda>_. hashes) (\<lambda>_. data) pf1 (n + 1) (k - ?m) 0 (out @ slice ?o ?m d) =
          Some (Done (map_option ((@) (out @ slice ?o ?m d)) (gather (blocks_of data pf) (n + 1) 0 (k - ?m))), pf2)"
          "buffer_ok data pf2" "same_file pf1 pf2"
      proof (cases "k - ?m = 0")
        case True
        then have "readDirectIo check (\<lambda>_. hashes) (\<lambda>_. data) pf1 (n + 1) (k - ?m) 0 (out @ slice ?o ?m d) =
          Some (Done (map_option ((@) (out @ slice ?o ?m d)) (gather (blocks_of data pf) (n + 1) 0 (k - ?m))), pf1)"
          by (subst readDirectIo.simps) simp
        then show ?thesis using f(2) that by simp
      next
        case False
        from less.IH [OF \<open>k - ?m < k\<close> f(2) bound [OF this], of "out @ slice ?o ?m d"]
        show ?thesis using that unfolding blocks_of_same [OF f(3)] mod_0 by blast
      qed
      have "readDirectIo check (\<lambda>_. hashes) (\<lambda>_. data) pf n k off out = readDirectIo check (\<lambda>_. hashes) (\<lambda>_. data) pf1 (n + 1) (k - ?m) 0 (out @ slice ?o ?m d)"
        using Some f(1,4) False bs bs1 by (subst readDirectIo.simps) simp
      moreover have "map_option ((@) (out @ slice ?o ?m d)) (gather (blocks_of data pf) (n + 1) 0 (k - ?m)) =
          map_option ((@) out) (gather (blocks_of data pf) n ?o k)"
        using Some g by (cases "gather (blocks_of data pf) (n + 1) 0 (k - ?m)") simp_all
      ultimately show ?thesis using rest same_file_trans [OF f(3) rest(3)] by auto
    qed
  qed
qed

lemma protected_read_eq:
  assumes "buffer_ok data pf"
  shows "\<exists>pf'. protected_read check (\<lambda>_. hashes) (\<lambda>_. data) pf k off =
      Some (Done (stateless_read (blocks_of data pf) (p_directIo pf) (p_fileSize pf) k off), pf') \<and> buffer_ok data pf' \<and> same_file pf pf'"
proof (cases "off \<ge> p_fileSize pf \<or> k > p_fileSize pf - off")
  case True
  then show ?thesis using assms by (auto simp: protected_read_def stateless_read_def)
next
  case False
  have bs: "p_blockSize pf = 4096" and sz: "p_fileSize pf < SIZE_MAX" using assms by (auto simp: buffer_ok_def)
  have fits: "off div 4096 * 4096 + off mod 4096 + k < SIZE_MAX" using False sz by auto
  show ?thesis
  proof (cases "p_directIo pf")
    case True
    from readDirectIo_eq [OF assms fits, of "[]"] show ?thesis using True False bs
      by (auto simp: protected_read_def stateless_read_def map_append_Nil)
  next
    case buffered: False
    show ?thesis
    proof (cases "off mod 4096 = 0")
      case True
      from read_tail_eq [OF assms, of "off div 4096" k "[]"] fits show ?thesis using True False buffered bs
        by (auto simp: protected_read_def stateless_read_def map_append_Nil)
    next
      case unaligned: False
      let ?n = "off div 4096" and ?o = "off mod 4096" and ?m = "min k (4096 - off mod 4096)"
      have n: "?n \<noteq> SIZE_MAX" using fits by auto
      have "?o < 4096" "?o + ?m \<le> 4096" by auto
      from readPartialBlock_eq [OF assms this n] obtain pf1 where p:
        "readPartialBlock check (\<lambda>_. hashes) (\<lambda>_. data) pf ?n ?o ?m = (Done (map_option (slice ?o ?m) (blocks_of data pf ?n)), pf1)"
        "buffer_ok data pf1" "same_file pf pf1" by blast
      show ?thesis
      proof (cases "blocks_of data pf ?n")
        case None
        then have "stateless_read (blocks_of data pf) (p_directIo pf) (p_fileSize pf) k off = None"
          using buffered unaligned by (cases "k = 0") (auto simp: stateless_read_def gather_step)
        then show ?thesis using p None False buffered unaligned bs by (auto simp: protected_read_def Let_def)
      next
        case (Some d)
        have "(?n + 1) * 4096 + (k - ?m) < SIZE_MAX \<or> k - ?m = 0" using fits by auto
        then obtain pf2 where rest: "read_tail check (\<lambda>_. hashes) (\<lambda>_. data) pf1 (?n + 1) (k - ?m) (slice ?o ?m d) =
            Some (Done (map_option ((@) (slice ?o ?m d)) (gather (blocks_of data pf) (?n + 1) 0 (k - ?m))), pf2)"
            "buffer_ok data pf2" "same_file pf1 pf2"
        proof
          assume "(?n + 1) * 4096 + (k - ?m) < SIZE_MAX"
          from read_tail_eq [OF p(2) this, of "slice ?o ?m d"] that show ?thesis by (auto simp: blocks_of_same [OF p(3)])
        next
          assume "k - ?m = 0"
          then have "read_tail check (\<lambda>_. hashes) (\<lambda>_. data) pf1 (?n + 1) (k - ?m) (slice ?o ?m d) = Some (Done (Some (slice ?o ?m d)), pf1)"
            using p(2) by (simp add: read_tail_def read_blocks.simps buffer_ok_def)
          then show ?thesis using that [of pf1] p(2) \<open>k - ?m = 0\<close> by simp
        qed
        have "stateless_read (blocks_of data pf) (p_directIo pf) (p_fileSize pf) k off =
            map_option ((@) (slice ?o ?m d)) (gather (blocks_of data pf) (?n + 1) 0 (k - ?m))"
          using False Some by (cases "k = 0") (auto simp: stateless_read_def gather_step slice_def)
        have "p_blockSize pf1 = 4096" using p(2) by (simp add: buffer_ok_def)
        then have "protected_read check (\<lambda>_. hashes) (\<lambda>_. data) pf k off = Some (Done (stateless_read (blocks_of data pf) (p_directIo pf) (p_fileSize pf) k off), pf2)"
          using p(1) Some rest(1) False buffered unaligned bs \<open>stateless_read _ _ _ _ _ = _\<close>
          by (simp add: protected_read_def Let_def)
        then show ?thesis using rest(2) same_file_trans [OF p(3) rest(3)] by blast
      qed
    qed
  qed
qed

end

subsection \<open>The image behind an opened file\<close>

text \<open>
  The verifier decides a block by its bytes and the hashes file, if no digest of zeros is the root.
\<close>

definition deciding_state :: "(bytes \<Rightarrow> bytes) \<Rightarrow> bytes \<Rightarrow> verifier \<Rightarrow> verifier \<Rightarrow> bool" where
  "deciding_state H hashes v s \<longleftrightarrow>
     verifier_fresh H hashes s \<and> verify_uncached H s hashes = verify_uncached H v hashes \<and> v_dataBlockSize s = 4096"

interpretation uncached: deciding "verify H" hashes "verify_uncached H v hashes" "deciding_state H hashes v" for H hashes v
proof unfold_locales
  fix s :: verifier and d :: bytes and n
  assume s: "deciding_state H hashes v s" and d: "length d = 4096"
  have "fst (verify H s hashes n d) = Done (verify_uncached H v hashes n d)"
    using verify_uncached_step [of H hashes s d n] s d by (simp add: deciding_state_def)
  moreover have "deciding_state H hashes v (snd (verify H s hashes n d))"
    using verify_uncached_keep [of H hashes s n d] s by (simp add: deciding_state_def)
  ultimately show "\<exists>s'. verify H s hashes n d = (Done (verify_uncached H v hashes n d), s') \<and> deciding_state H hashes v s'"
    by (cases "verify H s hashes n d") simp
qed

text \<open>The image a protected file is, for the hashes file and the data file as they stand.\<close>

definition protected_image :: "(bytes \<Rightarrow> bytes) \<Rightarrow> bytes \<Rightarrow> bytes \<Rightarrow> verifier protected_file \<Rightarrow> nat \<Rightarrow> nat \<Rightarrow> bytes option" where
  "protected_image H hashes data pf =
     stateless_read (fetch (verify_uncached H (p_verifier pf) hashes) data (p_fileOffset pf)) (p_directIo pf) (p_fileSize pf)"

lemma protected_open_buffer:
  assumes "protected_open H direct data doff dsz hashes hoff hsz root = Some (Done pf)" "root \<noteq> replicate 32 0"
    "length data < 2 ^ 63"
  shows "uncached.buffer_ok H (p_verifier pf) hashes data pf" "p_blockBufferNumber pf = SIZE_MAX"
    "p_fileSize pf \<le> v_dataBlockCount (p_verifier pf) * 4096"
proof -
  obtain off sz ho hs v where o: "checkAndCalcFileRange data doff dsz = Done (off, sz)"
    "verifier_open H hashes root (Some ho) (Some hs) = Some (Done v)" "v_dataBlockSize v = 4096"
    "sz \<le> sz_mul (v_dataBlockCount v) 4096"
    "pf = \<lparr>p_verifier = v, p_fileOffset = off, p_fileSize = sz, p_blockSize = 4096, p_blockBuffer = replicate 4096 0,
      p_blockBufferNumber = SIZE_MAX, p_directIo = direct\<rparr>"
    using assms(1) by (auto simp: protected_open_def split: outcome.splits prod.splits if_splits)
  have "sz \<le> length data" using o(1) by (auto simp: checkAndCalcFileRange_def Let_def split: if_splits option.splits)
  then have "sz < SIZE_MAX" using assms(3) by simp
  moreover have "deciding_state H hashes v v"
    using open_fresh [OF o(2) assms(2)] o(3) by (simp add: deciding_state_def)
  ultimately show "uncached.buffer_ok H (p_verifier pf) hashes data pf"
    using o(5) by (simp add: uncached.buffer_ok_def)
  show "p_blockBufferNumber pf = SIZE_MAX" using o(5) by simp
  have "sz_mul (v_dataBlockCount v) 4096 \<le> v_dataBlockCount v * 4096" by (simp add: sz_mul_def)
  then show "p_fileSize pf \<le> v_dataBlockCount (p_verifier pf) * 4096" using o(4,5) by simp
qed

lemma protected_read_image:
  assumes "uncached.buffer_ok H v hashes data pf" "verify_uncached H v hashes = verify_uncached H (p_verifier pf0) hashes"
    "same_file pf0 pf"
  shows "\<exists>pf'. protected_read (verify H) (\<lambda>_. hashes) (\<lambda>_. data) pf k off = Some (Done (protected_image H hashes data pf0 k off), pf') \<and>
    uncached.buffer_ok H v hashes data pf' \<and> same_file pf0 pf'"
  using uncached.protected_read_eq [OF assms(1), of k off] assms(2,3) same_file_trans [OF assms(3)]
  by (auto simp: protected_image_def same_file_def)

text \<open>
  C21. While its two files stay as they are, a protected file has no memory: after any reads, a read gives
  what the first read would have given, which is the image decided block by block by a verifier that caches
  nothing, and it always returns.
\<close>

theorem protected_reads_stateless:
  assumes "protected_open H direct data doff dsz hashes hoff hsz root = Some (Done pf)" "root \<noteq> replicate 32 0"
    "length data < 2 ^ 63"
  shows "\<exists>pf' pf''. protected_reads (verify H) pf (map (\<lambda>(k, off). ((\<lambda>_. hashes), (\<lambda>_. data), k, off)) rs) = Some pf' \<and>
    protected_read (verify H) (\<lambda>_. hashes) (\<lambda>_. data) pf' k off = Some (Done (protected_image H hashes data pf k off), pf'')"
proof -
  let ?v = "p_verifier pf"
  have run: "uncached.buffer_ok H ?v hashes data u \<Longrightarrow> same_file pf u \<Longrightarrow>
      \<exists>pf'. protected_reads (verify H) u (map (\<lambda>(k, off). ((\<lambda>_. hashes), (\<lambda>_. data), k, off)) rs) = Some pf' \<and>
        uncached.buffer_ok H ?v hashes data pf' \<and> same_file pf pf'" for u
  proof (induction rs arbitrary: u)
    case (Cons x rs)
    obtain m e where x: "x = (m, e)" by (cases x)
    from protected_read_image [OF Cons.prems(1) refl Cons.prems(2), of m e] obtain w where
      w: "protected_read (verify H) (\<lambda>_. hashes) (\<lambda>_. data) u m e = Some (Done (protected_image H hashes data pf m e), w)"
        "uncached.buffer_ok H ?v hashes data w" "same_file pf w" by blast
    from Cons.IH [OF w(2,3)] w(1) x show ?case by simp
  qed simp
  from run [OF protected_open_buffer(1) [OF assms] same_file_refl] obtain pf' where
    pf': "protected_reads (verify H) pf (map (\<lambda>(k, off). ((\<lambda>_. hashes), (\<lambda>_. data), k, off)) rs) = Some pf'"
      "uncached.buffer_ok H ?v hashes data pf'" "same_file pf pf'" by blast
  from protected_read_image [OF pf'(2) refl pf'(3), of k off] pf'(1) show ?thesis by blast
qed

text \<open>
  The image a protected file is never holds other bytes than those the root hash was computed for.
\<close>

lemma protected_image_sound:
  assumes H: "\<And>b. length (H b) = 32"
    and opened: "protected_open H direct data doff dsz hashes hoff hsz root = Some (Done pf)" "length data < 2 ^ 63"
      "root \<noteq> replicate 32 0"
    and files: "blocks_within 4096 B hashes" "blocks_within 4096 B data"
    and signed: "signed_image H B (p_verifier pf) bs"
    and read: "protected_image H hashes data pf k off = Some d"
  shows "off < length (concat bs) \<and> off + k \<le> length (concat bs) \<and> d = slice off k (concat bs)"
proof -
  note ok = protected_open_buffer [OF opened(1,3,2)]
  obtain pf' where r: "protected_read (verify H) (\<lambda>_. hashes) (\<lambda>_. data) pf k off = Some (Done (Some d), pf')"
    using protected_read_image [OF ok(1) refl same_file_refl, of k off] read by auto
  have "d = slice off k (concat bs)"
    by (rule protected_read_signed [where H = H and rs = "[]", OF H opened(1,2) files(1) signed _ _ allI [OF files(1)] allI [OF files(2)] r]) simp_all
  moreover have "off < p_fileSize pf" "k \<le> p_fileSize pf - off"
    using read by (auto simp: protected_image_def stateless_read_def split: if_splits)
  moreover have "p_fileSize pf \<le> length (concat bs)"
    using ok(3) signed length_concat_same [of bs 4096] by (simp add: signed_image_def)
  ultimately show ?thesis by auto
qed

text \<open>The image of an untouched file is the list of its bytes.\<close>

lemma protected_image_intact:
  assumes opened: "protected_open H direct data doff dsz hashes hoff hsz root = Some (Done pf)" "root \<noteq> replicate 32 0"
      "length data < 2 ^ 63"
    and intact: "verifier_ready H hashes bs (p_verifier pf) \<and> file_holds bs data pf" "p_fileSize pf = length (concat bs)"
  shows "protected_image H hashes data pf = img_read (image_rd (concat bs))"
proof (intro ext)
  fix k off
  obtain pf' where r: "protected_read (verify H) (\<lambda>_. hashes) (\<lambda>_. data) pf k off = Some (Done (protected_image H hashes data pf k off), pf')"
    using protected_read_image [OF protected_open_buffer(1) [OF opened] refl same_file_refl] by blast
  show "protected_image H hashes data pf k off = img_read (image_rd (concat bs)) k off"
  proof (cases "off < length (concat bs) \<and> off + k \<le> length (concat bs)")
    case True
    with intact.protected_read_serves [OF intact(1), of off k] intact(2) r show ?thesis by (auto simp: image_rd_read)
  next
    case False
    then show ?thesis using intact(2) by (auto simp: protected_image_def stateless_read_def image_rd_read simp del: length_concat)
  qed
qed

subsection \<open>What a refused read leaves in the caller's buffer\<close>

text \<open>
  The bytes a read has put into the caller's buffer when it returns.  A block that is not read as a whole,
  and every block in direct mode, goes through the block buffer of the file, so that the caller's buffer
  only gets verified bytes of it.  A whole block in buffered mode is read into the caller's buffer
  first and verified there: when it is refused, its bytes (\<open>raw n\<close>, all that \<open>pread\<close> delivered) are in
  the caller's buffer and nobody has vouched for them.
\<close>

function left_over :: "(nat \<Rightarrow> bytes option) \<Rightarrow> (nat \<Rightarrow> bytes) \<Rightarrow> bool \<Rightarrow> nat \<Rightarrow> nat \<Rightarrow> nat \<Rightarrow> bytes" where
  "left_over blocks raw direct n off k =
     (if k = 0 \<or> off \<ge> 4096 then []
      else (case blocks n of
        None \<Rightarrow> (if direct \<or> off \<noteq> 0 \<or> k < 4096 then [] else raw n)
      | Some d \<Rightarrow> slice off (min k (4096 - off)) d @ left_over blocks raw direct (n + 1) 0 (k - min k (4096 - off))))"
  by auto
termination
  by (relation "measure (\<lambda>(blocks, raw, direct, n, off, k). k)") auto

declare left_over.simps [simp del]

definition stateless_left :: "(nat \<Rightarrow> bytes option) \<Rightarrow> (nat \<Rightarrow> bytes) \<Rightarrow> bool \<Rightarrow> nat \<Rightarrow> nat \<Rightarrow> nat \<Rightarrow> bytes" where
  "stateless_left blocks raw direct fileSize k off =
     (if off \<ge> fileSize \<or> k > fileSize - off then []
      else left_over blocks raw direct (off div 4096) (off mod 4096) k)"

definition protected_refused :: "(bytes \<Rightarrow> bytes) \<Rightarrow> bytes \<Rightarrow> bytes \<Rightarrow> verifier protected_file \<Rightarrow> nat \<Rightarrow> nat \<Rightarrow> bytes" where
  "protected_refused H hashes data pf =
     stateless_left (fetch (verify_uncached H (p_verifier pf) hashes) data (p_fileOffset pf))
       (\<lambda>n. pread data 4096 (sz_add (p_fileOffset pf) (sz_mul n 4096))) (p_directIo pf) (p_fileSize pf)"

text \<open>\<open>DmVerityErofsImageFile\<close> of \<open>lib/oci/OCIErofsImageLayerReader.cpp\<close>: the protected file as the image file.\<close>

definition verity_image :: "(bytes \<Rightarrow> bytes) \<Rightarrow> bytes \<Rightarrow> bytes \<Rightarrow> verifier protected_file \<Rightarrow> image_read" where
  "verity_image H hashes data pf =
     \<lparr>img_read = protected_image H hashes data pf,
      img_refused = (\<lambda>n off. if protected_image H hashes data pf n off = None then protected_refused H hashes data pf n off else [])\<rparr>"

lemma verity_image_read [simp]: "img_read (verity_image H hashes data pf) = protected_image H hashes data pf"
  by (simp add: verity_image_def)

text \<open>A read that succeeds leaves what it delivers.\<close>

lemma left_over_gather:
  "gather blocks n off k = Some d \<Longrightarrow> left_over blocks raw direct n off k = d"
proof (induction blocks n off k arbitrary: d rule: gather.induct)
  case (1 blocks n off k)
  show ?case
  proof (cases "k = 0 \<or> off \<ge> 4096")
    case True
    then show ?thesis using "1.prems" by (subst left_over.simps) (auto simp: gather.simps [of blocks n off k] split: if_splits)
  next
    case False
    then obtain b e where b: "blocks n = Some b" "gather blocks (n + 1) 0 (k - min k (4096 - off)) = Some e"
      "d = slice off (min k (4096 - off)) b @ e"
      using "1.prems" by (auto simp: gather.simps [of blocks n off k] split: option.splits)
    from "1.IH" [OF _ _ b(1) b(2)] False b show ?thesis by (subst left_over.simps) simp
  qed
qed

text \<open>
  In buffered mode a refused read of one whole block leaves the bytes of the data file that were
  refused.
\<close>

lemma refused_block_left:
  assumes "\<not> p_directIo pf" "off mod 4096 = 0" "off + 4096 \<le> p_fileSize pf" "protected_image H hashes data pf 4096 off = None"
  shows "img_refused (verity_image H hashes data pf) 4096 off =
    pread data 4096 (sz_add (p_fileOffset pf) (sz_mul (off div 4096) 4096))"
proof -
  let ?blocks = "fetch (verify_uncached H (p_verifier pf) hashes) data (p_fileOffset pf)"
  have "\<not> (off \<ge> p_fileSize pf \<or> 4096 > p_fileSize pf - off)" using assms(3) by auto
  moreover from this have "gather ?blocks (off div 4096) 0 4096 = None"
    using assms by (simp add: protected_image_def stateless_read_def)
  then have "?blocks (off div 4096) = None"
    by (subst (asm) gather.simps) (auto split: option.splits)
  ultimately show ?thesis
    using assms by (simp add: verity_image_def protected_refused_def stateless_left_def left_over.simps)
qed

text \<open>An untouched file refuses only what lies outside, and leaves the buffer alone then.\<close>

lemma verity_image_intact:
  assumes "protected_image H hashes data pf = img_read (image_rd c)" "p_fileSize pf = length c"
  shows "verity_image H hashes data pf = image_rd c"
proof -
  have "protected_refused H hashes data pf n off = []" if "img_read (image_rd c) n off = None" for n off
    using that assms(2) by (auto simp: protected_refused_def stateless_left_def image_rd_read split: if_splits)
  then have "img_refused (verity_image H hashes data pf) = img_refused (image_rd c)"
    using assms(1) by (intro ext) (simp add: verity_image_def, simp add: image_rd_def)
  moreover have "img_read (verity_image H hashes data pf) = img_read (image_rd c)" using assms(1) by simp
  ultimately show ?thesis by simp
qed

theorem protected_reads_stateless_witness:
  "\<exists>pf pf' pf''. protected_open toy_hash False (replicate 4096 1) None None single_image None None (replicate 32 1) =
      Some (Done pf) \<and>
    protected_reads (verify toy_hash) pf [((\<lambda>_. single_image), (\<lambda>_. replicate 4096 1), 8, 20)] = Some pf' \<and>
    protected_read (verify toy_hash) (\<lambda>_. single_image) (\<lambda>_. replicate 4096 1) pf' 3 4090 =
      Some (Done (protected_image toy_hash single_image (replicate 4096 1) pf 3 4090), pf'')"
proof -
  obtain pf where pf: "protected_open toy_hash False (replicate 4096 1) None None single_image None None (replicate 32 1) =
      Some (Done pf)" by (rule single_file_opens)
  have "(replicate 32 1 :: bytes) \<noteq> replicate 32 0" by (simp add: replicate_eq_replicate)
  from protected_reads_stateless [OF pf this, of "[(8, 20)]" 3 4090] pf show ?thesis by auto
qed

end
