(* ===== verification/OCIErofsLayer.thy ===== *)
theory OCIErofsLayer
  imports OCIStore ErofsTampered ProtectedImage ArchiveEntries
begin

section \<open>EROFS image layers\<close>

text \<open>
  \<open>lib/oci/OCIErofsImageLayerReader.cpp\<close> and \<open>lib/oci/OCIErofsImageEntry.cpp\<close>: the reader of an image
  layer that is an EROFS image with a dm-verity hash tree behind it.  The file the layer is mapped from is a
  list of bytes; the image is what a protected file over its two ranges gives (\<open>verity_image\<close>), and the
  walk is that of the EROFS reader over this image.  The file is taken not to change while it is read.
\<close>

subsection \<open>The reader\<close>

record erofs_layer =
  el_env :: environment
  el_reader :: "erofs_reader option"
  el_error :: "error_code option"

abbreviation BLOCK_SIZE :: nat where "BLOCK_SIZE \<equiv> 4096"
abbreviation MIN_EROFSLAYER_SIZE :: nat where "MIN_EROFSLAYER_SIZE \<equiv> 2 * BLOCK_SIZE"

text \<open>The code of an error of the protected file.\<close>

fun verity_code :: "verity_error \<Rightarrow> error_code" where
  "verity_code SuperBlockNotRead = SystemCallFailed"
| "verity_code _ = DmVerityError"

fun protected_code :: "protected_error \<Rightarrow> error_code" where
  "protected_code (VerifierError e) = verity_code e"
| "protected_code _ = DmVerityError"

text \<open>\<open>DmVerityErofsImageFile\<close>.\<close>

definition verity_env :: "lz4 \<Rightarrow> (bytes \<Rightarrow> bytes) \<Rightarrow> bytes \<Rightarrow> verifier protected_file \<Rightarrow> environment" where
  "verity_env lib H contents pf =
     \<lparr>env_lz4 = lib, env_read = verity_image H contents contents pf, env_size = p_fileSize pf\<rparr>"

definition failed_layer :: "lz4 \<Rightarrow> error_code \<Rightarrow> erofs_layer" where
  "failed_layer lib e = \<lparr>el_env = \<lparr>env_lz4 = lib, env_read = \<lparr>img_read = (\<lambda>_ _. None), img_refused = (\<lambda>_ _. [])\<rparr>, env_size = 0\<rparr>, el_reader = None, el_error = Some e\<rparr>"

definition open_layer_image ::
  "(bytes \<Rightarrow> bytes) \<Rightarrow> bool \<Rightarrow> bytes \<Rightarrow> mappable_file \<Rightarrow> nat \<Rightarrow> bytes \<Rightarrow> (protected_error, verifier protected_file) outcome option" where
  "open_layer_image H direct contents f hashesOffset rootHash =
     protected_open H direct contents (Some (mf_offset f)) (Some hashesOffset)
       contents (Some (sz_add hashesOffset (mf_offset f))) (Some (sz_sub (mf_size f) hashesOffset)) rootHash"

definition new_erofs_layer ::
  "lz4 \<Rightarrow> (bytes \<Rightarrow> bytes) \<Rightarrow> bool \<Rightarrow> bytes \<Rightarrow> mappable_file option \<Rightarrow> nat \<Rightarrow> bytes \<Rightarrow> (reader_error, erofs_layer) outcome option" where
  "new_erofs_layer lib H direct contents imageFile hashesOffset rootHash =
     (case imageFile of
        None \<Rightarrow> Some (Done (failed_layer lib PackageContentsInvalid))
      | Some f \<Rightarrow>
          if mf_size f < MIN_EROFSLAYER_SIZE \<or> mf_offset f > SIZE_MAX \<or> sz_add (mf_offset f) (mf_size f) > SIZE_MAX then
            Some (Done (failed_layer lib PackageContentsInvalid))
          else if hashesOffset > sz_sub (mf_size f) BLOCK_SIZE then Some (Done (failed_layer lib PackageContentsInvalid))
          else (case open_layer_image H direct contents f hashesOffset rootHash of
            None \<Rightarrow> None
          | Some (Undefined u) \<Rightarrow> Some (Undefined u)
          | Some (Fail e) \<Rightarrow> Some (Done (failed_layer lib (protected_code e)))
          | Some (Done pf) \<Rightarrow>
              Some (case IErofsReader_create (verity_env lib H contents pf) of
                Undefined u \<Rightarrow> Undefined u
              | Fail e \<Rightarrow> if e = ReadThrows then Fail e else Done (failed_layer lib ErofsError)
              | Done s \<Rightarrow> Done \<lparr>el_env = verity_env lib H contents pf, el_reader = Some s, el_error = None\<rparr>)))"

definition layer_hasError :: "erofs_layer \<Rightarrow> bool" where
  "layer_hasError l \<longleftrightarrow> el_error l \<noteq> None \<or> (case el_reader l of None \<Rightarrow> True | Some s \<Rightarrow> hasError s)"

definition layer_error :: "erofs_layer \<Rightarrow> error_code" where
  "layer_error l =
     (case el_error l of
        Some e \<Rightarrow> e
      | None \<Rightarrow> (case el_reader l of None \<Rightarrow> NoError | Some s \<Rightarrow> if hasError s then ErofsError else NoError))"

subsection \<open>Entries\<close>

text \<open>An entry keeps the image and the superblock it was found in.\<close>

record image_entry =
  ie_env :: environment
  ie_sb :: erofs_superblock
  ie_entry :: erofs_entry
  ie_offset :: nat

definition layer_next :: "erofs_layer \<Rightarrow> (reader_error, image_entry option \<times> erofs_layer) outcome" where
  "layer_next l =
     (case el_reader l of
        None \<Rightarrow> Done (None, l)
      | Some s \<Rightarrow>
          (case next_entry (el_env l) s of
             Undefined u \<Rightarrow> Undefined u
           | Fail e \<Rightarrow> Fail e
           | Done (None, s') \<Rightarrow> Done (None, l\<lparr>el_reader := Some s'\<rparr>)
           | Done (Some e, s') \<Rightarrow>
               Done (Some \<lparr>ie_env = el_env l, ie_sb = the (m_image s), ie_entry = e, ie_offset = 0\<rparr>, l\<lparr>el_reader := Some s'\<rparr>)))"

definition image_entry_read :: "image_entry \<Rightarrow> bytes \<Rightarrow> (io_exception, int \<times> bytes \<times> image_entry) outcome" where
  "image_entry_read ie out =
     (case entry_read (ie_env ie) (ie_sb ie) (ie_entry ie) out (ie_offset ie) of
        Fail x \<Rightarrow> Fail x
      | Undefined u \<Rightarrow> Undefined u
      | Done (n, d, e) \<Rightarrow>
          Done (n, d, ie\<lparr>ie_entry := e, ie_offset := (if n > 0 then sz_add (ie_offset ie) (nat n) else ie_offset ie)\<rparr>))"

text \<open>The error object after a read of an inode that returned -1; it is not set for chunked data.\<close>

definition read_error :: "inode \<Rightarrow> error_code" where
  "read_error i = (if i_inodeReader i = None \<and> i_dataFormat i = ChunkBased then NoError else ErofsError)"

fun fs_type :: "ErofsInode.file_type \<Rightarrow> PackageChecks.file_type" where
  "fs_type FT_unknown = TypeUnknown"
| "fs_type FT_regular = TypeRegular"
| "fs_type FT_directory = TypeDirectory"
| "fs_type FT_symlink = TypeSymlink"
| "fs_type FT_block = TypeBlock"
| "fs_type FT_character = TypeCharacter"
| "fs_type FT_fifo = TypeFifo"
| "fs_type FT_socket = TypeSocket"

text \<open>The loop that copies a regular file, with the buffer, which is on the stack, and what was written.\<close>

function copy_file ::
  "environment \<Rightarrow> erofs_superblock \<Rightarrow> (bytes \<Rightarrow> nat \<Rightarrow> nat) \<Rightarrow> nat \<Rightarrow> nat \<Rightarrow> erofs_entry \<Rightarrow> nat \<Rightarrow> bytes \<Rightarrow> bytes \<Rightarrow>
   (io_exception, (error_code + nat) \<times> bytes \<times> erofs_entry) outcome" where
  "copy_file env sb wr maxSize fileSize e offset buf out =
     (if offset \<ge> fileSize then Done (Inr offset, out, e)
      else case entry_read env sb e buf offset of
        Fail x \<Rightarrow> Fail x
      | Undefined u \<Rightarrow> Undefined u
      | Done (n, d, e') \<Rightarrow>
          if n \<le> 0 then Done (Inl (if n < 0 then read_error (y_inode e) else NoError), out, e')
          else if sz_add offset (nat n) > maxSize then Done (Inl PackageContentsInvalid, out, e')
          else
            let block = take (nat n) d; written = wr block offset; out = out @ take written block in
            if written \<noteq> nat n then Done (Inl SystemCallFailed, out, e')
            else copy_file env sb wr maxSize fileSize e' (offset + nat n) d out)"
  by auto
termination
  by (relation "measure (\<lambda>(env, sb, wr, maxSize, fileSize, e, offset, buf, out). fileSize - offset)") auto

declare copy_file.simps [simp del]

definition c_string :: "bytes \<Rightarrow> string" where
  "c_string bs = to_string (takeWhile (\<lambda>b. b \<noteq> 0) bs)"

abbreviation PATH_MAX :: nat where "PATH_MAX \<equiv> 4096"

definition image_writeTo ::
  "write_calls \<Rightarrow> nat \<Rightarrow> extract_options \<Rightarrow> image_entry \<Rightarrow>
   (io_exception, (error_code + nat) \<times> write_effect list \<times> image_entry) outcome" where
  "image_writeTo sys maxSize options ie =
     (let e = ie_entry ie; i = y_inode e; perms = inode_permissions i; time = [TimeSet (int (fst (i_modificationTime i)))] in
      case checkExtraction (wc_check sys) (wc_stat sys) (fs_type (i_type i)) perms options of
        (Inl c, prep) \<Rightarrow> Done (Inl (FileError c), map Prepared prep, ie)
      | (Inr SkipEntry, prep) \<Rightarrow> Done (Inr 0, map Prepared prep, ie)
      | (Inr ExtractEntry, prep) \<Rightarrow>
          if i_type i = FT_regular then
            (if \<not> wc_create_ok sys then Done (Inl SystemCallFailed, map Prepared prep, ie)
             else case copy_file (ie_env ie) (ie_sb ie) (wc_pwrite sys) maxSize (entry_size e) e 0 (replicate 4096 0) [] of
               Fail x \<Rightarrow> Fail x
             | Undefined u \<Rightarrow> Undefined u
             | Done (Inl c, out, e') \<Rightarrow>
                 Done (Inl c, map Prepared prep @ [FileCreated, FileContent out, FileClosed], ie\<lparr>ie_entry := e'\<rparr>)
             | Done (Inr n, out, e') \<Rightarrow>
                 if \<not> wc_mode_ok sys then
                   Done (Inl SystemCallFailed, map Prepared prep @ [FileCreated, FileContent out, FileClosed], ie\<lparr>ie_entry := e'\<rparr>)
                 else Done (Inr n,
                   map Prepared prep @ [FileCreated, FileContent out, ModeSet (modeFromFsPerms perms), FileClosed] @ time,
                   ie\<lparr>ie_entry := e'\<rparr>))
          else if i_type i = FT_directory then
            (if \<not> wc_create_ok sys then Done (Inl SystemCallFailed, map Prepared prep, ie)
             else Done (Inr 0, map Prepared prep @ DirectoryMade mode_0755 # time, ie))
          else if i_type i = FT_symlink then
            (case entry_read (ie_env ie) (ie_sb ie) e (replicate (PATH_MAX - 1) 0) 0 of
               Fail x \<Rightarrow> Fail x
             | Undefined u \<Rightarrow> Undefined u
             | Done (n, d, e') \<Rightarrow>
                 if n \<le> 0 \<or> nat n > maxSize then Done (Inl ErofsError, map Prepared prep, ie\<lparr>ie_entry := e'\<rparr>)
                 else if \<not> wc_create_ok sys then Done (Inl SystemCallFailed, map Prepared prep, ie\<lparr>ie_entry := e'\<rparr>)
                 else Done (Inr (nat n), map Prepared prep @ LinkMade (c_string (take (nat n) d)) # time, ie\<lparr>ie_entry := e'\<rparr>))
          else Done (Inl NotSupported, map Prepared prep, ie))"

subsection \<open>What a read of an entry keeps\<close>

lemma inode_read_keeps:
  assumes "inode_read lib rd fs sb i out off = Done (n, d, i')"
  shows "i'\<lparr>i_inodeReader := None\<rparr> = i\<lparr>i_inodeReader := None\<rparr>" "n > 0 \<Longrightarrow> off + nat n \<le> i_size i"
    "n \<le> int (length out)"
  using assms by (auto simp: inode_read_def Let_def split: if_splits outcome.splits)

lemma entry_read_keeps:
  assumes "entry_read env sb e out off = Done (n, d, e')"
  shows "y_path e' = y_path e" "i_size (y_inode e') = i_size (y_inode e)" "n > 0 \<Longrightarrow> off + nat n \<le> i_size (y_inode e)"
proof -
  obtain i' where i': "env_inode_read env sb (y_inode e) out off = Done (n, d, i')" "e' = e\<lparr>y_inode := i'\<rparr>"
    using assms by (auto simp: entry_read_def split: outcome.splits)
  from inode_read_keeps [OF i'(1)] inode_same_fields(1) [of i' "y_inode e"] i'(2)
  show "y_path e' = y_path e" "i_size (y_inode e') = i_size (y_inode e)" "n > 0 \<Longrightarrow> off + nat n \<le> i_size (y_inode e)" by auto
qed

lemma copy_file_bound:
  "copy_file env sb wr maxSize (i_size (y_inode e)) e off buf out = Done (Inr n, out', e') \<Longrightarrow>
   off \<le> maxSize \<Longrightarrow> i_size (y_inode e) < SIZE_LIMIT \<Longrightarrow> n \<le> maxSize"
proof (induction env sb wr maxSize "i_size (y_inode e)" e off buf out rule: copy_file.induct)
  case (1 env sb wr maxSize e off buf out)
  show ?case
  proof (cases "off \<ge> i_size (y_inode e)")
    case True
    then show ?thesis using 1(2,3) by (subst (asm) copy_file.simps) simp
  next
    case False
    obtain k d e1 where r: "entry_read env sb e buf off = Done (k, d, e1)"
      using 1(2) False by (subst (asm) copy_file.simps) (auto split: outcome.splits)
    have k: "0 < k" "sz_add off (nat k) \<le> maxSize" "\<not> wr (take (nat k) d) off \<noteq> nat k" and
      rest: "copy_file env sb wr maxSize (i_size (y_inode e)) e1 (off + nat k) d
        (out @ take (wr (take (nat k) d) off) (take (nat k) d)) = Done (Inr n, out', e')"
      using 1(2) False r by (subst (asm) copy_file.simps, simp add: Let_def split: if_splits)+
    note keep = entry_read_keeps [OF r]
    have "off + nat k \<le> maxSize" using keep(3) k 1(4) by (simp add: wrap_simps)
    then show ?thesis
      using 1(1) [OF False r refl refl _ _ refl refl refl k(3) _ _ \<open>off + nat k \<le> maxSize\<close>] k rest keep(2) 1(4) by simp
  qed
qed

lemma image_writeTo_bound:
  assumes "image_writeTo sys maxSize options ie = Done (Inr n, effects, ie')" "i_size (y_inode (ie_entry ie)) < SIZE_LIMIT"
  shows "n \<le> maxSize"
  using assms copy_file_bound [of "ie_env ie" "ie_sb ie" "wc_pwrite sys" maxSize "ie_entry ie" 0]
  by (auto simp: image_writeTo_def Let_def entry_size_def split: prod.splits sum.splits extract_operation.splits
      outcome.splits if_splits)

subsection \<open>A tampered image\<close>

lemma entry_read_refuse:
  assumes "refuses_more (env_read env) rd'" "entry_read env sb e out off = Done (n, d, e')" "n \<noteq> -1"
  shows "entry_read (env\<lparr>env_read := rd'\<rparr>) sb e out off = Done (n, d, e')"
  using assms by (auto simp: entry_read_def split: outcome.splits dest: inode_read_refuse)

lemma copy_file_refuse:
  "refuses_more (env_read env) rd' \<Longrightarrow> copy_file env sb wr maxSize fileSize e off buf out = Done (Inr n, out', e') \<Longrightarrow>
   copy_file (env\<lparr>env_read := rd'\<rparr>) sb wr maxSize fileSize e off buf out = Done (Inr n, out', e')"
proof (induction env sb wr maxSize fileSize e off buf out rule: copy_file.induct)
  case (1 env sb wr maxSize fileSize e off buf out)
  show ?case
  proof (cases "off \<ge> fileSize")
    case True
    then show ?thesis using 1(3) by (subst copy_file.simps, subst (asm) copy_file.simps) simp
  next
    case False
    obtain k d e1 where r: "entry_read env sb e buf off = Done (k, d, e1)"
      using 1(3) False by (subst (asm) copy_file.simps) (auto split: outcome.splits)
    have k: "\<not> k \<le> 0" "\<not> sz_add off (nat k) > maxSize" "\<not> wr (take (nat k) d) off \<noteq> nat k" and
      rest: "copy_file env sb wr maxSize fileSize e1 (off + nat k) d
        (out @ take (wr (take (nat k) d) off) (take (nat k) d)) = Done (Inr n, out', e')"
      using 1(3) False r by (subst (asm) copy_file.simps, simp add: Let_def split: if_splits)+
    have "entry_read (env\<lparr>env_read := rd'\<rparr>) sb e buf off = Done (k, d, e1)"
      using entry_read_refuse [OF 1(2) r] k(1) by auto
    with 1(1) [OF False r refl refl k(1,2) refl refl refl k(3) 1(2) rest] k False show ?thesis
      by (subst copy_file.simps) (simp add: Let_def)
  qed
qed

lemma image_writeTo_refuse:
  assumes "refuses_more (env_read (ie_env ie)) rd'" "image_writeTo sys maxSize options ie = Done (Inr n, effects, ie')"
  shows "image_writeTo sys maxSize options (ie\<lparr>ie_env := (ie_env ie)\<lparr>env_read := rd'\<rparr>\<rparr>) =
    Done (Inr n, effects, ie'\<lparr>ie_env := (ie_env ie)\<lparr>env_read := rd'\<rparr>\<rparr>)"
proof -
  let ?env = "(ie_env ie)\<lparr>env_read := rd'\<rparr>" and ?i = "y_inode (ie_entry ie)"
  obtain r prep where c: "checkExtraction (wc_check sys) (wc_stat sys) (fs_type (i_type ?i)) (inode_permissions ?i) options = (r, prep)"
    by fastforce
  consider c' where "r = Inl c'" | "r = Inr SkipEntry" | "r = Inr ExtractEntry" "i_type ?i = FT_regular"
    | "r = Inr ExtractEntry" "i_type ?i = FT_symlink" | "r = Inr ExtractEntry" "i_type ?i \<notin> {FT_regular, FT_symlink}"
    by (cases r; cases "projr r") auto
  then show ?thesis
  proof cases
    case 3
    from assms(2) c 3 obtain out e' where
      cp: "copy_file (ie_env ie) (ie_sb ie) (wc_pwrite sys) maxSize (entry_size (ie_entry ie)) (ie_entry ie) 0 (replicate 4096 0) [] =
        Done (Inr n, out, e')"
      by (auto simp: image_writeTo_def Let_def split: outcome.splits sum.splits if_splits)
    show ?thesis using assms(2) c 3 cp copy_file_refuse [OF assms(1) cp]
      by (auto simp: image_writeTo_def Let_def split: if_splits)
  next
    case 4
    from assms(2) c 4 obtain k d e' where
      rd: "entry_read (ie_env ie) (ie_sb ie) (ie_entry ie) (replicate 4095 0) 0 = Done (k, d, e')" "\<not> (k \<le> 0 \<or> nat k > maxSize)"
      by (auto simp: image_writeTo_def Let_def split: outcome.splits if_splits)
    have "k \<noteq> -1" using rd(2) by auto
    then show ?thesis using assms(2) c 4 rd entry_read_refuse [OF assms(1) rd(1)]
      by (auto simp: image_writeTo_def Let_def split: if_splits)
  qed (use assms(2) c in \<open>auto simp: image_writeTo_def Let_def split: if_splits\<close>)
qed

subsection \<open>An untouched image\<close>

lemma copy_file_intact:
  assumes "inode_intact dec c sb i" "length c < 2 ^ 63" "lz4_ok lib dec" "length (inode_bytes dec c sb i) = i_size i"
    "i_size i \<le> maxSize" "i_size i < SIZE_LIMIT" "\<And>b o'. wr b o' = length b"
    "env = \<lparr>env_lz4 = lib, env_read = image_rd c, env_size = length c\<rparr>"
  shows "inode_ready dec c sb i (y_inode e) \<Longrightarrow> off \<le> i_size i \<Longrightarrow> length buf = 4096 \<Longrightarrow>
    \<exists>e'. copy_file env sb wr maxSize (i_size i) e off buf out =
      Done (Inr (i_size i), out @ slice off (i_size i - off) (inode_bytes dec c sb i), e')"
proof (induction "i_size i - off" arbitrary: e off buf out rule: less_induct)
  case less
  let ?bytes = "inode_bytes dec c sb i"
  show ?case
  proof (cases "off \<ge> i_size i")
    case True
    then show ?thesis using less.prems by (subst copy_file.simps) simp
  next
    case False
    define k where "k = min (length buf) (i_size i - off)"
    from inode_read_ready [OF assms(1) less.prems(1) assms(2,3), of buf off] obtain i' where
      r: "inode_read lib (image_rd c) (length c) sb (y_inode e) buf off = Done (int k, slice off k ?bytes @ drop k buf, i')"
        "inode_ready dec c sb i i'" by (auto simp: Let_def k_def)
    let ?d = "slice off k ?bytes @ drop k buf" and ?e = "e\<lparr>y_inode := i'\<rparr>"
    have rd: "entry_read env sb e buf off = Done (int k, ?d, ?e)" using r(1) assms(8) by (simp add: entry_read_def)
    have len: "length (slice off k ?bytes) = k" using assms(4) False by (intro length_slice) (auto simp: k_def)
    have k: "0 < k" "off + k \<le> i_size i" "k \<le> 4096" using False less.prems(3) by (auto simp: k_def)
    have d: "length ?d = 4096" "take k ?d = slice off k ?bytes" using len k(3) less.prems(3) by auto
    have smaller: "i_size i - (off + k) < i_size i - off" using k by linarith
    have ready: "inode_ready dec c sb i (y_inode ?e)" using r(2) by simp
    from less.hyps [OF smaller ready k(2) d(1), of "out @ slice off k ?bytes"] obtain e' where IH: "copy_file env sb wr maxSize (i_size i) ?e (off + k) ?d (out @ slice off k ?bytes) =
        Done (Inr (i_size i), (out @ slice off k ?bytes) @ slice (off + k) (i_size i - (off + k)) ?bytes, e')"
      by blast
    have "copy_file env sb wr maxSize (i_size i) e off buf out =
        copy_file env sb wr maxSize (i_size i) ?e (off + k) ?d (out @ slice off k ?bytes)"
      using False rd k d len assms(5,6,7) by (subst copy_file.simps) (simp add: Let_def wrap_simps)
    moreover have "slice off (i_size i - off) ?bytes = slice off k ?bytes @ slice (off + k) (i_size i - (off + k)) ?bytes"
      using slice_append [of off k "i_size i - (off + k)" ?bytes] k(2) by simp
    ultimately show ?thesis using IH by simp
  qed
qed

subsection \<open>The layer over a signed image\<close>

text \<open>The image that was signed, as far as it is data.\<close>

definition signed_env :: "lz4 \<Rightarrow> bytes \<Rightarrow> environment" where
  "signed_env lib c = \<lparr>env_lz4 = lib, env_read = image_rd c, env_size = length c\<rparr>"

text \<open>A number of calls of \<open>next\<close>, whatever they return.\<close>

fun layer_calls :: "nat \<Rightarrow> erofs_layer \<Rightarrow> erofs_layer option" where
  "layer_calls 0 l = Some l"
| "layer_calls (Suc k) l = (case layer_next l of Done (_, l) \<Rightarrow> layer_calls k l | _ \<Rightarrow> None)"

lemma layer_next_env: "layer_next l = Done (x, l') \<Longrightarrow> el_env l' = el_env l"
  by (auto simp: layer_next_def split: option.splits outcome.splits prod.splits)

lemma layer_calls_env: "layer_calls k l = Some l' \<Longrightarrow> el_env l' = el_env l"
  by (induction k l rule: layer_calls.induct) (auto split: outcome.splits dest: layer_next_env)

lemma layer_next_entry:
  assumes "layer_next l = Done (Some ie, l')"
  shows "ie_env ie = el_env l" "ie_offset ie = 0"
    "\<exists>n h. y_inode (ie_entry ie) = load_inode (env_read (el_env l)) (ie_sb ie) n h \<and> inode_valid (y_inode (ie_entry ie))"
proof -
  obtain s e s' where s: "el_reader l = Some s" "next_entry (el_env l) s = Done (Some e, s')"
    "ie = \<lparr>ie_env = el_env l, ie_sb = the (m_image s), ie_entry = e, ie_offset = 0\<rparr>"
    using assms by (auto simp: layer_next_def split: option.splits outcome.splits prod.splits)
  then show "ie_env ie = el_env l" "ie_offset ie = 0" by simp_all
  obtain sb where sb: "m_image s = Some sb" using s(2) by (auto simp: next_entry_def split: if_splits option.splits)
  have "\<exists>n h. y_inode e = load_inode (env_read (el_env l)) sb n h \<and> inode_valid (y_inode e)"
    using s(2) sb by (auto simp: next_entry_def Let_def entry_isValid_def split: if_splits prod.splits intro!: exI)
  then show "\<exists>n h. y_inode (ie_entry ie) = load_inode (env_read (el_env l)) (ie_sb ie) n h \<and> inode_valid (y_inode (ie_entry ie))"
    using s(3) sb by simp
qed

lemma open_layer_image_size:
  "open_layer_image H direct contents f hashesOffset root = Some (Done pf) \<Longrightarrow> p_fileSize pf = hashesOffset"
  by (auto simp: open_layer_image_def protected_open_def checkAndCalcFileRange_def Let_def split: outcome.splits prod.splits if_splits)

lemma layer_image_sound:
  assumes H: "\<And>b. length (H b) = 32"
    and layer: "new_erofs_layer lib H direct contents (Some f) hashesOffset root = Some (Done l)"
    and files: "length contents < 2 ^ 63" "root \<noteq> replicate 32 0" "blocks_within 4096 B contents"
    and signed: "\<And>pf. open_layer_image H direct contents f hashesOffset root = Some (Done pf) \<Longrightarrow> signed_image H B (p_verifier pf) bs"
    and noerr: "el_error l = None"
  shows "image_sound (env_read (el_env l)) (take hashesOffset (concat bs))" "env_lz4 (el_env l) = lib"
    "env_size (el_env l) = hashesOffset" "hashesOffset \<le> length (concat bs)"
proof -
  obtain pf where pf: "open_layer_image H direct contents f hashesOffset root = Some (Done pf)" "el_env l = verity_env lib H contents pf"
    using layer noerr by (auto simp: new_erofs_layer_def failed_layer_def split: if_splits option.splits outcome.splits)
  note opened = pf(1) [unfolded open_layer_image_def]
  note sz = open_layer_image_size [OF pf(1)]
  show "env_lz4 (el_env l) = lib" "env_size (el_env l) = hashesOffset" using pf(2) sz by (simp_all add: verity_env_def)
  have "p_fileSize pf \<le> v_dataBlockCount (p_verifier pf) * 4096" by (rule protected_open_buffer(3) [OF opened files(2,1)])
  then show le: "hashesOffset \<le> length (concat bs)"
    using signed [OF pf(1)] length_concat_same [of bs 4096] sz by (simp add: signed_image_def)
  have "off < hashesOffset \<and> off + n \<le> hashesOffset \<and> d = slice off n (take hashesOffset (concat bs))"
    if rd: "protected_image H contents contents pf n off = Some d" for n off d
  proof -
    have "off < hashesOffset" "n \<le> hashesOffset - off"
      using rd sz by (auto simp: protected_image_def stateless_read_def split: if_splits)
    moreover have "d = slice off n (concat bs)"
      using protected_image_sound [where H = H, OF H opened files(1,2,3,3) signed [OF pf(1)] rd] by blast
    ultimately show ?thesis by (auto simp: slice_def take_drop min_def)
  qed
  then show "image_sound (env_read (el_env l)) (take hashesOffset (concat bs))"
    using pf(2) le by (auto simp: image_sound_def verity_env_def simp del: length_concat)
qed

text \<open>
  Whatever was done to the file of a package, an entry of its EROFS layer that can be extracted is an
  entry of the signed image, and what is written, with the number of bytes, is what is written for the same
  inode of the untouched image: the file, its hash tree and the order of the calls can only make it fail.
\<close>

theorem tampered_layer_extracts_signed:
  assumes H: "\<And>b. length (H b) = 32"
    and layer: "new_erofs_layer lib H direct contents (Some f) hashesOffset root = Some (Done l)" "el_error l = None"
    and files: "length contents < 2 ^ 63" "root \<noteq> replicate 32 0" "blocks_within 4096 B contents"
    and signed: "\<And>pf. open_layer_image H direct contents f hashesOffset root = Some (Done pf) \<Longrightarrow> signed_image H B (p_verifier pf) bs"
    and entry: "layer_calls k l = Some l'" "layer_next l' = Done (Some ie, l'')"
    and written: "image_writeTo sys maxSize options ie = Done (Inr n, effects, ie')"
  shows "(\<exists>m h. y_inode (ie_entry ie) = load_inode (image_rd (take hashesOffset (concat bs))) (ie_sb ie) m h) \<and>
    image_writeTo sys maxSize options (ie\<lparr>ie_env := signed_env lib (take hashesOffset (concat bs))\<rparr>) =
      Done (Inr n, effects, ie'\<lparr>ie_env := signed_env lib (take hashesOffset (concat bs))\<rparr>)"
proof -
  let ?c = "take hashesOffset (concat bs)"
  note img = layer_image_sound [where H = H, OF H layer(1) files signed layer(2)]
  note more = image_sound_refuses [OF img(1)]
  have env: "el_env l' = el_env l" by (rule layer_calls_env [OF entry(1)])
  note e = layer_next_entry [OF entry(2), unfolded env]
  have "\<exists>m h. y_inode (ie_entry ie) = load_inode (image_rd ?c) (ie_sb ie) m h"
    using e(3) load_inode_refuse [OF more] by metis
  moreover have "(ie_env ie)\<lparr>env_read := image_rd ?c\<rparr> = signed_env lib ?c"
    using e(1) img(2-4) by (simp add: signed_env_def del: length_concat)
  then have "image_writeTo sys maxSize options (ie\<lparr>ie_env := signed_env lib ?c\<rparr>) =
      Done (Inr n, effects, ie'\<lparr>ie_env := signed_env lib ?c\<rparr>)"
    using image_writeTo_refuse [of ie "image_rd ?c" sys maxSize options n effects ie'] more e(1) written by simp
  ultimately show ?thesis by blast
qed

lemma intact_file_written:
  assumes "ie_env ie = signed_env lib c" "length c < 2 ^ 63" "lz4_ok lib dec"
    and i: "i = y_inode (ie_entry ie)" "i_type i = FT_regular" "i_inodeReader i = None" "inode_intact dec c (ie_sb ie) i"
      "length (inode_bytes dec c (ie_sb ie) i) = i_size i" "i_size i \<le> maxSize" "i_size i < SIZE_LIMIT"
    and sys: "checkExtraction (wc_check sys) (wc_stat sys) TypeRegular (inode_permissions i) options = (Inr ExtractEntry, prep)"
      "wc_create_ok sys" "wc_mode_ok sys" "\<And>b o'. wc_pwrite sys b o' = length b"
  shows "\<exists>ie'. image_writeTo sys maxSize options ie = Done (Inr (i_size i),
    map Prepared prep @ [FileCreated, FileContent (inode_bytes dec c (ie_sb ie) i),
      ModeSet (modeFromFsPerms (inode_permissions i)), FileClosed, TimeSet (int (fst (i_modificationTime i)))], ie')"
proof -
  have "inode_ready dec c (ie_sb ie) i (y_inode (ie_entry ie))" using i(1,3) by (simp add: inode_ready_def)
  from copy_file_intact [where wr = "wc_pwrite sys", OF i(4) assms(2,3) i(5-7) sys(4) assms(1) [unfolded signed_env_def] this,
      of 0 "replicate 4096 0" "[]"] i(5)
  obtain e' where "copy_file (ie_env ie) (ie_sb ie) (wc_pwrite sys) maxSize (i_size i) (ie_entry ie) 0 (replicate 4096 0) [] =
      Done (Inr (i_size i), inode_bytes dec c (ie_sb ie) i, e')" by auto
  then show ?thesis using i(1,2) sys(1-3) by (simp add: image_writeTo_def Let_def entry_size_def)
qed

text \<open>
  Extracting an intact regular file creates it with exactly its bytes, then sets its mode and its time,
  and reports its size, when the target allows it and the limit is not below the size.
\<close>

theorem intact_file_extracts:
  assumes "ie_env ie = signed_env lib c" "length c < 2 ^ 63" "lz4_ok lib dec"
    and i: "i = y_inode (ie_entry ie)" "i_type i = FT_regular" "i_inodeReader i = None" "inode_intact dec c (ie_sb ie) i"
      "length (inode_bytes dec c (ie_sb ie) i) = i_size i" "i_size i \<le> maxSize" "i_size i < SIZE_LIMIT"
    and sys: "checkExtraction (wc_check sys) (wc_stat sys) TypeRegular (inode_permissions i) options = (Inr ExtractEntry, prep)"
      "wc_create_ok sys" "wc_mode_ok sys" "\<And>b o'. wc_pwrite sys b o' = length b"
  shows "\<exists>ie'. image_writeTo sys maxSize options ie = Done (Inr (i_size i),
    map Prepared prep @ [FileCreated, FileContent (inode_bytes dec c (ie_sb ie) i),
      ModeSet (modeFromFsPerms (inode_permissions i)), FileClosed, TimeSet (int (fst (i_modificationTime i)))], ie')"
  by (rule intact_file_written [OF assms])

subsection \<open>The layer over an untouched file\<close>

text \<open>Calling \<open>next\<close> until it returns nothing, at most \<open>n\<close> times.\<close>

fun layer_walk :: "nat \<Rightarrow> erofs_layer \<Rightarrow> image_entry list \<times> erofs_layer" where
  "layer_walk 0 l = ([], l)"
| "layer_walk (Suc n) l =
     (case layer_next l of
        Done (Some ie, l) \<Rightarrow> (case layer_walk n l of (ies, l) \<Rightarrow> (ie # ies, l))
      | Done (None, l) \<Rightarrow> ([], l)
      | _ \<Rightarrow> ([], l))"

lemma layer_walk_walk:
  "walk (el_env l) n s = (es, t) \<Longrightarrow> el_reader l = Some s \<Longrightarrow>
   \<exists>ies. layer_walk n l = (ies, l\<lparr>el_reader := Some t\<rparr>) \<and> map ie_entry ies = es"
proof (induction n arbitrary: l s es)
  case (Suc n)
  show ?case
  proof (cases "hasNext s")
    case False
    then have "next_entry (el_env l) s = Done (None, s)" by (auto simp: hasNext_def next_entry_def)
    then show ?thesis using Suc.prems False by (auto simp: layer_next_def)
  next
    case True
    show ?thesis
    proof (cases "next_entry (el_env l) s")
      case (Done x)
      obtain e s' where x: "x = (e, s')" by (cases x)
      show ?thesis
      proof (cases e)
        case None
        then show ?thesis using Suc.prems True Done x by (auto simp: layer_next_def)
      next
        case (Some y)
        let ?ie = "\<lparr>ie_env = el_env l, ie_sb = the (m_image s), ie_entry = y, ie_offset = 0\<rparr>" and ?l = "l\<lparr>el_reader := Some s'\<rparr>"
        obtain es' where es': "walk (el_env ?l) n s' = (es', t)" "es = y # es'"
          using Suc.prems True Done x Some by (auto split: prod.splits)
        from Suc.IH [OF es'(1)] obtain ies where "layer_walk n ?l = (ies, ?l\<lparr>el_reader := Some t\<rparr>)" "map ie_entry ies = es'"
          by auto
        moreover have "layer_next l = Done (Some ?ie, ?l)" using Suc.prems(2) Done x Some by (simp add: layer_next_def)
        ultimately show ?thesis using es'(2) by auto
      qed
    qed (use Suc.prems True in \<open>auto simp: layer_next_def\<close>)
  qed
qed auto

lemma intact_layer_opens:
  assumes H: "\<And>b. length (H b) = 32"
    and verity: "honest_super_block vsb (length bs)" "\<forall>b \<in> set bs. length b = 4096"
      "root = tree_root H (take (sb_saltSize vsb) (sb_salt vsb)) bs" "root \<noteq> replicate 32 0"
    and contents: "contents = pre @ concat bs @ hashes_file H vsb bs @ post" "length contents < 2 ^ 63"
    and f: "f = \<lparr>mf_fd = fd, mf_offset = length pre, mf_size = length (concat bs) + length (hashes_file H vsb bs)\<rparr>"
    and reader: "IErofsReader_create (signed_env lib (concat bs)) = Done s0"
  shows "\<exists>pf. open_layer_image H direct contents f (length (concat bs)) root = Some (Done pf) \<and>
    v_rootHash (p_verifier pf) = root \<and> v_dataBlockCount (p_verifier pf) = length bs \<and>
    v_salt (p_verifier pf) = take (sb_saltSize vsb) (sb_salt vsb) \<and>
    new_erofs_layer lib H direct contents (Some f) (length (concat bs)) root =
      Some (Done \<lparr>el_env = signed_env lib (concat bs), el_reader = Some s0, el_error = None\<rparr>)"
proof -
  let ?c = "concat bs" and ?hf = "hashes_file H vsb bs"
  have n: "0 < length bs" using verity(1) by (simp add: honest_super_block_def)
  have len: "length ?c = length bs * 4096" by (rule length_concat_same [OF verity(2)])
  have clen: "4096 \<le> length ?c" unfolding len using n by (cases "length bs") simp_all
  have hlen: "4096 \<le> length ?hf" by (simp add: hashes_file_def pad_block_def write_super_block_def)
  have contents': "contents = (pre @ ?c) @ ?hf @ post" "contents = pre @ ?c @ (?hf @ post)" using contents(1) by simp_all
  from honest_file_opens [where H = H, OF H verity(1,2) contents'(1) contents(2) contents'(2) contents(2) refl, of direct]
  obtain pf where pf: "protected_open H direct contents (Some (length pre)) (Some (length ?c)) contents
        (Some (length (pre @ ?c))) (Some (length ?hf)) root = Some (Done pf)" "p_fileSize pf = length ?c"
      "verifier_ready H contents bs (p_verifier pf) \<and> file_holds bs contents pf"
      "v_rootHash (p_verifier pf) = root" "v_dataBlockCount (p_verifier pf) = length bs"
      "v_salt (p_verifier pf) = take (sb_saltSize vsb) (sb_salt vsb)"
    unfolding verity(3) by blast
  have all: "length pre + (length ?c + length ?hf) < 2 ^ 63" using contents by simp
  have args: "sz_add (length ?c) (mf_offset f) = length (pre @ ?c)" "sz_sub (mf_size f) (length ?c) = length ?hf"
    "sz_add (mf_offset f) (mf_size f) \<le> SIZE_MAX" "\<not> length ?c > sz_sub (mf_size f) 4096" "\<not> mf_size f < 8192" "\<not> mf_offset f > SIZE_MAX"
    using all hlen clen by (simp_all add: f wrap_simps del: length_concat)
  have opened: "open_layer_image H direct contents f (length ?c) root = Some (Done pf)"
    using pf(1) args(1,2) by (simp add: open_layer_image_def f del: length_concat)
  have env: "verity_env lib H contents pf = signed_env lib ?c"
    using verity_image_intact [OF protected_image_intact [OF pf(1) verity(4) contents(2) pf(3,2)] pf(2)] pf(2) by (simp add: verity_env_def signed_env_def)
  then show ?thesis
    using args(3-6) opened env reader pf(4-6) by (simp add: new_erofs_layer_def del: length_concat)
qed

text \<open>
  If the file holds an EROFS image that is a finite tree, followed by its hash tree, at the offset of the
  mapping, then the layer opens with the root hash, sees exactly this image, and hands out the entries of the
  tree in breadth-first order, each once, with its path and its inode, without an error.
\<close>

theorem intact_layer_walks:
  assumes H: "\<And>b. length (H b) = 32"
    and verity: "honest_super_block vsb (length bs)" "\<forall>b \<in> set bs. length b = 4096"
      "root = tree_root H (take (sb_saltSize vsb) (sb_salt vsb)) bs" "root \<noteq> replicate 32 0"
    and contents: "contents = pre @ concat bs @ hashes_file H vsb bs @ post" "length contents < 2 ^ 63"
    and f: "f = \<lparr>mf_fd = fd, mf_offset = length pre, mf_size = length (concat bs) + length (hashes_file H vsb bs)\<rparr>"
    and image: "img_read (image_rd (concat bs)) 4096 0 = Some first" "superblock_parse first = Done sb" "m_blockSize sb = 4096"
    and tree: "image_tree dec (concat bs) sb D T" "rootInode sb \<in> D" "lz4_ok lib dec"
      "visits (\<lambda>d. concat (map listing (T d))) [(empty_path, rootInode sb)] out"
  shows "\<exists>l ies l'. new_erofs_layer lib H direct contents (Some f) (length (concat bs)) root = Some (Done l) \<and>
    el_env l = signed_env lib (concat bs) \<and> \<not> layer_hasError l \<and>
    layer_walk (length out) l = (ies, l') \<and> \<not> layer_hasError l' \<and>
    list_all2 (is_entry (signed_env lib (concat bs)) sb) (map ie_entry ies) out"
proof -
  let ?c = "concat bs"
  have "length ?c < 2 ^ 63" using contents by simp
  from reader_walks_tree_aux [OF image this tree] obtain s0 es s where
    w: "IErofsReader_create (signed_env lib ?c) = Done s0" "walk (signed_env lib ?c) (length out) s0 = (es, s)"
      "list_all2 (is_entry (signed_env lib ?c) sb) es out" "\<not> hasError s" unfolding signed_env_def by blast
  let ?l = "\<lparr>el_env = signed_env lib ?c, el_reader = Some s0, el_error = None\<rparr>"
  have l: "new_erofs_layer lib H direct contents (Some f) (length ?c) root = Some (Done ?l)"
    using intact_layer_opens [where H = H, OF H verity contents f w(1)] by blast
  obtain ies where "layer_walk (length out) ?l = (ies, ?l\<lparr>el_reader := Some s\<rparr>)" "map ie_entry ies = es"
    using layer_walk_walk [of ?l "length out" s0 es s] w(2) by auto
  moreover have "m_error s0 = None" using w(1) by (auto simp: IErofsReader_create_def split: option.splits)
  ultimately show ?thesis using l w(3,4) by (auto simp: layer_hasError_def hasError_def)
qed

end
