(* ===== verification/PackageExtract.thy ===== *)
theory PackageExtract
  imports OCIErofsLayer ArchiveReader
begin

section \<open>Extracting a package\<close>

text \<open>
  \<open>Package::extractTo\<close> of \<open>lib/core/Package.cpp\<close>, over the interface of readers and entries
  (\<open>lib/core/IPackageReaderImpl.h\<close>, \<open>lib/core/IPackageEntryImpl.h\<close>), with the two readers of the library
  as its instances.  What the operating system answers is a function of what was written before and of the
  path, so that nothing is assumed about the target directory.
\<close>

subsection \<open>Readers and entries\<close>

text \<open>
  The abstract classes are a record of their functions over the state \<open>'r\<close> of a reader and the state \<open>'e\<close>
  of an entry.  An entry of an archive is read through its reader, so writing it changes both.  A call that
  does not return is \<open>None\<close>, and one that throws is a failed outcome.
\<close>

type_synonym ('r, 'e) write_result = "(io_exception, (error_code + nat) \<times> write_effect list \<times> 'e \<times> 'r) outcome option"

record ('r, 'e) package_reader =
  op_next :: "'r \<Rightarrow> (io_exception, 'e option \<times> 'r) outcome option"
  op_hasError :: "'r \<Rightarrow> bool"
  op_error :: "'r \<Rightarrow> error_code"
  op_path :: "'e \<Rightarrow> path"
  op_size :: "'e \<Rightarrow> nat"
  op_type :: "'e \<Rightarrow> PackageChecks.file_type"
  op_modificationTime :: "'e \<Rightarrow> int"
  op_writeTo :: "write_calls \<Rightarrow> nat \<Rightarrow> extract_options \<Rightarrow> 'e \<Rightarrow> 'r \<Rightarrow> ('r, 'e) write_result"

subsection \<open>The loop\<close>

text \<open>A call of \<open>writeTo\<close>: the path, the number of bytes it may write, what it returned and what it changed.\<close>

record written =
  w_path :: path
  w_maxSize :: nat
  w_result :: "error_code + nat"
  w_effects :: "write_effect list"

type_synonym target = "written list \<Rightarrow> path \<Rightarrow> write_calls"

record 'r extraction =
  x_reader :: 'r
  x_totalExtracted :: nat
  x_totalEntries :: nat
  x_dirModTimes :: "(path \<times> int) list"
  x_written :: "written list"
  x_timesSet :: "(path \<times> int) list"

text \<open>\<open>Result<void>\<close> is the error it holds, and it is a success when the code of that error says there is none.\<close>

definition result_ok :: "error_code \<Rightarrow> bool" where
  "result_ok e \<longleftrightarrow> e = NoError"

definition start_extraction :: "'r \<Rightarrow> 'r extraction" where
  "start_extraction r = \<lparr>x_reader = r, x_totalExtracted = 0, x_totalEntries = 0, x_dirModTimes = [], x_written = [], x_timesSet = []\<rparr>"

text \<open>After the last entry the times of the directories are set; that this fails is only logged.\<close>

definition finish_extraction :: "('r, 'e) package_reader \<Rightarrow> 'r extraction \<Rightarrow> error_code \<times> 'r extraction" where
  "finish_extraction R x =
     (if op_hasError R (x_reader x) then (op_error R (x_reader x), x)
      else (NoError, x\<lparr>x_timesSet := x_dirModTimes x\<rparr>))"

type_synonym 'r extract_result = "(io_exception, error_code \<times> 'r extraction) outcome option"

definition extract_round ::
  "('r, 'e) package_reader \<Rightarrow> target \<Rightarrow> extract_options \<Rightarrow> nat \<Rightarrow> nat \<Rightarrow> 'r extraction \<Rightarrow> ('r extraction, 'r extract_result) step" where
  "extract_round R target options sizeLimit entriesLimit x =
     (case op_next R (x_reader x) of
        None \<Rightarrow> Return None
      | Some (Undefined u) \<Rightarrow> Return (Some (Undefined u))
      | Some (Fail e) \<Rightarrow> Return (Some (Fail e))
      | Some (Done (None, r)) \<Rightarrow> Return (Some (Done (finish_extraction R (x\<lparr>x_reader := r\<rparr>))))
      | Some (Done (Some entry, r)) \<Rightarrow>
          let entrySize = op_size R entry in
          if sz_add (x_totalExtracted x) entrySize > sizeLimit then
            Return (Some (Done (PackageExtractLimitExceeded, x\<lparr>x_reader := r\<rparr>)))
          else (case op_writeTo R (target (x_written x) (op_path R entry)) entrySize options entry r of
            None \<Rightarrow> Return None
          | Some (Undefined u) \<Rightarrow> Return (Some (Undefined u))
          | Some (Fail e) \<Rightarrow> Return (Some (Fail e))
          | Some (Done (res, effects, entry, r)) \<Rightarrow>
              let x = x\<lparr>x_reader := r, x_written := x_written x @ [\<lparr>w_path = op_path R entry, w_maxSize = entrySize, w_result = res, w_effects = effects\<rparr>]\<rparr> in
              (case res of
                 Inl e \<Rightarrow> Return (Some (Done (e, x)))
               | Inr n \<Rightarrow>
                   let x = x\<lparr>x_totalExtracted := sz_add (x_totalExtracted x) n, x_totalEntries := sz_add (x_totalEntries x) 1\<rparr> in
                   if x_totalEntries x \<ge> entriesLimit then Return (Some (Done (PackageExtractLimitExceeded, x)))
                   else Continue
                     (if op_type R entry = TypeDirectory
                      then x\<lparr>x_dirModTimes := x_dirModTimes x @ [(op_path R entry, op_modificationTime R entry)]\<rparr>
                      else x))))"

definition extract_entries ::
  "('r, 'e) package_reader \<Rightarrow> target \<Rightarrow> extract_options \<Rightarrow> nat \<Rightarrow> nat \<Rightarrow> 'r \<Rightarrow> 'r extract_result" where
  "extract_entries R target options sizeLimit entriesLimit r =
     Option.bind (loop (extract_round R target options sizeLimit entriesLimit) (start_extraction r)) id"

text \<open>
  \<open>extractTo\<close>.  The first argument is what \<open>createReader\<close> gives, \<open>None\<close> for a package without an
  implementation.
\<close>

definition extractTo ::
  "('r, 'e) package_reader \<Rightarrow> target \<Rightarrow> extract_options \<Rightarrow> nat \<Rightarrow> nat \<Rightarrow> (error_code + 'r) option \<Rightarrow>
   (io_exception, error_code \<times> written list \<times> (path \<times> int) list) outcome option" where
  "extractTo R target options sizeLimit entriesLimit impl =
     (case impl of
        None \<Rightarrow> Some (Done (InvalidPackage, [], []))
      | Some (Inl e) \<Rightarrow> Some (Done (e, [], []))
      | Some (Inr r) \<Rightarrow>
          (case extract_entries R target options sizeLimit entriesLimit r of
             None \<Rightarrow> None
           | Some (Undefined u) \<Rightarrow> Some (Undefined u)
           | Some (Fail e) \<Rightarrow> Some (Fail e)
           | Some (Done (e, x)) \<Rightarrow> Some (Done (e, x_written x, x_timesSet x))))"

subsection \<open>What a reader promises\<close>

text \<open>
  \<open>good\<close> is the invariant of the reader and \<open>entry_good\<close> that of an entry it has just handed out; an entry
  never writes more than it is allowed to, and the calls return.
\<close>

locale extractable =
  fixes R :: "('r, 'e) package_reader"
    and good :: "'r \<Rightarrow> bool"
    and entry_good :: "'r \<Rightarrow> 'e \<Rightarrow> bool"
  assumes next_good: "good r \<Longrightarrow> op_next R r = Some (Done (oe, r')) \<Longrightarrow> good r'"
    and next_entry_good: "good r \<Longrightarrow> op_next R r = Some (Done (Some e, r')) \<Longrightarrow> entry_good r' e"
    and next_returns: "good r \<Longrightarrow> op_next R r \<noteq> None"
    and write_good: "good r \<Longrightarrow> entry_good r e \<Longrightarrow> op_writeTo R sys mx options e r = Some (Done (res, effects, e', r')) \<Longrightarrow> good r'"
    and write_bound: "good r \<Longrightarrow> entry_good r e \<Longrightarrow> op_writeTo R sys mx options e r = Some (Done (Inr n, effects, e', r')) \<Longrightarrow> n \<le> mx"
    and write_returns: "good r \<Longrightarrow> entry_good r e \<Longrightarrow> op_writeTo R sys mx options e r \<noteq> None"

text \<open>What was extracted, and how many entries, by the log.\<close>

definition written_bytes :: "written \<Rightarrow> nat" where
  "written_bytes w = (case w_result w of Inr n \<Rightarrow> n | Inl e \<Rightarrow> 0)"

definition written_sum :: "written list \<Rightarrow> nat" where
  "written_sum ws = sum_list (map written_bytes ws)"

lemma written_sum_simps [simp]:
  "written_sum [] = 0" "written_sum (w # ws) = written_bytes w + written_sum ws"
  "written_sum (vs @ ws) = written_sum vs + written_sum ws"
  by (simp_all add: written_sum_def)

context extractable
begin

lemma round_Continue:
  assumes "good (x_reader x)" "extract_round R target options sizeLimit entriesLimit x = Continue x'"
  shows "good (x_reader x') \<and> x_totalEntries x' = sz_add (x_totalEntries x) 1 \<and> x_totalEntries x' < entriesLimit \<and>
    (\<exists>w n. x_written x' = x_written x @ [w] \<and> w_result w = Inr n \<and> n \<le> w_maxSize w \<and>
       x_totalExtracted x' = sz_add (x_totalExtracted x) n \<and> sz_add (x_totalExtracted x) (w_maxSize w) \<le> sizeLimit)"
proof -
  obtain e r where n: "op_next R (x_reader x) = Some (Done (Some e, r))"
    using assms(2) by (auto simp: extract_round_def split: option.splits outcome.splits)
  have e: "good r" "entry_good r e" using next_good next_entry_good assms(1) n by blast+
  have lim: "\<not> sz_add (x_totalExtracted x) (op_size R e) > sizeLimit"
    using assms(2) n by (auto simp: extract_round_def)
  obtain res effects e' r' where w: "op_writeTo R (target (x_written x) (op_path R e)) (op_size R e) options e r = Some (Done (res, effects, e', r'))"
    using assms(2) n lim by (auto simp: extract_round_def Let_def split: option.splits outcome.splits)
  obtain k where k: "res = Inr k" using assms(2) n lim w by (cases res) (auto simp: extract_round_def Let_def)
  have "good r'" "k \<le> op_size R e" using write_good write_bound e w k by blast+
  then show ?thesis using assms(2) n lim w k by (auto simp: extract_round_def Let_def split: if_splits)
qed

lemma round_Return:
  assumes "good (x_reader x)" "extract_round R target options sizeLimit entriesLimit x = Return res"
  shows "res \<noteq> None"
proof (cases "op_next R (x_reader x)")
  case (Some a)
  show ?thesis
  proof
    assume "res = None"
    then obtain e r where e: "a = Done (Some e, r)"
      "op_writeTo R (target (x_written x) (op_path R e)) (op_size R e) options e r = None"
      using assms(2) Some by (auto simp: extract_round_def Let_def split: outcome.splits option.splits if_splits sum.splits)
    have "good r" "entry_good r e" using next_good next_entry_good assms(1) Some e(1) by blast+
    then show False using write_returns e(2) by blast
  qed
qed (use next_returns assms(1) in blast)

text \<open>The loop ends: it handles fewer entries than the limit, or stops.\<close>

lemma extract_entries_returns:
  assumes "good r" "entriesLimit \<le> SIZE_MAX"
  shows "extract_entries R target options sizeLimit entriesLimit r \<noteq> None"
proof -
  let ?body = "extract_round R target options sizeLimit entriesLimit"
  let ?I = "\<lambda>x. good (x_reader x) \<and> (x_totalEntries x = 0 \<or> x_totalEntries x < entriesLimit)"
  have "\<exists>res. loop ?body (start_extraction r) = Some res"
  proof (rule loop_terminates [where I = ?I and m = "\<lambda>x. entriesLimit - x_totalEntries x"])
    fix x x' assume I: "?I x" and c: "?body x = Continue x'"
    from round_Continue [OF conjunct1 [OF I] c] I assms(2)
    show "?I x' \<and> entriesLimit - x_totalEntries x' < entriesLimit - x_totalEntries x"
      by (auto simp: sz_add_def)
  qed (use assms(1) in \<open>simp add: start_extraction_def\<close>)
  then obtain res where res: "loop ?body (start_extraction r) = Some res" by blast
  from loop_invariant [OF res, of "\<lambda>x. good (x_reader x)"] round_Continue assms(1)
  obtain x where "good (x_reader x)" "?body x = Return res" by (auto simp: start_extraction_def)
  then show ?thesis using round_Return res by (simp add: extract_entries_def)
qed


text \<open>
  What holds while entries are extracted: all of them so far were, in number below the limit.  The total is
  what they reported and within the limit as long as the addition of a size does not wrap.
\<close>

definition within_limits :: "nat \<Rightarrow> nat \<Rightarrow> 'r extraction \<Rightarrow> bool" where
  "within_limits sizeLimit entriesLimit x \<longleftrightarrow>
     good (x_reader x) \<and> x_totalEntries x = length (x_written x) \<and> (x_written x = [] \<or> length (x_written x) < entriesLimit) \<and>
     (\<forall>w \<in> set (x_written x). \<not> isl (w_result w)) \<and>
     ((\<forall>w \<in> set (x_written x). w_maxSize w < 2 ^ 63) \<longrightarrow>
       x_totalExtracted x = written_sum (x_written x) \<and> written_sum (x_written x) \<le> sizeLimit)"

lemma within_limits_round:
  assumes "within_limits sizeLimit entriesLimit x" "entriesLimit \<le> SIZE_MAX" "sizeLimit < 2 ^ 63"
    "extract_round R target options sizeLimit entriesLimit x = Continue x'"
  shows "within_limits sizeLimit entriesLimit x'"
proof -
  from round_Continue [OF _ assms(4)] assms(1) obtain w n where w: "good (x_reader x')"
    "x_totalEntries x' = sz_add (x_totalEntries x) 1" "x_totalEntries x' < entriesLimit"
    "x_written x' = x_written x @ [w]" "w_result w = Inr n" "n \<le> w_maxSize w"
    "x_totalExtracted x' = sz_add (x_totalExtracted x) n" "sz_add (x_totalExtracted x) (w_maxSize w) \<le> sizeLimit"
    unfolding within_limits_def by blast
  note I = assms(1) [unfolded within_limits_def]
  have "length (x_written x) < SIZE_MAX" using I assms(2) by auto
  then have n: "x_totalEntries x' = Suc (length (x_written x))" using w(2) I by (simp add: wrap_simps)
  have "x_totalExtracted x' = written_sum (x_written x') \<and> written_sum (x_written x') \<le> sizeLimit"
    if "\<forall>w \<in> set (x_written x'). w_maxSize w < 2 ^ 63"
  proof -
    have x: "x_totalExtracted x = written_sum (x_written x)" "written_sum (x_written x) \<le> sizeLimit" "w_maxSize w < 2 ^ 63"
      using that I w(4) by auto
    then show ?thesis using w(4-8) assms(3) by (simp add: wrap_simps written_bytes_def)
  qed
  then show ?thesis using I w(1,3,4,5) n by (auto simp: within_limits_def)
qed

text \<open>How the loop ends: at the last entry, at one of the limits, or with the error of an entry.\<close>

lemma round_ends:
  assumes "good (x_reader y)" "extract_round R target options sizeLimit entriesLimit y = Return (Some (Done (e, x)))"
  shows "(\<exists>r. op_next R (x_reader y) = Some (Done (None, r)) \<and> finish_extraction R (y\<lparr>x_reader := r\<rparr>) = (e, x)) \<or>
    e = PackageExtractLimitExceeded \<and> x_written x = x_written y \<or>
    (\<exists>w. x_written x = x_written y @ [w] \<and> w_result w = Inl e) \<or>
    (\<exists>w n. x_written x = x_written y @ [w] \<and> w_result w = Inr n \<and> n \<le> w_maxSize w \<and> e = PackageExtractLimitExceeded \<and>
       sz_add (x_totalExtracted y) (w_maxSize w) \<le> sizeLimit \<and> entriesLimit \<le> sz_add (x_totalEntries y) 1)"
proof (cases "\<exists>r. op_next R (x_reader y) = Some (Done (None, r))")
  case True
  then show ?thesis using assms(2) by (auto simp: extract_round_def)
next
  case False
  then obtain a r where n: "op_next R (x_reader y) = Some (Done (Some a, r))"
    using assms(2) by (fastforce simp: extract_round_def split: option.splits outcome.splits)
  have a: "good r" "entry_good r a" using next_good next_entry_good assms(1) n by blast+
  show ?thesis
  proof (cases "sz_add (x_totalExtracted y) (op_size R a) > sizeLimit")
    case True
    then show ?thesis using assms(2) n by (auto simp: extract_round_def)
  next
    case False
    obtain res effects a' r' where w: "op_writeTo R (target (x_written y) (op_path R a)) (op_size R a) options a r = Some (Done (res, effects, a', r'))"
      using assms(2) n False by (auto simp: extract_round_def Let_def split: option.splits outcome.splits)
    show ?thesis
    proof (cases res)
      case (Inl c)
      then show ?thesis using assms(2) n False w by (auto simp: extract_round_def Let_def)
    next
      case (Inr k)
      have k: "k \<le> op_size R a" using write_bound a w Inr by blast
      let ?w = "\<lparr>w_path = op_path R a', w_maxSize = op_size R a, w_result = Inr k, w_effects = effects\<rparr>"
      have "x_written x = x_written y @ [?w]" "e = PackageExtractLimitExceeded" "entriesLimit \<le> sz_add (x_totalEntries y) 1"
        using assms(2) n False w Inr by (auto simp: extract_round_def Let_def split: if_splits)
      then show ?thesis using k False by force
    qed
  qed
qed

lemma extract_entries_ends:
  assumes "good r" "entriesLimit \<le> SIZE_MAX" "sizeLimit < 2 ^ 63"
    and "extract_entries R target options sizeLimit entriesLimit r = Some (Done (e, x))"
  obtains y where "within_limits sizeLimit entriesLimit y" "good (x_reader y)"
    "extract_round R target options sizeLimit entriesLimit y = Return (Some (Done (e, x)))"
proof -
  let ?body = "extract_round R target options sizeLimit entriesLimit"
  have lp: "loop ?body (start_extraction r) = Some (Some (Done (e, x)))"
    using assms(4) by (auto simp: extract_entries_def bind_eq_Some_conv)
  have start: "within_limits sizeLimit entriesLimit (start_extraction r)"
    using assms(1) by (simp add: within_limits_def start_extraction_def)
  have keep: "within_limits sizeLimit entriesLimit z \<Longrightarrow> ?body z = Continue z' \<Longrightarrow> within_limits sizeLimit entriesLimit z'" for z z'
    by (rule within_limits_round [OF _ assms(2,3)])
  have "\<exists>y. within_limits sizeLimit entriesLimit y \<and> ?body y = Return (Some (Done (e, x)))"
    by (rule loop_invariant [where I = "within_limits sizeLimit entriesLimit"], rule lp, rule start, rule keep)
  then obtain y where y: "within_limits sizeLimit entriesLimit y" "?body y = Return (Some (Done (e, x)))" by (elim exE conjE)
  moreover have "good (x_reader y)" using y(1) by (simp add: within_limits_def)
  ultimately show ?thesis by (intro that)
qed

text \<open>The limits hold whatever the result is.\<close>

lemma extract_entries_limits:
  assumes "good r" "entriesLimit \<le> SIZE_MAX" "sizeLimit < 2 ^ 63"
    and "extract_entries R target options sizeLimit entriesLimit r = Some (Done (e, x))"
  shows "((\<forall>w \<in> set (x_written x). w_maxSize w < 2 ^ 63) \<longrightarrow> written_sum (x_written x) \<le> sizeLimit) \<and>
    length (x_written x) \<le> max 1 entriesLimit \<and>
    (result_ok e \<and> (\<forall>w \<in> set (x_written x). \<not> isl (w_result w)) \<longrightarrow> x_written x = [] \<or> length (x_written x) < entriesLimit)"
proof -
  obtain y where y: "within_limits sizeLimit entriesLimit y" "good (x_reader y)"
    "extract_round R target options sizeLimit entriesLimit y = Return (Some (Done (e, x)))"
    by (rule extract_entries_ends [OF assms])
  note I = y(1) [unfolded within_limits_def]
  consider "x_written x = x_written y" |
    w where "x_written x = x_written y @ [w]" "w_result w = Inl e" |
    w n where "x_written x = x_written y @ [w]" "w_result w = Inr n" "n \<le> w_maxSize w" "e = PackageExtractLimitExceeded"
      "sz_add (x_totalExtracted y) (w_maxSize w) \<le> sizeLimit"
    using round_ends [OF y(2,3)] by (auto simp: finish_extraction_def split: if_splits)
  then show ?thesis
  proof cases
    case 1
    then show ?thesis using I by auto
  next
    case 2
    then show ?thesis using I by (auto simp: written_bytes_def)
  next
    case 3
    have "written_sum (x_written x) \<le> sizeLimit" if "\<forall>w \<in> set (x_written x). w_maxSize w < 2 ^ 63"
    proof -
      have "x_totalExtracted y = written_sum (x_written y)" "written_sum (x_written y) \<le> sizeLimit" "w_maxSize w < 2 ^ 63"
        using that I 3(1) by auto
      then show ?thesis using 3 assms(3) by (simp add: wrap_simps written_bytes_def)
    qed
    then show ?thesis using I 3 by (auto simp: result_ok_def)
  qed
qed

end

subsection \<open>What is written\<close>

text \<open>A contract on the record of each entry that was written carries over to a whole extraction.\<close>

locale recording = extractable R good entry_good
  for R :: "('r, 'e) package_reader" and good :: "'r \<Rightarrow> bool" and entry_good :: "'r \<Rightarrow> 'e \<Rightarrow> bool" +
  fixes options :: extract_options
    and recorded :: "written \<Rightarrow> bool"
  assumes write_recorded: "good r \<Longrightarrow> entry_good r e \<Longrightarrow> op_writeTo R sys mx options e r = Some (Done (Inr n, effects, e', r')) \<Longrightarrow>
    recorded \<lparr>w_path = op_path R e', w_maxSize = mx, w_result = Inr n, w_effects = effects\<rparr>"
begin

definition all_recorded :: "'r extraction \<Rightarrow> bool" where
  "all_recorded x \<longleftrightarrow> (\<forall>w \<in> set (x_written x). \<not> isl (w_result w) \<longrightarrow> recorded w)"

lemma round_recorded:
  assumes "good (x_reader x)" "all_recorded x"
    and "extract_round R target options sizeLimit entriesLimit x = Continue x' \<or>
      extract_round R target options sizeLimit entriesLimit x = Return (Some (Done (e, x')))"
  shows "all_recorded x'"
proof (cases "\<exists>a r. op_next R (x_reader x) = Some (Done (Some a, r))")
  case False
  then have "x_written x' = x_written x"
    using assms(3) by (auto simp: extract_round_def finish_extraction_def split: option.splits outcome.splits if_splits)
  then show ?thesis using assms(2) by (simp add: all_recorded_def)
next
  case True
  then obtain a r where n: "op_next R (x_reader x) = Some (Done (Some a, r))" by blast
  have a: "good r" "entry_good r a" using next_good next_entry_good assms(1) n by blast+
  let ?wr = "op_writeTo R (target (x_written x) (op_path R a)) (op_size R a) options a r"
  show ?thesis
  proof (cases "sz_add (x_totalExtracted x) (op_size R a) > sizeLimit")
    case True
    then show ?thesis using assms(2,3) n by (auto simp: extract_round_def Let_def all_recorded_def)
  next
    case False
    then obtain res effects a' r' where w: "?wr = Some (Done (res, effects, a', r'))"
      using assms(3) n by (auto simp: extract_round_def Let_def split: option.splits outcome.splits)
    have "x_written x' = x_written x @ [\<lparr>w_path = op_path R a', w_maxSize = op_size R a, w_result = res, w_effects = effects\<rparr>]"
      using assms(3) n False w by (auto simp: extract_round_def Let_def split: sum.splits if_splits)
    moreover have "recorded \<lparr>w_path = op_path R a', w_maxSize = op_size R a, w_result = res, w_effects = effects\<rparr>" if "\<not> isl res"
      using write_recorded [OF a] w that by (cases res) auto
    ultimately show ?thesis using assms(2) by (auto simp: all_recorded_def)
  qed
qed

lemma extractTo_recorded:
  assumes "good r" "extractTo R target options sizeLimit entriesLimit (Some (Inr r)) = Some (Done (e, ws, ts))"
    "w \<in> set ws" "w_result w = Inr n"
  shows "recorded w"
proof -
  let ?body = "extract_round R target options sizeLimit entriesLimit" and ?I = "\<lambda>x. good (x_reader x) \<and> all_recorded x"
  obtain x where x: "extract_entries R target options sizeLimit entriesLimit r = Some (Done (e, x))" "ws = x_written x"
    using assms(2) by (auto simp: extractTo_def split: option.splits outcome.splits)
  then have lp: "loop ?body (start_extraction r) = Some (Some (Done (e, x)))"
    by (auto simp: extract_entries_def bind_eq_Some_conv)
  have start: "?I (start_extraction r)" using assms(1) by (simp add: start_extraction_def all_recorded_def)
  have keep: "?I z \<Longrightarrow> ?body z = Continue z' \<Longrightarrow> ?I z'" for z z'
    using round_recorded round_Continue by blast
  have "\<exists>y. ?I y \<and> ?body y = Return (Some (Done (e, x)))"
    by (rule loop_invariant [where I = ?I], rule lp, rule start, rule keep)
  then have "all_recorded x" using round_recorded by blast
  then show ?thesis using assms(3,4) x(2) by (auto simp: all_recorded_def)
qed

end

end
