(* ===== verification/SampleLayer.thy ===== *)
theory SampleLayer
  imports OCIErofsLayer
begin

text \<open>
  A file small enough to compute with: an EROFS image of one block and the hash tree behind it.  The
  properties of the layer reader are applied to it.
\<close>

subsection \<open>A sample layer: one block with a root directory and a file, and its hash tree\<close>

definition small_entries :: "raw_dirent list" where
  "small_entries = [(36, ''.'', 2), (36, ''..'', 2), (39, ''a'', 1)]"

definition small_head :: bytes where
  "small_head = replicate 1024 0 @ le_bytes 4 EROFS_MAGIC @ le_bytes 4 0 @ le_bytes 4 0 @ [12 :: byte, 0] @ le_bytes 2 36 @
     le_bytes 8 2 @ le_bytes 8 7 @ le_bytes 4 0 @ le_bytes 4 1 @ le_bytes 4 0 @ replicate 84 0"

definition small_image :: bytes where
  "small_image = small_head @
     write_inode_compact root_inode @ write_dir_block small_entries @ replicate 24 0 @
     write_inode_compact file_inode @ [1, 2] @ replicate 2814 0"

definition small_sb :: erofs_superblock where
  "small_sb = \<lparr>m_superBlock = \<lparr>s_magic = EROFS_MAGIC, s_checksum = 0, s_featureCompat = 0, s_blockSizeBits = 12,
     s_extensionSlots = 0, s_rootInode = 36, s_inodeCount = 2, s_buildTimeSec = 7, s_buildTimeNSec = 0, s_blocks = 1,
     s_metaBlockAddr = 0, s_featureIncompat = 0\<rparr>, m_blockSize = 4096, m_features = {}\<rparr>"

lemma small_sb_fields [simp]: "m_blockSize small_sb = 4096" "rootInode small_sb = 36" "inodeOffset small_sb 36 = 1152" "inodeOffset small_sb 39 = 1248"
  by (simp_all add: small_sb_def rootInode_def inodeOffset_def sz_add_def sz_mul_def)

lemma length_small_block [simp]: "length (write_dir_block small_entries) = 40"
  by (simp add: write_dir_block_def small_entries_def dirent_names_def)

lemma length_small_head [simp]: "length small_head = 1152"
  by (simp add: small_head_def)

lemma length_small_image [simp]: "length small_image = 4096"
  by (simp add: small_image_def)

lemma small_sb_parse: "superblock_parse small_image = Done small_sb"
proof -
  have "read_superblock_struct small_image 1024 = m_superBlock small_sb"
    by (simp add: read_superblock_struct_def le16_at_value le32_at_value le64_at_value)
       (simp add: small_image_def small_head_def small_sb_def le_value_le_bytes u8_at_def nth_append slice_def drop_Cons' le_value_zeros)
  then show ?thesis
    by (simp add: superblock_parse_def Let_def checkChecksum_def int_shift_def superblock_features_def has_bit_def)
       (simp add: small_sb_def)
qed

lemma small_reads:
  "img_read (image_rd small_image) 4096 0 = Some small_image"
  "img_read (image_rd small_image) 32 1152 = Some (write_inode_compact root_inode)"
  "img_read (image_rd small_image) 32 1248 = Some (write_inode_compact file_inode)"
  "slice 1184 40 small_image = write_dir_block small_entries"
  "slice 1280 2 small_image = [1, 2]"
  by (simp_all add: image_rd_read) (simp_all add: small_image_def, simp add: slice_def)

lemma small_load:
  "load_inode (image_rd small_image) small_sb 36 h =
     (blank_inode small_sb 36 h)\<lparr>i_inodeHeaderSize := 32, i_dataFormat := FlatInline, i_type := FT_directory, i_size := 40,
       i_mode := 0x41ED, i_modificationTime := (7, 0)\<rparr>"
  "load_inode (image_rd small_image) small_sb 39 h =
     (blank_inode small_sb 39 h)\<lparr>i_inodeHeaderSize := 32, i_dataFormat := FlatInline, i_type := FT_regular, i_size := 2,
       i_mode := 0x81A4, i_modificationTime := (7, 0)\<rparr>"
  by (simp_all add: load_inode_def blank_inode_def small_reads read_write_inode_compact root_inode_def file_inode_def
      inode_compact_fits_def processCompactInode_def processDataFormat_def processMode_def processData_def Let_def)
    (simp_all add: small_sb_def sz_mul_def)

lemma small_listing: "listing small_entries = [\<lparr>e_inode = 39, e_fileName = ''a'', e_fileType = FT_regular\<rparr>]"
  by (simp add: listing_def small_entries_def convert_fileType_def)

lemma small_file:
  "inode_intact copy_meaning small_image small_sb (load_inode (image_rd small_image) small_sb 39 h)"
  "inode_bytes copy_meaning small_image small_sb (load_inode (image_rd small_image) small_sb 39 h) = [1, 2]"
  by (simp_all add: small_load inode_intact_def inode_bytes_def inode_tail_def blank_inode_def sz_add_def small_reads)

lemma small_image_tree: "image_tree copy_meaning small_image small_sb {36} (\<lambda>d. [small_entries])"
proof -
  let ?i = "load_inode (image_rd small_image) small_sb 36 0"
  have fits: "\<forall>e \<in> set small_entries. dirent_fits e" "small_entries \<noteq> []"
    by (auto simp: small_entries_def dirent_fits_def validateFileName_def)
  have bytes: "inode_bytes copy_meaning small_image small_sb ?i = write_dir_block small_entries"
    by (simp add: small_load inode_bytes_def inode_tail_def blank_inode_def sz_add_def small_reads)
  moreover have "inode_intact copy_meaning small_image small_sb ?i"
    by (simp add: small_load inode_intact_def inode_tail_def blank_inode_def sz_add_def)
  ultimately show ?thesis
    using fits small_load(2) [of 0] by (simp add: image_tree_def small_listing inode_valid_def) (simp add: small_load blank_inode_def)
qed

abbreviation small_dirent :: dir_entry where
  "small_dirent \<equiv> \<lparr>e_inode = 39, e_fileName = ''a'', e_fileType = FT_regular\<rparr>"

lemma small_visits:
  "visits (\<lambda>d. concat (map listing [small_entries])) [(empty_path, rootInode small_sb)] [(path_append empty_path ''a'', small_dirent)]"
  using visits_Cons [of "\<lambda>d. concat (map listing [small_entries])" "[]" empty_path 36 "[]"] visits_Nil
  by (simp add: small_listing subdirs_def entry_paths_def)

text \<open>The file: the image and the superblock of its tree, which for one block has no levels.\<close>

definition small_file_contents :: bytes where
  "small_file_contents = small_image @ single_image"

lemma length_small_file [simp]: "length small_file_contents = 8192"
  by (simp add: small_file_contents_def single_image_facts)

text \<open>A hash of 32 bytes that tells the blocks of this file apart: the first offset a block is found at.\<close>

lemma first_index:
  assumes "n < N" "\<not> P n"
  shows "\<not> P (length (takeWhile P [0..<N]))" "length (takeWhile P [0..<N]) < N"
proof -
  have "length (takeWhile P [0..<N]) < length [0..<N]"
  proof (rule ccontr)
    assume "\<not> ?thesis"
    then have "takeWhile P [0..<N] = [0..<N]" by (metis length_takeWhile_le takeWhile_eq_take take_all not_le)
    with assms show False by (simp add: takeWhile_eq_all_conv)
  qed
  from nth_length_takeWhile [OF this] this
  show "\<not> P (length (takeWhile P [0..<N]))" "length (takeWhile P [0..<N]) < N" by simp_all
qed

definition block_at :: "nat \<Rightarrow> bytes" where
  "block_at off = slice off 4096 small_file_contents"

definition offset_bound :: nat where
  "offset_bound = 4097"

definition first_offset :: "bytes \<Rightarrow> nat" where
  "first_offset b = length (takeWhile (\<lambda>off. block_at off \<noteq> b) [0..<offset_bound])"

definition index_hash :: "bytes \<Rightarrow> bytes" where
  "index_hash b = le_bytes 32 (first_offset b + 1)"

definition small_blocks :: "bytes set" where
  "small_blocks = block_at ` {0..<offset_bound}"

lemma first_offset_found:
  assumes "b \<in> small_blocks"
  shows "block_at (first_offset b) = b" "first_offset b < offset_bound"
proof -
  obtain off where off: "off < offset_bound" "block_at off = b" using assms by (auto simp: small_blocks_def)
  have "\<not> block_at (first_offset b) \<noteq> b"
    unfolding first_offset_def by (rule first_index(1) [OF off(1)]) (simp add: off(2))
  then show "block_at (first_offset b) = b" by simp
  show "first_offset b < offset_bound"
    unfolding first_offset_def by (rule first_index(2) [OF off(1)]) (simp add: off(2))
qed

lemma length_index_hash: "length (index_hash b) = 32"
  by (simp add: index_hash_def)

lemma small_within: "blocks_within 4096 small_blocks small_file_contents"
proof (unfold blocks_within_def, intro allI impI)
  fix off b assume "pread_full small_file_contents 4096 off = Some b"
  then have "b = block_at off" "off < offset_bound"
    by (auto simp: pread_full_Some block_at_def offset_bound_def slice_def min_def split: if_splits)
  then show "b \<in> small_blocks" by (simp add: small_blocks_def)
qed

lemma index_hash_value: "b \<in> small_blocks \<Longrightarrow> le_value (index_hash b) = first_offset b + 1"
proof -
  assume "b \<in> small_blocks"
  then have "first_offset b + 1 < 4099" using first_offset_found(2) [of b] by (simp add: offset_bound_def)
  also have "(4099 :: nat) < 256 ^ 32" by simp
  finally show ?thesis unfolding index_hash_def by (rule le_value_le_bytes)
qed

lemma index_hash_inj: "inj_on index_hash small_blocks"
  by (rule inj_onI) (metis index_hash_value first_offset_found(1) add_right_cancel)

lemma small_offsets: "first_offset small_image = 0" "block_at 4096 = single_image"
proof -
  have "block_at 0 = small_image" by (simp add: block_at_def small_file_contents_def slice_def)
  moreover have "[0..<offset_bound] = 0 # [Suc 0..<offset_bound]" by (rule upt_conv_Cons) (simp add: offset_bound_def)
  ultimately show "first_offset small_image = 0" unfolding first_offset_def by simp
  show "block_at 4096 = single_image"
    by (simp add: block_at_def small_file_contents_def slice_def single_image_facts(1))
qed

subsection \<open>The properties at the sample\<close>

lemma small_root: "tree_root index_hash [] [small_image] = le_bytes 32 1" "le_bytes 32 1 \<noteq> replicate 32 0"
proof -
  show "tree_root index_hash [] [small_image] = le_bytes 32 1"
    by (simp add: tree_root_def index_hash_def small_offsets(1))
  have "le_value (le_bytes 32 1) = 1" by (rule le_value_le_bytes) simp
  then show "le_bytes 32 1 \<noteq> replicate 32 0" by (metis le_value_zeros zero_neq_one)
qed

lemma small_hashes: "hashes_file index_hash (sample_super_block 1) [small_image] = single_image"
  by (simp add: hashes_file_def single_image_def)

abbreviation small_mapping :: mappable_file where
  "small_mapping \<equiv> \<lparr>mf_fd = 0, mf_offset = 0, mf_size = 8192\<rparr>"

lemma small_verity:
  "honest_super_block (sample_super_block 1) (length [small_image])" "\<forall>b \<in> set [small_image]. length b = 4096"
  "le_bytes 32 1 = tree_root index_hash (take (sb_saltSize (sample_super_block 1)) (sb_salt (sample_super_block 1))) [small_image]"
  using sample_honest [of 1] by (simp_all only: sample_salt small_root(1)) simp_all

lemma small_contents:
  "small_file_contents = [] @ concat [small_image] @ hashes_file index_hash (sample_super_block 1) [small_image] @ []"
  "length small_file_contents < 2 ^ 63"
  "small_mapping = \<lparr>mf_fd = 0, mf_offset = length ([] :: bytes),
     mf_size = length (concat [small_image]) + length (hashes_file index_hash (sample_super_block 1) [small_image])\<rparr>"
  by (simp_all add: small_hashes [unfolded One_nat_def] small_file_contents_def single_image_facts(1))

lemma small_concat: "concat [small_image] = small_image"
  by simp

text \<open>The walk over the image, by the walk of the reader over a tree.\<close>

theorem intact_layer_walks_witness:
  "\<exists>l ies l'. new_erofs_layer copy_lz4 index_hash False small_file_contents (Some small_mapping) 4096 (le_bytes 32 1) = Some (Done l) \<and>
    layer_walk 1 l = (ies, l') \<and> \<not> layer_hasError l' \<and>
    list_all2 (is_entry (signed_env copy_lz4 small_image) small_sb) (map ie_entry ies) [(path_append empty_path ''a'', small_dirent)]"
proof -
  have image: "img_read (image_rd (concat [small_image])) 4096 0 = Some small_image" using small_reads(1) by simp
  have tree: "image_tree copy_meaning (concat [small_image]) small_sb {36} (\<lambda>d. [small_entries])" "rootInode small_sb \<in> {36}"
    using small_image_tree by simp_all
  from intact_layer_walks [OF length_index_hash small_verity small_root(2) small_contents image small_sb_parse small_sb_fields(1) tree
      copy_lz4_ok small_visits, of False]
  show ?thesis
    by (simp only: small_concat length_small_image length_Cons list.size One_nat_def add_0) (elim exE conjE, intro exI conjI, assumption+)
qed

lemma small_reader:
  "\<exists>b. IErofsReader_create (signed_env copy_lz4 small_image) =
    Done \<lparr>m_image = Some small_sb, m_dirBlockBuffer = b, m_error = None, m_dirStack = [(empty_path, 36)],
      m_currentDir = [small_dirent], m_currentDirIndex = 0, m_adviceFlags = 0\<rparr>"
proof -
  have "holds_tree (signed_env copy_lz4 small_image) small_sb {36} (\<lambda>d. concat (map listing [small_entries]))"
    using image_tree_holds [OF small_image_tree, of copy_lz4] copy_lz4_ok by (simp add: signed_env_def)
  moreover have "length (replicate 4096 (0 :: byte)) = 4096" by simp
  ultimately obtain b where "readDirectory (signed_env copy_lz4 small_image) small_sb 36 (replicate 4096 0) = Done (Some (listing small_entries), b)"
    unfolding holds_tree_def by fastforce
  then show ?thesis
    by (simp add: IErofsReader_create_def reader_create_def Let_def signed_env_def small_reads small_sb_parse small_listing)
qed

text \<open>The only entry of the layer.\<close>

definition small_entry :: "nat \<Rightarrow> image_entry" where
  "small_entry h = \<lparr>ie_env = signed_env copy_lz4 small_image, ie_sb = small_sb,
     ie_entry = \<lparr>y_path = path_append empty_path ''a'', y_inode = load_inode (image_rd small_image) small_sb 39 h\<rparr>, ie_offset = 0\<rparr>"

lemma small_layer:
  "\<exists>l l' h pf. new_erofs_layer copy_lz4 index_hash False small_file_contents (Some small_mapping) 4096 (le_bytes 32 1) = Some (Done l) \<and>
    layer_next l = Done (Some (small_entry h), l') \<and> \<not> layer_hasError l' \<and> layer_next l' = Done (None, l') \<and> el_error l = None \<and>
    open_layer_image index_hash False small_file_contents small_mapping 4096 (le_bytes 32 1) = Some (Done pf) \<and>
    signed_image index_hash small_blocks (p_verifier pf) [small_image]"
proof -
  obtain b where b: "IErofsReader_create (signed_env copy_lz4 small_image) =
    Done \<lparr>m_image = Some small_sb, m_dirBlockBuffer = b, m_error = None, m_dirStack = [(empty_path, 36)],
      m_currentDir = [small_dirent], m_currentDirIndex = 0, m_adviceFlags = 0\<rparr>" (is "_ = Done ?s")
    using small_reader by blast
  from intact_layer_opens [OF length_index_hash small_verity small_root(2) small_contents, of copy_lz4 ?s False] b
  obtain pf where pf: "open_layer_image index_hash False small_file_contents small_mapping 4096 (le_bytes 32 1) = Some (Done pf)"
    "v_rootHash (p_verifier pf) = le_bytes 32 1" "v_dataBlockCount (p_verifier pf) = 1" "v_salt (p_verifier pf) = []"
    "new_erofs_layer copy_lz4 index_hash False small_file_contents (Some small_mapping) 4096 (le_bytes 32 1) =
      Some (Done \<lparr>el_env = signed_env copy_lz4 small_image, el_reader = Some ?s, el_error = None\<rparr>)"
    unfolding small_concat length_small_image sample_salt by auto
  have "block_at 0 = small_image" by (simp add: block_at_def small_file_contents_def slice_def)
  then have "small_image \<in> small_blocks" unfolding small_blocks_def by (metis image_eqI atLeastLessThan_iff le_refl offset_bound_def zero_less_numeral)
  then have signed: "signed_image index_hash small_blocks (p_verifier pf) [small_image]"
    using pf(2-4) small_root(1) index_hash_inj by (simp add: signed_image_def collision_free_def)
  let ?l = "\<lparr>el_env = signed_env copy_lz4 small_image, el_reader = Some ?s, el_error = None\<rparr>" and ?h = "inode_hints 0 small_dirent"
  have "\<exists>l'. layer_next ?l = Done (Some (small_entry ?h), l') \<and> \<not> layer_hasError l' \<and> layer_next l' = Done (None, l')"
    by (simp add: layer_next_def next_entry_def Let_def entry_isValid_def inode_valid_def signed_env_def small_load small_entry_def
        layer_hasError_def hasError_def)
  then show ?thesis using pf(1,5) signed by fastforce
qed

text \<open>Everything the operating system is asked for succeeds.\<close>

definition all_ok :: write_calls where
  "all_ok = \<lparr>wc_stat = StatNoEntry, wc_check = \<lparr>fchmodat_ok = True, rmdir_ok = True, unlink_ok = True\<rparr>, wc_create_ok = True,
     wc_pwrite = (\<lambda>b o'. length b), wc_write_mode_ok = True, wc_mode_ok = True, wc_unlink_ok = True\<rparr>"

lemma small_written:
  "\<exists>ie'. image_writeTo all_ok 2 0 (small_entry h) = Done (Inr 2,
     [FileCreated, FileContent [1, 2], ModeSet (modeFromFsPerms (inode_permissions (y_inode (ie_entry (small_entry h))))),
      FileClosed, TimeSet 7], ie')"
  using intact_file_written [where ie = "small_entry h" and lib = copy_lz4 and c = small_image and dec = copy_meaning and sys = all_ok and
      maxSize = 2 and options = 0 and prep = "[]", OF _ _ copy_lz4_ok refl]
  by (simp add: small_entry_def small_file all_ok_def checkExtraction_def) (simp add: small_load blank_inode_def)

theorem intact_file_extracts_witness:
  "\<exists>ie'. image_writeTo all_ok 2 0 (small_entry 0) = Done (Inr 2,
     [FileCreated, FileContent [1, 2], ModeSet (modeFromFsPerms (inode_permissions (y_inode (ie_entry (small_entry 0))))),
      FileClosed, TimeSet 7], ie')"
  using intact_file_extracts [where ie = "small_entry 0" and lib = copy_lz4 and c = small_image and dec = copy_meaning and sys = all_ok and
      maxSize = 2 and options = 0 and prep = "[]", OF _ _ copy_lz4_ok refl]
  by (simp add: small_entry_def small_file all_ok_def checkExtraction_def) (simp add: small_load blank_inode_def)

theorem tampered_layer_extracts_signed_witness:
  "\<exists>l ie l' effects ie'. new_erofs_layer copy_lz4 index_hash False small_file_contents (Some small_mapping) 4096 (le_bytes 32 1) = Some (Done l) \<and>
    layer_next l = Done (Some ie, l') \<and> image_writeTo all_ok 2 0 ie = Done (Inr 2, effects, ie') \<and>
    FileContent [1, 2] \<in> set effects \<and>
    image_writeTo all_ok 2 0 (ie\<lparr>ie_env := signed_env copy_lz4 small_image\<rparr>) =
      Done (Inr 2, effects, ie'\<lparr>ie_env := signed_env copy_lz4 small_image\<rparr>)"
proof -
  obtain l l' h pf where l: "new_erofs_layer copy_lz4 index_hash False small_file_contents (Some small_mapping) 4096 (le_bytes 32 1) = Some (Done l)"
    "layer_next l = Done (Some (small_entry h), l')" "el_error l = None"
    "open_layer_image index_hash False small_file_contents small_mapping 4096 (le_bytes 32 1) = Some (Done pf)"
    "signed_image index_hash small_blocks (p_verifier pf) [small_image]"
    using small_layer by blast
  obtain ie' where w: "image_writeTo all_ok 2 0 (small_entry h) = Done (Inr 2,
     [FileCreated, FileContent [1, 2], ModeSet (modeFromFsPerms (inode_permissions (y_inode (ie_entry (small_entry h))))),
      FileClosed, TimeSet 7], ie')" (is "_ = Done (_, ?effects, _)")
    using small_written by blast
  have signed: "signed_image index_hash small_blocks (p_verifier pf') [small_image]"
    if "open_layer_image index_hash False small_file_contents small_mapping 4096 (le_bytes 32 1) = Some (Done pf')" for pf'
    using that l(4,5) by simp
  have calls: "layer_calls 0 l = Some l" by simp
  have whole: "take 4096 (concat [small_image]) = small_image" by simp
  note tampered_layer_extracts_signed [OF length_index_hash l(1,3) small_contents(2) small_root(2) small_within signed calls l(2) w,
      unfolded whole]
  then show ?thesis using l(1,2) w by fastforce
qed

end
