(* ===== verification/ExtractReaders.thy ===== *)
theory ExtractReaders
  imports PackageExtract SampleLayer
begin

section \<open>Extracting from the two readers\<close>

text \<open>
  The reader of an archive and the reader of an EROFS layer as readers of a package: both keep what
  \<open>extractTo\<close> relies on, so its loop returns and respects its limits for both.
\<close>

subsection \<open>An archive\<close>

fun entry_base :: "package_entry \<Rightarrow> base_entry" where
  "entry_base (DirectoryEntry d) = d"
| "entry_base (SymlinkEntry s) = base_entry.truncate s"
| "entry_base (FileEntry f) = base_entry.truncate f"

text \<open>An entry of an archive that is written: a file reads from the archive, through the state it shares with the reader.\<close>

fun archive_entry_writeTo ::
  "'a libarchive \<Rightarrow> (bytes \<Rightarrow> bytes) \<Rightarrow> write_calls \<Rightarrow> nat \<Rightarrow> extract_options \<Rightarrow> package_entry \<Rightarrow> 'a archive_reader \<Rightarrow>
   ('a archive_reader, package_entry) write_result" where
  "archive_entry_writeTo lib H sys maxSize options (DirectoryEntry d) r =
     (case directory_writeTo sys options d of (res, effects) \<Rightarrow> Some (Done (res, effects, DirectoryEntry d, r)))"
| "archive_entry_writeTo lib H sys maxSize options (SymlinkEntry s) r =
     (case symlink_writeTo sys maxSize options s of (res, effects) \<Rightarrow> Some (Done (res, effects, SymlinkEntry s, r)))"
| "archive_entry_writeTo lib H sys maxSize options (FileEntry f) r =
     (case file_writeTo lib H sys maxSize options (Some (ar_readState r)) f of
        None \<Rightarrow> None
      | Some (res, effects, rs) \<Rightarrow>
          Some (Done (res, effects, FileEntry f, (case rs of None \<Rightarrow> r | Some rs \<Rightarrow> r\<lparr>ar_readState := rs\<rparr>))))"

definition archive_ops :: "'a libarchive \<Rightarrow> (bytes \<Rightarrow> bytes) \<Rightarrow> ('a archive_reader, package_entry) package_reader" where
  "archive_ops lib H =
     \<lparr>op_next = (\<lambda>r. map_option Done (archive_next lib H r)), op_hasError = archive_hasError,
      op_error = (\<lambda>r. case ar_error r of None \<Rightarrow> NoError | Some e \<Rightarrow> e),
      op_path = (\<lambda>e. be_path (entry_base e)), op_size = (\<lambda>e. be_size (entry_base e)),
      op_type = (\<lambda>e. be_type (entry_base e)), op_modificationTime = (\<lambda>e. be_modTime (entry_base e)),
      op_writeTo = archive_entry_writeTo lib H\<rparr>"

text \<open>An archive is finite: with every header and every block less of it is left.\<close>

definition shrinking :: "'a libarchive \<Rightarrow> ('a \<Rightarrow> nat) \<Rightarrow> bool" where
  "shrinking lib left \<longleftrightarrow>
     (\<forall>a h a'. nextHeader lib a = (HeaderOk h, a') \<longrightarrow> left a' < left a) \<and>
     (\<forall>a d off a'. readDataBlock lib a = (BlockOk d off, a') \<longrightarrow> left a' < left a)"

lemma shrinking_blocks_end: "shrinking lib left \<Longrightarrow> blocks_end lib (Suc (left a)) a"
proof (induction "left a" arbitrary: a rule: less_induct)
  case less
  show ?case
  proof (cases "readDataBlock lib a")
    case (Pair res a')
    show ?thesis
    proof (cases res)
      case (BlockOk d off)
      then have smaller: "left a' < left a" using less.prems Pair by (simp add: shrinking_def)
      then have ends: "blocks_end lib (Suc (left a')) a'" using less by blast
      have mono: "blocks_end lib m b \<Longrightarrow> m \<le> k \<Longrightarrow> blocks_end lib k b" for m k b
      proof (induction m arbitrary: k b)
        case (Suc m)
        then show ?case by (cases k) (auto split: prod.splits block_answer.splits)
      qed simp
      have "blocks_end lib (left a) a'" by (rule mono [OF ends]) (use smaller in simp)
      then show ?thesis using Pair BlockOk by simp
    qed (use Pair in simp_all)
  qed
qed

lemma shrinking_next_returns:
  assumes "shrinking lib left"
  shows "\<exists>e r'. archive_next lib H r = Some (e, r')"
proof -
  have "\<exists>x. loop (next_round lib H) r = Some x"
  proof (rule loop_terminates [where I = "\<lambda>_. True" and m = "\<lambda>r. left (rs_archive (ar_readState r))"])
    fix r r' :: "'a archive_reader" assume "next_round lib H r = Continue r'"
    from next_round_advances [OF this] assms
    show "True \<and> left (rs_archive (ar_readState r')) < left (rs_archive (ar_readState r))" by (auto simp: shrinking_def)
  qed simp
  then show ?thesis by (auto simp: archive_next_def intro: prod.exhaust)
qed

lemma file_writeTo_bound:
  assumes "file_writeTo lib H sys mx options rs f = Some (Inr n, effects, rs')"
  shows "n \<le> mx"
proof -
  obtain s where s: "checkReadState rs f = Inr s" using assms by (auto simp: file_writeTo_def split: sum.splits)
  obtain c prep where c: "checkExtraction (wc_check sys) (wc_stat sys) TypeRegular (be_perms f) options = (c, prep)" by fastforce
  show ?thesis
  proof (cases "c = Inr ExtractEntry \<and> wc_create_ok sys")
    case True
    then obtain q es a where w: "doFileWrite lib H sys mx f (rs_archive s) = Some (q, es, a)"
      using assms s c by (auto simp: file_writeTo_def split: option.splits)
    then have "q = Inr n" using assms s c True by (cases q) (auto simp: file_writeTo_def Let_def split: if_splits)
    then show ?thesis using doFileWrite_ok w by fastforce
  next
    case False
    then show ?thesis using assms s c by (cases c; cases "projr c") (auto simp: file_writeTo_def)
  qed
qed

lemma symlink_writeTo_bound: "symlink_writeTo sys mx options s = (Inr n, effects) \<Longrightarrow> n \<le> mx"
  by (auto simp: symlink_writeTo_def split: if_splits prod.splits sum.splits extract_operation.splits)

lemma directory_writeTo_nothing: "directory_writeTo sys options d = (Inr n, effects) \<Longrightarrow> n = 0"
  by (auto simp: directory_writeTo_def split: if_splits prod.splits sum.splits extract_operation.splits)

lemma archive_entry_writeTo_bound:
  "archive_entry_writeTo lib H sys mx options e r = Some (Done (Inr n, effects, e', r')) \<Longrightarrow> n \<le> mx"
  by (cases e) (auto dest: file_writeTo_bound symlink_writeTo_bound directory_writeTo_nothing split: prod.splits option.splits)

lemma archive_entry_writeTo_returns:
  assumes "shrinking lib left"
  shows "archive_entry_writeTo lib H sys mx options e r \<noteq> None"
proof (cases e)
  case (FileEntry f)
  have "\<exists>q. doFileWrite lib H sys mx f a = Some q" for a
    by (rule doFileWrite_returns [OF shrinking_blocks_end [OF assms]])
  then have "file_writeTo lib H sys mx options rs f \<noteq> None" for rs
    by (auto simp: file_writeTo_def Let_def split: sum.splits prod.splits extract_operation.splits option.splits)
      (metis option.distinct(1))
  then show ?thesis using FileEntry by (auto split: option.splits)
qed (auto split: prod.splits)

interpretation archives: extractable "archive_ops lib H" "\<lambda>r. \<exists>left. shrinking lib left" "\<lambda>r e. True" for lib H
  by unfold_locales
    (auto simp: archive_ops_def dest: archive_entry_writeTo_bound archive_entry_writeTo_returns intro: shrinking_next_returns)

subsection \<open>An EROFS layer\<close>

definition layer_ops :: "(erofs_layer, image_entry) package_reader" where
  "layer_ops =
     \<lparr>op_next = (\<lambda>l. Some (case layer_next l of Done x \<Rightarrow> Done x | Fail e \<Rightarrow> Fail LengthError | Undefined u \<Rightarrow> Undefined u)),
      op_hasError = layer_hasError, op_error = layer_error,
      op_path = (\<lambda>e. y_path (ie_entry e)), op_size = (\<lambda>e. entry_size (ie_entry e)),
      op_type = (\<lambda>e. fs_type (i_type (y_inode (ie_entry e)))),
      op_modificationTime = (\<lambda>e. int (fst (i_modificationTime (y_inode (ie_entry e))))),
      op_writeTo = (\<lambda>sys mx options e l. Some (case image_writeTo sys mx options e of
         Done (res, effects, e') \<Rightarrow> Done (res, effects, e', l) | Fail x \<Rightarrow> Fail x | Undefined u \<Rightarrow> Undefined u))\<rparr>"

lemma load_inode_size: "i_size (load_inode rd sb n h) < SIZE_LIMIT"
proof -
  have p: "i_size (processData sb x (processMode m (processDataFormat f i))) = i_size i" for sb x m f i
    by (auto simp: processData_def processMode_def processDataFormat_def Let_def split: data_format.splits)
  have "le32_at b i < SIZE_LIMIT" for b i using le32_at_less [of b i] by linarith
  then show ?thesis
    by (auto simp: load_inode_def Let_def processCompactInode_def processExtendedInode_def p blank_inode_def read_inode_compact_def
        split: option.splits)
qed

lemma layer_next_size: "layer_next l = Done (Some e, l') \<Longrightarrow> i_size (y_inode (ie_entry e)) < SIZE_LIMIT"
  using layer_next_entry(3) load_inode_size by metis

interpretation layers: extractable layer_ops "\<lambda>l. True" "\<lambda>l e. i_size (y_inode (ie_entry e)) < SIZE_LIMIT"
  by unfold_locales
    (auto simp: layer_ops_def split: outcome.splits dest: layer_next_size image_writeTo_bound)

end
