(* ===== verification/IntactExtract.thy ===== *)
theory IntactExtract
  imports ExtractReaders
begin

section \<open>Extracting an untouched EROFS package\<close>

text \<open>
  The whole way of an EROFS package from its file to the target directory: the hash tree, the image, the walk
  and \<open>extractTo\<close>.  If the file is what the packager made and the system does what it is asked to, the target
  gets exactly the tree of the image.
\<close>

subsection \<open>What extracting an inode does\<close>

text \<open>The system carries out what it is asked to, in a directory where the path is free.\<close>

definition cooperative :: "write_calls \<Rightarrow> bool" where
  "cooperative sys \<longleftrightarrow> wc_stat sys = StatNoEntry \<and> wc_create_ok sys \<and> wc_mode_ok sys \<and> (\<forall>b o'. wc_pwrite sys b o' = length b)"

text \<open>An inode whose content is there, of a kind that can be extracted; a link has a target of at most 4095 bytes.\<close>

definition inode_extracts :: "lz4_meaning \<Rightarrow> bytes \<Rightarrow> erofs_superblock \<Rightarrow> inode \<Rightarrow> bool" where
  "inode_extracts dec c sb i \<longleftrightarrow>
     i_type i = FT_directory \<or>
     (i_type i = FT_regular \<or> i_type i = FT_symlink \<and> 0 < i_size i \<and> i_size i \<le> 4095) \<and>
     inode_intact dec c sb i \<and> length (inode_bytes dec c sb i) = i_size i"

definition inode_written :: "inode \<Rightarrow> nat" where
  "inode_written i = (if i_type i = FT_directory then 0 else i_size i)"

definition inode_effects :: "lz4_meaning \<Rightarrow> bytes \<Rightarrow> erofs_superblock \<Rightarrow> inode \<Rightarrow> write_effect list" where
  "inode_effects dec c sb i =
     (if i_type i = FT_regular then
        [FileCreated, FileContent (inode_bytes dec c sb i), ModeSet (modeFromFsPerms (inode_permissions i)), FileClosed]
      else if i_type i = FT_directory then [DirectoryMade mode_0755]
      else [LinkMade (c_string (inode_bytes dec c sb i))]) @ [TimeSet (int (fst (i_modificationTime i)))]"

text \<open>What writing an entry keeps of it.\<close>

definition same_entry :: "image_entry \<Rightarrow> image_entry \<Rightarrow> bool" where
  "same_entry a b \<longleftrightarrow> y_path (ie_entry b) = y_path (ie_entry a) \<and>
     (y_inode (ie_entry b))\<lparr>i_inodeReader := None\<rparr> = (y_inode (ie_entry a))\<lparr>i_inodeReader := None\<rparr>"

lemma entry_read_same:
  assumes "entry_read env sb e out off = Done (n, d, e')"
  shows "y_path e' = y_path e \<and> (y_inode e')\<lparr>i_inodeReader := None\<rparr> = (y_inode e)\<lparr>i_inodeReader := None\<rparr>"
  using assms by (auto simp: entry_read_def split: outcome.splits dest: inode_read_keeps(1))

lemma copy_file_same:
  "copy_file env sb wr maxSize fileSize e off buf out = Done (r, out', e') \<Longrightarrow>
   y_path e' = y_path e \<and> (y_inode e')\<lparr>i_inodeReader := None\<rparr> = (y_inode e)\<lparr>i_inodeReader := None\<rparr>"
proof (induction env sb wr maxSize fileSize e off buf out rule: copy_file.induct)
  case (1 env sb wr maxSize fileSize e off buf out)
  show ?case
  proof (cases "off \<ge> fileSize")
    case True
    then show ?thesis using 1(2) by (subst (asm) copy_file.simps) simp
  next
    case False
    obtain n d e1 where r: "entry_read env sb e buf off = Done (n, d, e1)"
      using 1(2) False by (subst (asm) copy_file.simps) (auto split: outcome.splits)
    note same = entry_read_same [OF r]
    consider "e' = e1" | "\<not> n \<le> 0" "\<not> sz_add off (nat n) > maxSize" "\<not> wr (take (nat n) d) off \<noteq> nat n"
        "copy_file env sb wr maxSize fileSize e1 (off + nat n) d (out @ take (wr (take (nat n) d) off) (take (nat n) d)) = Done (r, out', e')"
      using 1(2) False r by (subst (asm) copy_file.simps) (auto simp: Let_def split: if_splits)
    then show ?thesis
    proof cases
      case 1
      then show ?thesis using same by simp
    next
      case 2
      from 1(1) [OF False r refl refl 2(1,2) refl refl refl 2(3,4)] same show ?thesis by simp
    qed
  qed
qed

lemma image_writeTo_same:
  "image_writeTo sys maxSize options ie = Done (r, effects, ie') \<Longrightarrow> same_entry ie ie'"
  by (auto simp: image_writeTo_def Let_def same_entry_def dest: copy_file_same entry_read_same
      split: prod.splits sum.splits extract_operation.splits if_splits outcome.splits)

lemma image_writeTo_intact:
  assumes env: "ie_env ie = signed_env lib c" "length c < 2 ^ 63" "lz4_ok lib dec"
    and i: "i = y_inode (ie_entry ie)" "i_inodeReader i = None" "inode_extracts dec c (ie_sb ie) i" "inode_written i \<le> maxSize"
      "i_size i < SIZE_LIMIT"
    and sys: "cooperative sys"
  shows "\<exists>ie'. image_writeTo sys maxSize options ie = Done (Inr (inode_written i), inode_effects dec c (ie_sb ie) i, ie')"
proof -
  have ok: "checkExtraction (wc_check sys) (wc_stat sys) t p options = (Inr ExtractEntry, [])" for t p
    using sys by (simp add: cooperative_def checkExtraction_def)
  consider (regular) "i_type i = FT_regular" | (dir) "i_type i = FT_directory" | (link) "i_type i = FT_symlink" "0 < i_size i" "i_size i \<le> 4095"
    using i(3) by (auto simp: inode_extracts_def)
  then show ?thesis
  proof cases
    case regular
    then have "inode_intact dec c (ie_sb ie) i" "length (inode_bytes dec c (ie_sb ie) i) = i_size i" "i_size i \<le> maxSize"
      using i(3,4) by (auto simp: inode_extracts_def inode_written_def)
    from intact_file_written [where sys = sys and options = options, OF env i(1) regular i(2) this i(5) ok] sys regular
    show ?thesis by (simp add: cooperative_def inode_effects_def inode_written_def)
  next
    case dir
    then show ?thesis using ok sys i(1) by (simp add: image_writeTo_def Let_def cooperative_def inode_effects_def inode_written_def)
  next
    case link
    then have intact: "inode_intact dec c (ie_sb ie) i" "length (inode_bytes dec c (ie_sb ie) i) = i_size i" "i_size i \<le> maxSize"
      using i(3,4) by (auto simp: inode_extracts_def inode_written_def)
    have "inode_ready dec c (ie_sb ie) i i" using i(2) by (simp add: inode_ready_def)
    from inode_read_ready [OF intact(1) this env(2,3), of "replicate 4095 0" 0] obtain i' where
      "inode_read lib (image_rd c) (length c) (ie_sb ie) i (replicate 4095 0) 0 =
        Done (int (i_size i), inode_bytes dec c (ie_sb ie) i @ replicate (4095 - i_size i) 0, i')"
      using link(3) intact(2) by (auto simp: Let_def slice_def min_def)
    then have "entry_read (ie_env ie) (ie_sb ie) (ie_entry ie) (replicate (PATH_MAX - 1) 0) 0 =
        Done (int (i_size i), inode_bytes dec c (ie_sb ie) i @ replicate (4095 - i_size i) 0, (ie_entry ie)\<lparr>y_inode := i'\<rparr>)"
      using i(1) env(1) by (simp add: entry_read_def signed_env_def)
    then show ?thesis
      using ok sys link intact i(1) by (simp add: image_writeTo_def Let_def cooperative_def inode_effects_def inode_written_def)
  qed
qed

subsection \<open>The loop over the entries\<close>

lemma round_goes_on:
  assumes "op_next R (x_reader x) = Some (Done (Some e, r))" "sz_add (x_totalExtracted x) (op_size R e) \<le> sizeLimit"
    "op_writeTo R (target (x_written x) (op_path R e)) (op_size R e) options e r = Some (Done (Inr n, effects, e', r'))"
    "sz_add (x_totalEntries x) 1 < entriesLimit"
  shows "extract_round R target options sizeLimit entriesLimit x = Continue (x\<lparr>x_reader := r',
    x_written := x_written x @ [\<lparr>w_path = op_path R e', w_maxSize = op_size R e, w_result = Inr n, w_effects = effects\<rparr>],
    x_totalExtracted := sz_add (x_totalExtracted x) n, x_totalEntries := sz_add (x_totalEntries x) 1,
    x_dirModTimes := x_dirModTimes x @ (if op_type R e' = TypeDirectory then [(op_path R e', op_modificationTime R e')] else [])\<rparr>)"
  using assms by (simp add: extract_round_def Let_def)

text \<open>The records of an extraction without errors, for the entries of a walk.\<close>

definition entry_log :: "lz4_meaning \<Rightarrow> bytes \<Rightarrow> erofs_superblock \<Rightarrow> path \<times> inode \<Rightarrow> written" where
  "entry_log dec c sb = (\<lambda>(p, i). \<lparr>w_path = p, w_maxSize = inode_written i, w_result = Inr (inode_written i),
     w_effects = inode_effects dec c sb i\<rparr>)"

definition dir_times :: "(path \<times> inode) list \<Rightarrow> (path \<times> int) list" where
  "dir_times es = map (\<lambda>(p, i). (p, int (fst (i_modificationTime i)))) (filter (\<lambda>(p, i). i_type i = FT_directory) es)"

definition entry_fine :: "lz4 \<Rightarrow> lz4_meaning \<Rightarrow> bytes \<Rightarrow> erofs_superblock \<Rightarrow> image_entry \<Rightarrow> bool" where
  "entry_fine lib dec c sb ie \<longleftrightarrow> ie_env ie = signed_env lib c \<and> ie_sb ie = sb \<and>
     (let i = y_inode (ie_entry ie) in i_inodeReader i = None \<and> inode_extracts dec c sb i \<and> i_size i < SIZE_LIMIT)"

abbreviation named_inode :: "image_entry \<Rightarrow> path \<times> inode" where
  "named_inode ie \<equiv> (y_path (ie_entry ie), y_inode (ie_entry ie))"

lemma fs_type_directory [simp]: "fs_type t = TypeDirectory \<longleftrightarrow> t = FT_directory"
  by (cases t) simp_all

lemma same_entry_fields:
  "same_entry a b \<Longrightarrow> y_path (ie_entry b) = y_path (ie_entry a) \<and> i_type (y_inode (ie_entry b)) = i_type (y_inode (ie_entry a)) \<and>
     i_modificationTime (y_inode (ie_entry b)) = i_modificationTime (y_inode (ie_entry a))"
  by (cases "y_inode (ie_entry a)"; cases "y_inode (ie_entry b)") (simp add: same_entry_def)

lemma extract_layer_round:
  assumes "layer_next (x_reader x) = Done (Some ie, l)" "entry_fine lib dec c sb ie" "length c < 2 ^ 63" "lz4_ok lib dec"
    "\<And>ws p. cooperative (target ws p)" "x_totalExtracted x + inode_written (y_inode (ie_entry ie)) \<le> sizeLimit" "sizeLimit < SIZE_LIMIT"
    "x_totalEntries x + 1 < entriesLimit" "entriesLimit \<le> SIZE_MAX"
  shows "extract_round layer_ops target options sizeLimit entriesLimit x = Continue (x\<lparr>x_reader := l,
    x_written := x_written x @ [entry_log dec c sb (named_inode ie)],
    x_totalExtracted := x_totalExtracted x + inode_written (y_inode (ie_entry ie)), x_totalEntries := x_totalEntries x + 1,
    x_dirModTimes := x_dirModTimes x @ dir_times [named_inode ie]\<rparr>)"
proof -
  let ?i = "y_inode (ie_entry ie)" and ?sys = "target (x_written x) (y_path (ie_entry ie))"
  have fine: "ie_env ie = signed_env lib c" "ie_sb ie = sb" "i_inodeReader ?i = None" "inode_extracts dec c sb ?i" "i_size ?i < SIZE_LIMIT"
    using assms(2) by (simp_all add: entry_fine_def Let_def)
  have size: "entry_size (ie_entry ie) = inode_written ?i" by (simp add: entry_size_def inode_written_def)
  from image_writeTo_intact [where maxSize = "inode_written ?i" and options = options, OF fine(1) assms(3,4) refl fine(3) _ le_refl fine(5) assms(5)] fine(2,4)
  obtain ie' where w: "image_writeTo ?sys (inode_written ?i) options ie = Done (Inr (inode_written ?i), inode_effects dec c sb ?i, ie')"
    by auto
  note same = same_entry_fields [OF image_writeTo_same [OF w]]
  have "extract_round layer_ops target options sizeLimit entriesLimit x = Continue (x\<lparr>x_reader := l,
    x_written := x_written x @ [\<lparr>w_path = op_path layer_ops ie', w_maxSize = op_size layer_ops ie, w_result = Inr (inode_written ?i),
      w_effects = inode_effects dec c sb ?i\<rparr>],
    x_totalExtracted := sz_add (x_totalExtracted x) (inode_written ?i), x_totalEntries := sz_add (x_totalEntries x) 1,
    x_dirModTimes := x_dirModTimes x @ (if op_type layer_ops ie' = TypeDirectory then [(op_path layer_ops ie', op_modificationTime layer_ops ie')] else [])\<rparr>)"
    by (rule round_goes_on) (use assms(1,6-9) w size in \<open>simp_all add: layer_ops_def wrap_simps\<close>)
  then show ?thesis
    using same size assms(6-9) by (simp add: layer_ops_def entry_log_def dir_times_def wrap_simps)
qed

lemma extract_layer_walk:
  assumes "length c < 2 ^ 63" "lz4_ok lib dec" "\<And>ws p. cooperative (target ws p)" "sizeLimit < SIZE_LIMIT" "entriesLimit \<le> SIZE_MAX"
  shows "layer_walk n l = (ies, l') \<Longrightarrow> length ies = n \<Longrightarrow> \<forall>ie \<in> set ies. entry_fine lib dec c sb ie \<Longrightarrow> x_reader x = l \<Longrightarrow>
    x_totalExtracted x + sum_list (map (\<lambda>ie. inode_written (y_inode (ie_entry ie))) ies) \<le> sizeLimit \<Longrightarrow>
    x_totalEntries x + n < entriesLimit \<Longrightarrow>
    \<exists>x'. loop (extract_round layer_ops target options sizeLimit entriesLimit) x =
        loop (extract_round layer_ops target options sizeLimit entriesLimit) x' \<and>
      x_reader x' = l' \<and> x_written x' = x_written x @ map (entry_log dec c sb) (map named_inode ies) \<and>
      x_dirModTimes x' = x_dirModTimes x @ dir_times (map named_inode ies) \<and> x_timesSet x' = x_timesSet x"
proof (induction n arbitrary: l ies x)
  case 0
  then show ?case by (intro exI [of _ x]) (simp add: dir_times_def)
next
  case (Suc n)
  let ?body = "extract_round layer_ops target options sizeLimit entriesLimit"
  obtain ie l1 ies1 where w: "layer_next l = Done (Some ie, l1)" "layer_walk n l1 = (ies1, l')" "ies = ie # ies1"
    using Suc.prems(1,2) by (auto split: outcome.splits option.splits prod.splits)
  let ?x = "x\<lparr>x_reader := l1, x_written := x_written x @ [entry_log dec c sb (named_inode ie)],
    x_totalExtracted := x_totalExtracted x + inode_written (y_inode (ie_entry ie)), x_totalEntries := x_totalEntries x + 1,
    x_dirModTimes := x_dirModTimes x @ dir_times [named_inode ie]\<rparr>"
  have "?body x = Continue ?x"
    by (rule extract_layer_round [OF _ _ assms(1,2)]) (use w Suc.prems assms(3-5) in auto)
  then have step: "loop ?body x = loop ?body ?x" by (rule loop_Continue)
  have "\<exists>x'. loop ?body ?x = loop ?body x' \<and> x_reader x' = l' \<and>
      x_written x' = x_written ?x @ map (entry_log dec c sb) (map named_inode ies1) \<and>
      x_dirModTimes x' = x_dirModTimes ?x @ dir_times (map named_inode ies1) \<and> x_timesSet x' = x_timesSet ?x"
    by (rule Suc.IH [OF w(2)]) (use w(3) Suc.prems in auto)
  then obtain x' where x': "loop ?body ?x = loop ?body x'" "x_reader x' = l'"
      "x_written x' = x_written ?x @ map (entry_log dec c sb) (map named_inode ies1)"
      "x_dirModTimes x' = x_dirModTimes ?x @ dir_times (map named_inode ies1)" "x_timesSet x' = x_timesSet ?x"
    by (elim exE conjE)
  have "dir_times (map named_inode ies) = dir_times [named_inode ie] @ dir_times (map named_inode ies1)"
    by (simp add: w(3) dir_times_def)
  then show ?case using x' step w(3) by (intro exI [of _ x']) simp
qed

text \<open>What the entries of a walk are.\<close>

lemma next_entry_image: "next_entry env s = Done (x, s') \<Longrightarrow> m_image s' = m_image s"
proof -
  have dir: "next_directory env sb q s = Done (ok, s') \<Longrightarrow> m_image s' = m_image s" for q s ok s' sb
    by (induction env sb q s rule: next_directory.induct) (auto split: outcome.splits prod.splits option.splits if_splits)
  show "next_entry env s = Done (x, s') \<Longrightarrow> m_image s' = m_image s"
    by (auto simp: next_entry_def Let_def dest: dir split: if_splits prod.splits option.splits)
qed

lemma layer_walk_entries:
  "layer_walk n l = (ies, l') \<Longrightarrow> el_reader l = Some s \<Longrightarrow> m_image s = Some sb \<Longrightarrow> ie \<in> set ies \<Longrightarrow> ie_env ie = el_env l \<and> ie_sb ie = sb"
proof (induction n arbitrary: l ies s)
  case (Suc n)
  show ?case
  proof (cases "\<exists>a l1. layer_next l = Done (Some a, l1)")
    case True
    then obtain a l1 where a: "layer_next l = Done (Some a, l1)" by blast
    then obtain e s1 where s1: "next_entry (el_env l) s = Done (Some e, s1)" "a = \<lparr>ie_env = el_env l, ie_sb = sb, ie_entry = e, ie_offset = 0\<rparr>"
      "l1 = l\<lparr>el_reader := Some s1\<rparr>"
      using Suc.prems(2,3) by (auto simp: layer_next_def split: outcome.splits prod.splits option.splits)
    obtain ies1 where w: "layer_walk n l1 = (ies1, l')" "ies = a # ies1" using Suc.prems(1) a by (auto split: prod.splits)
    have "m_image s1 = Some sb" using next_entry_image [OF s1(1)] Suc.prems(3) by simp
    from Suc.IH [OF w(1) _ this] Suc.prems(4) w(2) s1(2,3) show ?thesis by auto
  next
    case False
    then have "ies = []" using Suc.prems(1) by (auto split: outcome.splits option.splits prod.splits)
    then show ?thesis using Suc.prems(4) by simp
  qed
qed simp

lemma layer_at_end:
  "el_reader l = Some s \<Longrightarrow> atEnd s \<Longrightarrow> \<not> hasError s \<Longrightarrow> el_error l = None \<Longrightarrow> layer_next l = Done (None, l) \<and> \<not> layer_hasError l"
  by (simp add: layer_next_def next_entry_def atEnd_def layer_hasError_def)

definition tree_inodes :: "bytes \<Rightarrow> erofs_superblock \<Rightarrow> (path \<times> dir_entry) list \<Rightarrow> (path \<times> inode) list" where
  "tree_inodes c sb out = map (\<lambda>(p, e). (p, load_inode (image_rd c) sb (e_inode e) 0)) out"

lemma named_inodes:
  "list_all2 (is_entry (signed_env lib c) sb) (map ie_entry ies) out \<Longrightarrow> map named_inode ies = tree_inodes c sb out"
proof (induction ies arbitrary: out)
  case (Cons ie ies)
  then obtain p e out1 where out: "out = (p, e) # out1" by (cases out) auto
  with Cons show ?case by (simp add: tree_inodes_def signed_env_def)
qed (simp add: tree_inodes_def)

lemma extract_layer_all:
  assumes "length c < 2 ^ 63" "lz4_ok lib dec" "\<And>ws p. cooperative (target ws p)" "sizeLimit < SIZE_LIMIT" "entriesLimit \<le> SIZE_MAX"
    and walk: "walk (signed_env lib c) (length out) s0 = (es, s)" "list_all2 (is_entry (signed_env lib c) sb) es out" "atEnd s" "\<not> hasError s"
      "m_image s0 = Some sb"
    and out: "\<forall>(p, i) \<in> set (tree_inodes c sb out). inode_extracts dec c sb i"
      "sum_list (map (inode_written \<circ> snd) (tree_inodes c sb out)) \<le> sizeLimit" "length out < entriesLimit"
  shows "extractTo layer_ops target options sizeLimit entriesLimit
      (Some (Inr \<lparr>el_env = signed_env lib c, el_reader = Some s0, el_error = None\<rparr>)) =
    Some (Done (NoError, map (entry_log dec c sb) (tree_inodes c sb out), dir_times (tree_inodes c sb out)))"
proof -
  let ?l = "\<lparr>el_env = signed_env lib c, el_reader = Some s0, el_error = None\<rparr>" and ?body = "extract_round layer_ops target options sizeLimit entriesLimit"
  obtain ies where ies: "layer_walk (length out) ?l = (ies, ?l\<lparr>el_reader := Some s\<rparr>)" "map ie_entry ies = es"
    using layer_walk_walk [of ?l "length out" s0 es s] walk(1) by auto
  let ?l' = "?l\<lparr>el_reader := Some s\<rparr>"
  have len: "length ies = length out" using walk(2) ies(2) by (auto dest: list_all2_lengthD)
  have named: "map named_inode ies = tree_inodes c sb out" by (rule named_inodes) (use walk(2) ies(2) in simp)
  have fine: "\<forall>ie \<in> set ies. entry_fine lib dec c sb ie"
  proof
    fix ie assume ie: "ie \<in> set ies"
    then have mem: "named_inode ie \<in> set (tree_inodes c sb out)" unfolding named [symmetric] by simp
    then obtain e :: dir_entry where e: "y_inode (ie_entry ie) = load_inode (image_rd c) sb (e_inode e) 0" by (auto simp: tree_inodes_def)
    from layer_walk_entries [OF ies(1) _ walk(5) ie] mem out(1)
    show "entry_fine lib dec c sb ie" by (auto simp: entry_fine_def e load_inode_size load_inode_fresh)
  qed
  have sum: "sum_list (map (\<lambda>ie. inode_written (y_inode (ie_entry ie))) ies) \<le> sizeLimit"
    using out(2) unfolding named [symmetric] by (simp add: comp_def)
  from extract_layer_walk [where target = target and options = options, OF assms(1-5) ies(1) len fine, of "start_extraction ?l"] sum out(3)
  obtain x where x: "loop ?body (start_extraction ?l) = loop ?body x" "x_reader x = ?l'"
    "x_written x = map (entry_log dec c sb) (tree_inodes c sb out)" "x_dirModTimes x = dir_times (tree_inodes c sb out)"
    unfolding named by (fastforce simp: start_extraction_def)
  have at_end: "layer_next ?l' = Done (None, ?l') \<and> \<not> layer_hasError ?l'" using layer_at_end walk(3,4) by simp
  have "x\<lparr>x_reader := ?l'\<rparr> = x" using x(2) by simp
  then have "?body x = Return (Some (Done (NoError, x\<lparr>x_timesSet := x_dirModTimes x\<rparr>)))"
    using at_end x(2) by (simp add: extract_round_def layer_ops_def finish_extraction_def)
  then have "loop ?body x = Some (Some (Done (NoError, x\<lparr>x_timesSet := x_dirModTimes x\<rparr>)))" by (rule loop_Return)
  then show ?thesis using x(1,3,4) by (simp add: extractTo_def extract_entries_def)
qed

lemma intact_package_written:
  assumes H: "\<And>b. length (H b) = 32"
    and verity: "honest_super_block vsb (length bs)" "\<forall>b \<in> set bs. length b = 4096"
      "root = tree_root H (take (sb_saltSize vsb) (sb_salt vsb)) bs" "root \<noteq> replicate 32 0"
    and contents: "contents = pre @ concat bs @ hashes_file H vsb bs @ post" "length contents < 2 ^ 63"
    and f: "f = \<lparr>mf_fd = fd, mf_offset = length pre, mf_size = length (concat bs) + length (hashes_file H vsb bs)\<rparr>"
    and image: "img_read (image_rd (concat bs)) 4096 0 = Some first" "superblock_parse first = Done sb" "m_blockSize sb = 4096"
    and tree: "image_tree dec (concat bs) sb D T" "rootInode sb \<in> D" "lz4_ok lib dec"
      "visits (\<lambda>d. concat (map listing (T d))) [(empty_path, rootInode sb)] out"
    and entries: "\<forall>(p, i) \<in> set (tree_inodes (concat bs) sb out). inode_extracts dec (concat bs) sb i"
    and limits: "sum_list (map (inode_written \<circ> snd) (tree_inodes (concat bs) sb out)) \<le> sizeLimit" "sizeLimit < SIZE_LIMIT"
      "length out < entriesLimit" "entriesLimit \<le> SIZE_MAX"
    and system: "\<And>ws p. cooperative (target ws p)"
  shows "\<exists>l. new_erofs_layer lib H direct contents (Some f) (length (concat bs)) root = Some (Done l) \<and>
    extractTo layer_ops target options sizeLimit entriesLimit (Some (Inr l)) =
      Some (Done (NoError, map (entry_log dec (concat bs) sb) (tree_inodes (concat bs) sb out), dir_times (tree_inodes (concat bs) sb out)))"
proof -
  let ?c = "concat bs"
  have len: "length ?c < 2 ^ 63" using contents by simp
  from reader_walks_tree_aux [OF image len tree] obtain s0 es s where
    w: "IErofsReader_create (signed_env lib ?c) = Done s0" "walk (signed_env lib ?c) (length out) s0 = (es, s)"
      "list_all2 (is_entry (signed_env lib ?c) sb) es out" "atEnd s" "\<not> hasError s" unfolding signed_env_def by blast
  have "m_image s0 = Some sb"
    using w(1) image by (auto simp: IErofsReader_create_def reader_create_def signed_env_def Let_def split: outcome.splits option.splits)
  note extracts = extract_layer_all [where options = options and target = target, OF len tree(3) system limits(2,4) w(2-5) this entries limits(1,3)]
  from intact_layer_opens [where H = H and direct = direct, OF H verity contents f w(1)]
  have "new_erofs_layer lib H direct contents (Some f) (length ?c) root =
      Some (Done \<lparr>el_env = signed_env lib ?c, el_reader = Some s0, el_error = None\<rparr>)" by (elim exE conjE)
  then show ?thesis using extracts by (intro exI conjI)
qed

text \<open>
  C9. A package whose EROFS layer is as it was made is extracted exactly: the layer opens with the root hash,
  and the extraction succeeds and writes the entries of the tree in breadth-first order, each once, under
  its path: a regular file, plain, inline or compressed with flat or compacted indexes, with its bytes, its mode
  and its time; a link with its target; a directory with the mode 0755, as the code does not apply the mode that
  the image gives a directory; and after all entries the times of the directories.
\<close>

theorem intact_package_extracts:
  assumes H: "\<And>b. length (H b) = 32"
    and verity: "honest_super_block vsb (length bs)" "\<forall>b \<in> set bs. length b = 4096"
      "root = tree_root H (take (sb_saltSize vsb) (sb_salt vsb)) bs" "root \<noteq> replicate 32 0"
    and contents: "contents = pre @ concat bs @ hashes_file H vsb bs @ post" "length contents < 2 ^ 63"
    and f: "f = \<lparr>mf_fd = fd, mf_offset = length pre, mf_size = length (concat bs) + length (hashes_file H vsb bs)\<rparr>"
    and image: "img_read (image_rd (concat bs)) 4096 0 = Some first" "superblock_parse first = Done sb" "m_blockSize sb = 4096"
    and tree: "image_tree dec (concat bs) sb D T" "rootInode sb \<in> D" "lz4_ok lib dec"
      "visits (\<lambda>d. concat (map listing (T d))) [(empty_path, rootInode sb)] out"
    and entries: "\<forall>(p, i) \<in> set (tree_inodes (concat bs) sb out). inode_extracts dec (concat bs) sb i"
    and limits: "sum_list (map (inode_written \<circ> snd) (tree_inodes (concat bs) sb out)) \<le> sizeLimit" "sizeLimit < SIZE_LIMIT"
      "length out < entriesLimit" "entriesLimit \<le> SIZE_MAX"
    and system: "\<And>ws p. cooperative (target ws p)"
  shows "\<exists>l. new_erofs_layer lib H direct contents (Some f) (length (concat bs)) root = Some (Done l) \<and>
    extractTo layer_ops target options sizeLimit entriesLimit (Some (Inr l)) =
      Some (Done (NoError, map (entry_log dec (concat bs) sb) (tree_inodes (concat bs) sb out), dir_times (tree_inodes (concat bs) sb out)))"
  by (rule intact_package_written [OF assms])

text \<open>The sample layer: its tree is one file.\<close>

lemma small_tree_inodes:
  "tree_inodes small_image small_sb [(path_append empty_path ''a'', small_dirent)] =
     [(path_append empty_path ''a'', load_inode (image_rd small_image) small_sb 39 0)]"
  by (simp add: tree_inodes_def)

lemma small_extraction_facts:
  "\<forall>(p, i) \<in> set (tree_inodes (concat [small_image]) small_sb [(path_append empty_path ''a'', small_dirent)]).
     inode_extracts copy_meaning (concat [small_image]) small_sb i"
  "sum_list (map (inode_written \<circ> snd) (tree_inodes (concat [small_image]) small_sb [(path_append empty_path ''a'', small_dirent)])) \<le> 2"
  "length [(path_append empty_path ''a'', small_dirent)] < 2"
  "img_read (image_rd (concat [small_image])) 4096 0 = Some small_image"
  "image_tree copy_meaning (concat [small_image]) small_sb {36} (\<lambda>d. [small_entries])" "rootInode small_sb \<in> {36}"
  "cooperative all_ok"
  unfolding small_concat small_tree_inodes
  using small_reads(1) small_image_tree small_file [of 0]
  by (simp_all add: cooperative_def all_ok_def inode_extracts_def) (simp_all add: small_load blank_inode_def inode_written_def)

definition small_log :: "written list" where
  "small_log = map (entry_log copy_meaning small_image small_sb)
     (tree_inodes small_image small_sb [(path_append empty_path ''a'', small_dirent)])"

lemma small_log_eq:
  "map w_path small_log = [path_append empty_path ''a'']" "map w_result small_log = [Inr 2]"
  "map (\<lambda>w. w_effects w ! 1) small_log = [FileContent [1, 2]]"
  "dir_times (tree_inodes small_image small_sb [(path_append empty_path ''a'', small_dirent)]) = []"
  unfolding small_log_def small_tree_inodes
  using small_file(2) [of 0]
  by (simp_all add: entry_log_def dir_times_def inode_effects_def) (simp_all add: small_load blank_inode_def inode_written_def)

theorem intact_package_extracts_witness:
  "\<exists>l. new_erofs_layer copy_lz4 index_hash False small_file_contents (Some small_mapping) 4096 (le_bytes 32 1) = Some (Done l) \<and>
    extractTo layer_ops (\<lambda>ws p. all_ok) 0 2 2 (Some (Inr l)) = Some (Done (NoError, small_log, []))"
proof -
  have limits: "(2 :: nat) < SIZE_LIMIT" "(2 :: nat) \<le> SIZE_MAX" by simp_all
  have coop: "cooperative ((\<lambda>ws p. all_ok) ws p)" for ws :: "written list" and p by (rule small_extraction_facts(7))
  show ?thesis
    using intact_package_extracts [where target = "\<lambda>ws p. all_ok" and options = 0 and direct = False, OF length_index_hash small_verity
      small_root(2) small_contents small_extraction_facts(4) small_sb_parse small_sb_fields(1) small_extraction_facts(5,6)
      copy_lz4_ok small_visits small_extraction_facts(1,2) limits(1) small_extraction_facts(3) limits(2) coop]
    unfolding small_concat length_small_image small_log_def [symmetric] small_log_eq(4) .
qed

text \<open>The same for the proofs at this sample.\<close>

lemma small_package_written:
  assumes "\<And>ws p. cooperative (target ws p)" "2 \<le> sizeLimit" "sizeLimit < SIZE_LIMIT" "1 < entriesLimit" "entriesLimit \<le> SIZE_MAX"
  shows "\<exists>l. new_erofs_layer copy_lz4 index_hash False small_file_contents (Some small_mapping) 4096 (le_bytes 32 1) = Some (Done l) \<and>
    extractTo layer_ops target options sizeLimit entriesLimit (Some (Inr l)) = Some (Done (NoError, small_log, []))"
proof -
  have len: "length [(path_append empty_path ''a'', small_dirent)] < entriesLimit" using assms(4) by simp
  show ?thesis
    using intact_package_written [where target = target and options = options and direct = False, OF length_index_hash small_verity
      small_root(2) small_contents small_extraction_facts(4) small_sb_parse small_sb_fields(1) small_extraction_facts(5,6)
      copy_lz4_ok small_visits small_extraction_facts(1) le_trans [OF small_extraction_facts(2) assms(2)] assms(3) len assms(5,1)]
    unfolding small_concat length_small_image small_log_def [symmetric] small_log_eq(4) .
qed

end
