(* ===== verification/OCIArchiveLayer.thy ===== *)
theory OCIArchiveLayer
  imports OCIBackingStore ExtractReaders
begin

section \<open>Archive image layers\<close>

text \<open>
  \<open>lib/oci/OCIArchiveImageLayerReader.cpp\<close>: the reader of an image layer that is an archive.  libarchive reads
  the layer through two callbacks, which feed a digest builder with every byte, and at the end of the archive
  the digest is compared with the one of the descriptor.  The functions of libarchive are a parameter on a
  state of its own together with the source its callbacks change; that it has no other way to the source
  (\<open>archive_read_open2\<close>) is the hypothesis \<open>by_callbacks\<close>.
\<close>

subsection \<open>The source and its callbacks\<close>

record 'r image_source =
  im_descriptor :: oci_descriptor
  im_reader :: 'r
  im_size :: int
  im_offset :: int
  im_fed :: bytes
  im_finalised :: bool
  im_error :: "error_code option"

definition MAX_IMAGE_SIZE :: nat where "MAX_IMAGE_SIZE = 512 * 1024 * 1024"

text \<open>\<open>operator bool\<close> of an error.\<close>

definition im_hasError :: "'r image_source \<Rightarrow> bool" where
  "im_hasError s \<longleftrightarrow> (case im_error s of None \<Rightarrow> False | Some e \<Rightarrow> e \<noteq> NoError)"

definition new_source :: "oci_descriptor \<Rightarrow> 'r \<Rightarrow> 'r image_source" where
  "new_source d r = \<lparr>im_descriptor = d, im_reader = r, im_size = sint (word_of_nat (od_size d) :: 64 word),
     im_offset = 0, im_fed = [], im_finalised = False, im_error = None\<rparr>"

text \<open>The bytes of a read, or nothing when the reader gave none; \<open>rd\<close> is the function \<open>read\<close> of the reader.\<close>

definition source_read :: "('r \<Rightarrow> nat \<Rightarrow> bytes option \<times> 'r) \<Rightarrow> nat \<Rightarrow> 'r image_source \<Rightarrow> bytes option \<times> 'r image_source" where
  "source_read rd amount s =
     (case rd (im_reader s) amount of (res, r) \<Rightarrow>
        let s = s\<lparr>im_reader := r\<rparr>; d = (case res of None \<Rightarrow> [] | Some d \<Rightarrow> d) in
        if d = [] then (None, s\<lparr>im_error := Some PackageContentsInvalid\<rparr>)
        else (Some d, s\<lparr>im_fed := im_fed s @ d, im_offset := im_offset s + int (length d)\<rparr>))"

definition readCallback :: "('r \<Rightarrow> nat \<Rightarrow> bytes option \<times> 'r) \<Rightarrow> 'r image_source \<Rightarrow> bytes option \<times> 'r image_source" where
  "readCallback rd s =
     (if im_offset s \<ge> im_size s then (Some [], s)
      else source_read rd (nat (min (im_size s - im_offset s) 8192)) s)"

text \<open>The loop of the skip callback; \<open>None\<close> is the result -1.\<close>

function skip_loop :: "('r \<Rightarrow> nat \<Rightarrow> bytes option \<times> 'r) \<Rightarrow> int \<Rightarrow> int \<Rightarrow> 'r image_source \<Rightarrow> int option \<times> 'r image_source" where
  "skip_loop rd skip skipped s =
     (if skipped \<ge> skip then (Some skipped, s)
      else case source_read rd (nat (min 4096 (skip - skipped))) s of
        (None, s) \<Rightarrow> (None, s)
      | (Some d, s) \<Rightarrow> if d = [] then (None, s) else skip_loop rd skip (skipped + int (length d)) s)"
  by auto
termination
  by (relation "measure (\<lambda>(rd, skip, skipped, s). nat (skip - skipped))") auto

declare skip_loop.simps [simp del]

definition skipCallback :: "('r \<Rightarrow> nat \<Rightarrow> bytes option \<times> 'r) \<Rightarrow> int \<Rightarrow> 'r image_source \<Rightarrow> int option \<times> 'r image_source" where
  "skipCallback rd skip s =
     (if im_offset s \<ge> im_size s then (Some 0, s) else skip_loop rd (min skip (im_size s - im_offset s)) 0 s)"

text \<open>What libarchive may do to the source.\<close>

inductive called :: "('r \<Rightarrow> nat \<Rightarrow> bytes option \<times> 'r) \<Rightarrow> 'r image_source \<Rightarrow> 'r image_source \<Rightarrow> bool" for rd where
  called_refl: "called rd s s"
| called_read: "called rd s t \<Longrightarrow> called rd s (snd (readCallback rd t))"
| called_skip: "called rd s t \<Longrightarrow> called rd s (snd (skipCallback rd skip t))"

definition by_callbacks :: "('r \<Rightarrow> nat \<Rightarrow> bytes option \<times> 'r) \<Rightarrow> ('a \<times> 'r image_source) libarchive \<Rightarrow> bool" where
  "by_callbacks rd lib \<longleftrightarrow>
     (\<forall>a. called rd (snd a) (snd (snd (nextHeader lib a)))) \<and>
     (\<forall>n a. called rd (snd a) (snd (snd (readData lib n a)))) \<and>
     (\<forall>a. called rd (snd a) (snd (snd (readDataBlock lib a))))"

subsection \<open>The reader\<close>

definition image_formats :: "string \<Rightarrow> archive_format option" where
  "image_formats mediaType =
     (if mediaType = PACKAGE_IMAGE_MEDIA_TYPE_PREFIX @ ''tar'' then Some Tarball
      else if mediaType = PACKAGE_IMAGE_MEDIA_TYPE_PREFIX @ ''tar+gzip'' then Some TarballGzip
      else if mediaType = PACKAGE_IMAGE_MEDIA_TYPE_PREFIX @ ''tar+zstd'' then Some TarballZstd
      else if mediaType = PACKAGE_IMAGE_MEDIA_TYPE_PREFIX @ ''zip'' then Some Zip
      else None)"

text \<open>Without an archive reader there is only the error of the constructor.\<close>

datatype ('a, 'r) archive_layer =
  FailedLayer error_code
| OpenLayer "('a \<times> 'r image_source) archive_reader"

abbreviation layer_source :: "('a \<times> 'r image_source) archive_reader \<Rightarrow> 'r image_source" where
  "layer_source r \<equiv> snd (rs_archive (ar_readState r))"

definition with_source :: "'r image_source \<Rightarrow> ('a \<times> 'r image_source) archive_reader \<Rightarrow> ('a \<times> 'r image_source) archive_reader" where
  "with_source s r = r\<lparr>ar_readState := (ar_readState r)\<lparr>rs_archive := (fst (rs_archive (ar_readState r)), s)\<rparr>\<rparr>"

text \<open>\<open>open_stream\<close> opens an archive of a format over the source; it may call the callbacks already.\<close>

definition new_archive_layer ::
  "(archive_format \<Rightarrow> 'r image_source \<Rightarrow> 'a option \<times> 'r image_source) \<Rightarrow> oci_descriptor \<Rightarrow> 'r \<Rightarrow> ('a, 'r) archive_layer" where
  "new_archive_layer open_stream d r =
     (if od_size d > MAX_IMAGE_SIZE then FailedLayer PackageContentsInvalid
      else case image_formats (od_mediaType d) of
        None \<Rightarrow> FailedLayer PackageContentsInvalid
      | Some format \<Rightarrow>
          (case open_stream format (new_source d r) of
             (None, s) \<Rightarrow> FailedLayer PackageContentsInvalid
           | (Some a, s) \<Rightarrow> OpenLayer (new_archive_reader (a, s) None)))"

fun archive_layer_hasError :: "('a, 'r) archive_layer \<Rightarrow> bool" where
  "archive_layer_hasError (FailedLayer e) \<longleftrightarrow> e \<noteq> NoError"
| "archive_layer_hasError (OpenLayer r) \<longleftrightarrow> im_hasError (layer_source r)"

fun archive_layer_error :: "('a, 'r) archive_layer \<Rightarrow> error_code" where
  "archive_layer_error (FailedLayer e) = e"
| "archive_layer_error (OpenLayer r) = (case im_error (layer_source r) of None \<Rightarrow> NoError | Some e \<Rightarrow> e)"

text \<open>
  At the end of the archive: the rest of the layer is read, and the digest compared.  Finalising a builder a
  second time is not covered by the documentation of OpenSSL; what it gives is the parameter \<open>again\<close>.
\<close>

definition finish_layer ::
  "('r \<Rightarrow> nat \<Rightarrow> bytes option \<times> 'r) \<Rightarrow> (bytes \<Rightarrow> bytes) \<Rightarrow> (bytes \<Rightarrow> bytes) \<Rightarrow> 'r image_source \<Rightarrow> 'r image_source" where
  "finish_layer rd H again s =
     (let s = (if im_offset s < im_size s then snd (skipCallback rd (im_size s - im_offset s) s) else s);
          actualDigest = (if im_finalised s then again (im_fed s) else H (im_fed s));
          s = s\<lparr>im_finalised := True\<rparr> in
      if actualDigest \<noteq> hexStringToBytes (od_digest (im_descriptor s)) then s\<lparr>im_error := Some InvalidPackage\<rparr> else s)"

fun archive_layer_next ::
  "('a \<times> 'r image_source) libarchive \<Rightarrow> (bytes \<Rightarrow> bytes) \<Rightarrow> (bytes \<Rightarrow> bytes) \<Rightarrow> ('r \<Rightarrow> nat \<Rightarrow> bytes option \<times> 'r) \<Rightarrow> ('a, 'r) archive_layer \<Rightarrow>
   (package_entry option \<times> ('a, 'r) archive_layer) option" where
  "archive_layer_next lib H again rd (FailedLayer e) = Some (None, FailedLayer e)"
| "archive_layer_next lib H again rd (OpenLayer r) =
     (if im_hasError (layer_source r) then Some (None, OpenLayer r)
      else case archive_next lib H r of
        None \<Rightarrow> None
      | Some (entry, r) \<Rightarrow>
          (case ar_error r of
             Some e \<Rightarrow> Some (None, OpenLayer (with_source ((layer_source r)\<lparr>im_error := Some e\<rparr>) r))
           | None \<Rightarrow>
               (case entry of
                  Some e \<Rightarrow> Some (Some e, OpenLayer r)
                | None \<Rightarrow> Some (None, OpenLayer (with_source (finish_layer rd H again (layer_source r)) r)))))"

text \<open>A layer that could not be opened hands out no entries, so the first case does not occur.\<close>

fun layer_entry_writeTo ::
  "('a \<times> 'r image_source) libarchive \<Rightarrow> (bytes \<Rightarrow> bytes) \<Rightarrow> write_calls \<Rightarrow> nat \<Rightarrow> extract_options \<Rightarrow> package_entry \<Rightarrow> ('a, 'r) archive_layer \<Rightarrow>
   (('a, 'r) archive_layer, package_entry) write_result" where
  "layer_entry_writeTo lib H sys maxSize options e (FailedLayer c) = Some (Done (Inl InternalError, [], e, FailedLayer c))"
| "layer_entry_writeTo lib H sys maxSize options e (OpenLayer r) =
     (case archive_entry_writeTo lib H sys maxSize options e r of
        None \<Rightarrow> None
      | Some (Undefined u) \<Rightarrow> Some (Undefined u)
      | Some (Fail x) \<Rightarrow> Some (Fail x)
      | Some (Done (res, effects, e, r)) \<Rightarrow> Some (Done (res, effects, e, OpenLayer r)))"

definition archive_layer_ops ::
  "('a \<times> 'r image_source) libarchive \<Rightarrow> (bytes \<Rightarrow> bytes) \<Rightarrow> (bytes \<Rightarrow> bytes) \<Rightarrow> ('r \<Rightarrow> nat \<Rightarrow> bytes option \<times> 'r) \<Rightarrow> (('a, 'r) archive_layer, package_entry) package_reader" where
  "archive_layer_ops lib H again rd =
     \<lparr>op_next = (\<lambda>l. map_option Done (archive_layer_next lib H again rd l)), op_hasError = archive_layer_hasError, op_error = archive_layer_error,
      op_path = (\<lambda>e. be_path (entry_base e)), op_size = (\<lambda>e. be_size (entry_base e)),
      op_type = (\<lambda>e. be_type (entry_base e)), op_modificationTime = (\<lambda>e. be_modTime (entry_base e)),
      op_writeTo = layer_entry_writeTo lib H\<rparr>"

subsection \<open>What the source keeps\<close>

text \<open>The bytes that a sequence of reads has got out of a reader, those that failed between them.\<close>

inductive bytes_read :: "('r \<Rightarrow> nat \<Rightarrow> bytes option \<times> 'r) \<Rightarrow> 'r \<Rightarrow> bytes \<Rightarrow> 'r \<Rightarrow> bool" for rd where
  bytes_none: "bytes_read rd r [] r"
| bytes_more: "bytes_read rd r fed r1 \<Longrightarrow> rd r1 n = (Some d, r2) \<Longrightarrow> bytes_read rd r (fed @ d) r2"
| bytes_failed: "bytes_read rd r fed r1 \<Longrightarrow> rd r1 n = (None, r2) \<Longrightarrow> bytes_read rd r fed r2"

lemma bytes_empty: "bytes_read rd r fed r1 \<Longrightarrow> rd r1 n = (Some [], r2) \<Longrightarrow> bytes_read rd r fed r2"
  by (drule (1) bytes_more) simp

text \<open>
  The invariant of the source of a layer over any reader of files: the digest builder was fed the bytes that were
  read from the reader \<open>q\<close> it started with, up to the offset, which is inside the layer.  Both callbacks keep it, so it holds whatever libarchive does.
\<close>

context file_reader
begin

definition source_ok :: "'r \<Rightarrow> oci_descriptor \<Rightarrow> 'r image_source \<Rightarrow> bool" where
  "source_ok q d s \<longleftrightarrow> reader_ok (im_reader s) \<and> bytes_read read q (im_fed s) (im_reader s) \<and> im_descriptor s = d \<and> im_size s = int (od_size d) \<and>
     im_offset s = int (length (im_fed s)) \<and> im_offset s \<le> im_size s \<and> im_error s \<noteq> Some NoError \<and> \<not> im_finalised s"

lemma new_source_ok: "reader_ok q \<Longrightarrow> od_size d \<le> MAX_IMAGE_SIZE \<Longrightarrow> source_ok q d (new_source d q)"
  by (simp add: bytes_none source_ok_def new_source_def MAX_IMAGE_SIZE_def sint_small)

lemma source_read_ok:
  assumes "source_ok q d s" "int n \<le> im_size s - im_offset s" "source_read read n s = (b, s')"
  shows "source_ok q d s' \<and> (case b of
      None \<Rightarrow> im_error s' = Some PackageContentsInvalid
    | Some e \<Rightarrow> 0 < length e \<and> length e \<le> n \<and> im_offset s' = im_offset s + int (length e))"
proof -
  obtain res r where r: "read (im_reader s) n = (res, r)" by fastforce
  have ok: "reader_ok (im_reader s)" using assms(1) by (simp add: source_ok_def)
  have "reader_ok r" using read_ok [OF ok r] .
  moreover have "length e \<le> n" if "res = Some e" for e using read_length ok r that by blast
  moreover have "case res of None \<Rightarrow> bytes_read read q (im_fed s) r | Some e \<Rightarrow> bytes_read read q (im_fed s @ e) r"
    using assms(1) r by (auto simp: source_ok_def intro: bytes_more bytes_failed split: option.splits)
  ultimately show ?thesis
    using assms r by (auto simp: source_read_def source_ok_def Let_def split: option.splits if_splits)
qed

lemma readCallback_ok:
  assumes "source_ok q d s"
  shows "source_ok q d (snd (readCallback read s))"
proof (cases "im_offset s \<ge> im_size s")
  case False
  obtain b s' where "source_read read (nat (min (im_size s - im_offset s) 8192)) s = (b, s')" by fastforce
  with source_read_ok [OF assms _ this] False show ?thesis by (simp add: readCallback_def)
qed (use assms in \<open>simp add: readCallback_def\<close>)

lemma skip_loop_ok:
  assumes "source_ok q d s" "skipped \<le> skip" "skip - skipped \<le> im_size s - im_offset s" "skip_loop read skip skipped s = (b, s')"
  shows "source_ok q d s' \<and> (case b of None \<Rightarrow> im_error s' = Some PackageContentsInvalid | Some k \<Rightarrow> im_offset s' = im_offset s + (skip - skipped))"
  using assms
proof (induction "nat (skip - skipped)" arbitrary: skipped s rule: less_induct)
  case less
  show ?case
  proof (cases "skipped \<ge> skip")
    case False
    let ?n = "nat (min 4096 (skip - skipped))"
    obtain c t where t: "source_read read ?n s = (c, t)" by fastforce
    have n: "int ?n \<le> im_size s - im_offset s" using less(4) False by simp
    note k = source_read_ok [OF less(2) n t]
    show ?thesis
    proof (cases c)
      case None
      then show ?thesis using k t less(5) False by (subst (asm) skip_loop.simps) auto
    next
      case (Some e)
      have e: "e \<noteq> []" "int (length e) \<le> skip - skipped" "source_ok q d t" "im_offset t = im_offset s + int (length e)"
        "im_size t = im_size s"
        using k Some less(2) False by (auto simp: source_ok_def)
      have rest: "skip_loop read skip (skipped + int (length e)) t = (b, s')"
        using t less(5) False Some e(1) by (subst (asm) skip_loop.simps) simp
      show ?thesis using less(1) [OF _ e(3) _ _ rest] e less(4) False by (auto split: option.splits)
    qed
  qed (use less in \<open>subst (asm) skip_loop.simps, auto\<close>)
qed

lemma skipCallback_ok:
  assumes "source_ok q d s" "skipCallback read skip s = (b, s')"
  shows "source_ok q d s'" "b = None \<Longrightarrow> im_error s' = Some PackageContentsInvalid"
    "b \<noteq> None \<Longrightarrow> im_size s - im_offset s \<le> skip \<Longrightarrow> im_offset s' = im_size s'"
proof -
  let ?m = "min skip (im_size s - im_offset s)"
  have "source_ok q d s' \<and> (b = None \<longrightarrow> im_error s' = Some PackageContentsInvalid) \<and>
    (b \<noteq> None \<longrightarrow> im_size s - im_offset s \<le> skip \<longrightarrow> im_offset s' = im_size s')"
  proof (cases "im_offset s \<ge> im_size s \<or> skip < 0")
    case True
    have "skip_loop read ?m 0 s = (Some 0, s)" if "skip < 0" using that by (subst skip_loop.simps) (simp add: min_le_iff_disj)
    then have "skipCallback read skip s = (Some 0, s)" using True by (simp add: skipCallback_def) blast
    then show ?thesis using True assms by (auto simp: source_ok_def)
  next
    case False
    have "0 \<le> ?m" "?m - 0 \<le> im_size s - im_offset s" using False by auto
    moreover have "skip_loop read ?m 0 s = (b, s')" using assms(2) False by (simp add: skipCallback_def)
    ultimately have k: "source_ok q d s' \<and> (case b of None \<Rightarrow> im_error s' = Some PackageContentsInvalid | Some k \<Rightarrow> im_offset s' = im_offset s + (?m - 0))"
      by (rule skip_loop_ok [OF assms(1)])
    have "im_size s' = im_size s" using k assms(1) by (simp add: source_ok_def)
    then show ?thesis using k by (cases b) simp_all
  qed
  then show "source_ok q d s'" "b = None \<Longrightarrow> im_error s' = Some PackageContentsInvalid"
    "b \<noteq> None \<Longrightarrow> im_size s - im_offset s \<le> skip \<Longrightarrow> im_offset s' = im_size s'" by blast+
qed

lemma called_ok: "called read s t \<Longrightarrow> source_ok q d s \<Longrightarrow> source_ok q d t"
proof (induction rule: called.induct)
  case (called_skip s t skip)
  then show ?case using skipCallback_ok(1) by (metis prod.collapse)
qed (simp_all add: readCallback_ok)

text \<open>At the end there is no error only if the whole layer was read and has the digest of its descriptor.\<close>

lemma finish_layer_ok:
  assumes "source_ok q d s" "\<not> im_hasError (finish_layer read H again s)"
  shows "bytes_read read q (im_fed (finish_layer read H again s)) (im_reader (finish_layer read H again s)) \<and>
    length (im_fed (finish_layer read H again s)) = od_size d \<and> H (im_fed (finish_layer read H again s)) = hexStringToBytes (od_digest d)"
proof -
  let ?rest = "if im_offset s < im_size s then snd (skipCallback read (im_size s - im_offset s) s) else s"
  have "source_ok q d ?rest \<and> (\<not> im_hasError ?rest \<longrightarrow> im_offset ?rest = im_size ?rest)"
  proof (cases "im_offset s < im_size s")
    case True
    obtain b t where t: "skipCallback read (im_size s - im_offset s) s = (b, t)" by fastforce
    show ?thesis using skipCallback_ok [OF assms(1) t] True t by (cases b) (auto simp: im_hasError_def)
  qed (use assms(1) in \<open>simp add: source_ok_def\<close>)
  moreover have "\<not> im_hasError ?rest \<and> H (im_fed ?rest) = hexStringToBytes (od_digest d) \<and> im_fed (finish_layer read H again s) = im_fed ?rest \<and>
      im_reader (finish_layer read H again s) = im_reader ?rest"
    using assms(2) calculation
    by (auto simp: finish_layer_def Let_def source_ok_def im_hasError_def simp del: if_split split: if_splits)
  ultimately show ?thesis by (simp add: source_ok_def)
qed

end

subsection \<open>What the reader of the archive keeps\<close>

text \<open>A property of the state of libarchive that its functions keep is kept by the reader and its entries.\<close>

definition archive_keeps :: "('a \<Rightarrow> bool) \<Rightarrow> 'a libarchive \<Rightarrow> bool" where
  "archive_keeps P lib \<longleftrightarrow>
     (\<forall>a. P a \<longrightarrow> P (snd (nextHeader lib a))) \<and> (\<forall>n a. P a \<longrightarrow> P (snd (readData lib n a))) \<and>
     (\<forall>a. P a \<longrightarrow> P (snd (readDataBlock lib a)))"

definition reader_keeps :: "('a \<Rightarrow> bool) \<Rightarrow> 'a archive_reader \<Rightarrow> bool" where
  "reader_keeps P r \<longleftrightarrow> P (rs_archive (ar_readState r)) \<and> ar_error r \<noteq> Some NoError"

lemma add_parents_error: "add_parents mx t pre ns node sz = (node', sz', es, err) \<Longrightarrow> err \<noteq> Some NoError"
  by (induction mx t pre ns node sz arbitrary: node' sz' es err rule: add_parents.induct)
    (auto split: if_splits option.splits prod.splits)

lemma updateParentEntryStack_keeps: "reader_keeps P r \<Longrightarrow> reader_keeps P (updateParentEntryStack p t r)"
  by (auto simp: updateParentEntryStack_def reader_keeps_def setError_def Let_def dest: add_parents_error split: prod.splits option.splits)

lemma make_entry_error: "make_entry H rs path ae digest = Inl e \<Longrightarrow> e \<noteq> NoError"
  by (auto simp: make_entry_def symlink_create_def file_create_def Let_def split: if_splits option.splits)

lemma createEntry_keeps: "reader_keeps P r \<Longrightarrow> createEntry H path ae r = (e, r') \<Longrightarrow> reader_keeps P r'"
  by (auto simp: createEntry_def reader_keeps_def setError_def Let_def dest: make_entry_error split: if_splits sum.splits)

lemma pop_entry_keeps: "reader_keeps P r \<Longrightarrow> reader_keeps P (snd (pop_entry r))"
  by (simp add: pop_entry_def reader_keeps_def)

lemma next_leaf_keeps:
  assumes "reader_keeps P r"
  shows "reader_keeps P (snd (next_leaf H path ae r))"
proof -
  define r1 where "r1 = (if has_parent_path path then updateParentEntryStack (parent_path path) (ae_mtime ae) r else r)"
  define r2 where "r2 = (if ae_filetype ae AND AE_IFMT = AE_IFLNK then r1\<lparr>ar_symlinks := ar_symlinks r1 @ [path]\<rparr> else r1)"
  have r1: "reader_keeps P r1" using assms by (simp add: r1_def updateParentEntryStack_keeps)
  then have r2: "reader_keeps P r2" by (simp add: r2_def reader_keeps_def)
  obtain e r3 where e: "createEntry H path ae r2 = (e, r3)" by fastforce
  have r3: "reader_keeps P r3" by (rule createEntry_keeps [OF r2 e])
  have "next_leaf H path ae r =
    (if \<not> has_filename path then (None, setError PackageInvalidEntry r)
     else if ae_filetype ae AND AE_IFMT = AE_IFLNK \<and> length (ar_symlinks r1) \<ge> MAX_SYMLINK_COUNT then (None, setError PackageContentsInvalid r1)
     else (case createEntry H path ae r2 of
         (None, r) \<Rightarrow> (None, r)
       | (Some e, r) \<Rightarrow> if ar_entryStack r \<noteq> [] then pop_entry (r\<lparr>ar_entryStack := ar_entryStack r @ [e]\<rparr>) else (Some e, r)))"
    by (simp only: next_leaf_def Let_def r1_def r2_def)
  then show ?thesis using assms r1 r3 e by (cases e) (auto simp: reader_keeps_def setError_def pop_entry_def)
qed

lemma next_round_keeps:
  assumes "archive_keeps P lib" "reader_keeps P r"
  shows "case next_round lib H r of Continue r' \<Rightarrow> reader_keeps P r' | Return (e, r') \<Rightarrow> reader_keeps P r'"
proof -
  obtain answer a where h: "nextHeader lib (rs_archive (ar_readState r)) = (answer, a)" by fastforce
  have "P a" using assms h by (metis archive_keeps_def reader_keeps_def snd_conv)
  then have k: "reader_keeps P (r\<lparr>ar_readState := (ar_readState r)\<lparr>rs_archive := a\<rparr>\<rparr>)"
    "reader_keeps P (r\<lparr>ar_readState := (ar_readState r)\<lparr>rs_archive := a, rs_entryIndex := n\<rparr>\<rparr>)"
    "reader_keeps P (r\<lparr>ar_readState := (ar_readState r)\<lparr>rs_archive := a, rs_endOfArchive := b\<rparr>\<rparr>)" for n b
    using assms(2) by (simp_all add: reader_keeps_def)
  have err: "reader_keeps P q \<Longrightarrow> e \<noteq> NoError \<Longrightarrow> reader_keeps P (setError e q)" for q e by (simp add: reader_keeps_def setError_def)
  show ?thesis
  proof (cases answer)
    case (HeaderOk ae)
    let ?q = "r\<lparr>ar_readState := (ar_readState r)\<lparr>rs_archive := a, rs_entryIndex := sz_add (rs_entryIndex (ar_readState r)) 1\<rparr>\<rparr>"
    show ?thesis
    proof (cases "ar_error r = None")
      case True
      show ?thesis
      proof (cases "ae_pathname ae")
        case None
        then show ?thesis using HeaderOk True h err [OF k(2)] by (simp add: next_round_def Let_def)
      next
        case (Some p)
        define path where "path = lexically_normal (path_of_string p)"
        let ?t = "updateParentEntryStack path (ae_mtime ae) ?q"
        have "reader_keeps P ?t" by (rule updateParentEntryStack_keeps [OF k(2)])
        moreover have "next_round lib H r =
          (if \<not> verifyPackagePath path \<or> withinSymLink ?q path then Return (None, setError PackageInvalidEntry ?q)
           else if ae_filetype ae AND AE_IFMT = AE_IFDIR then (if ar_entryStack ?t = [] then Continue ?t else Return (pop_entry ?t))
           else Return (next_leaf H path ae ?q))"
          using HeaderOk True h Some by (simp add: next_round_def Let_def path_def)
        ultimately show ?thesis
          using err [OF k(2)] pop_entry_keeps [of P ?t] next_leaf_keeps [OF k(2)] by (simp add: case_prod_beta)
      qed
    qed (use assms(2) in \<open>simp add: next_round_def\<close>)
  qed (use assms(2) h k err in \<open>auto simp: next_round_def Let_def\<close>)
qed

lemma archive_next_keeps:
  assumes "archive_keeps P lib" "reader_keeps P r" "archive_next lib H r = Some (e, r')"
  shows "reader_keeps P r'"
proof (cases "ar_error r \<noteq> None \<or> rs_endOfArchive (ar_readState r)")
  case False
  show ?thesis
  proof (cases "ar_entryStack r = []")
    case True
    then have lp: "loop (next_round lib H) r = Some (e, r')" using False assms(3) by (auto simp: archive_next_def)
    have keep: "reader_keeps P s \<Longrightarrow> next_round lib H s = Continue s' \<Longrightarrow> reader_keeps P s'" for s s'
      using next_round_keeps [OF assms(1), of s H] by simp
    have "\<exists>s. reader_keeps P s \<and> next_round lib H s = Return (e, r')"
      by (rule loop_invariant [where I = "reader_keeps P"], rule lp, rule assms(2), rule keep)
    then obtain s where "reader_keeps P s" "next_round lib H s = Return (e, r')" by (elim exE conjE)
    then show ?thesis using next_round_keeps [OF assms(1), of s H] by simp
  next
    case nonempty: False
    then have "r' = snd (pop_entry r)" using False assms(3) by (simp add: archive_next_def)
    then show ?thesis using pop_entry_keeps [OF assms(2)] by simp
  qed
qed (use assms in \<open>auto simp: archive_next_def\<close>)


text \<open>Writing a file reads the blocks of libarchive, and no error it gives counts as none.\<close>

lemma doFileWrite_keeps:
  assumes "archive_keeps P lib" "P a" "doFileWrite lib H sys mx f a = Some (res, effects, a')"
  shows "P a' \<and> res \<noteq> Inl NoError"
proof -
  let ?I = "\<lambda>s :: 'a write_state. P (snd (snd (snd s)))"
  obtain q out b where q: "loop (write_block lib (wc_pwrite sys) mx) ([], [], 0, a) = Some (q, out, b)"
    using assms(3) by (auto simp: doFileWrite_def write_blocks_def split: option.splits)
  have step: "case write_block lib (wc_pwrite sys) mx s of Continue s' \<Rightarrow> ?I s' | Return (q, out, b) \<Rightarrow> P b \<and> q \<noteq> Inl NoError"
    if "?I s" for s
  proof -
    obtain out builder cur c where s: "s = (out, builder, cur, c)" by (cases s) auto
    obtain answer c' where c: "readDataBlock lib c = (answer, c')" by fastforce
    have "P c'" using assms(1) that s c by (metis archive_keeps_def snd_conv)
    then show ?thesis using s c by (cases answer) (simp_all add: write_block_def Let_def)
  qed
  have "\<exists>s. ?I s \<and> write_block lib (wc_pwrite sys) mx s = Return (q, out, b)"
  proof (rule loop_invariant [where I = ?I, OF q])
    show "P (snd (snd (snd ([] :: bytes, [] :: bytes, 0 :: int, a))))" using assms(2) by simp
    show "?I s'" if "?I s" "write_block lib (wc_pwrite sys) mx s = Continue s'" for s s' using step [OF that(1)] that(2) by simp
  qed
  then obtain s where s: "?I s" "write_block lib (wc_pwrite sys) mx s = Return (q, out, b)" by blast
  have "P b" "q \<noteq> Inl NoError" using step [OF s(1)] s(2) by simp_all
  then show ?thesis using assms(3) q
    by (auto simp: doFileWrite_def write_blocks_def Let_def split: sum.splits if_splits)
qed

lemma archive_entry_writeTo_keeps:
  assumes "archive_keeps P lib" "reader_keeps P r" "archive_entry_writeTo lib H sys mx options e r = Some (Done (res, effects, e', r'))"
  shows "reader_keeps P r' \<and> res \<noteq> Inl NoError"
proof (cases e)
  case (DirectoryEntry d)
  then show ?thesis using assms
    by (auto simp: directory_writeTo_def split: prod.splits sum.splits extract_operation.splits if_splits)
next
  case (SymlinkEntry s)
  then show ?thesis using assms
    by (auto simp: symlink_writeTo_def split: prod.splits sum.splits extract_operation.splits if_splits)
next
  case (FileEntry f)
  then obtain rs where w: "file_writeTo lib H sys mx options (Some (ar_readState r)) f = Some (res, effects, rs)"
    "r' = (case rs of None \<Rightarrow> r | Some rs \<Rightarrow> r\<lparr>ar_readState := rs\<rparr>)"
    using assms(3) by (auto split: option.splits)
  show ?thesis
  proof (cases "checkReadState (Some (ar_readState r)) f")
    case (Inl c)
    then have "c \<noteq> NoError" using assms(2) by (auto simp: checkReadState_def reader_keeps_def split: option.splits if_splits)
    then show ?thesis using w Inl assms(2) by (auto simp: file_writeTo_def)
  next
    case (Inr s)
    then have s: "s = ar_readState r" by (auto simp: checkReadState_def split: option.splits if_splits)
    obtain c prep where c: "checkExtraction (wc_check sys) (wc_stat sys) TypeRegular (be_perms f) options = (c, prep)" by fastforce
    show ?thesis
    proof (cases "c = Inr ExtractEntry \<and> wc_create_ok sys")
      case True
      obtain q es a where d: "doFileWrite lib H sys mx f (rs_archive s) = Some (q, es, a)"
        using w(1) Inr c True by (auto simp: file_writeTo_def split: option.splits)
      have "P a \<and> q \<noteq> Inl NoError"
        by (rule doFileWrite_keeps [OF assms(1) _ d]) (use assms(2) s in \<open>simp add: reader_keeps_def\<close>)
      then show ?thesis using w Inr c True d s assms(2)
        by (cases q) (auto simp: file_writeTo_def Let_def reader_keeps_def split: if_splits)
    next
      case False
      then show ?thesis using w Inr c assms(2)
        by (cases c; cases "projr c") (auto simp: file_writeTo_def reader_keeps_def)
    qed
  qed
qed

subsection \<open>The whole layer is read and has its digest\<close>

text \<open>What an extraction that succeeds guarantees of the bytes that the digest builder was fed.\<close>

abbreviation read_from :: "('r \<Rightarrow> nat \<Rightarrow> bytes option \<times> 'r) \<Rightarrow> 'r \<Rightarrow> 'r image_source \<Rightarrow> bool" where
  "read_from rd q s \<equiv> bytes_read rd q (im_fed s) (im_reader s)"

definition whole_layer :: "(bytes \<Rightarrow> bytes) \<Rightarrow> oci_descriptor \<Rightarrow> bytes \<Rightarrow> bool" where
  "whole_layer H d fed \<longleftrightarrow> length fed = od_size d \<and> H fed = hexStringToBytes (od_digest d)"

context file_reader
begin

definition layer_good :: "'r \<Rightarrow> oci_descriptor \<Rightarrow> ('a, 'r) archive_layer \<Rightarrow> bool" where
  "layer_good q d l \<longleftrightarrow> (case l of FailedLayer e \<Rightarrow> e \<noteq> NoError | OpenLayer r \<Rightarrow> reader_keeps (\<lambda>a. source_ok q d (snd a)) r)"

lemma by_callbacks_keeps: "by_callbacks read lib \<Longrightarrow> archive_keeps (\<lambda>a. source_ok q d (snd a)) lib"
  unfolding by_callbacks_def archive_keeps_def using called_ok by blast

lemma new_archive_layer_good:
  assumes "reader_ok q" "\<And>format s. called read s (snd (open_stream format s))"
  shows "layer_good q d (new_archive_layer open_stream d q)"
proof (cases "od_size d > MAX_IMAGE_SIZE \<or> image_formats (od_mediaType d) = None")
  case False
  then obtain format where f: "image_formats (od_mediaType d) = Some format" "od_size d \<le> MAX_IMAGE_SIZE" by auto
  obtain a s where a: "open_stream format (new_source d q) = (a, s)" by fastforce
  have "source_ok q d s" using called_ok [OF assms(2) new_source_ok [OF assms(1) f(2)]] a by (metis snd_conv)
  then show ?thesis using f a
    by (cases a) (simp_all add: new_archive_layer_def layer_good_def reader_keeps_def new_archive_reader_def)
qed (auto simp: new_archive_layer_def layer_good_def split: option.splits prod.splits)

lemma archive_layer_next_good:
  assumes "by_callbacks read lib" "layer_good q d l" "archive_layer_next lib H again read l = Some (oe, l')"
  shows "case oe of
      Some e \<Rightarrow> layer_good q d l'
    | None \<Rightarrow> if archive_layer_hasError l' then archive_layer_error l' \<noteq> NoError
        else \<exists>r. l' = OpenLayer r \<and> read_from read q (layer_source r) \<and> whole_layer H d (im_fed (layer_source r))"
proof (cases l)
  case (FailedLayer e)
  then show ?thesis using assms by (auto simp: layer_good_def)
next
  case (OpenLayer r)
  show ?thesis
  proof (cases "im_hasError (layer_source r)")
    case True
    then show ?thesis using assms(3) OpenLayer by (auto simp: im_hasError_def split: option.splits)
  next
    case False
    then obtain e r1 where n: "archive_next lib H r = Some (e, r1)"
      using assms(3) OpenLayer by (auto split: option.splits)
    have good: "reader_keeps (\<lambda>a. source_ok q d (snd a)) r1"
      by (rule archive_next_keeps [OF by_callbacks_keeps [OF assms(1)] _ n]) (use assms(2) OpenLayer in \<open>simp add: layer_good_def\<close>)
    have fin: "\<not> im_hasError (finish_layer read H again (layer_source r1)) \<Longrightarrow>
        read_from read q (finish_layer read H again (layer_source r1)) \<and> whole_layer H d (im_fed (finish_layer read H again (layer_source r1)))"
      using finish_layer_ok [of q d "layer_source r1"] good by (auto simp: whole_layer_def reader_keeps_def)
    have error: "im_hasError s \<Longrightarrow> (case im_error s of None \<Rightarrow> NoError | Some e \<Rightarrow> e) \<noteq> NoError" for s :: "'r image_source"
      by (auto simp: im_hasError_def split: option.splits)
    show ?thesis
    proof (cases "ar_error r1")
      case None
      show ?thesis using assms(3) OpenLayer False n None good fin error
        by (cases e) (auto simp: layer_good_def with_source_def)
    next
      case (Some c)
      then show ?thesis using assms(3) OpenLayer False n good
        by (auto simp: with_source_def im_hasError_def reader_keeps_def)
    qed
  qed
qed

lemma layer_entry_writeTo_good:
  assumes "by_callbacks read lib" "layer_good q d l" "layer_entry_writeTo lib H sys mx options e l = Some (Done (res, effects, e', l'))"
  shows "layer_good q d l' \<and> res \<noteq> Inl NoError"
proof (cases l)
  case (OpenLayer r)
  then obtain r' where w: "archive_entry_writeTo lib H sys mx options e r = Some (Done (res, effects, e', r'))" "l' = OpenLayer r'"
    using assms(3) by (auto split: option.splits outcome.splits)
  show ?thesis
    using archive_entry_writeTo_keeps [OF by_callbacks_keeps [OF assms(1)] _ w(1)] assms(2) OpenLayer w(2)
    by (simp add: layer_good_def)
qed (use assms(2,3) in auto)

lemma extract_round_good:
  assumes "by_callbacks read lib" "layer_good q d (x_reader x)"
  shows "case extract_round (archive_layer_ops lib H again read) target options sizeLimit entriesLimit x of
      Continue x' \<Rightarrow> layer_good q d (x_reader x')
    | Return res \<Rightarrow> \<forall>x'. res = Some (Done (NoError, x')) \<longrightarrow> (\<exists>r. x_reader x' = OpenLayer r \<and> read_from read q (layer_source r) \<and> whole_layer H d (im_fed (layer_source r)))"
proof (cases "archive_layer_next lib H again read (x_reader x)")
  case (Some p)
  obtain oe l where p: "p = (oe, l)" by fastforce
  note next_good = archive_layer_next_good [OF assms Some [unfolded p]]
  show ?thesis
  proof (cases oe)
    case None
    then show ?thesis using next_good Some p
      by (auto simp: extract_round_def archive_layer_ops_def finish_extraction_def)
  next
    case (Some e)
    then have l: "layer_good q d l" using next_good by simp
    have wr: "layer_entry_writeTo lib H sys mx options e l = Some (Done (res, effects, e', l')) \<Longrightarrow> layer_good q d l' \<and> res \<noteq> Inl NoError"
      for sys mx res effects e' l' by (rule layer_entry_writeTo_good [OF assms(1) l])
    show ?thesis using Some \<open>archive_layer_next lib H again read (x_reader x) = Some p\<close> p
      by (auto simp: extract_round_def archive_layer_ops_def Let_def dest: wr split: option.splits outcome.splits sum.splits)
  qed
qed (simp add: extract_round_def archive_layer_ops_def)

lemma extract_whole_layer:
  assumes "by_callbacks read lib" "layer_good q d l"
    and "extract_entries (archive_layer_ops lib H again read) target options sizeLimit entriesLimit l = Some (Done (NoError, x))"
  shows "\<exists>r. x_reader x = OpenLayer r \<and> read_from read q (layer_source r) \<and> whole_layer H d (im_fed (layer_source r))"
proof -
  let ?body = "extract_round (archive_layer_ops lib H again read) target options sizeLimit entriesLimit"
  have lp: "loop ?body (start_extraction l) = Some (Some (Done (NoError, x)))"
    using assms(3) by (auto simp: extract_entries_def bind_eq_Some_conv)
  have "\<exists>y. layer_good q d (x_reader y) \<and> ?body y = Return (Some (Done (NoError, x)))"
  proof (rule loop_invariant [where I = "\<lambda>y. layer_good q d (x_reader y)", OF lp])
    show "layer_good q d (x_reader (start_extraction l))" using assms(2) by (simp add: start_extraction_def)
    show "layer_good q d (x_reader y')" if "layer_good q d (x_reader y)" "?body y = Continue y'" for y y'
      using extract_round_good [OF assms(1) that(1), where target = target and options = options and sizeLimit = sizeLimit
          and entriesLimit = entriesLimit and H = H and again = again] that(2) by simp
  qed
  then obtain y where y: "layer_good q d (x_reader y)" "?body y = Return (Some (Done (NoError, x)))" by (elim exE conjE)
  from extract_round_good [OF assms(1) y(1), where target = target and options = options and sizeLimit = sizeLimit
      and entriesLimit = entriesLimit and H = H and again = again] y(2) show ?thesis by simp
qed

end

subsection \<open>An archive layer as a reader of a package\<close>

lemma layer_entry_writeTo_bound:
  "layer_entry_writeTo lib H sys mx options e l = Some (Done (Inr n, effects, e', l')) \<Longrightarrow> n \<le> mx"
  by (cases l) (auto dest: archive_entry_writeTo_bound split: option.splits outcome.splits)

lemma layer_entry_writeTo_returns:
  "shrinking lib left \<Longrightarrow> layer_entry_writeTo lib H sys mx options e l \<noteq> None"
  using archive_entry_writeTo_returns by (cases l) (auto split: option.splits outcome.splits)

lemma archive_layer_next_returns:
  assumes "shrinking lib left"
  shows "\<exists>oe l'. archive_layer_next lib H again rd l = Some (oe, l')"
proof (cases l)
  case (OpenLayer r)
  obtain e r' where "archive_next lib H r = Some (e, r')" using shrinking_next_returns [OF assms] by blast
  then show ?thesis using OpenLayer by (auto split: option.splits)
qed simp

interpretation archive_layers: extractable "archive_layer_ops lib H again rd" "\<lambda>l. \<exists>left. shrinking lib left" "\<lambda>l e. True" for lib H again rd
  by unfold_locales
    (auto simp: archive_layer_ops_def dest: layer_entry_writeTo_bound layer_entry_writeTo_returns archive_layer_next_returns)

text \<open>
  A reader that never delivers more than it is asked for, whatever was read before.  The readers of both stores
  of the library are such readers.
\<close>

definition reads_within :: "('r \<Rightarrow> nat \<Rightarrow> bytes option \<times> 'r) \<Rightarrow> 'r \<Rightarrow> bool" where
  "reads_within rd r \<longleftrightarrow>
     (\<exists>ok. ok r \<and> (\<forall>r n b r'. ok r \<longrightarrow> rd r n = (b, r') \<longrightarrow> ok r' \<and> (\<forall>d. b = Some d \<longrightarrow> length d \<le> n)))"

lemma reads_withinI:
  assumes "ok r" "\<And>r n b r'. ok r \<Longrightarrow> rd r n = (b, r') \<Longrightarrow> ok r'"
    "\<And>r n d r'. ok r \<Longrightarrow> rd r n = (Some d, r') \<Longrightarrow> length d \<le> n"
  shows "reads_within rd r"
  unfolding reads_within_def by (rule exI [of _ ok]) (use assms in simp)

lemma stores_read_within:
  "entry_reader_ok r \<Longrightarrow> reads_within (rd_read archive_store) r"
  "simple_reader_ok q \<Longrightarrow> reads_within (rd_read dir_store) q"
  by (erule reads_withinI, erule (1) archive.read_ok, erule (1) archive.read_length)
    (erule reads_withinI, erule (1) directory.read_ok, erule (1) directory.read_length)

lemma extract_archive_layer_whole:
  assumes "reads_within rd r" "by_callbacks rd lib" "\<And>format s. called rd s (snd (open_stream format s))"
    and "extract_entries (archive_layer_ops lib H again rd) target options sizeLimit entriesLimit
      (new_archive_layer open_stream d r) = Some (Done (e, x))" "result_ok e"
  shows "\<exists>q. x_reader x = OpenLayer q \<and> read_from rd r (layer_source q) \<and> whole_layer H d (im_fed (layer_source q))"
proof -
  obtain ok where ok: "ok r" "\<And>r n b r'. ok r \<Longrightarrow> rd r n = (b, r') \<Longrightarrow> ok r'"
    "\<And>r n d r'. ok r \<Longrightarrow> rd r n = (Some d, r') \<Longrightarrow> length d \<le> n"
    using assms(1) unfolding reads_within_def by (elim exE conjE) simp
  have reader: "file_reader rd (\<lambda>r. 0) ok" by unfold_locales (use ok in auto)
  have e: "e = NoError" using assms(5) by (simp add: result_ok_def)
  have good: "file_reader.layer_good rd ok r d (new_archive_layer open_stream d r)"
    by (rule file_reader.new_archive_layer_good [OF reader ok(1) assms(3)])
  show ?thesis by (rule file_reader.extract_whole_layer [OF reader assms(2) good assms(4) [unfolded e]])
qed

text \<open>
  C7. An extraction from an archive layer reports success only if all bytes of the layer were read from the
  reader of the store (\<open>bytes_read\<close>) and fed to the digest builder, as many as the descriptor says, and they have
  the digest of the descriptor.  The bytes libarchive asked for, those it skipped and the rest that \<open>next\<close> reads
  behind the end of the archive count alike; nothing is said about how many of them libarchive has looked at.  This holds for any reader of files that delivers no more than it is asked
  for, as those of both stores do (\<open>stores_read_within\<close>), and for any target directory and any behaviour of
  libarchive, as long as it reaches the layer through its callbacks alone.
\<close>

theorem archive_layer_digest:
  assumes "reads_within rd reader" "by_callbacks rd lib" "\<And>format s. called rd s (snd (open_stream format s))"
    and "extract_entries (archive_layer_ops lib H again rd) target options sizeLimit entriesLimit
      (new_archive_layer open_stream d reader) = Some (Done (e, x))" "result_ok e"
  shows "\<exists>r. x_reader x = OpenLayer r \<and> bytes_read rd reader (im_fed (layer_source r)) (im_reader (layer_source r)) \<and>
    length (im_fed (layer_source r)) = od_size d \<and>
    H (im_fed (layer_source r)) = hexStringToBytes (od_digest d)"
  using extract_archive_layer_whole [OF assms] by (simp add: whole_layer_def)

text \<open>Calling \<open>next\<close> at the end of the archive.\<close>

lemma archive_layer_next_end:
  assumes "archive_next lib H r = Some (None, r')" "\<not> im_hasError (layer_source r)" "ar_error r' = None"
  shows "archive_layer_next lib H again rd (OpenLayer r) =
    Some (None, OpenLayer (with_source (finish_layer rd H again (layer_source r')) r'))"
  using assms by simp

text \<open>A layer of one byte.\<close>

definition tar_descriptor :: oci_descriptor where
  "tar_descriptor = \<lparr>od_digest = sample_digest (CHR ''4''), od_mediaType = PACKAGE_IMAGE_MEDIA_TYPE_PREFIX @ ''tar'',
     od_size = 1, od_data = [], od_urls = [], od_annotations = []\<rparr>"

definition one_byte_hash :: "bytes \<Rightarrow> bytes" where
  "one_byte_hash b = (if b = [2] then replicate 32 0x44 else [])"

text \<open>A libarchive that reads once and finds no entries.\<close>

definition empty_stream :: "('r \<Rightarrow> nat \<Rightarrow> bytes option \<times> 'r) \<Rightarrow> (unit \<times> 'r image_source) libarchive" where
  "empty_stream rd = \<lparr>nextHeader = (\<lambda>(u, s). (HeaderEof, (u, snd (readCallback rd s)))), readData = (\<lambda>n a. (None, a)),
     readDataBlock = (\<lambda>a. (BlockFailed, a))\<rparr>"

lemma empty_stream_calls: "by_callbacks rd (empty_stream rd)"
  by (auto simp: by_callbacks_def empty_stream_def intro: called_refl called_read [OF called_refl])

text \<open>A libarchive that reads once and finds a file \<open>f\<close> whose content is what it has read.\<close>

definition file_stream :: "('r \<Rightarrow> nat \<Rightarrow> bytes option \<times> 'r) \<Rightarrow> (nat \<times> 'r image_source) libarchive" where
  "file_stream rd = \<lparr>nextHeader = (\<lambda>(k, s). if k = 0 then (HeaderOk (file_header ''f''), (1, snd (readCallback rd s))) else (HeaderEof, (k, s))),
     readData = (\<lambda>n a. (None, a)),
     readDataBlock = (\<lambda>(k, s). if k = 1 then (BlockOk (im_fed s) 0, (2, s)) else (BlockEof, (k, s)))\<rparr>"

lemma file_stream_calls: "by_callbacks rd (file_stream rd)"
  by (auto simp: by_callbacks_def file_stream_def intro: called_refl called_read [OF called_refl])

text \<open>The reader of its archive, before the file, after it, with the source in a state.\<close>

definition stream_reader :: "nat \<Rightarrow> nat \<Rightarrow> 'r image_source \<Rightarrow> (nat \<times> 'r image_source) archive_reader" where
  "stream_reader k i s = (new_archive_reader (k, s) None)\<lparr>ar_readState := (ar_readState (new_archive_reader (k, s) None))\<lparr>rs_entryIndex := i\<rparr>\<rparr>"

lemma stream_reader_simps [simp]:
  "layer_source (stream_reader k i s) = s" "ar_error (stream_reader k i s) = None" "ar_digests (stream_reader k i s) = None"
  "rs_entryIndex (ar_readState (stream_reader k i s)) = i" "rs_archive (ar_readState (stream_reader k i s)) = (k, s)"
  "\<not> rs_endOfArchive (ar_readState (stream_reader k i s))" "ar_entryStack (stream_reader k i s) = []" "ar_symlinks (stream_reader k i s) = []"
  by (simp_all add: stream_reader_def new_archive_reader_def)

abbreviation "stream_file \<equiv> file_entry_for (single ''f'') None 1"

lemma file_stream_next:
  "archive_next (file_stream rd) H (stream_reader 0 0 s) =
     Some (Some (FileEntry stream_file), stream_reader 1 1 (snd (readCallback rd s)))"
proof -
  let ?r = "stream_reader 1 1 (snd (readCallback rd s))"
  have type: "ae_filetype (file_header ''f'') AND AE_IFMT = AE_IFREG" "ae_pathname (file_header ''f'') = Some ''f''"
    by (simp_all add: file_header_def)
  have "make_entry H (ar_readState ?r) (single ''f'') (file_header ''f'') None = Inr (FileEntry stream_file)"
    by (simp add: make_entry_def type file_create_def) (simp add: file_header_def file_entry_for_def)
  then have "createEntry H (single ''f'') (file_header ''f'') ?r = (Some (FileEntry stream_file), ?r)"
    by (simp add: createEntry_def type)
  then have "next_leaf H (single ''f'') (file_header ''f'') ?r = (Some (FileEntry stream_file), ?r)"
    by (simp add: next_leaf_def type single_checks)
  moreover have "(stream_reader 0 0 s)\<lparr>ar_readState := (ar_readState (stream_reader 0 0 s))\<lparr>rs_archive := (1, snd (readCallback rd s)), rs_entryIndex := 1\<rparr>\<rparr> = ?r"
    by (simp add: stream_reader_def new_archive_reader_def)
  moreover have "withinSymLink ?r p = False" for p by (simp add: withinSymLink_def)
  ultimately have "next_round (file_stream rd) H (stream_reader 0 0 s) = Return (Some (FileEntry stream_file), ?r)"
    by (simp add: next_round_def file_stream_def Let_def type single_normal single_checks sz_add_def)
  then show ?thesis by (simp add: archive_next_def loop_Return)
qed

lemma file_stream_end:
  "archive_next (file_stream rd) H (stream_reader 2 1 s) =
     Some (None, (stream_reader 2 1 s)\<lparr>ar_readState := (ar_readState (stream_reader 2 1 s))\<lparr>rs_endOfArchive := True\<rparr>\<rparr>)"
  by (simp add: archive_next_def loop_Return next_round_def file_stream_def Let_def)

definition file_effects :: "bytes \<Rightarrow> write_effect list" where
  "file_effects d = [FileCreated, FileContent d, ModeSet 0x1A4, ModeSet (modeFromFsPerms kDefaultFilePerms), TimeSet 0, FileClosed]"

lemma file_stream_writes:
  assumes "im_fed s = [b]"
  shows "archive_entry_writeTo (file_stream rd) H all_ok 1 0 (FileEntry stream_file) (stream_reader 1 1 s) =
    Some (Done (Inr 1, file_effects [b], FileEntry stream_file, stream_reader 2 1 s))"
proof -
  have first: "write_block (file_stream rd) (\<lambda>b o'. length b) 1 ([], [], 0, (1, s)) = Continue ([b], [b], 1, (2, s))"
    using assms by (simp add: write_block_def file_stream_def Let_def pwrite_def builder_update_def)
  have second: "write_block (file_stream rd) (\<lambda>b o'. length b) 1 ([b], [b], 1, (2, s)) = Return (Inr ([b], 1), [b], (2, s))"
    by (simp add: write_block_def file_stream_def)
  have "loop (write_block (file_stream rd) (\<lambda>b o'. length b) 1) ([], [], 0, (1, s)) =
      loop (write_block (file_stream rd) (\<lambda>b o'. length b) 1) ([b], [b], 1, (2, s))"
    by (rule loop_Continue) (rule first)
  moreover have "loop (write_block (file_stream rd) (\<lambda>b o'. length b) 1) ([b], [b], 1, (2, s)) = Some (Inr ([b], 1), [b], (2, s))"
    by (rule loop_Return) (rule second)
  ultimately have "write_blocks (file_stream rd) (wc_pwrite all_ok) 1 ([], [], 0, (1, s)) = Some (Inr ([b], 1), [b], (2, s))"
    by (simp add: write_blocks_def all_ok_def)
  moreover have "be_perms stream_file AND owner_exec \<noteq> owner_exec" by (simp add: file_entry_for_def kDefaultFilePerms_def)
  ultimately have "doFileWrite (file_stream rd) H all_ok 1 stream_file (1, s) = Some (Inr 1, [FileContent [b], ModeSet 0x1A4], (2, s))"
    by (simp add: doFileWrite_def) (simp add: all_ok_def file_entry_for_def)
  then have "file_writeTo (file_stream rd) H all_ok 1 0 (Some (ar_readState (stream_reader 1 1 s))) stream_file =
      Some (Inr 1, file_effects [b], Some ((ar_readState (stream_reader 1 1 s))\<lparr>rs_archive := (2, s)\<rparr>))"
    by (simp add: file_writeTo_def checkReadState_def checkExtraction_def all_ok_def Let_def file_effects_def)
      (simp add: file_entry_for_def)
  moreover have "(stream_reader 1 1 s)\<lparr>ar_readState := (ar_readState (stream_reader 1 1 s))\<lparr>rs_archive := (2, s)\<rparr>\<rparr> = stream_reader 2 1 s"
    by (simp add: stream_reader_def new_archive_reader_def)
  ultimately show ?thesis by simp
qed

text \<open>A layer of one byte that is read from any reader of files: its file gets the byte.\<close>

definition one_file_log :: "bytes \<Rightarrow> written list" where
  "one_file_log d = [\<lparr>w_path = single ''f'', w_maxSize = 1, w_result = Inr 1, w_effects = file_effects d\<rparr>]"

lemma one_file_layer_extracts:
  assumes read: "rd r0 1 = (Some [b], r1)" and d: "od_size d = 1" "image_formats (od_mediaType d) = Some format"
    and digest: "H [b] = hexStringToBytes (od_digest d)" and limits: "1 \<le> sizeLimit" "1 < entriesLimit"
  shows "\<exists>x. extract_entries (archive_layer_ops (file_stream rd) H again rd) (\<lambda>ws p. all_ok) 0 sizeLimit entriesLimit
    (new_archive_layer (\<lambda>f s. (Some 0, s)) d r0) = Some (Done (NoError, x)) \<and> x_written x = one_file_log [b]"
proof -
  let ?ops = "archive_layer_ops (file_stream rd) H again rd" and ?source = "new_source d r0"
  let ?body = "extract_round ?ops (\<lambda>ws p. all_ok) 0 sizeLimit entriesLimit"
  let ?read = "?source\<lparr>im_reader := r1, im_fed := [b], im_offset := 1\<rparr>"
  have new: "new_archive_layer (\<lambda>f s. (Some 0, s)) d r0 = OpenLayer (stream_reader 0 0 ?source)"
    using d by (simp add: new_archive_layer_def MAX_IMAGE_SIZE_def) (simp add: stream_reader_def new_archive_reader_def)
  have cb: "snd (readCallback rd ?source) = ?read"
    using read d by (simp add: readCallback_def source_read_def new_source_def Let_def)
  have fine: "\<not> im_hasError ?source" "\<not> im_hasError ?read" "im_fed ?read = [b]" by (simp_all add: new_source_def im_hasError_def)
  have first: "archive_layer_next (file_stream rd) H again rd (OpenLayer (stream_reader 0 0 ?source)) =
      Some (Some (FileEntry stream_file), OpenLayer (stream_reader 1 1 ?read))"
    using fine(1) by (simp add: file_stream_next cb)
  have written: "archive_entry_writeTo (file_stream rd) H all_ok 1 0 (FileEntry stream_file) (stream_reader 1 1 ?read) =
      Some (Done (Inr 1, file_effects [b], FileEntry stream_file, stream_reader 2 1 ?read))"
    by (rule file_stream_writes [OF fine(3)])
  have entry: "entry_base (FileEntry stream_file) = base_entry.truncate stream_file"
    "be_path (base_entry.truncate stream_file) = single ''f''" "be_size (base_entry.truncate stream_file) = 1"
    "be_type (base_entry.truncate stream_file) = TypeRegular"
    by (simp_all add: file_entry_for_def base_entry.defs)
  let ?x1 = "(start_extraction (OpenLayer (stream_reader 2 1 ?read)))\<lparr>x_written := one_file_log [b], x_totalExtracted := 1, x_totalEntries := 1\<rparr>"
  have ops: "op_next ?ops (OpenLayer (stream_reader 0 0 ?source)) = Some (Done (Some (FileEntry stream_file), OpenLayer (stream_reader 1 1 ?read)))"
    "op_writeTo ?ops all_ok 1 0 (FileEntry stream_file) (OpenLayer (stream_reader 1 1 ?read)) =
      Some (Done (Inr 1, file_effects [b], FileEntry stream_file, OpenLayer (stream_reader 2 1 ?read)))"
    "op_size ?ops (FileEntry stream_file) = 1" "op_path ?ops (FileEntry stream_file) = single ''f''" "op_type ?ops (FileEntry stream_file) = TypeRegular"
    unfolding archive_layer_ops_def using first written entry by simp_all
  have lim: "\<not> sz_add 0 1 > sizeLimit" "\<not> sz_add 0 1 \<ge> entriesLimit" "sz_add 0 1 = 1" using limits by (simp_all add: sz_add_def)
  have one: "?body (start_extraction (OpenLayer (stream_reader 0 0 ?source))) = Continue ?x1"
    unfolding extract_round_def start_extraction_def one_file_log_def using limits by (simp add: ops lim Let_def del: One_nat_def)
  let ?final = "with_source (finish_layer rd H again ?read) ((stream_reader 2 1 ?read)\<lparr>ar_readState :=
      (ar_readState (stream_reader 2 1 ?read))\<lparr>rs_endOfArchive := True\<rparr>\<rparr>)"
  have last: "archive_layer_next (file_stream rd) H again rd (OpenLayer (stream_reader 2 1 ?read)) = Some (None, OpenLayer ?final)"
    by (subst archive_layer_next_end [OF file_stream_end]) (use fine(2) in simp_all)
  have ok: "\<not> archive_layer_hasError (OpenLayer ?final)"
    using digest d by (simp add: with_source_def finish_layer_def new_source_def im_hasError_def Let_def)
  have at_end: "op_next ?ops (OpenLayer (stream_reader 2 1 ?read)) = Some (Done (None, OpenLayer ?final))"
    "op_hasError ?ops (OpenLayer ?final) = False"
    unfolding archive_layer_ops_def using last ok by simp_all
  have two: "?body ?x1 = Return (Some (Done (NoError, ?x1\<lparr>x_reader := OpenLayer ?final, x_timesSet := []\<rparr>)))"
    unfolding extract_round_def start_extraction_def finish_extraction_def by (simp add: at_end del: One_nat_def)
  have "loop ?body (start_extraction (OpenLayer (stream_reader 0 0 ?source))) = loop ?body ?x1"
    by (rule loop_Continue) (rule one)
  also have "\<dots> = Some (Some (Done (NoError, ?x1\<lparr>x_reader := OpenLayer ?final, x_timesSet := []\<rparr>)))"
    by (rule loop_Return) (rule two)
  finally have "loop ?body (start_extraction (OpenLayer (stream_reader 0 0 ?source))) =
      Some (Some (Done (NoError, ?x1\<lparr>x_reader := OpenLayer ?final, x_timesSet := []\<rparr>)))" .
  then show ?thesis unfolding new by (simp add: extract_entries_def)
qed

theorem archive_layer_digest_witness:
  "\<exists>x r. extract_entries (archive_layer_ops (file_stream entry_reader_read) one_byte_hash id entry_reader_read) (\<lambda>ws p. all_ok) 0 2 2
     (new_archive_layer (\<lambda>f s. (Some 0, s)) tar_descriptor (BufferReader [2] 0 :: (nat \<times> bytes) entry_reader)) = Some (Done (NoError, x)) \<and>
   x_written x = one_file_log [2] \<and> x_reader x = OpenLayer r \<and> length (im_fed (layer_source r)) = 1 \<and>
   one_byte_hash (im_fed (layer_source r)) = replicate 32 0x44"
proof -
  have rd: "rd_read archive_store = (entry_reader_read :: (nat \<times> bytes) entry_reader \<Rightarrow> _)" by (simp add: archive_store_def)
  have "reads_within (rd_read archive_store) (BufferReader [2] 0 :: (nat \<times> bytes) entry_reader)"
    by (rule stores_read_within(1)) (simp add: cacheThreshold_def)
  then have within: "reads_within entry_reader_read (BufferReader [2] 0 :: (nat \<times> bytes) entry_reader)" unfolding rd .
  have "push_bit 4 (hexDigitToByte (CHR ''4'')) OR hexDigitToByte (CHR ''4'') = (0x44 :: byte)" by code_simp
  then have bytes: "hexStringToBytes (od_digest tar_descriptor) = replicate 32 0x44"
    using sample_digest_bytes [OF sample_xdigits(4)] by (simp add: tar_descriptor_def)
  then have digest: "one_byte_hash [2] = hexStringToBytes (od_digest tar_descriptor)" by (simp add: one_byte_hash_def)
  have d: "od_size tar_descriptor = 1" "image_formats (od_mediaType tar_descriptor) = Some Tarball"
    by (simp_all add: tar_descriptor_def image_formats_def)
  have read: "entry_reader_read (BufferReader [2] 0 :: (nat \<times> bytes) entry_reader) 1 = (Some [2], BufferReader [2] 1)"
    by (simp add: Let_def)
  obtain x where x: "extract_entries (archive_layer_ops (file_stream entry_reader_read) one_byte_hash id entry_reader_read) (\<lambda>ws p. all_ok) 0 2 2
     (new_archive_layer (\<lambda>f s. (Some 0, s)) tar_descriptor (BufferReader [2] 0 :: (nat \<times> bytes) entry_reader)) = Some (Done (NoError, x))"
     "x_written x = one_file_log [2]"
    using one_file_layer_extracts [where H = one_byte_hash and rd = entry_reader_read and again = id and sizeLimit = 2 and entriesLimit = 2,
        OF read d digest] by auto
  obtain r where "x_reader x = OpenLayer r" "length (im_fed (layer_source r)) = od_size tar_descriptor"
    "one_byte_hash (im_fed (layer_source r)) = hexStringToBytes (od_digest tar_descriptor)"
    using archive_layer_digest [OF within file_stream_calls _ x(1)] by (auto simp: result_ok_def called_refl)
  then show ?thesis using x bytes d(1) by (intro exI [of _ x] exI [of _ r]) simp
qed

end
