(* ===== verification/ExtractSafety.thy ===== *)
theory ExtractSafety
  imports IntactExtract OCIArchiveLayer
begin

section \<open>What an extraction guarantees\<close>

text \<open>
  The properties of \<open>extractTo\<close> over the readers: it returns, it keeps the limits, what it writes from a
  signed EROFS package is signed, whatever the file holds, and where it reports success although it stopped.
\<close>

subsection \<open>Only signed content\<close>

definition superblock_of :: "bytes \<Rightarrow> erofs_superblock \<Rightarrow> bool" where
  "superblock_of c sb \<longleftrightarrow> (\<exists>first. img_read (image_rd c) 4096 0 = Some first \<and> superblock_parse first = Done sb)"

text \<open>A layer that delivers nothing but the image \<open>c\<close>, and an entry of it.\<close>

definition reads_signed :: "lz4 \<Rightarrow> bytes \<Rightarrow> erofs_layer \<Rightarrow> bool" where
  "reads_signed lib c l \<longleftrightarrow> image_sound (env_read (el_env l)) c \<and> env_lz4 (el_env l) = lib \<and> env_size (el_env l) = length c \<and>
     (\<forall>s sb. el_reader l = Some s \<longrightarrow> m_image s = Some sb \<longrightarrow> superblock_of c sb)"

definition signed_entry :: "lz4 \<Rightarrow> bytes \<Rightarrow> image_entry \<Rightarrow> bool" where
  "signed_entry lib c ie \<longleftrightarrow> image_sound (env_read (ie_env ie)) c \<and> env_lz4 (ie_env ie) = lib \<and> env_size (ie_env ie) = length c \<and>
     superblock_of c (ie_sb ie) \<and> (\<exists>m h. y_inode (ie_entry ie) = load_inode (image_rd c) (ie_sb ie) m h)"

text \<open>
  What was written is what writing an inode of the image \<open>c\<close> writes, with the superblock of \<open>c\<close> and reading
  from \<open>c\<close> itself.
\<close>

definition from_signed_image :: "lz4 \<Rightarrow> bytes \<Rightarrow> extract_options \<Rightarrow> written \<Rightarrow> bool" where
  "from_signed_image lib c options w \<longleftrightarrow>
     (\<exists>sys ie m h ie'. ie_env ie = signed_env lib c \<and> superblock_of c (ie_sb ie) \<and>
        y_inode (ie_entry ie) = load_inode (image_rd c) (ie_sb ie) m h \<and> y_path (ie_entry ie) = w_path w \<and>
        image_writeTo sys (w_maxSize w) options ie = Done (w_result w, w_effects w, ie'))"

lemma layer_next_signed:
  assumes "reads_signed lib c l" "layer_next l = Done (x, l')"
  shows "reads_signed lib c l'" "x = Some ie \<Longrightarrow> signed_entry lib c ie"
proof -
  have "el_env l' = el_env l" by (rule layer_next_env [OF assms(2)])
  moreover have "\<forall>s' sb. el_reader l' = Some s' \<longrightarrow> m_image s' = Some sb \<longrightarrow> superblock_of c sb"
    using assms by (auto simp: layer_next_def reads_signed_def dest: next_entry_image split: option.splits outcome.splits prod.splits)
  ultimately show "reads_signed lib c l'" using assms(1) by (simp add: reads_signed_def)
  assume x: "x = Some ie"
  note e = layer_next_entry [OF assms(2) [unfolded x]]
  obtain s y s' where s: "el_reader l = Some s" "next_entry (el_env l) s = Done (Some y, s')" "ie_sb ie = the (m_image s)"
    using assms(2) x by (auto simp: layer_next_def split: option.splits outcome.splits prod.splits)
  then obtain sb where "m_image s = Some sb" by (auto simp: next_entry_def split: if_splits option.splits)
  then have "superblock_of c (ie_sb ie)" using assms(1) s by (auto simp: reads_signed_def)
  moreover have "refuses_more (env_read (el_env l)) (image_rd c)"
    using image_sound_refuses assms(1) by (simp add: reads_signed_def)
  then have "\<exists>m h. y_inode (ie_entry ie) = load_inode (image_rd c) (ie_sb ie) m h"
    using e(3) load_inode_refuse by metis
  ultimately show "signed_entry lib c ie" using assms(1) e(1) by (simp add: signed_entry_def reads_signed_def)
qed

lemma signed_entry_written:
  assumes "signed_entry lib c ie" "image_writeTo sys mx options ie = Done (Inr n, effects, ie')"
  shows "from_signed_image lib c options \<lparr>w_path = y_path (ie_entry ie'), w_maxSize = mx, w_result = Inr n, w_effects = effects\<rparr>"
proof -
  have more: "refuses_more (env_read (ie_env ie)) (image_rd c)" using assms(1) image_sound_refuses by (simp add: signed_entry_def)
  have "(ie_env ie)\<lparr>env_read := image_rd c\<rparr> = signed_env lib c"
    using assms(1) by (simp add: signed_entry_def signed_env_def)
  then have "image_writeTo sys mx options (ie\<lparr>ie_env := signed_env lib c\<rparr>) = Done (Inr n, effects, ie'\<lparr>ie_env := signed_env lib c\<rparr>)"
    using image_writeTo_refuse [OF more assms(2)] by simp
  moreover have "y_path (ie_entry ie') = y_path (ie_entry ie)" using image_writeTo_same [OF assms(2)] by (simp add: same_entry_def)
  moreover obtain m h where "y_inode (ie_entry ie) = load_inode (image_rd c) (ie_sb ie) m h" "superblock_of c (ie_sb ie)"
    using assms(1) by (auto simp: signed_entry_def)
  ultimately show ?thesis
    unfolding from_signed_image_def
    by (intro exI [of _ sys] exI [of _ "ie\<lparr>ie_env := signed_env lib c\<rparr>"] exI [of _ m] exI [of _ h] exI [of _ "ie'\<lparr>ie_env := signed_env lib c\<rparr>"]) simp
qed

lemma signed_entry_size: "signed_entry lib c ie \<Longrightarrow> i_size (y_inode (ie_entry ie)) < SIZE_LIMIT"
  using load_inode_size by (auto simp: signed_entry_def)

interpretation signed: recording layer_ops "reads_signed lib c" "\<lambda>l. signed_entry lib c" options "from_signed_image lib c options"
  for lib c options
proof unfold_locales
  fix r r' oe assume "reads_signed lib c r" "op_next layer_ops r = Some (Done (oe, r'))"
  then show "reads_signed lib c r'" using layer_next_signed(1) by (auto simp: layer_ops_def split: outcome.splits)
next
  fix r e r' assume "reads_signed lib c r" "op_next layer_ops r = Some (Done (Some e, r'))"
  then show "signed_entry lib c e" using layer_next_signed(2) by (auto simp: layer_ops_def split: outcome.splits)
next
  fix r e sys mx options res effects e' r'
  assume "reads_signed lib c r" "op_writeTo layer_ops sys mx options e r = Some (Done (res, effects, e', r'))"
  then show "reads_signed lib c r'" by (auto simp: layer_ops_def split: outcome.splits)
next
  fix r e sys mx options n effects e' r'
  assume "signed_entry lib c e" "op_writeTo layer_ops sys mx options e r = Some (Done (Inr n, effects, e', r'))"
  then show "n \<le> mx" using image_writeTo_bound signed_entry_size by (auto simp: layer_ops_def split: outcome.splits)
next
  fix r e sys mx n effects e' r'
  assume "signed_entry lib c e" "op_writeTo layer_ops sys mx options e r = Some (Done (Inr n, effects, e', r'))"
  then show "from_signed_image lib c options \<lparr>w_path = op_path layer_ops e', w_maxSize = mx, w_result = Inr n, w_effects = effects\<rparr>"
    using signed_entry_written by (auto simp: layer_ops_def split: outcome.splits)
qed (auto simp: layer_ops_def)

lemma new_layer_signed:
  assumes H: "\<And>b. length (H b) = 32"
    and layer: "new_erofs_layer lib H direct contents (Some f) hashesOffset root = Some (Done l)" "el_error l = None"
    and files: "length contents < 2 ^ 63" "root \<noteq> replicate 32 0" "blocks_within 4096 B contents"
    and signed: "\<And>pf. open_layer_image H direct contents f hashesOffset root = Some (Done pf) \<Longrightarrow> signed_image H B (p_verifier pf) bs"
  shows "reads_signed lib (take hashesOffset (concat bs)) l"
proof -
  let ?c = "take hashesOffset (concat bs)"
  note img = layer_image_sound [where H = H, OF H layer(1) files signed layer(2)]
  have "superblock_of ?c sb" if s: "el_reader l = Some s" "m_image s = Some sb" for s sb
  proof -
    have "IErofsReader_create (el_env l) = Done s"
      using layer s(1) by (auto simp: new_erofs_layer_def failed_layer_def split: if_splits option.splits outcome.splits)
    then obtain first where "img_read (env_read (el_env l)) 4096 0 = Some first" "superblock_parse first = Done sb"
      using s(2) by (auto simp: IErofsReader_create_def reader_create_def Let_def split: option.splits outcome.splits if_splits prod.splits)
    then show ?thesis using refuses_moreD [OF image_sound_refuses [OF img(1)]] by (auto simp: superblock_of_def)
  qed
  then show ?thesis using img by (simp add: reads_signed_def del: length_concat)
qed

lemma failed_extraction:
  assumes "el_reader l = None" "extractTo layer_ops target options sizeLimit entriesLimit (Some (Inr l)) = Some (Done (e, ws, ts))"
  shows "ws = []"
proof -
  have "extract_round layer_ops target options sizeLimit entriesLimit (start_extraction l) =
      Return (Some (Done (layer_error l, start_extraction l)))"
    using assms(1) by (simp add: extract_round_def layer_ops_def layer_next_def start_extraction_def finish_extraction_def layer_hasError_def)
  then have "loop (extract_round layer_ops target options sizeLimit entriesLimit) (start_extraction l) =
      Some (Some (Done (layer_error l, start_extraction l)))" by (rule loop_Return)
  then show ?thesis using assms(2) by (auto simp: extractTo_def extract_entries_def start_extraction_def)
qed

lemma package_extracts_signed:
  assumes H: "\<And>b. length (H b) = 32"
    and layer: "new_erofs_layer lib H direct contents (Some f) hashesOffset root = Some (Done l)"
    and files: "length contents < 2 ^ 63" "root \<noteq> replicate 32 0" "blocks_within 4096 B contents"
    and signed: "\<And>pf. open_layer_image H direct contents f hashesOffset root = Some (Done pf) \<Longrightarrow> signed_image H B (p_verifier pf) bs"
    and run: "extractTo layer_ops target options sizeLimit entriesLimit (Some (Inr l)) = Some (Done (e, ws, ts))"
      "w \<in> set ws" "w_result w = Inr n"
  shows "from_signed_image lib (take hashesOffset (concat bs)) options w"
proof (cases "el_error l")
  case None
  from signed.extractTo_recorded [OF new_layer_signed [where H = H, OF H layer None files signed] run] show ?thesis by simp
next
  case (Some a)
  then have "el_reader l = None"
    using layer by (auto simp: new_erofs_layer_def failed_layer_def split: if_splits option.splits outcome.splits)
  from failed_extraction [OF this run(1)] run(2) show ?thesis by simp
qed

text \<open>
  C3. Whatever the data and the hash blocks of the file of a package hold when it is opened, and whatever the
  target does, everything an extraction of its EROFS layer reports as written is what writing an inode of the
  signed image writes.  The file does not change while it is extracted, and \<open>signed_image\<close> asks for a hash tree
  superblock with the number of data blocks and the salt that were signed, as the root hash does not cover it.
  Contents, links, modes and times are those of an inode of the signed image; which inode is written under which name
  may come from a directory block that was refused, since the reader parses it (\<open>refused_directory_block\<close>).
\<close>

theorem tampered_package_extracts_signed:
  assumes H: "\<And>b. length (H b) = 32"
    and layer: "new_erofs_layer lib H direct contents (Some f) hashesOffset root = Some (Done l)"
    and files: "length contents < 2 ^ 63" "root \<noteq> replicate 32 0" "blocks_within 4096 B contents"
    and signed: "\<And>pf. open_layer_image H direct contents f hashesOffset root = Some (Done pf) \<Longrightarrow> signed_image H B (p_verifier pf) bs"
    and run: "extractTo layer_ops target options sizeLimit entriesLimit (Some (Inr l)) = Some (Done (e, ws, ts))"
      "w \<in> set ws" "w_result w = Inr n"
  shows "from_signed_image lib (take hashesOffset (concat bs)) options w"
  by (rule package_extracts_signed [where H = H, OF assms])

theorem tampered_package_extracts_signed_witness:
  "\<exists>l w. new_erofs_layer copy_lz4 index_hash False small_file_contents (Some small_mapping) 4096 (le_bytes 32 1) = Some (Done l) \<and>
    extractTo layer_ops (\<lambda>ws p. all_ok) 0 2 2 (Some (Inr l)) = Some (Done (NoError, [w], [])) \<and>
    w_effects w ! 1 = FileContent [1, 2] \<and> from_signed_image copy_lz4 small_image 0 w"
proof -
  have coop: "cooperative ((\<lambda>ws p. all_ok) ws p)" for ws :: "written list" and p by (rule small_extraction_facts(7))
  have "(2 :: nat) \<le> 2" "(2 :: nat) < SIZE_LIMIT" "(1 :: nat) < 2" "(2 :: nat) \<le> SIZE_MAX" by simp_all
  from small_package_written [where target = "\<lambda>ws p. all_ok" and options = 0, OF coop this] obtain l where
    l: "new_erofs_layer copy_lz4 index_hash False small_file_contents (Some small_mapping) 4096 (le_bytes 32 1) = Some (Done l)"
      "extractTo layer_ops (\<lambda>ws p. all_ok) 0 2 2 (Some (Inr l)) = Some (Done (NoError, small_log, []))" by blast
  obtain w where w: "small_log = [w]" using small_log_eq(1) by (cases small_log) auto
  have written: "w \<in> set small_log" "w_result w = Inr 2" "w_effects w ! 1 = FileContent [1, 2]"
    using small_log_eq(2,3) unfolding w by simp_all
  obtain pf where "open_layer_image index_hash False small_file_contents small_mapping 4096 (le_bytes 32 1) = Some (Done pf)"
    "signed_image index_hash small_blocks (p_verifier pf) [small_image]" using small_layer by blast
  then have signed: "signed_image index_hash small_blocks (p_verifier pf') [small_image]"
    if "open_layer_image index_hash False small_file_contents small_mapping 4096 (le_bytes 32 1) = Some (Done pf')" for pf'
    using that by simp
  have whole: "take 4096 (concat [small_image]) = small_image" by simp
  have from_image: "from_signed_image copy_lz4 small_image 0 w"
    using tampered_package_extracts_signed [OF length_index_hash l(1) small_contents(2) small_root(2) small_within signed l(2) written(1,2)]
    unfolding whole by simp
  show ?thesis
    by (rule exI [of _ l], rule exI [of _ w]) (use l w written(3) from_image in simp)
qed

subsection \<open>The loop ends\<close>

lemma extractTo_returns:
  assumes "\<And>r. extract_entries R target options sizeLimit entriesLimit r \<noteq> None"
  shows "extractTo R target options sizeLimit entriesLimit impl \<noteq> None"
proof (cases impl)
  case (Some a)
  show ?thesis
  proof (cases a)
    case (Inr r)
    obtain q where "extract_entries R target options sizeLimit entriesLimit r = Some q" using assms [of r] by blast
    then show ?thesis using Some Inr by (cases q) (auto simp: extractTo_def)
  qed (simp add: Some extractTo_def)
qed (simp add: extractTo_def)

text \<open>
  C28. \<open>extractTo\<close> returns: for an EROFS layer in whatever state, and for an archive or an archive layer that is
  finite, whatever the target directory does.
\<close>

theorem extraction_returns:
  assumes "entriesLimit \<le> SIZE_MAX" "shrinking lib left" "shrinking lib' left'"
  shows "extractTo layer_ops target options sizeLimit entriesLimit layer \<noteq> None \<and>
    extractTo (archive_ops lib H) target options sizeLimit entriesLimit archive \<noteq> None \<and>
    extractTo (archive_layer_ops lib' H again rd) target options sizeLimit entriesLimit packed \<noteq> None"
proof -
  have "extract_entries layer_ops target options sizeLimit entriesLimit l \<noteq> None" for l
    by (rule layers.extract_entries_returns [OF TrueI assms(1)])
  moreover have "extract_entries (archive_ops lib H) target options sizeLimit entriesLimit r \<noteq> None" for r
    by (rule archives.extract_entries_returns [OF _ assms(1)]) (use assms(2) in blast)
  moreover have "extract_entries (archive_layer_ops lib' H again rd) target options sizeLimit entriesLimit l \<noteq> None" for l
    by (rule archive_layers.extract_entries_returns [OF _ assms(1)]) (use assms(3) in blast)
  ultimately show ?thesis by (intro conjI extractTo_returns)
qed

lemma headers_shrink: "shrinking headers_lib length"
  by (auto simp: shrinking_def headers_lib_def split: list.splits)

lemma empty_shrinks: "shrinking (empty_stream rd) (\<lambda>a. 0)"
  by (auto simp: empty_stream_def shrinking_def)

theorem extraction_returns_witness:
  "extractTo layer_ops (\<lambda>ws p. all_ok) 0 10 10 (Some (Inr (failed_layer copy_lz4 ErofsError))) \<noteq> None \<and>
   extractTo (archive_ops headers_lib toy_hash) (\<lambda>ws p. all_ok) 0 10 10 (Some (Inr (new_archive_reader [file_header ''a''] None))) \<noteq> None \<and>
   extractTo (archive_layer_ops (empty_stream entry_reader_read) toy_hash id entry_reader_read) (\<lambda>ws p. all_ok) 0 10 10 None \<noteq> None"
  using extraction_returns [of 10, OF _ headers_shrink empty_shrinks] by simp

subsection \<open>The limits\<close>

text \<open>What the records of an extraction say about its limits.\<close>

definition keeps_limits :: "nat \<Rightarrow> nat \<Rightarrow> error_code \<Rightarrow> written list \<Rightarrow> bool" where
  "keeps_limits sizeLimit entriesLimit e ws \<longleftrightarrow>
     ((\<forall>w \<in> set ws. w_maxSize w < 2 ^ 63) \<longrightarrow> written_sum ws \<le> sizeLimit) \<and> length ws \<le> max 1 entriesLimit \<and>
     (result_ok e \<and> (\<forall>w \<in> set ws. \<not> isl (w_result w)) \<longrightarrow> ws = [] \<or> length ws < entriesLimit)"

lemma limits_lift:
  assumes "extractTo R target options sizeLimit entriesLimit (Some (Inr r)) = Some (Done (e, ws, ts))"
    "\<And>x. extract_entries R target options sizeLimit entriesLimit r = Some (Done (e, x)) \<Longrightarrow> keeps_limits sizeLimit entriesLimit e (x_written x)"
  shows "keeps_limits sizeLimit entriesLimit e ws"
  using assms by (auto simp: extractTo_def split: option.splits outcome.splits)

text \<open>
  C17. With a size limit below 2^63 (the default, \<open>SIZE_MAX\<close>, is larger), an extraction from any of the readers
  reports no more bytes than the limit, as long as no entry claims 2^63 bytes or more; an entry that fails counts
  as zero bytes, whatever it left in the target.  It tries at most as many entries as the limit, or one if that is
  zero, and when it succeeds without a failed entry it has written none or fewer than the limit: the code gives up
  when the limit is reached, not, as documented, when it is exceeded.
\<close>

theorem extraction_within_limits:
  assumes "entriesLimit \<le> SIZE_MAX" "sizeLimit < 2 ^ 63" "shrinking lib left" "shrinking lib' left'"
  shows "(extractTo layer_ops target options sizeLimit entriesLimit (Some (Inr l)) = Some (Done (e, ws, ts)) \<longrightarrow>
      keeps_limits sizeLimit entriesLimit e ws) \<and>
    (extractTo (archive_ops lib H) target options sizeLimit entriesLimit (Some (Inr r)) = Some (Done (e, ws, ts)) \<longrightarrow>
      keeps_limits sizeLimit entriesLimit e ws) \<and>
    (extractTo (archive_layer_ops lib' H again rd) target options sizeLimit entriesLimit (Some (Inr packed)) = Some (Done (e, ws, ts)) \<longrightarrow>
      keeps_limits sizeLimit entriesLimit e ws)"
proof (intro conjI impI)
  assume "extractTo layer_ops target options sizeLimit entriesLimit (Some (Inr l)) = Some (Done (e, ws, ts))"
  then show "keeps_limits sizeLimit entriesLimit e ws"
    by (rule limits_lift) (use layers.extract_entries_limits [OF TrueI assms(1,2)] in \<open>simp add: keeps_limits_def\<close>)
next
  have good: "\<exists>left. shrinking lib left" using assms(3) by blast
  assume "extractTo (archive_ops lib H) target options sizeLimit entriesLimit (Some (Inr r)) = Some (Done (e, ws, ts))"
  then show "keeps_limits sizeLimit entriesLimit e ws"
    by (rule limits_lift) (use archives.extract_entries_limits [OF good assms(1,2)] in \<open>simp add: keeps_limits_def\<close>)
next
  have good: "\<exists>left. shrinking lib' left" using assms(4) by blast
  assume "extractTo (archive_layer_ops lib' H again rd) target options sizeLimit entriesLimit (Some (Inr packed)) = Some (Done (e, ws, ts))"
  then show "keeps_limits sizeLimit entriesLimit e ws"
    by (rule limits_lift) (use archive_layers.extract_entries_limits [OF good assms(1,2)] in \<open>simp add: keeps_limits_def\<close>)
qed

theorem extraction_within_limits_witness:
  "\<exists>l. extractTo layer_ops (\<lambda>ws p. all_ok) 0 2 2 (Some (Inr l)) = Some (Done (NoError, small_log, [])) \<and> keeps_limits 2 2 NoError small_log"
proof -
  have coop: "cooperative ((\<lambda>ws p. all_ok) ws p)" for ws :: "written list" and p by (rule small_extraction_facts(7))
  have "(2 :: nat) \<le> 2" "(2 :: nat) < SIZE_LIMIT" "(1 :: nat) < 2" "(2 :: nat) \<le> SIZE_MAX" by simp_all
  from small_package_written [where target = "\<lambda>ws p. all_ok" and options = 0, OF coop this] obtain l where
    l: "extractTo layer_ops (\<lambda>ws p. all_ok) 0 2 2 (Some (Inr l)) = Some (Done (NoError, small_log, []))" by blast
  have "(2 :: nat) \<le> SIZE_MAX" "(2 :: nat) < 2 ^ 63" by simp_all
  from extraction_within_limits [OF this headers_shrink empty_shrinks, where target = "\<lambda>ws p. all_ok" and options = 0 and l = l and e = NoError and ws = small_log and ts = "[]"] l
  show ?thesis by blast
qed

subsection \<open>A success that is none\<close>

text \<open>
  C32. A file with chunked data cannot be read, and \<open>ErofsInode::read\<close> returns -1 without an error for it.  The
  extraction stops there, leaves an empty file behind, and its result, which holds that error, counts as a
  success, whatever entries were still to come.
\<close>

theorem chunked_file_ends_extraction:
  assumes entry: "layer_next l = Done (Some ie, l')"
    and i: "i = y_inode (ie_entry ie)" "i_type i = FT_regular" "i_dataFormat i = ChunkBased" "i_inodeReader i = None" "0 < i_size i"
      "i_size i \<le> sizeLimit"
    and sys: "sys = target [] (y_path (ie_entry ie))"
      "checkExtraction (wc_check sys) (wc_stat sys) TypeRegular (inode_permissions i) options = (Inr ExtractEntry, prep)" "wc_create_ok sys"
  shows "extractTo layer_ops target options sizeLimit entriesLimit (Some (Inr l)) =
      Some (Done (NoError, [\<lparr>w_path = y_path (ie_entry ie), w_maxSize = i_size i, w_result = Inl NoError,
        w_effects = map Prepared prep @ [FileCreated, FileContent [], FileClosed]\<rparr>], [])) \<and>
    result_ok NoError"
proof -
  have size: "i_size i < SIZE_LIMIT" using layer_next_size [OF entry] i(1) by simp
  have "inode_read lib rd fs sb i (replicate 4096 0) 0 = Done (-1, replicate 4096 0, i)" for lib rd fs sb
    using i(3-5) by (simp add: inode_read_def make_reader_def Let_def)
  then have "entry_read (ie_env ie) (ie_sb ie) (ie_entry ie) (replicate 4096 0) 0 = Done (-1, replicate 4096 0, ie_entry ie)"
    using i(1) by (simp add: entry_read_def)
  then have "copy_file (ie_env ie) (ie_sb ie) (wc_pwrite sys) (i_size i) (i_size i) (ie_entry ie) 0 (replicate 4096 0) [] =
      Done (Inl NoError, [], ie_entry ie)"
    using i by (subst copy_file.simps) (simp add: read_error_def)
  then have w: "image_writeTo sys (i_size i) options ie =
      Done (Inl NoError, map Prepared prep @ [FileCreated, FileContent [], FileClosed], ie)"
    using i(1,2) sys(2,3) by (simp add: image_writeTo_def Let_def entry_size_def)
  have es: "entry_size (ie_entry ie) = i_size i" using i(1,2) by (simp add: entry_size_def)
  have "extract_round layer_ops target options sizeLimit entriesLimit (start_extraction l) =
      Return (Some (Done (NoError, (start_extraction l)\<lparr>x_reader := l', x_written :=
        [\<lparr>w_path = y_path (ie_entry ie), w_maxSize = i_size i, w_result = Inl NoError,
          w_effects = map Prepared prep @ [FileCreated, FileContent [], FileClosed]\<rparr>]\<rparr>)))"
    using entry w es size i(6) sys(1)
    by (simp add: extract_round_def layer_ops_def start_extraction_def Let_def wrap_simps)
  then have "loop (extract_round layer_ops target options sizeLimit entriesLimit) (start_extraction l) =
      Some (Some (Done (NoError, (start_extraction l)\<lparr>x_reader := l', x_written :=
        [\<lparr>w_path = y_path (ie_entry ie), w_maxSize = i_size i, w_result = Inl NoError,
          w_effects = map Prepared prep @ [FileCreated, FileContent [], FileClosed]\<rparr>]\<rparr>)))" by (rule loop_Return)
  then show ?thesis by (simp add: extractTo_def extract_entries_def start_extraction_def result_ok_def)
qed

text \<open>A layer whose first entry is such a file, with another file after it.\<close>

definition chunked_inode :: inode_compact where
  "chunked_inode = \<lparr>ic_format = 8, ic_xattrCount = 0, ic_mode = 0x81A4, ic_size = 2, ic_data = 0, ic_uid = 0, ic_gid = 0\<rparr>"

definition chunked_reader :: image_read where
  "chunked_reader = \<lparr>img_read = (\<lambda>n off. Some (write_inode_compact chunked_inode)), img_refused = (\<lambda>_ _. [])\<rparr>"

definition chunked_layer :: erofs_layer where
  "chunked_layer = \<lparr>el_env = \<lparr>env_lz4 = copy_lz4, env_read = chunked_reader, env_size = 4096\<rparr>,
     el_reader = Some \<lparr>m_image = Some small_sb, m_dirBlockBuffer = [], m_error = None, m_dirStack = [(empty_path, 36)],
       m_currentDir = [small_dirent, small_dirent\<lparr>e_fileName := ''b''\<rparr>], m_currentDirIndex = 0, m_adviceFlags = 0\<rparr>,
     el_error = None\<rparr>"

lemma chunked_load:
  "load_inode chunked_reader small_sb 39 h =
     (blank_inode small_sb 39 h)\<lparr>i_inodeHeaderSize := 32, i_dataFormat := ChunkBased, i_type := FT_regular, i_size := 2,
       i_mode := 0x81A4, i_modificationTime := (7, 0)\<rparr>"
  by (simp add: chunked_reader_def load_inode_def blank_inode_def read_write_inode_compact chunked_inode_def
      inode_compact_fits_def processCompactInode_def processDataFormat_def processMode_def processData_def Let_def)
    (simp add: small_sb_def)

lemma chunked_next:
  "\<exists>ie l'. layer_next chunked_layer = Done (Some ie, l') \<and> y_path (ie_entry ie) = path_append empty_path ''a'' \<and>
     y_inode (ie_entry ie) = load_inode chunked_reader small_sb 39 0"
  by (simp add: chunked_layer_def layer_next_def next_entry_def Let_def entry_isValid_def inode_valid_def chunked_load inode_hints_def)

theorem chunked_file_ends_extraction_witness:
  "\<exists>w. extractTo layer_ops (\<lambda>ws p. all_ok) 0 10 10 (Some (Inr chunked_layer)) = Some (Done (NoError, [w], [])) \<and>
     w_path w = path_append empty_path ''a'' \<and> w_effects w = [FileCreated, FileContent [], FileClosed]"
proof -
  obtain ie l' where n: "layer_next chunked_layer = Done (Some ie, l')" "y_path (ie_entry ie) = path_append empty_path ''a''"
    "y_inode (ie_entry ie) = load_inode chunked_reader small_sb 39 0"
    using chunked_next by blast
  have i: "i_type (y_inode (ie_entry ie)) = FT_regular" "i_dataFormat (y_inode (ie_entry ie)) = ChunkBased"
    "i_inodeReader (y_inode (ie_entry ie)) = None" "i_size (y_inode (ie_entry ie)) = 2"
    unfolding n(3) by (simp_all add: chunked_load blank_inode_def)
  show ?thesis
    using chunked_file_ends_extraction [where target = "\<lambda>ws p. all_ok" and options = 0 and sizeLimit = 10 and entriesLimit = 10
        and prep = "[]", OF n(1) refl i(1-3) _ _ refl] i(4) n(2)
    by (simp add: all_ok_def checkExtraction_def)
qed

end
