(* ===== verification/SignedExtract.thy ===== *)
theory SignedExtract
  imports ExtractSafety
begin

section \<open>From the signature of a package to the extracted files\<close>

text \<open>
  \<open>Package::extractTo\<close> of an OCI package as a whole: \<open>OCIPackage::createReader\<close> of \<open>lib/oci/OCIPackage.cpp\<close>
  chooses one of the two readers of layers, and the loop runs over it.  The theorem joins what opening the
  package, the readers and the loop guarantee.
\<close>

subsection \<open>Extracting an OCI package\<close>

text \<open>
  What the readers are given besides the store: the decompressor, whether direct I/O is used, the content behind
  a file descriptor, and libarchive.
\<close>

record ('a, 'r) layer_libs =
  ll_lz4 :: lz4
  ll_direct :: bool
  ll_files :: "nat \<Rightarrow> bytes"
  ll_open_stream :: "archive_format \<Rightarrow> 'r image_source \<Rightarrow> 'a option \<times> 'r image_source"
  ll_archive :: "('a \<times> 'r image_source) libarchive"
  ll_again :: "bytes \<Rightarrow> bytes"

datatype ('a, 'r) extracted =
  NotExtracted error_code
| ErofsExtraction mappable_file error_code "erofs_layer extraction"
| ArchiveExtraction error_code "('a, 'r) archive_layer extraction"

definition extract_erofs ::
  "('a, 'r) layer_libs \<Rightarrow> (bytes \<Rightarrow> bytes) \<Rightarrow> target \<Rightarrow> extract_options \<Rightarrow> nat \<Rightarrow> nat \<Rightarrow> mappable_file \<Rightarrow> nat \<Rightarrow> bytes \<Rightarrow>
   (io_exception, ('a, 'r) extracted) outcome option" where
  "extract_erofs E H target options sizeLimit entriesLimit f hashesOffset rootHash =
     (case new_erofs_layer (ll_lz4 E) H (ll_direct E) (ll_files E (mf_fd f)) (Some f) hashesOffset rootHash of
        None \<Rightarrow> None
      | Some (Undefined u) \<Rightarrow> Some (Undefined u)
      | Some (Fail e) \<Rightarrow> Some (Fail LengthError)
      | Some (Done l) \<Rightarrow>
          (case extract_entries layer_ops target options sizeLimit entriesLimit l of
             None \<Rightarrow> None
           | Some (Undefined u) \<Rightarrow> Some (Undefined u)
           | Some (Fail e) \<Rightarrow> Some (Fail e)
           | Some (Done (e, x)) \<Rightarrow> Some (Done (ErofsExtraction f e x))))"

definition extract_archive ::
  "('s, 'r) backing_store \<Rightarrow> ('a, 'r) layer_libs \<Rightarrow> (bytes \<Rightarrow> bytes) \<Rightarrow> target \<Rightarrow> extract_options \<Rightarrow> nat \<Rightarrow> nat \<Rightarrow>
   oci_descriptor \<Rightarrow> 'r \<Rightarrow> (io_exception, ('a, 'r) extracted) outcome option" where
  "extract_archive B E H target options sizeLimit entriesLimit d r =
     (case extract_entries (archive_layer_ops (ll_archive E) H (ll_again E) (rd_read B)) target options sizeLimit entriesLimit
             (new_archive_layer (ll_open_stream E) d r) of
        None \<Rightarrow> None
      | Some (Undefined u) \<Rightarrow> Some (Undefined u)
      | Some (Fail e) \<Rightarrow> Some (Fail e)
      | Some (Done (e, x)) \<Rightarrow> Some (Done (ArchiveExtraction e x)))"

definition extract_package ::
  "('s, 'r) backing_store \<Rightarrow> ('b, 'c, 'm) package_libs \<Rightarrow> ('a, 'r) layer_libs \<Rightarrow> target \<Rightarrow> extract_options \<Rightarrow>
   ('s, 'c, 'm) oci_package \<Rightarrow> (io_exception, ('a, 'r) extracted) outcome option \<times> ('s, 'c, 'm) oci_package" where
  "extract_package B L E target options p =
     (case createReader B p of
        (Undefined u, p) \<Rightarrow> (Some (Undefined u), p)
      | (Fail e, p) \<Rightarrow> (Some (Done (NotExtracted e)), p)
      | (Done (ErofsLayer f hashesOffset rootHash), p) \<Rightarrow>
          (extract_erofs E (lib_sha256 L) target options (pk_maxExtractionBytes p) (pk_maxExtractionEntries p) f hashesOffset rootHash, p)
      | (Done (ArchiveLayer d r), p) \<Rightarrow>
          (extract_archive B E (lib_sha256 L) target options (pk_maxExtractionBytes p) (pk_maxExtractionEntries p) d r, p))"

subsection \<open>What is guaranteed\<close>

text \<open>
  The package names a root hash or a digest, and what came out of the extraction is tied to it: each entry of an
  EROFS layer that was written to the image of that root hash, if there is one, and an archive that was
  extracted with success to a layer with that digest.
\<close>

definition image_of_root :: "('a, 'r) layer_libs \<Rightarrow> (bytes \<Rightarrow> bytes) \<Rightarrow> mappable_file \<Rightarrow> nat \<Rightarrow> bytes \<Rightarrow> bytes list \<Rightarrow> bool" where
  "image_of_root E H f hashesOffset rootHash bs \<longleftrightarrow>
     length (ll_files E (mf_fd f)) < 2 ^ 63 \<and> rootHash \<noteq> replicate 32 0 \<and>
     (\<exists>blocks. blocks_within 4096 blocks (ll_files E (mf_fd f)) \<and>
       (\<forall>pf. open_layer_image H (ll_direct E) (ll_files E (mf_fd f)) f hashesOffset rootHash = Some (Done pf) \<longrightarrow>
         signed_image H blocks (p_verifier pf) bs))"

fun extraction_signed ::
  "('a, 'r) layer_libs \<Rightarrow> (bytes \<Rightarrow> bytes) \<Rightarrow> extract_options \<Rightarrow> oci_descriptor \<Rightarrow> ('a, 'r) extracted \<Rightarrow> bool" where
  "extraction_signed E H options img (NotExtracted e) \<longleftrightarrow> True"
| "extraction_signed E H options img (ErofsExtraction f e x) \<longleftrightarrow>
     (\<exists>a. getDmVerityAnnotations (Some img) = Inr a \<and>
       (\<forall>bs. image_of_root E H f (da_hashesOffset a) (da_rootHash a) bs \<longrightarrow>
         (\<forall>w \<in> set (x_written x). \<not> isl (w_result w) \<longrightarrow>
           from_signed_image (ll_lz4 E) (take (da_hashesOffset a) (concat bs)) options w)))"
| "extraction_signed E H options img (ArchiveExtraction e x) \<longleftrightarrow>
     (result_ok e \<longrightarrow> (\<exists>r. x_reader x = OpenLayer r \<and> whole_layer H img (im_fed (layer_source r))))"

lemma extract_erofs_signed:
  assumes H: "\<And>b. length (H b) = 32"
    and run: "extract_erofs E H target options sizeLimit entriesLimit f off root = Some (Done res)"
    and img: "image_of_root E H f off root bs"
  obtains e x where "res = ErofsExtraction f e x"
    "\<forall>w \<in> set (x_written x). \<not> isl (w_result w) \<longrightarrow> from_signed_image (ll_lz4 E) (take off (concat bs)) options w"
proof -
  let ?c = "ll_files E (mf_fd f)"
  obtain l e x where l: "new_erofs_layer (ll_lz4 E) H (ll_direct E) ?c (Some f) off root = Some (Done l)"
    "extract_entries layer_ops target options sizeLimit entriesLimit l = Some (Done (e, x))" "res = ErofsExtraction f e x"
    using run by (auto simp: extract_erofs_def split: option.splits outcome.splits)
  then have to: "extractTo layer_ops target options sizeLimit entriesLimit (Some (Inr l)) = Some (Done (e, x_written x, x_timesSet x))"
    by (simp add: extractTo_def)
  obtain blocks where b: "length ?c < 2 ^ 63" "root \<noteq> replicate 32 0" "blocks_within 4096 blocks ?c"
    "\<And>pf. open_layer_image H (ll_direct E) ?c f off root = Some (Done pf) \<Longrightarrow> signed_image H blocks (p_verifier pf) bs"
    using img unfolding image_of_root_def by blast
  have "from_signed_image (ll_lz4 E) (take off (concat bs)) options w" if w: "w \<in> set (x_written x)" "\<not> isl (w_result w)" for w
  proof -
    obtain n where "w_result w = Inr n" using w(2) by (cases "w_result w") auto
    then show ?thesis using package_extracts_signed [where H = H, OF H l(1) b to w(1)] by blast
  qed
  then show ?thesis using that l(3) by blast
qed

lemma extract_archive_signed:
  assumes "by_callbacks (rd_read B) (ll_archive E)" "\<And>format s. called (rd_read B) s (snd (ll_open_stream E format s))"
    "reads_within (rd_read B) r" "extract_archive B E H target options sizeLimit entriesLimit d r = Some (Done res)"
  shows "\<exists>e x. res = ArchiveExtraction e x \<and> extraction_signed E H options d res"
proof -
  obtain e x where x: "extract_entries (archive_layer_ops (ll_archive E) H (ll_again E) (rd_read B)) target options sizeLimit entriesLimit
      (new_archive_layer (ll_open_stream E) d r) = Some (Done (e, x))" "res = ArchiveExtraction e x"
    using assms(4) by (auto simp: extract_archive_def split: option.splits outcome.splits)
  then show ?thesis using extract_archive_layer_whole [OF assms(3,1,2) x(1)] by auto
qed

text \<open>
  C1. A package that was opened with a bundle, after whatever calls, and is extracted: the bundle accepts a
  certificate whose signature names a manifest, the image is one of that manifest, and what was extracted is
  tied to it.  From an EROFS layer, what is reported as written for an entry is what writing an inode of the
  image of the root hash writes, where \<open>image_of_root\<close> says that there is such an image: the root hash is not
  zero, the hash has no collision among the blocks of the file, and the superblock of the hash tree in the
  opened file, which the root hash does not cover, has the number of data blocks and the salt that were signed.
  The file is the one that was opened and does not change during the extraction.  An archive layer is
  extracted with a result that counts as a success only if the bytes that were fed to the digest builder are as
  many as the descriptor says and have its digest; when the extraction fails, nothing is said about what it had
  written before.
\<close>

theorem signed_package_extracts_signed:
  assumes "\<And>b. length (lib_sha256 L b) = 32"
    and "openPackageImpl B L s mounter (Some bundle) checkExpiry = Done p" "package_run B L cs p = Some (rs, p1)"
    and "by_callbacks (rd_read B) (ll_archive E)" "\<And>format s. called (rd_read B) s (snd (ll_open_stream E format s))"
    and "\<And>d r p2. createReader B p1 = (Done (ArchiveLayer d r), p2) \<Longrightarrow> reads_within (rd_read B) r"
    and "extract_package B L E target options p1 = (Some (Done res), p2)"
  shows "signed_by L bundle checkExpiry p2 \<and> from_manifest L p2 \<and>
    (\<exists>img. pk_image p2 = Some img \<and> extraction_signed E (lib_sha256 L) options img res)"
proof -
  note p = openPackageImpl_ok [OF assms(2)]
  have still: "still L p p1" using package_run_still [OF assms(3) still_refl [OF p(5,4)]] by blast
  obtain rd p2' where rd: "createReader B p1 = (rd, p2')" by fastforce
  then have p2: "p2' = p2" using assms(7) by (auto simp: extract_package_def split: outcome.splits image_reader.splits)
  have still2: "still L p p2" using act_keepsD [OF createReader_still rd still] p2 by blast
  have "signed_by L bundle checkExpiry p2" "from_manifest L p2"
    using p(1,2) still2 by (simp_all add: signed_by_def from_manifest_def still_def)
  moreover obtain img where img: "pk_image p2 = Some img" using calculation(2) by (auto simp: from_manifest_def)
  moreover have "extraction_signed E (lib_sha256 L) options img res"
  proof (cases rd)
    case (Done reader)
    have auth: "reply_authentic L p2 (GotReader reader)"
      using createReader_authentic rd Done still still2 reply_authentic_still by blast
    show ?thesis
    proof (cases reader)
      case (ErofsLayer f off root)
      then obtain a where a: "getDmVerityAnnotations (Some img) = Inr a" "da_hashesOffset a = off" "da_rootHash a = root"
        using auth img by auto
      have run: "extract_erofs E (lib_sha256 L) target options (pk_maxExtractionBytes p2) (pk_maxExtractionEntries p2) f off root = Some (Done res)"
        using assms(7) rd Done ErofsLayer p2 by (simp add: extract_package_def)
      obtain e x where res: "res = ErofsExtraction f e x"
        using run by (auto simp: extract_erofs_def split: option.splits outcome.splits)
      have "from_signed_image (ll_lz4 E) (take off (concat bs)) options w"
        if "image_of_root E (lib_sha256 L) f off root bs" "w \<in> set (x_written x)" "\<not> isl (w_result w)" for bs w
        using extract_erofs_signed [where H = "lib_sha256 L", OF assms(1) run that(1)] res that(2,3) by blast
      then show ?thesis using a res by auto
    next
      case (ArchiveLayer d r)
      then have "d = img" using auth img by simp
      moreover have "extract_archive B E (lib_sha256 L) target options (pk_maxExtractionBytes p2) (pk_maxExtractionEntries p2) d r = Some (Done res)"
        using assms(7) rd Done ArchiveLayer p2 by (simp add: extract_package_def)
      ultimately show ?thesis using extract_archive_signed [OF assms(4,5)] assms(6) rd Done ArchiveLayer by blast
    qed
  qed (use assms(7) rd in \<open>auto simp: extract_package_def\<close>)
  ultimately show ?thesis by blast
qed

text \<open>The signed package of one byte, opened and extracted.\<close>

definition stream_libs :: "(nat, bytes) layer_libs" where
  "stream_libs = \<lparr>ll_lz4 = copy_lz4, ll_direct = False, ll_files = (\<lambda>fd. []), ll_open_stream = (\<lambda>f s. (Some 0, s)),
     ll_archive = file_stream (rd_read sample_store), ll_again = id\<rparr>"

lemma sample_reader:
  "createReader sample_store sample_signed =
     (Done (ArchiveLayer (parsed_sample (PACKAGE_IMAGE_MEDIA_TYPE_PREFIX @ ''zip'') (CHR ''4'')) [68]), sample_signed)"
proof -
  have "getBlobReader sample_store (sample_digest (CHR ''4'')) sample_signed = (Done [68], sample_signed)"
    using sample_xdigits sample_blob_bytes [of "CHR ''4''"]
    by (simp add: getBlobReader_def sample_digest_valid with_store_def sample_store_def sample_signed_def hexDigitToByte_def)
  then show ?thesis
    by (simp add: createReader_def sample_signed_def package_names is_image_layer_def starts_with_def act_bind_def act_return_def sample_store_def)
qed

theorem signed_package_extracts_signed_witness:
  "\<exists>x r. extract_package sample_store (sample_libs False) stream_libs (\<lambda>ws p. all_ok) 0 sample_signed =
      (Some (Done (ArchiveExtraction NoError x)), sample_signed) \<and>
    signed_by (sample_libs False) () True sample_signed \<and>
    x_written x = one_file_log [68] \<and>
    x_reader x = OpenLayer r \<and> lib_sha256 (sample_libs False) (im_fed (layer_source r)) = replicate 32 0x44"
proof -
  let ?d = "parsed_sample (PACKAGE_IMAGE_MEDIA_TYPE_PREFIX @ ''zip'') (CHR ''4'')" and ?H = "lib_sha256 (sample_libs False)"
  have rd: "rd_read sample_store [68] 1 = (Some [68], [])" by (simp add: sample_store_def)
  have d: "od_size ?d = 1" "image_formats (od_mediaType ?d) = Some Zip"
    by (simp_all add: image_formats_def)
  have "push_bit 4 (hexDigitToByte (CHR ''4'')) OR hexDigitToByte (CHR ''4'') = (0x44 :: byte)" by code_simp
  then have bytes: "hexStringToBytes (od_digest ?d) = replicate 32 0x44"
    using sample_digest_bytes [OF sample_xdigits(4)] by simp
  then have digest: "?H [68] = hexStringToBytes (od_digest ?d)" by (simp add: sample_libs_def)
  have limits: "1 \<le> pk_maxExtractionBytes sample_signed" "1 < pk_maxExtractionEntries sample_signed"
    by (simp_all add: sample_signed_def sample_built_def new_package_def)
  obtain x where x: "extract_package sample_store (sample_libs False) stream_libs (\<lambda>ws p. all_ok) 0 sample_signed =
      (Some (Done (ArchiveExtraction NoError x)), sample_signed)" "x_written x = one_file_log [68]"
    using one_file_layer_extracts [where H = ?H and rd = "rd_read sample_store" and again = id
        and sizeLimit = "pk_maxExtractionBytes sample_signed" and entriesLimit = "pk_maxExtractionEntries sample_signed",
        OF rd d digest limits]
    by (auto simp: extract_package_def sample_reader extract_archive_def stream_libs_def)
  have len: "length (?H b) = 32" for b by (simp add: sample_libs_def)
  have within: "reads_within (rd_read sample_store) r" for r
    by (rule reads_withinI [where ok = "\<lambda>r. True"]) (auto simp: sample_store_def)
  have libs: "by_callbacks (rd_read sample_store) (ll_archive stream_libs)"
    "\<And>format s. called (rd_read sample_store) s (snd (ll_open_stream stream_libs format s))"
    by (simp_all add: stream_libs_def file_stream_calls called_refl)
  have opened: "openPackageImpl sample_store (sample_libs False) sample_files False (Some ()) True = Done sample_signed"
    using sample_opened_signed by (simp add: sample_opened_def)
  have none: "package_run sample_store (sample_libs False) [] sample_signed = Some ([], sample_signed)" by simp
  obtain img where "signed_by (sample_libs False) () True sample_signed" "pk_image sample_signed = Some img"
    "extraction_signed stream_libs ?H 0 img (ArchiveExtraction NoError x)"
    using signed_package_extracts_signed [OF len opened none libs within x(1)] by blast
  moreover have "pk_image sample_signed = Some ?d" by (simp add: sample_signed_def)
  ultimately show ?thesis using x bytes by (auto simp: result_ok_def whole_layer_def)
qed

end
