(* ===== verification/Spec2Isabelle.thy ===== *)
theory Spec2Isabelle
  imports VersionRange PackageChecks Digests ProtectedFile ErofsWalk ErofsFaults ArchiveReader OCIBackingStore SignedExtract
begin

text \<open>
  A verification library for \<open>ralf-utils\<close>, the library that opens, verifies, reads, extracts and mounts signed
  application packages.  Paths below are relative to \<open>src\<close>.

  \<^bold>\<open>The program.\<close>  A package is a directory or an archive in the OCI layout: an index names manifests, a manifest
  names a configuration, an image layer and auxiliary layers by their SHA-256 digests, and a signature manifest
  carries a payload that names the digest of the package manifest.  \<open>OCIPackage\<close> reads all of them through a
  backing store (a directory or an archive) and checks the signature with a bundle of certificates.  An image layer
  is an archive, whose digest is checked while libarchive reads it, or an EROFS image followed by a dm-verity hash
  tree, whose root hash is in the annotations of the layer; every block that is read from such an image is checked
  against the tree.  \<open>Package::extractTo\<close> walks the entries of the layer and writes them below a target directory.

  \<^bold>\<open>Theories.\<close>
  \<^item> \<open>Prelude\<close>: bytes and buffers, arithmetic of \<open>size_t\<close> and \<open>uint32_t\<close> with its wrap-around, the results of calls
    (\<open>outcome\<close>: done, an error, or undefined behaviour; \<open>action\<close>: a call on a state), the loops as partial functions,
    and the collections of facts the theories share.
  \<^item> \<open>Version\<close>, \<open>VersionRange\<close>: \<open>lib/core/VersionNumber.cpp\<close> and \<open>lib/core/VersionConstraint.cpp\<close>; \<open>PackageChecks\<close>:
    \<open>lib/core/Utils.cpp\<close>, the checks on identifiers, paths and on what may be replaced in the target; \<open>Digests\<close>:
    \<open>lib/oci/OCIUtils.cpp\<close>.
  \<^item> \<open>HashTree\<close>, \<open>DmVerity\<close>, \<open>HonestTree\<close>, \<open>ProtectedFile\<close>, \<open>ProtectedImage\<close>: \<open>lib/dm-verity\<close>, the layers of the hash
    tree with their caches, the superblock and the verifier, the file whose reads are verified.  A read is given
    the contents of the files for each of its data blocks, so that they may change between reads and during one.
    \<open>HonestTree\<close> is the layout that \<open>veritysetup\<close> writes, and \<open>ProtectedImage\<close> the view of a protected file whose files
    stay as they are, with the bytes that a refused read leaves in the caller's buffer (\<open>left_over\<close>).
  \<^item> \<open>ErofsSuperBlock\<close>, \<open>ErofsExtentMap\<close>, \<open>ErofsImageFile\<close>, \<open>ErofsData\<close>, \<open>ErofsInode\<close>, \<open>ErofsReader\<close>: \<open>lib/erofs\<close>, from the
    superblock to the walk over the directory tree.  What they promise is in \<open>ErofsCompressed\<close>, \<open>ErofsInodeReads\<close> and
    \<open>ErofsWalk\<close>, what happens to damaged images and to directory blocks that were refused in \<open>ErofsFaults\<close>, and
    what refused reads cannot change in \<open>ErofsTampered\<close>.  An image file is a record of what a read delivers and of
    what a read that fails has put into the buffer.
  \<^item> \<open>ArchiveEntries\<close>, \<open>ArchiveReader\<close>: \<open>lib/archive\<close>, the entries of an archive and the reader that orders and checks
    them, over the functions of libarchive.
  \<^item> \<open>OCIDescriptor\<close>, \<open>OCIStore\<close>, \<open>OCIPackage\<close>, \<open>OCITrust\<close>, \<open>OCIBackingStore\<close>: \<open>lib/oci\<close>, the descriptors, the interface of
    backing stores, the package and what opening it guarantees, and the two stores; \<open>OCIMetaData\<close>: the conversion of
    the JSON configuration into the metadata (\<open>lib/oci/OCIPackageMetaDataImpl.cpp\<close>), field by field, with the
    conversions of the C library it uses.
  \<^item> \<open>OCIErofsLayer\<close>, \<open>OCIArchiveLayer\<close>: the readers of the two kinds of layers and their entries
    (\<open>lib/oci/OCIErofsImageLayerReader.cpp\<close>, \<open>OCIErofsImageEntry.cpp\<close>, \<open>OCIArchiveImageLayerReader.cpp\<close>).
  \<^item> \<open>PackageExtract\<close>, \<open>ExtractReaders\<close>, \<open>IntactExtract\<close>, \<open>ExtractSafety\<close>, \<open>SignedExtract\<close>: \<open>Package::extractTo\<close> of
    \<open>lib/core/Package.cpp\<close> over any reader, its instances, and the properties that join all components;
    \<open>SampleLayer\<close> holds a file small enough to evaluate.

  \<^bold>\<open>Interfaces.\<close>  What one component relies on in another is a locale, interpreted on the model's definitions where
  the provider is: the layers of a hash tree, image files, data readers, files and stores of a package, readers that
  a package can be extracted from, and relations that the functions for the fields of metadata keep.  The properties
  are stated over the definitions themselves.

  \<^bold>\<open>State and time.\<close>  A record holds the members of a class, a call returns the record after it.  What the operating
  system answers is an argument: a function of the bytes already written, or an answer for each call.  Caches
  are part of the state, and that they do not change results is proved, not assumed.  An EROFS layer is extracted
  from a file that does not change meanwhile.

  \<^bold>\<open>What is shown.\<close>
  \<^item> Signatures: a package that was opened with a bundle and extracted gives files only from the image or layer that
    a signed manifest vouches for (\<open>signed_package_extracts_signed\<close>), with the parts of that chain: the package
    (\<open>opened_package_trusted\<close>, \<open>verified_package_blobs\<close>), the archive layer (\<open>archive_layer_digest\<close>), the protected file
    (\<open>protected_read_returns_signed_data\<close>) and the EROFS layer (\<open>tampered_package_extracts_signed\<close>).  Hashes are arbitrary
    functions; where the argument needs it, freedom of collisions among the blocks that occur is a hypothesis.  The
    superblock of a hash tree is not covered by the root hash, so that its number of blocks and its salt are
    hypotheses too (\<open>signed_image\<close>); an auxiliary file is only tied to a descriptor of some manifest of the index.
  \<^item> Metadata: what is accepted is well-formed and holds what the document states (\<open>config_metadata_wf\<close>,
    \<open>vendor_settings_kept\<close>, \<open>memory_size_value\<close>), and the permissions of an opened package are those of a signed
    configuration (\<open>signed_package_permissions\<close>).
  \<^item> Completeness: what the packager made is read back and extracted (\<open>intact_image_reads_back\<close>,
    \<open>inode_reads_back\<close>, \<open>compressed_file_reads\<close>, \<open>reader_walks_tree\<close>, \<open>intact_package_extracts\<close>, \<open>signed_file_extracts\<close>);
    directories get the mode 0755 instead of their own.
  \<^item> Confinement: names, paths, links and replaced files stay inside the target whatever the package holds
    (\<open>path_check_exact\<close>, \<open>walk_paths_safe\<close>, \<open>archive_entries_in_order\<close>, \<open>checkExtraction_safe\<close>).
  \<^item> Returns and limits: the loops that depend on the input return (\<open>protected_read_total\<close>, \<open>archive_next_returns\<close>,
    \<open>archive_verify_returns\<close>, \<open>extraction_returns\<close>) and keep their bounds (\<open>extraction_within_limits\<close>,
    \<open>archive_mount_fills_image\<close>).
  \<^item> Faults of the code, each as a theorem about the model of it, among them a success that hides an unreadable file
    (\<open>chunked_file_ends_extraction\<close>), signed files that are only counted, auxiliary layers of unsigned manifests, and the
    entries of a directory block that dm-verity has refused (\<open>refused_directory_block\<close>).

  \<^bold>\<open>Loops, bounds and fuel.\<close>  Loops over data are structural or have a measure; the walk over directories, the loops
  that call libarchive and the extraction loop are \<open>partial_function (option)\<close>, where \<open>None\<close> is a call that does not
  return, and that they return is proved under the hypothesis that the archive or the tree is finite (\<open>shrinking\<close>,
  \<open>headers_end\<close>, \<open>blocks_end\<close>).  The number of a protected file's blocks bounds its reads.  Word sizes are kept:
  \<open>size_t\<close> and \<open>uint64_t\<close> sums are those modulo \<open>2 ^ 64\<close>.

  \<^bold>\<open>Parameters.\<close>  libarchive, LZ4, OpenSSL (hashes, certificates, signatures), the JSON parser and the system calls are
  not in the sources or only call the outside; each is an argument with its documented behaviour as hypotheses where a
  proof needs it.  \<open>OCIPackage\<close> takes the parser of the configuration
  as an argument too; \<open>signed_package_permissions\<close> is about the packages whose parser is the modelled one.

  \<^bold>\<open>Not modelled.\<close>  The mounting by the kernel (\<open>lib/dm-verity/DevMapper.cpp\<close>, \<open>DmVerityMounterLinux.cpp\<close>, \<open>DmVerityMount.cpp\<close>: ioctls, loop
  devices and semaphores), the glue to OpenSSL and libxml2 (\<open>lib/crypto\<close>), the older W3C widgets
  (\<open>lib/w3c-widget\<close>), the handles that only forward to the implementations (\<open>lib/core\<close>), logging, and the
  command line tool \<open>tools/unwgt\<close>.
\<close>

end
